(* ===== verification/Collect_Prelude.thy ===== *)
theory Collect_Prelude
  imports Main "HOL-Library.Word"
begin

unbundle bit_operations_syntax

section \<open>Shared vocabulary\<close>

text \<open>
  What every component of the development uses: the machine types of the C++ sources, the
  exceptions the stream classes throw, the network byte order helpers (\<open>htons\<close>, \<open>htonl\<close> and
  their inverses), the decimal printer and \<open>strtol\<close> of the C library, and generic facts on
  lists. The collections declared here gather the equations each layer unfolds.
\<close>

named_theorems codec_simps \<open>encoders and decoders of bytes, words and numbers\<close>
named_theorems layer_defs \<open>definitions of the stream layers\<close>
named_theorems filter_simps \<open>bit masks of event filters\<close>
named_theorems notif_defs \<open>definitions of the notification rules\<close>

type_synonym byte = "8 word"
type_synonym bytes = "byte list"
type_synonym u16 = "16 word"
type_synonym u32 = "32 word"
type_synonym u64 = "64 word"

text \<open>
  The exceptions of \<^verbatim>\<open>broker/core\<close>: \<open>exceptions::shutdown\<close>, \<open>exceptions::timeout\<close>,
  \<open>exceptions::interrupt\<close>, \<open>exceptions::corruption\<close> and the generic \<open>msg_fmt\<close>. A call that
  may throw returns a sum, with the exception on the left, next to the state it leaves.
  \<open>Undefined\<close> stands for undefined behaviour of C++, such as a read past the end of a vector.
\<close>

datatype exn = Shutdown | Timeout | Interrupt | Corruption | Msg_fmt | Undefined

type_synonym ('s, 'a) outcome = "(exn + 'a) \<times> 's"

subsection \<open>Lists\<close>

lemma take_append_exact [simp]: "length xs = n \<Longrightarrow> take n (xs @ ys) = xs"
  by auto

lemma drop_append_exact [simp]: "length xs = n \<Longrightarrow> drop n (xs @ ys) = ys"
  by auto

lemma concat_map_cong_set:
  assumes "\<And>x. x \<in> set xs \<Longrightarrow> f x = g x"
  shows "concat (map f xs) = concat (map g xs)"
  using assms by (induction xs) auto

subsection \<open>Network byte order\<close>

definition be16 :: "u16 \<Rightarrow> bytes" where
  "be16 w = [ucast (drop_bit 8 w), ucast w]"

fun of_be16 :: "bytes \<Rightarrow> u16" where
  "of_be16 (a # b # _) = push_bit 8 (ucast a) OR ucast b"
| "of_be16 _ = 0"

definition be32 :: "u32 \<Rightarrow> bytes" where
  "be32 w = [ucast (drop_bit 24 w), ucast (drop_bit 16 w), ucast (drop_bit 8 w), ucast w]"

fun of_be32 :: "bytes \<Rightarrow> u32" where
  "of_be32 (a # b # c # d # _) =
     push_bit 24 (ucast a) OR push_bit 16 (ucast b) OR push_bit 8 (ucast c) OR ucast d"
| "of_be32 _ = 0"

lemma length_be16 [simp]: "length (be16 w) = 2"
  by (simp add: be16_def)

lemma length_be32 [simp]: "length (be32 w) = 4"
  by (simp add: be32_def)

lemma of_be16_be16 [simp, codec_simps]: "of_be16 (be16 w @ r) = w"
proof -
  have "push_bit 8 (ucast (ucast (drop_bit 8 w) :: byte)) OR ucast (ucast w :: byte) = w"
    (is "?l = w")
  proof (rule bit_word_eqI)
    fix n
    assume "n < LENGTH(16)"
    then show "bit ?l n = bit w n"
      by (cases "n < 8"; auto simp: bit_simps)
  qed
  then show ?thesis by (simp add: be16_def)
qed

lemma of_be32_be32 [simp, codec_simps]: "of_be32 (be32 w @ r) = w"
proof -
  have "push_bit 24 (ucast (ucast (drop_bit 24 w) :: byte))
      OR push_bit 16 (ucast (ucast (drop_bit 16 w) :: byte))
      OR push_bit 8 (ucast (ucast (drop_bit 8 w) :: byte)) OR ucast (ucast w :: byte) = w"
    (is "?l = w")
  proof (rule bit_word_eqI)
    fix n
    assume "n < LENGTH(32)"
    then show "bit ?l n = bit w n"
      by (cases "n < 8"; cases "n < 16"; cases "n < 24"; auto simp: bit_simps)
  qed
  then show ?thesis by (simp add: be32_def)
qed

lemma of_be16_be16_whole [simp, codec_simps]: "of_be16 (be16 w) = w"
  using of_be16_be16 [of w "[]"] by simp

lemma of_be32_be32_whole [simp, codec_simps]: "of_be32 (be32 w) = w"
  using of_be32_be32 [of w "[]"] by simp

lemma of_be32_append: "4 \<le> length a \<Longrightarrow> of_be32 (a @ b) = of_be32 a"
proof -
  assume "4 \<le> length a"
  then obtain w x y z r where "a = w # x # y # z # r"
    by (auto simp: Suc_le_length_iff numeral_eq_Suc)
  then show ?thesis by simp
qed

lemma be32_of_be32: "4 \<le> length bs \<Longrightarrow> be32 (of_be32 bs) = take 4 bs"
proof -
  assume "4 \<le> length bs"
  then obtain a b c d r where bs: "bs = a # b # c # d # r"
    by (auto simp: Suc_le_length_iff numeral_eq_Suc)
  have "ucast (drop_bit 24 (of_be32 bs)) = a" "ucast (drop_bit 16 (of_be32 bs)) = b"
      "ucast (drop_bit 8 (of_be32 bs)) = c" "ucast (of_be32 bs) = d"
    by (rule bit_word_eqI; auto simp: bs bit_simps dest: bit_imp_le_length)+
  then show ?thesis using bs by (simp add: be32_def del: of_be32.simps)
qed

subsection \<open>Decimal numbers of the C library\<close>

text \<open>
  \<open>dec n\<close> is what \<open>fmt::format("{}", n)\<close>, \<open>std::to_string\<close> and \<open>operator<<\<close> print for a
  number; \<open>strtol s\<close> is \<open>strtol(s, &next, 10)\<close>: the value, clamped to the range of a 64-bit
  \<open>long\<close>, and the text from \<open>next\<close> on, which is the whole of \<open>s\<close> when no digit was read.
\<close>

definition digit :: "nat \<Rightarrow> char" where
  "digit n = char_of (48 + n)"

definition is_digit :: "char \<Rightarrow> bool" where
  "is_digit c \<longleftrightarrow> 48 \<le> (of_char c :: nat) \<and> (of_char c :: nat) \<le> 57"

definition digit_val :: "char \<Rightarrow> nat" where
  "digit_val c = of_char c - 48"

fun dec :: "nat \<Rightarrow> string" where
  "dec n = (if n < 10 then [digit n] else dec (n div 10) @ [digit (n mod 10)])"

declare dec.simps [simp del]

fun read_digits :: "nat \<Rightarrow> string \<Rightarrow> nat \<times> string" where
  "read_digits acc [] = (acc, [])"
| "read_digits acc (c # s) =
     (if is_digit c then read_digits (10 * acc + digit_val c) s else (acc, c # s))"

definition is_space :: "char \<Rightarrow> bool" where
  "is_space c \<longleftrightarrow> c = CHR '' '' \<or> (9 \<le> (of_char c :: nat) \<and> (of_char c :: nat) \<le> 13)"

definition clamp_long :: "int \<Rightarrow> int" where
  "clamp_long n = max (- (2 ^ 63)) (min (2 ^ 63 - 1) n)"

definition strtol :: "string \<Rightarrow> int \<times> string" where
  "strtol s =
     (let body = dropWhile is_space s;
          (neg, ds) = (case body of
              c # r \<Rightarrow> if c = CHR ''-'' then (True, r) else if c = CHR ''+'' then (False, r)
                        else (False, body)
            | [] \<Rightarrow> (False, body))
      in case ds of
           c # _ \<Rightarrow> if is_digit c
                     then (let (n, r) = read_digits 0 ds
                           in (clamp_long (if neg then - int n else int n), r))
                     else (0, s)
         | [] \<Rightarrow> (0, s))"

lemma digit_props [simp]:
  assumes "n < 10"
  shows "is_digit (digit n)" and "digit_val (digit n) = n"
  using assms by (auto simp: is_digit_def digit_def digit_val_def)

lemma is_digit_not_sign [simp]:
  "is_digit c \<Longrightarrow> c \<noteq> CHR ''-'' \<and> c \<noteq> CHR ''+'' \<and> \<not> is_space c"
  by (auto simp: is_digit_def is_space_def)

lemma dec_nonempty [simp]: "dec n \<noteq> []"
  by (subst dec.simps) simp

lemma dec_digits: "c \<in> set (dec n) \<Longrightarrow> is_digit c"
proof (induction n rule: dec.induct)
  case (1 n)
  then show ?case
    by (cases "n < 10") (auto simp: dec.simps [of n])
qed

lemma hd_dec_digit: "is_digit (hd (dec n))"
  by (rule dec_digits [of _ n]) simp

lemma read_digits_append_digit:
  "(\<And>c. c \<in> set ds \<Longrightarrow> is_digit c) \<Longrightarrow>
     read_digits acc (ds @ r) = read_digits (fst (read_digits acc ds)) r"
  by (induction ds arbitrary: acc) auto

lemma read_digits_dec: "fst (read_digits 0 (dec n)) = n"
proof (induction n rule: dec.induct)
  case (1 n)
  show ?case
  proof (cases "n < 10")
    case True
    then show ?thesis by (simp add: dec.simps [of n])
  next
    case False
    with 1 have "fst (read_digits 0 (dec (n div 10))) = n div 10" by simp
    with False show ?thesis
      by (simp add: dec.simps [of n] read_digits_append_digit dec_digits)
  qed
qed

lemma read_digits_stop: "r = [] \<or> \<not> is_digit (hd r) \<Longrightarrow> read_digits acc r = (acc, r)"
  by (cases r) auto

lemma strtol_dec [codec_simps]:
  assumes "int n < 2 ^ 63" and "r = [] \<or> \<not> is_digit (hd r)"
  shows "strtol (dec n @ r) = (int n, r)"
proof -
  obtain c ds where d: "dec n = c # ds" by (cases "dec n") auto
  have c: "is_digit c" using hd_dec_digit [of n] d by simp
  have "read_digits 0 (dec n @ r) = (n, r)"
    by (simp add: read_digits_append_digit dec_digits read_digits_dec
        read_digits_stop [OF assms(2)])
  then have "read_digits 0 (c # ds @ r) = (n, r)" using d by simp
  with c assms(1) show ?thesis
    by (auto simp: strtol_def d clamp_long_def Let_def split: if_splits)
qed

lemma dec_inject [simp]: "dec m = dec n \<longleftrightarrow> m = n"
  using read_digits_dec [of m] read_digits_dec [of n] by metis

end
