(* ===== verification/Muxer_Filter.thy ===== *)
theory Muxer_Filter
  imports Collect_Prelude
begin

unbundle bit_operations_syntax

section \<open>Event types and event filters\<close>

text \<open>
  Models \<^verbatim>\<open>bbdo/events.hh\<close> (the categories and the 32-bit event types) and the class
  \<open>muxer_filter\<close> of \<^verbatim>\<open>broker/core/multiplexing\<close>: one 64-bit mask per category, the masks kept
  in an array whose slot 0 is the category \<open>internal\<close>. A type whose category trips the
  assertion of the class, or whose element number does not fit the 64-bit shift, has no
  defined answer: the operations return \<open>None\<close> there.

  The lemmas show that a filter is the set of the event types it allows, and that every
  operator of the class is the set operation its comment names. The locale \<open>event_filter\<close> is
  what the muxers and the endpoints rely on.
\<close>

subsection \<open>Event types\<close>

datatype data_category =
    cat_none | cat_neb | cat_bbdo | cat_storage | cat_dumper | cat_bam | cat_extcmd
  | cat_generator | cat_local | cat_internal

fun category_value :: "data_category \<Rightarrow> u16" where
  "category_value cat_none = 0"
| "category_value cat_neb = 1"
| "category_value cat_bbdo = 2"
| "category_value cat_storage = 3"
| "category_value cat_dumper = 5"
| "category_value cat_bam = 6"
| "category_value cat_extcmd = 7"
| "category_value cat_generator = 8"
| "category_value cat_local = 9"
| "category_value cat_internal = 65535"

definition max_filter_category :: nat where
  "max_filter_category = 10"

definition io_internal :: u16 where
  "io_internal = category_value cat_internal"

definition make_type :: "u16 \<Rightarrow> u32 \<Rightarrow> u32" where
  "make_type cat elem = push_bit 16 (ucast cat) OR elem"

definition category_of_type :: "u32 \<Rightarrow> u16" where
  "category_of_type type = ucast (drop_bit 16 type)"

definition element_of_type :: "u32 \<Rightarrow> u16" where
  "element_of_type type = ucast type"

definition category_id :: "string \<Rightarrow> data_category" where
  "category_id name =
     (if name = ''neb'' then cat_neb
      else if name = ''bbdo'' then cat_bbdo
      else if name = ''storage'' then cat_storage
      else if name = ''internal'' then cat_internal
      else if name = ''bam'' then cat_bam
      else if name = ''extcmd'' then cat_extcmd
      else if name = ''dumper'' then cat_dumper
      else if name = ''generator'' then cat_generator
      else if name = ''local'' then cat_local
      else cat_none)"

fun category_name :: "data_category \<Rightarrow> string" where
  "category_name cat_neb = ''neb''"
| "category_name cat_bbdo = ''bbdo''"
| "category_name cat_storage = ''storage''"
| "category_name cat_dumper = ''dumper''"
| "category_name cat_bam = ''bam''"
| "category_name cat_extcmd = ''extcmd''"
| "category_name cat_generator = ''generator''"
| "category_name cat_internal = ''internal''"
| "category_name cat_local = ''local''"
| "category_name cat_none = ''unknown category''"

subsection \<open>The filter\<close>

record muxer_filter =
  fmask :: "u64 list"

definition all_events :: u64 where
  "all_events = 0xFFFFFFFFFFFFFFFF"

text \<open>The three constructors that fill every slot with one value, and the one from a list.\<close>

definition filter_default :: muxer_filter where
  "filter_default = \<lparr>fmask = replicate max_filter_category all_events\<rparr>"

definition filter_zero_init :: muxer_filter where
  "filter_zero_init = \<lparr>fmask = replicate max_filter_category 0\<rparr>"

text \<open>The slot of a category, \<open>None\<close> where \<open>assert(cat > 0 && cat < max_filter_category)\<close> fails.\<close>

definition filter_slot :: "u16 \<Rightarrow> nat option" where
  "filter_slot cat =
     (if cat = io_internal then Some 0
      else if 0 < unat cat \<and> unat cat < max_filter_category then Some (unat cat)
      else None)"

definition shift_bit :: "u16 \<Rightarrow> u64 option" where
  "shift_bit elem = (if unat elem < 64 then Some (push_bit (unat elem) 1) else None)"

definition filter_insert :: "muxer_filter \<Rightarrow> u32 \<Rightarrow> muxer_filter option" where
  "filter_insert f element =
     (case (filter_slot (category_of_type element), shift_bit (element_of_type element)) of
        (Some i, Some b) \<Rightarrow> Some (f\<lparr>fmask := (fmask f)[i := fmask f ! i OR b]\<rparr>)
      | _ \<Rightarrow> None)"

fun filter_insert_all :: "muxer_filter \<Rightarrow> u32 list \<Rightarrow> muxer_filter option" where
  "filter_insert_all f [] = Some f"
| "filter_insert_all f (t # ts) =
     (case filter_insert f t of None \<Rightarrow> None | Some f' \<Rightarrow> filter_insert_all f' ts)"

definition filter_of_types :: "u32 list \<Rightarrow> muxer_filter option" where
  "filter_of_types ts = filter_insert_all filter_zero_init ts"

definition allows :: "muxer_filter \<Rightarrow> u32 \<Rightarrow> bool option" where
  "allows f mess_type =
     (case (filter_slot (category_of_type mess_type), shift_bit (element_of_type mess_type)) of
        (Some i, Some b) \<Rightarrow> Some (fmask f ! i AND b \<noteq> 0)
      | _ \<Rightarrow> None)"

text \<open>The operators that update every slot: \<open>|=\<close>, \<open>&=\<close>, \<open>-=\<close> and \<open>reverse\<close>.\<close>

definition filter_or :: "muxer_filter \<Rightarrow> muxer_filter \<Rightarrow> muxer_filter" where
  "filter_or f g = f\<lparr>fmask := map2 (\<lambda>a b. a OR b) (fmask f) (fmask g)\<rparr>"

definition filter_and :: "muxer_filter \<Rightarrow> muxer_filter \<Rightarrow> muxer_filter" where
  "filter_and f g = f\<lparr>fmask := map2 (\<lambda>a b. a AND b) (fmask f) (fmask g)\<rparr>"

definition filter_minus :: "muxer_filter \<Rightarrow> muxer_filter \<Rightarrow> muxer_filter" where
  "filter_minus f g = f\<lparr>fmask := map2 (\<lambda>a b. a AND NOT b) (fmask f) (fmask g)\<rparr>"

definition filter_reverse :: "muxer_filter \<Rightarrow> muxer_filter" where
  "filter_reverse f = f\<lparr>fmask := map (\<lambda>a. NOT a) (fmask f)\<rparr>"

definition set_category :: "u64 \<Rightarrow> muxer_filter \<Rightarrow> u16 \<Rightarrow> muxer_filter" where
  "set_category v f category =
     (if unat category < max_filter_category
      then f\<lparr>fmask := (fmask f)[unat category := v]\<rparr>
      else if category = io_internal then f\<lparr>fmask := (fmask f)[0 := v]\<rparr>
      else f)"

definition remove_category :: "muxer_filter \<Rightarrow> u16 \<Rightarrow> muxer_filter" where
  "remove_category f category = set_category 0 f category"

definition add_category :: "muxer_filter \<Rightarrow> u16 \<Rightarrow> muxer_filter" where
  "add_category f category = set_category all_events f category"

definition filter_equal :: "muxer_filter \<Rightarrow> muxer_filter \<Rightarrow> bool" where
  "filter_equal f g = list_all2 (\<lambda>a b. a = b) (fmask f) (fmask g)"

definition is_in :: "muxer_filter \<Rightarrow> muxer_filter \<Rightarrow> bool" where
  "is_in f g = list_all2 (\<lambda>a b. a AND b = a) (fmask f) (fmask g)"

definition contains_some_of :: "muxer_filter \<Rightarrow> muxer_filter \<Rightarrow> bool" where
  "contains_some_of f g = (\<exists>(a, b) \<in> set (zip (fmask f) (fmask g)). a AND b \<noteq> 0)"

definition allows_all :: "muxer_filter \<Rightarrow> bool" where
  "allows_all f = list_all (\<lambda>a. a = all_events) (fmask f)"

text \<open>
  \<open>get_allowed_categories\<close>: the names of the categories with a bit set, each preceded by its
  separator. A slot number that is no category of the enumeration prints as unknown.
\<close>

fun slot_category :: "nat \<Rightarrow> data_category" where
  "slot_category n =
     (if n = 0 then cat_internal
      else if n = 1 then cat_neb else if n = 2 then cat_bbdo else if n = 3 then cat_storage
      else if n = 5 then cat_dumper else if n = 6 then cat_bam else if n = 7 then cat_extcmd
      else if n = 8 then cat_generator else if n = 9 then cat_local else cat_none)"

fun allowed_categories_from :: "char \<Rightarrow> nat \<Rightarrow> u64 list \<Rightarrow> string" where
  "allowed_categories_from sep i [] = []"
| "allowed_categories_from sep i (m # ms) =
     (if m \<noteq> 0
      then sep # category_name (slot_category i) @ allowed_categories_from (CHR '','') (Suc i) ms
      else allowed_categories_from sep (Suc i) ms)"

definition get_allowed_categories :: "muxer_filter \<Rightarrow> string" where
  "get_allowed_categories f = allowed_categories_from (CHR '' '') 0 (fmask f)"

subsection \<open>A filter is a set of event types\<close>

definition filter_wf :: "muxer_filter \<Rightarrow> bool" where
  "filter_wf f \<longleftrightarrow> length (fmask f) = max_filter_category"

definition valid_type :: "u32 \<Rightarrow> bool" where
  "valid_type t \<longleftrightarrow> filter_slot (category_of_type t) \<noteq> None \<and> unat (element_of_type t) < 64"

definition allowed :: "muxer_filter \<Rightarrow> u32 set" where
  "allowed f = {t. allows f t = Some True}"

text \<open>The event type that occupies bit \<open>e\<close> of slot \<open>i\<close>.\<close>

definition type_at :: "nat \<Rightarrow> nat \<Rightarrow> u32" where
  "type_at i e = make_type (if i = 0 then io_internal else of_nat i) (of_nat e)"

lemma category_make_type [filter_simps]:
  assumes "unat e < 2 ^ 16"
  shows "category_of_type (make_type c e) = c"
proof (rule bit_word_eqI)
  fix n
  assume n: "n < LENGTH(16)"
  have "e = take_bit 16 e"
    using assms by (intro word_unat_eq_iff [THEN iffD2])
      (simp add: unsigned_take_bit_eq take_bit_nat_eq_self)
  then have "\<not> bit e (16 + n)"
    by (metis bit_take_bit_iff not_add_less1)
  with n show "bit (category_of_type (make_type c e)) n = bit c n"
    by (simp add: category_of_type_def make_type_def bit_simps)
qed

lemma element_make_type [filter_simps]: "element_of_type (make_type c e) = ucast e"
  by (rule bit_word_eqI) (simp add: element_of_type_def make_type_def bit_simps)

lemma type_at_parts [filter_simps]:
  assumes "i < 10" and "e < 64"
  shows "filter_slot (category_of_type (type_at i e)) = Some i"
    and "unat (element_of_type (type_at i e)) = e"
proof -
  have e: "unat (of_nat e :: u32) = e" using assms(2) by (simp add: unat_of_nat)
  have i: "unat (of_nat i :: u16) = i" using assms(1) by (simp add: unat_of_nat)
  then have "of_nat i \<noteq> io_internal"
    using assms(1) by (auto simp: io_internal_def)
  with assms e i show "filter_slot (category_of_type (type_at i e)) = Some i"
    by (auto simp: type_at_def category_make_type filter_slot_def max_filter_category_def)
  show "unat (element_of_type (type_at i e)) = e"
    using assms(2) by (simp add: type_at_def element_make_type unat_of_nat unsigned_ucast_eq
        take_bit_nat_eq_self)
qed

lemma filter_slot_less: "filter_slot c = Some i \<Longrightarrow> i < 10"
  by (auto simp: filter_slot_def max_filter_category_def split: if_splits)

lemma allows_bit:
  "filter_slot (category_of_type t) = Some i \<Longrightarrow> unat (element_of_type t) < 64 \<Longrightarrow>
   allows f t = Some (bit (fmask f ! i) (unat (element_of_type t)))"
  by (simp add: allows_def shift_bit_def bit_iff_and_push_bit_not_eq_0)

lemma mem_allowed:
  "t \<in> allowed f \<longleftrightarrow> (\<exists>i. filter_slot (category_of_type t) = Some i \<and>
     unat (element_of_type t) < 64 \<and> bit (fmask f ! i) (unat (element_of_type t)))"
  by (auto simp: allowed_def allows_def shift_bit_def bit_iff_and_push_bit_not_eq_0
      split: option.splits if_splits)

lemma mem_allowed_type_at:
  "i < 10 \<Longrightarrow> e < 64 \<Longrightarrow> type_at i e \<in> allowed f \<longleftrightarrow> bit (fmask f ! i) e"
  by (simp add: mem_allowed type_at_parts)

lemma allowed_valid: "t \<in> allowed f \<Longrightarrow> valid_type t"
  by (auto simp: mem_allowed valid_type_def)


lemma fmask_eqI:
  assumes "filter_wf f" "filter_wf g"
    and "\<And>i e. i < 10 \<Longrightarrow> e < 64 \<Longrightarrow> bit (fmask f ! i) e = bit (fmask g ! i) e"
  shows "fmask f = fmask g"
proof (rule nth_equalityI)
  show "length (fmask f) = length (fmask g)" using assms(1,2) by (simp add: filter_wf_def)
  fix i
  assume "i < length (fmask f)"
  then have "i < 10" using assms(1) by (simp add: filter_wf_def max_filter_category_def)
  then show "fmask f ! i = fmask g ! i"
    using assms(3) by (intro bit_word_eqI) simp
qed

lemma allowed_eq_iff:
  assumes "filter_wf f" "filter_wf g"
  shows "allowed f = allowed g \<longleftrightarrow> f = g"
  using fmask_eqI [OF assms] mem_allowed_type_at by (metis muxer_filter.equality unit.exhaust)

lemma allowed_subset_iff:
  "allowed f \<subseteq> allowed g \<longleftrightarrow> (\<forall>i < 10. \<forall>e < 64. bit (fmask f ! i) e \<longrightarrow> bit (fmask g ! i) e)"
proof
  assume s: "allowed f \<subseteq> allowed g"
  show "\<forall>i < 10. \<forall>e < 64. bit (fmask f ! i) e \<longrightarrow> bit (fmask g ! i) e"
  proof (intro allI impI)
    fix i e :: nat
    assume "i < 10" "e < 64" "bit (fmask f ! i) e"
    then show "bit (fmask g ! i) e" using s mem_allowed_type_at by blast
  qed
next
  assume "\<forall>i < 10. \<forall>e < 64. bit (fmask f ! i) e \<longrightarrow> bit (fmask g ! i) e"
  then show "allowed f \<subseteq> allowed g" using filter_slot_less by (auto simp: mem_allowed)
qed

lemma filter_zero_init_wf [simp]: "filter_wf filter_zero_init"
  by (simp add: filter_wf_def filter_zero_init_def)

lemma filter_wf_ops [simp]:
  "filter_wf f \<Longrightarrow> filter_wf g \<Longrightarrow> filter_wf (filter_or f g)"
  "filter_wf f \<Longrightarrow> filter_wf g \<Longrightarrow> filter_wf (filter_and f g)"
  "filter_wf f \<Longrightarrow> filter_wf g \<Longrightarrow> filter_wf (filter_minus f g)"
  "filter_wf f \<Longrightarrow> filter_wf (filter_reverse f)"
  "filter_wf f \<Longrightarrow> filter_wf (remove_category f c)"
  "filter_wf f \<Longrightarrow> filter_wf (add_category f c)"
  by (auto simp: filter_wf_def filter_or_def filter_and_def filter_minus_def filter_reverse_def
      remove_category_def add_category_def set_category_def)

lemma filter_insert_wf: "filter_wf f \<Longrightarrow> filter_insert f t = Some f' \<Longrightarrow> filter_wf f'"
  by (auto simp: filter_wf_def filter_insert_def split: option.splits)

lemma filter_insert_defined: "(\<exists>f'. filter_insert f t = Some f') \<longleftrightarrow> valid_type t"
  by (auto simp: filter_insert_def valid_type_def shift_bit_def split: option.splits)

lemma type_eq_iff:
  "t = u \<longleftrightarrow> category_of_type t = category_of_type u \<and> element_of_type t = element_of_type u"
proof -
  have "t = make_type (category_of_type t) (ucast (element_of_type t))" for t
  proof (rule bit_word_eqI)
    fix n
    assume "n < LENGTH(32)"
    then show "bit t n = bit (make_type (category_of_type t) (ucast (element_of_type t))) n"
      by (cases "n < 16"; auto simp: make_type_def category_of_type_def element_of_type_def bit_simps)
  qed
  then show ?thesis by metis
qed

lemma filter_slot_inj:
  "filter_slot c = Some i \<Longrightarrow> filter_slot d = Some i \<Longrightarrow> c = d"
  by (auto simp: filter_slot_def word_unat_eq_iff split: if_splits)

lemma allowed_insert:
  assumes "filter_wf f" "filter_insert f t = Some f'"
  shows "allowed f' = insert t (allowed f)"
proof -
  from assms(2) obtain i where i: "filter_slot (category_of_type t) = Some i"
    and e: "unat (element_of_type t) < 64"
    and f': "f' = f\<lparr>fmask := (fmask f)[i := fmask f ! i OR push_bit (unat (element_of_type t)) 1]\<rparr>"
    by (auto simp: filter_insert_def shift_bit_def split: option.splits if_splits)
  have len: "i < length (fmask f)"
    using filter_slot_less [OF i] assms(1) by (simp add: filter_wf_def max_filter_category_def)
  have "u \<in> allowed f' \<longleftrightarrow> u = t \<or> u \<in> allowed f" for u
  proof (cases "filter_slot (category_of_type u) = Some i")
    case True
    then have "u = t \<longleftrightarrow> element_of_type u = element_of_type t"
      using filter_slot_inj [OF True i] by (simp add: type_eq_iff)
    moreover have "element_of_type u = element_of_type t
        \<longleftrightarrow> unat (element_of_type u) = unat (element_of_type t)"
      by (simp add: word_unat_eq_iff)
    ultimately show ?thesis
      using True i e f' len by (auto simp: mem_allowed bit_simps)
  next
    case False
    then have "u \<noteq> t" using i by auto
    with False f' show ?thesis by (auto simp: mem_allowed nth_list_update)
  qed
  then show ?thesis by blast
qed

lemma allowed_ops:
  assumes "filter_wf f" "filter_wf g"
  shows "allowed (filter_or f g) = allowed f \<union> allowed g"
    and "allowed (filter_and f g) = allowed f \<inter> allowed g"
    and "allowed (filter_minus f g) = allowed f - allowed g"
    and "allowed (filter_reverse f) = {t. valid_type t} - allowed f"
  using assms filter_slot_less
  by (fastforce simp: mem_allowed filter_wf_def max_filter_category_def filter_or_def filter_and_def
      filter_minus_def filter_reverse_def valid_type_def bit_simps)+

lemma is_in_iff:
  assumes "filter_wf f" "filter_wf g"
  shows "is_in f g \<longleftrightarrow> allowed f \<subseteq> allowed g"
proof -
  have "a AND b = a \<longleftrightarrow> (\<forall>e < 64. bit a e \<longrightarrow> bit b e)" for a b :: u64
    by (auto simp: bit_eq_iff bit_simps)
  with assms show ?thesis
    by (auto simp: is_in_def list_all2_conv_all_nth allowed_subset_iff filter_wf_def
        max_filter_category_def)
qed

lemma allowed_empty_iff: "allowed f = {} \<longleftrightarrow> (\<forall>i < 10. fmask f ! i = 0)"
proof
  assume a: "allowed f = {}"
  show "\<forall>i < 10. fmask f ! i = 0"
  proof (intro allI impI bit_word_eqI)
    fix i e
    assume "i < (10::nat)" "e < LENGTH(64)"
    with a mem_allowed_type_at [of i e f] show "bit (fmask f ! i) e = bit 0 e" by simp
  qed
next
  assume "\<forall>i < 10. fmask f ! i = 0"
  then show "allowed f = {}" by (fastforce simp: mem_allowed dest: filter_slot_less)
qed

lemma contains_some_of_iff:
  assumes "filter_wf f" "filter_wf g"
  shows "contains_some_of f g \<longleftrightarrow> allowed f \<inter> allowed g \<noteq> {}"
proof -
  have "contains_some_of f g \<longleftrightarrow> (\<exists>i < 10. fmask f ! i AND fmask g ! i \<noteq> 0)"
    using assms by (fastforce simp: contains_some_of_def set_zip filter_wf_def max_filter_category_def)
  also have "\<dots> \<longleftrightarrow> allowed (filter_and f g) \<noteq> {}"
    using assms by (auto simp: allowed_empty_iff filter_and_def filter_wf_def max_filter_category_def)
  finally show ?thesis by (simp add: allowed_ops assms)
qed

lemma allowed_zero_init [simp]: "allowed filter_zero_init = {}"
  by (simp add: allowed_empty_iff filter_zero_init_def max_filter_category_def)

lemma all_events_eq: "all_events = (- 1 :: u64)"
  by (simp add: all_events_def)

lemma bit_all_events: "e < 64 \<Longrightarrow> bit all_events e"
  unfolding all_events_eq by simp

lemma allows_all_iff:
  assumes "filter_wf f"
  shows "allows_all f \<longleftrightarrow> allowed f = {t. valid_type t}"
proof -
  have r: "filter_wf filter_default" by (simp add: filter_wf_def filter_default_def)
  have "allowed filter_default = {t. valid_type t}"
    using filter_slot_less
    by (fastforce simp: mem_allowed valid_type_def filter_default_def max_filter_category_def
        bit_all_events)
  moreover have "allows_all f \<longleftrightarrow> f = filter_default"
    using assms by (cases f) (auto simp: allows_all_def filter_default_def filter_wf_def list_all_iff
        intro: replicate_eqI)
  ultimately show ?thesis using allowed_eq_iff [OF assms r] by metis
qed

lemma allowed_category:
  assumes "filter_wf f" "filter_slot c = Some i"
  shows "allowed (remove_category f c) = {t \<in> allowed f. category_of_type t \<noteq> c}"
    and "allowed (add_category f c) = allowed f \<union> {t. valid_type t \<and> category_of_type t = c}"
proof -
  have i: "i < length (fmask f)"
    using filter_slot_less [OF assms(2)] assms(1) by (simp add: filter_wf_def max_filter_category_def)
  have s: "set_category v f c = f\<lparr>fmask := (fmask f)[i := v]\<rparr>" for v
    using assms(2) by (auto simp: set_category_def filter_slot_def io_internal_def
        max_filter_category_def split: if_splits)
  show "allowed (remove_category f c) = {t \<in> allowed f. category_of_type t \<noteq> c}"
    using i assms(2) filter_slot_inj
    by (auto simp: remove_category_def s mem_allowed nth_list_update split: if_splits)
  show "allowed (add_category f c) = allowed f \<union> {t. valid_type t \<and> category_of_type t = c}"
    using i assms(2) filter_slot_inj
    by (auto simp: add_category_def s mem_allowed nth_list_update valid_type_def bit_all_events
        split: if_splits) (metis (no_types, lifting))
qed

lemma allowed_insert_all:
  "filter_wf f \<Longrightarrow> filter_insert_all f ts = Some f' \<Longrightarrow>
   filter_wf f' \<and> allowed f' = allowed f \<union> set ts"
proof (induction ts arbitrary: f)
  case Nil
  then show ?case by simp
next
  case (Cons t ts)
  from Cons.prems(2) obtain g where "filter_insert f t = Some g" "filter_insert_all g ts = Some f'"
    by (auto split: option.splits)
  with Cons show ?case using filter_insert_wf allowed_insert by fastforce
qed

lemma filter_insert_all_defined:
  "(\<forall>t \<in> set ts. valid_type t) \<Longrightarrow> \<exists>f'. filter_insert_all f ts = Some f'"
proof (induction ts arbitrary: f)
  case (Cons t ts)
  then obtain g where "filter_insert f t = Some g" using filter_insert_defined [of f t] by auto
  with Cons show ?case by simp
qed simp

subsection \<open>The interface the endpoints use\<close>

text \<open>
  A client of the filters sees a type of filters with a meaning: the set of the events it lets
  through. The two lemmas are the idioms of the endpoint applier, which tests before it
  widens a filter and tests before it narrows one.
\<close>

locale event_filter =
  fixes wf :: "'f \<Rightarrow> bool"
    and sem :: "'f \<Rightarrow> 't set"
    and included :: "'f \<Rightarrow> 'f \<Rightarrow> bool"
    and overlaps :: "'f \<Rightarrow> 'f \<Rightarrow> bool"
    and join :: "'f \<Rightarrow> 'f \<Rightarrow> 'f"
    and remove :: "'f \<Rightarrow> 'f \<Rightarrow> 'f"
  assumes included_sem: "wf f \<Longrightarrow> wf g \<Longrightarrow> included f g \<longleftrightarrow> sem f \<subseteq> sem g"
    and overlaps_sem: "wf f \<Longrightarrow> wf g \<Longrightarrow> overlaps f g \<longleftrightarrow> sem f \<inter> sem g \<noteq> {}"
    and join_wf: "wf f \<Longrightarrow> wf g \<Longrightarrow> wf (join f g)"
    and join_sem: "wf f \<Longrightarrow> wf g \<Longrightarrow> sem (join f g) = sem f \<union> sem g"
    and remove_wf: "wf f \<Longrightarrow> wf g \<Longrightarrow> wf (remove f g)"
    and remove_sem: "wf f \<Longrightarrow> wf g \<Longrightarrow> sem (remove f g) = sem f - sem g"
begin

lemma widen_sem:
  assumes "wf f" "wf m"
  shows "sem (if \<not> included m f then join f m else f) = sem f \<union> sem m"
    and "wf (if \<not> included m f then join f m else f)"
  using assms by (auto simp: included_sem join_sem join_wf)

lemma narrow_sem:
  assumes "wf f" "wf g"
  shows "sem (if overlaps f g then remove f g else f) = sem f - sem g"
    and "wf (if overlaps f g then remove f g else f)"
  using assms by (auto simp: overlaps_sem remove_sem remove_wf)

lemma join_remove_fold:
  assumes "wf f" "\<forall>e \<in> set es. wf (m e) \<and> wf (x e)"
  shows "wf (foldl (\<lambda>g e. remove (join g (m e)) (x e)) f es)"
    and "sem (foldl (\<lambda>g e. remove (join g (m e)) (x e)) f es) =
           foldl (\<lambda>s e. (s \<union> sem (m e)) - sem (x e)) (sem f) es"
  using assms
proof (induction es arbitrary: f)
  case (Cons e es)
  {
    case 1
    then show ?case using Cons.IH(1) by (simp add: join_wf remove_wf)
  next
    case 2
    then show ?case using Cons.IH(2) by (simp add: join_wf remove_wf join_sem remove_sem)
  }
qed simp_all

end

interpretation mf: event_filter filter_wf allowed is_in contains_some_of filter_or filter_minus
  by unfold_locales (simp_all add: is_in_iff contains_some_of_iff filter_wf_ops allowed_ops)

subsection \<open>Properties\<close>

text \<open>
  On filters that hold their ten masks, the operators of the class are the operations on
  the set of allowed event types: \<open>|=\<close> is union, \<open>&=\<close> intersection, \<open>-=\<close> difference,
  \<open>reverse\<close> the complement among the types that have a bit, \<open>is_in\<close> inclusion,
  \<open>contains_some_of\<close> a common event, \<open>==\<close> equality and \<open>allows_all\<close> that nothing is refused.
\<close>
theorem filter_set_algebra:
  assumes "filter_wf f" "filter_wf g"
  shows "allowed (filter_or f g) = allowed f \<union> allowed g \<and>
         allowed (filter_and f g) = allowed f \<inter> allowed g \<and>
         allowed (filter_minus f g) = allowed f - allowed g \<and>
         allowed (filter_reverse f) = {t. valid_type t} - allowed f \<and>
         (is_in f g \<longleftrightarrow> allowed f \<subseteq> allowed g) \<and>
         (contains_some_of f g \<longleftrightarrow> allowed f \<inter> allowed g \<noteq> {}) \<and>
         (filter_equal f g \<longleftrightarrow> allowed f = allowed g) \<and>
         (allows_all f \<longleftrightarrow> allowed f = {t. valid_type t})"
proof -
  have "filter_equal f g \<longleftrightarrow> f = g"
    by (cases f; cases g) (simp add: filter_equal_def list.rel_eq)
  with assms show ?thesis
    by (simp add: allowed_ops is_in_iff contains_some_of_iff allows_all_iff allowed_eq_iff)
qed

text \<open>
  A filter built from a list of event types lets exactly those types through, provided
  each of them has a category with a slot and an element number below 64.
\<close>
theorem filter_of_types_exact:
  assumes "\<forall>t \<in> set ts. valid_type t"
  shows "\<exists>f. filter_of_types ts = Some f \<and> filter_wf f \<and>
             (\<forall>t. valid_type t \<longrightarrow> allows f t = Some (t \<in> set ts))"
proof -
  obtain f where f: "filter_of_types ts = Some f"
    using filter_insert_all_defined [OF assms] by (auto simp: filter_of_types_def)
  then have w: "filter_wf f" "allowed f = set ts"
    using allowed_insert_all [OF filter_zero_init_wf]
    by (auto simp: filter_of_types_def)
  have "allows f t = Some (t \<in> set ts)" if "valid_type t" for t
    using that w(2) by (force simp: valid_type_def allowed_def allows_bit)
  with f w show ?thesis by blast
qed

text \<open>
  Removing a category keeps the other categories as they were and refuses every event of
  that one; adding it back lets every event of it through.
\<close>
theorem category_operations:
  assumes "filter_wf f" "filter_slot c \<noteq> None"
  shows "allowed (remove_category f c) = {t \<in> allowed f. category_of_type t \<noteq> c} \<and>
         allowed (add_category f c) =
           allowed f \<union> {t. valid_type t \<and> category_of_type t = c}"
  using allowed_category [OF assms(1)] assms(2) by blast

text \<open>The three properties at concrete filters and types.\<close>

theorem filter_set_algebra_witness:
  "filter_wf filter_default \<and> filter_wf filter_zero_init \<and>
   allowed (filter_minus filter_default filter_zero_init) =
     allowed filter_default - allowed filter_zero_init"
  using filter_set_algebra [of filter_default filter_zero_init]
  by (simp add: filter_wf_def filter_default_def filter_zero_init_def)

theorem filter_of_types_exact_witness:
  "valid_type 0x10005 \<and> valid_type 0xFFFF0003 \<and>
   (\<exists>f. filter_of_types [0x10005, 0xFFFF0003] = Some f \<and> allows f 0x10005 = Some True \<and>
        allows f 0x10006 = Some False)"
proof -
  have v: "valid_type 0x10005" "valid_type 0xFFFF0003" "valid_type 0x10006" by code_simp+
  obtain f where f: "filter_of_types [0x10005, 0xFFFF0003] = Some f"
      "\<forall>t. valid_type t \<longrightarrow> allows f t = Some (t \<in> set [0x10005, 0xFFFF0003])"
    using filter_of_types_exact [of "[0x10005, 0xFFFF0003]"] v by auto
  with v show ?thesis by simp
qed

theorem category_operations_witness:
  "filter_wf filter_default \<and> filter_slot 6 \<noteq> None \<and>
   0x60001 \<notin> allowed (remove_category filter_default 6) \<and>
   0x60001 \<in> allowed (add_category filter_zero_init 6)"
proof -
  have w: "filter_wf filter_default" "filter_wf filter_zero_init" "filter_slot 6 \<noteq> None"
    "category_of_type 0x60001 = 6" "valid_type 0x60001" by code_simp+
  show ?thesis
    using category_operations [OF w(1,3)] category_operations [OF w(2,3)] w by simp
qed

end
