(* ===== verification/Endpoint_Filters.thy ===== *)
theory Endpoint_Filters
  imports Muxer_Filter
begin

section \<open>The filters of the configured endpoints\<close>

text \<open>
  Models the registry of event types (\<open>io::events\<close>), the filters an \<open>io::endpoint\<close> carries,
  the way the endpoint applier computes the read and write filters of an endpoint from its
  configuration, and the write filter a failover gives its muxer when it gets a secondary
  endpoint. The registry is an association list in the iteration order of the unordered map.

  The lemmas are instances of the locale \<open>event_filter\<close>: which events an endpoint finally gets
  is computed on sets of event types.
\<close>

subsection \<open>The registry of event types\<close>

record event_info =
  ei_name :: string

type_synonym events_container = "(u32 \<times> event_info) list"

definition register_event :: "events_container \<Rightarrow> u32 \<Rightarrow> event_info \<Rightarrow> events_container" where
  "register_event els type_id info =
     (if map_of els type_id = None then els @ [(type_id, info)] else els)"

definition unregister_event :: "events_container \<Rightarrow> u32 \<Rightarrow> events_container" where
  "unregister_event els type_id = filter (\<lambda>(t, _). t \<noteq> type_id) els"

definition unregister_category :: "events_container \<Rightarrow> u16 \<Rightarrow> events_container" where
  "unregister_category els cat = filter (\<lambda>(t, _). category_of_type t \<noteq> cat) els"

definition get_event_info :: "events_container \<Rightarrow> u32 \<Rightarrow> event_info option" where
  "get_event_info els type = map_of els type"

definition get_events_by_category_name :: "events_container \<Rightarrow> string \<Rightarrow> exn + events_container" where
  "get_events_by_category_name els name =
     (if name = ''all'' then Inr els
      else let cat = category_value (category_id name);
               retval = filter (\<lambda>(t, _). category_of_type t = cat) els
           in if retval = [] then Inl Msg_fmt else Inr retval)"

definition get_matching_events :: "events_container \<Rightarrow> string \<Rightarrow> exn + events_container" where
  "get_matching_events els name =
     (let num = length (filter (\<lambda>c. c = CHR '':'') name) in
      if num = 0 then get_events_by_category_name els name
      else if num = 1 then
        (let category_nm = takeWhile (\<lambda>c. c \<noteq> CHR '':'') name;
             event_name = tl (dropWhile (\<lambda>c. c \<noteq> CHR '':'') name)
         in case get_events_by_category_name els category_nm of
              Inl e \<Rightarrow> Inl e
            | Inr evs \<Rightarrow>
                (case find (\<lambda>(_, info). ei_name info = event_name) evs of
                   Some ev \<Rightarrow> Inr [ev]
                 | None \<Rightarrow> Inl Msg_fmt))
      else Inl Msg_fmt)"

subsection \<open>Filters of an endpoint\<close>

record io_endpoint =
  ep_acceptor :: bool
  ep_mandatory :: muxer_filter
  ep_forbidden :: muxer_filter

text \<open>\<open>endpoint::from\<close>: the layer below adds its filters to the ones of the layer above.\<close>

definition endpoint_from :: "io_endpoint \<Rightarrow> io_endpoint \<Rightarrow> io_endpoint" where
  "endpoint_from ep endp =
     ep\<lparr>ep_mandatory := filter_or (ep_mandatory ep) (ep_mandatory endp),
        ep_forbidden := filter_or (ep_forbidden ep) (ep_forbidden endp)\<rparr>"

subsection \<open>From the configuration to the filters\<close>

text \<open>
  The lambda \<open>fill_elements\<close> of \<open>parse_filters\<close>: \<open>Some (Inl e)\<close> is the exception that the
  registry throws, \<open>None\<close> a type on which \<open>muxer_filter::insert\<close> is not defined.
\<close>

definition fill_elements :: "events_container \<Rightarrow> muxer_filter \<Rightarrow> string \<Rightarrow>
    (exn + (bool \<times> muxer_filter)) option" where
  "fill_elements els elements str =
     (case get_matching_events els str of
        Inl e \<Rightarrow> Some (Inl e)
      | Inr tmp_elements \<Rightarrow>
          (case filter_insert_all elements (map fst tmp_elements) of
             None \<Rightarrow> None
           | Some elements' \<Rightarrow> Some (Inr (tmp_elements \<noteq> [], elements'))))"

fun parse_each :: "events_container \<Rightarrow> muxer_filter \<Rightarrow> string list \<Rightarrow> string list \<Rightarrow>
    (muxer_filter \<times> string list) option" where
  "parse_each els elements applied [] = Some (elements, applied)"
| "parse_each els elements applied (str # strs) =
     (case fill_elements els elements str of
        None \<Rightarrow> None
      | Some (Inl e) \<Rightarrow> parse_each els elements applied strs
      | Some (Inr (ok, elements')) \<Rightarrow>
          parse_each els elements' (if ok then str # applied else applied) strs)"

definition parse_filters :: "events_container \<Rightarrow> string list \<Rightarrow> muxer_filter \<Rightarrow>
    muxer_filter option" where
  "parse_filters els str_filters forbidden_filter =
     (if str_filters = [''all''] then Some (filter_minus filter_default forbidden_filter)
      else
        case parse_each els filter_zero_init [] str_filters of
          None \<Rightarrow> None
        | Some (elements, applied_filters) \<Rightarrow>
            (if applied_filters = [] \<and> str_filters \<noteq> [] then
               (case fill_elements els elements ''all'' of
                  None \<Rightarrow> None
                | Some (Inl e) \<Rightarrow> None
                | Some (Inr (_, elements')) \<Rightarrow> Some (filter_minus elements' forbidden_filter))
             else Some elements))"

text \<open>The filters the applier gives an endpoint: (read, write).\<close>

definition applier_filters :: "io_endpoint \<Rightarrow> bool \<Rightarrow> muxer_filter \<Rightarrow> muxer_filter \<Rightarrow>
    muxer_filter \<times> muxer_filter" where
  "applier_filters e is_acceptor r_filter w_filter =
     (if is_acceptor then
        (filter_minus r_filter (ep_forbidden e), filter_minus w_filter (ep_forbidden e))
      else
        let w1 = (if \<not> is_in (ep_mandatory e) w_filter
                  then filter_or w_filter (ep_mandatory e) else w_filter);
            w2 = (if contains_some_of w1 (ep_forbidden e)
                  then filter_minus w1 (ep_forbidden e) else w1);
            r1 = (if contains_some_of r_filter (ep_forbidden e)
                  then filter_minus r_filter (ep_forbidden e) else r_filter)
        in (r1, w2))"

text \<open>
  \<open>failover::add_secondary_endpoint\<close>: the list of secondary endpoints and the write filter it
  sets on its muxer.
\<close>

record failover_filters =
  fo_secondary_endpoints :: "io_endpoint list"
  fo_write_filter :: muxer_filter

definition add_secondary_endpoint :: "failover_filters \<Rightarrow> io_endpoint \<Rightarrow> failover_filters" where
  "add_secondary_endpoint fo endp =
     (let secs = fo_secondary_endpoints fo @ [endp];
          w_filter = foldl (\<lambda>w s. filter_minus (filter_or w (ep_mandatory s)) (ep_forbidden s))
                           (ep_mandatory endp) secs
      in fo\<lparr>fo_secondary_endpoints := secs, fo_write_filter := w_filter\<rparr>)"

subsection \<open>What the filters let through\<close>

definition endpoint_wf :: "io_endpoint \<Rightarrow> bool" where
  "endpoint_wf e \<longleftrightarrow> filter_wf (ep_mandatory e) \<and> filter_wf (ep_forbidden e)"

definition registry_wf :: "events_container \<Rightarrow> bool" where
  "registry_wf els \<longleftrightarrow> distinct (map fst els) \<and> list_all (\<lambda>(t, _). valid_type t) els"

text \<open>The types a filter string stands for, none when the registry throws.\<close>

definition matching_types :: "events_container \<Rightarrow> string \<Rightarrow> u32 set" where
  "matching_types els str =
     (case get_matching_events els str of Inl _ \<Rightarrow> {} | Inr evs \<Rightarrow> fst ` set evs)"

text \<open>The set of types a configured list of filter strings selects.\<close>

definition configured_types :: "events_container \<Rightarrow> string list \<Rightarrow> muxer_filter \<Rightarrow> u32 set" where
  "configured_types els strs forbidden =
     (if strs = [''all''] then {t. valid_type t} - allowed forbidden
      else if strs \<noteq> [] \<and> (\<forall>s \<in> set strs. matching_types els s = {})
           then fst ` set els - allowed forbidden
      else (\<Union>s \<in> set strs. matching_types els s))"

lemma get_events_subset:
  "get_events_by_category_name els name = Inr evs \<Longrightarrow> set evs \<subseteq> set els"
  by (auto simp: get_events_by_category_name_def Let_def split: if_splits)

lemma get_matching_subset: "get_matching_events els name = Inr evs \<Longrightarrow> set evs \<subseteq> set els"
  by (auto simp: get_matching_events_def Let_def find_Some_iff
      split: if_splits sum.splits option.splits dest!: get_events_subset)
    (metis nth_mem subset_iff)

lemma registry_wf_ops:
  "registry_wf els \<Longrightarrow> valid_type t \<Longrightarrow> registry_wf (register_event els t i)"
  "registry_wf els \<Longrightarrow> registry_wf (unregister_event els t)"
  "registry_wf els \<Longrightarrow> registry_wf (unregister_category els c)"
  by (auto simp: registry_wf_def register_event_def unregister_event_def unregister_category_def
      map_of_eq_None_iff list_all_iff distinct_map image_iff intro: inj_on_subset)

lemma filter_default_wf [simp]: "filter_wf filter_default"
  by (simp add: filter_wf_def filter_default_def)

lemma allowed_default: "allowed filter_default = {t. valid_type t}"
proof -
  have "allows_all filter_default" by (simp add: allows_all_def filter_default_def list_all_iff)
  then show ?thesis using allows_all_iff [of filter_default] by simp
qed

lemma fill_elements_spec:
  assumes "registry_wf els" "filter_wf f"
  shows "\<exists>r. fill_elements els f s = Some r \<and>
    (case r of Inl _ \<Rightarrow> matching_types els s = {}
     | Inr (ok, f') \<Rightarrow> filter_wf f' \<and> allowed f' = allowed f \<union> matching_types els s \<and>
         (ok \<longleftrightarrow> matching_types els s \<noteq> {}))"
proof (cases "get_matching_events els s")
  case (Inl e)
  then show ?thesis by (simp add: fill_elements_def matching_types_def)
next
  case (Inr evs)
  have "\<forall>t \<in> set (map fst evs). valid_type t"
    using assms(1) get_matching_subset [OF Inr] by (fastforce simp: registry_wf_def list_all_iff)
  then obtain f' where f': "filter_insert_all f (map fst evs) = Some f'"
    using filter_insert_all_defined by blast
  with allowed_insert_all [OF assms(2)] Inr show ?thesis
    by (simp add: fill_elements_def matching_types_def)
qed

lemma parse_each_spec:
  assumes "registry_wf els" "filter_wf f"
  shows "\<exists>f' applied'. parse_each els f applied strs = Some (f', applied') \<and> filter_wf f' \<and>
    allowed f' = allowed f \<union> (\<Union>s \<in> set strs. matching_types els s) \<and>
    (applied' = [] \<longleftrightarrow> applied = [] \<and> (\<forall>s \<in> set strs. matching_types els s = {}))"
  using assms(2)
proof (induction strs arbitrary: f applied)
  case Nil
  then show ?case by simp
next
  case (Cons s strs)
  from fill_elements_spec [OF assms(1) Cons.prems, of s]
  obtain r where r: "fill_elements els f s = Some r" and
    "case r of Inl _ \<Rightarrow> matching_types els s = {}
     | Inr (ok, f') \<Rightarrow> filter_wf f' \<and> allowed f' = allowed f \<union> matching_types els s \<and>
         (ok \<longleftrightarrow> matching_types els s \<noteq> {})" by blast
  then consider e where "r = Inl e" "matching_types els s = {}"
    | f1 where "r = Inr (matching_types els s \<noteq> {}, f1)" "filter_wf f1"
        "allowed f1 = allowed f \<union> matching_types els s"
    by (auto split: sum.splits prod.splits)
  then show ?case
  proof cases
    case 1
    with r Cons.IH [OF Cons.prems, of applied] show ?thesis by auto
  next
    case 2
    with r Cons.IH [OF 2(2), of applied] Cons.IH [OF 2(2), of "s # applied"]
    show ?thesis by (cases "matching_types els s = {}") (auto simp: Un_assoc)
  qed
qed

lemma join_remove_member:
  "t \<in> foldl (\<lambda>s e. (s \<union> m e) - x e) S es \<longleftrightarrow>
     (t \<in> S \<and> (\<forall>s \<in> set es. t \<notin> x s)) \<or>
     (\<exists>xs s ys. es = xs @ s # ys \<and> t \<in> m s \<and> t \<notin> x s \<and> (\<forall>y \<in> set ys. t \<notin> x y))"
proof (induction es arbitrary: S)
  case (Cons e es)
  show ?case unfolding foldl_Cons Cons.IH by (auto simp: Cons_eq_append_conv)
qed simp

subsection \<open>Properties\<close>

text \<open>
  Reading the filter strings of an endpoint never fails on a registry of valid types, and
  the filter lets through exactly the configured types: every valid type but the forbidden
  ones for the single string \<^verbatim>\<open>all\<close>, every registered type but the forbidden ones when no
  string names a known category or event, and the events the strings match otherwise.
\<close>
theorem parse_filters_spec:
  assumes "registry_wf els" "filter_wf forbidden"
  shows "\<exists>f. parse_filters els strs forbidden = Some f \<and> filter_wf f \<and>
             allowed f = configured_types els strs forbidden"
proof (cases "strs = [''all'']")
  case True
  with assms show ?thesis
    by (simp add: parse_filters_def configured_types_def filter_wf_ops allowed_ops allowed_default)
next
  case False
  obtain f applied where p: "parse_each els filter_zero_init [] strs = Some (f, applied)"
      "filter_wf f" "allowed f = (\<Union>s \<in> set strs. matching_types els s)"
      "applied = [] \<longleftrightarrow> (\<forall>s \<in> set strs. matching_types els s = {})"
    using parse_each_spec [OF assms(1) filter_zero_init_wf, of "[]" strs] by auto
  have all: "matching_types els ''all'' = fst ` set els"
    by (simp add: matching_types_def get_matching_events_def get_events_by_category_name_def)
  show ?thesis
  proof (cases "applied = [] \<and> strs \<noteq> []")
    case True
    have "get_matching_events els ''all'' = Inr els"
      by (simp add: get_matching_events_def get_events_by_category_name_def)
    then obtain ok f' where "fill_elements els f ''all'' = Some (Inr (ok, f'))"
        "filter_wf f'" "allowed f' = allowed f \<union> fst ` set els"
      using fill_elements_spec [OF assms(1) p(2), of "''all''"] all
      by (auto simp: fill_elements_def split: option.splits)
    with False True p assms(2) show ?thesis
      by (simp add: parse_filters_def configured_types_def filter_wf_ops allowed_ops)
  next
    case False2: False
    with False p show ?thesis by (auto simp: parse_filters_def configured_types_def)
  qed
qed

text \<open>
  C35. The endpoint applier: an acceptor gets its configured filters without the forbidden
  events. A connector can write the configured and the mandatory events but the forbidden
  ones, and read the configured events but the forbidden ones. The tests before the updates
  change nothing to the result.
\<close>
theorem applier_filters_spec:
  assumes "endpoint_wf e" "filter_wf r" "filter_wf w"
  shows "let (r', w') = applier_filters e acc r w in
           filter_wf r' \<and> filter_wf w' \<and>
           allowed r' = allowed r - allowed (ep_forbidden e) \<and>
           allowed w' = (if acc then allowed w else allowed w \<union> allowed (ep_mandatory e))
                        - allowed (ep_forbidden e)"
proof -
  have m: "filter_wf (ep_mandatory e)" and x: "filter_wf (ep_forbidden e)"
    using assms(1) by (simp_all add: endpoint_wf_def)
  note widen = mf.widen_sem [OF assms(3) m]
  show ?thesis
    using widen mf.narrow_sem [OF widen(2) x] mf.narrow_sem [OF assms(2) x] assms x
    by (simp add: applier_filters_def Let_def filter_wf_ops allowed_ops)
qed

text \<open>
  The write filter a failover sets on its muxer when a secondary endpoint is added is a
  function of the secondary endpoints only, whatever the filter was before: an event passes
  exactly when some secondary endpoint requires it and neither that endpoint nor a later one
  forbids it. The primary endpoint's filter has no part in it.
\<close>
theorem add_secondary_endpoint_spec:
  assumes "\<forall>s \<in> set (fo_secondary_endpoints fo @ [endp]). endpoint_wf s"
  shows "t \<in> allowed (fo_write_filter (add_secondary_endpoint fo endp)) \<longleftrightarrow>
    (\<exists>xs s ys. fo_secondary_endpoints fo @ [endp] = xs @ s # ys \<and>
       t \<in> allowed (ep_mandatory s) \<and> t \<notin> allowed (ep_forbidden s) \<and>
       (\<forall>y \<in> set ys. t \<notin> allowed (ep_forbidden y)))"
proof -
  let ?es = "fo_secondary_endpoints fo @ [endp]"
  let ?w = "foldl (\<lambda>w s. filter_minus (filter_or w (ep_mandatory s)) (ep_forbidden s))
              (ep_mandatory endp) ?es"
  define last_word where "last_word \<longleftrightarrow> (\<exists>xs s ys. ?es = xs @ s # ys \<and>
      t \<in> allowed (ep_mandatory s) \<and> t \<notin> allowed (ep_forbidden s) \<and>
      (\<forall>y \<in> set ys. t \<notin> allowed (ep_forbidden y)))"
  have "fo_write_filter (add_secondary_endpoint fo endp) = ?w"
    by (simp add: add_secondary_endpoint_def Let_def)
  moreover have "allowed ?w = foldl (\<lambda>s e. (s \<union> allowed (ep_mandatory e)) - allowed (ep_forbidden e))
        (allowed (ep_mandatory endp)) ?es"
    using assms by (intro mf.join_remove_fold(2)) (simp_all add: endpoint_wf_def)
  ultimately have "t \<in> allowed (fo_write_filter (add_secondary_endpoint fo endp)) \<longleftrightarrow>
      (t \<in> allowed (ep_mandatory endp) \<and> (\<forall>s \<in> set ?es. t \<notin> allowed (ep_forbidden s))) \<or> last_word"
    by (simp only: join_remove_member last_word_def)
  moreover have last_word
    if "t \<in> allowed (ep_mandatory endp)" "\<forall>s \<in> set ?es. t \<notin> allowed (ep_forbidden s)"
    unfolding last_word_def
    by (rule exI [of _ "fo_secondary_endpoints fo"], rule exI [of _ endp], rule exI [of _ "[]"])
      (use that in simp)
  ultimately show ?thesis unfolding last_word_def [symmetric] by blast
qed

text \<open>The properties on a registry of three events, and on two secondary endpoints.\<close>

theorem parse_filters_spec_witness:
  "let els = register_event (register_event (register_event [] 0x10001 \<lparr>ei_name = ''host''\<rparr>)
               0x10002 \<lparr>ei_name = ''service''\<rparr>) 0x60001 \<lparr>ei_name = ''ba''\<rparr>
   in registry_wf els \<and>
      (\<exists>f. parse_filters els [''bam'', ''neb:service''] filter_zero_init = Some f \<and>
           allowed f = {0x60001, 0x10002})"
proof -
  let ?els = "register_event (register_event (register_event [] 0x10001 \<lparr>ei_name = ''host''\<rparr>)
               0x10002 \<lparr>ei_name = ''service''\<rparr>) 0x60001 \<lparr>ei_name = ''ba''\<rparr>"
  have w: "registry_wf ?els" by code_simp
  have m: "matching_types ?els ''bam'' = {0x60001}" "matching_types ?els ''neb:service'' = {0x10002}"
    by code_simp+
  have "configured_types ?els [''bam'', ''neb:service''] filter_zero_init = {0x60001, 0x10002}"
    by (simp add: configured_types_def m insert_commute)
  with w parse_filters_spec [OF w filter_zero_init_wf, of "[''bam'', ''neb:service'']"]
  show ?thesis unfolding Let_def by metis
qed

theorem applier_filters_spec_witness:
  "let e = \<lparr>ep_acceptor = False, ep_mandatory = filter_default, ep_forbidden = filter_zero_init\<rparr>
   in endpoint_wf e \<and>
      (let (r', w') = applier_filters e False filter_zero_init filter_zero_init
       in 0x10001 \<in> allowed w' \<and> 0x10001 \<notin> allowed r')"
proof -
  let ?e = "\<lparr>ep_acceptor = False, ep_mandatory = filter_default, ep_forbidden = filter_zero_init\<rparr>"
  have w: "endpoint_wf ?e" by (simp add: endpoint_wf_def)
  have v: "valid_type 0x10001" by code_simp
  show ?thesis
    using w v applier_filters_spec [OF w filter_zero_init_wf filter_zero_init_wf, of False]
    by (simp add: Let_def allowed_default split: prod.splits)
qed

theorem add_secondary_endpoint_spec_witness:
  "let e1 = \<lparr>ep_acceptor = False, ep_mandatory = filter_default, ep_forbidden = filter_zero_init\<rparr>;
       e2 = \<lparr>ep_acceptor = False, ep_mandatory = filter_zero_init, ep_forbidden = filter_default\<rparr>
   in 0x10001 \<notin> allowed (fo_write_filter (add_secondary_endpoint
        \<lparr>fo_secondary_endpoints = [e1], fo_write_filter = filter_default\<rparr> e2))"
proof -
  let ?e1 = "\<lparr>ep_acceptor = False, ep_mandatory = filter_default, ep_forbidden = filter_zero_init\<rparr>"
  let ?e2 = "\<lparr>ep_acceptor = False, ep_mandatory = filter_zero_init, ep_forbidden = filter_default\<rparr>"
  let ?fo = "\<lparr>fo_secondary_endpoints = [?e1], fo_write_filter = filter_default\<rparr>"
  have v: "valid_type 0x10001" by code_simp
  have w: "\<forall>s \<in> set (fo_secondary_endpoints ?fo @ [?e2]). endpoint_wf s"
    by (simp add: endpoint_wf_def)
  have "\<not> (\<exists>xs s ys. fo_secondary_endpoints ?fo @ [?e2] = xs @ s # ys \<and>
       0x10001 \<in> allowed (ep_mandatory s) \<and> 0x10001 \<notin> allowed (ep_forbidden s) \<and>
       (\<forall>y \<in> set ys. 0x10001 \<notin> allowed (ep_forbidden y)))"
    using v by (auto simp: allowed_default Cons_eq_append_conv)
  with add_secondary_endpoint_spec [of ?fo ?e2 "0x10001"] w show ?thesis
    unfolding Let_def by blast
qed

end
