(* ===== verification/Bbdo_Codec.thy ===== *)
theory Bbdo_Codec
  imports Muxer_Filter
begin

unbundle bit_operations_syntax

section \<open>BBDO packets\<close>

text \<open>
  Models the encoding half of \<^verbatim>\<open>broker/core/src/bbdo/stream.cc\<close> and the checksum of
  \<^verbatim>\<open>broker/core/src/misc/misc.cc\<close>: an event is cut into packets, each behind a header of 16 bytes
  that holds a checksum, the size of the payload and the identifiers of the event. Events with a
  mapping are encoded field by field, the other ones by their protobuf operations.

  The tables of the registry are parameters: the getters and setters of a mapping, the
  serializers of protobuf. So are \<open>snprintf\<close> and \<open>strtod\<close> on doubles, which are kept as 64-bit
  words. A field that cannot be decoded throws \<open>msg_fmt\<close>.
\<close>

subsection \<open>The checksum\<close>

definition crc_tbl :: "u16 list" where
  "crc_tbl =
     [0x0000, 0x1081, 0x2102, 0x3183, 0x4204, 0x5285, 0x6306, 0x7387,
      0x8408, 0x9489, 0xa50a, 0xb58b, 0xc60c, 0xd68d, 0xe70e, 0xf78f]"

definition crc_nibble :: "u16 \<Rightarrow> byte \<Rightarrow> u16" where
  "crc_nibble crc c = (drop_bit 4 crc AND 0x0fff) XOR (crc_tbl ! unat ((crc XOR ucast c) AND 15))"

definition crc_byte :: "u16 \<Rightarrow> byte \<Rightarrow> u16" where
  "crc_byte crc c = crc_nibble (crc_nibble crc c) (drop_bit 4 c)"

definition crc16_ccitt :: "bytes \<Rightarrow> u16" where
  "crc16_ccitt data = NOT (foldl crc_byte 0xffff data) AND 0xffff"

subsection \<open>Fields of mapped events\<close>

datatype field_type =
    FT_BOOL | FT_DOUBLE | FT_INT | FT_SHORT | FT_STRING | FT_TIME | FT_UINT | FT_USHORT | FT_ULONG
  | FT_UNKNOWN

datatype field_value =
    VBool bool | VDouble u64 | VInt u32 | VShort u16 | VString bytes | VTime u64 | VUint u32
  | VUlong u64

record clib =
  cl_snprintf :: "u64 \<Rightarrow> bytes"
  cl_strtod :: "bytes \<Rightarrow> u64"

definition be64 :: "u64 \<Rightarrow> bytes" where
  "be64 v = be32 (ucast (drop_bit 32 v)) @ be32 (ucast (v AND 0xffffffff))"

definition of_be64 :: "bytes \<Rightarrow> u64" where
  "of_be64 b = push_bit 32 (ucast (of_be32 b)) OR ucast (of_be32 (drop 4 b))"

text \<open>
  The functions \<open>get_boolean\<close> to \<open>get_ulong\<close>. The text of a double is cut to the 32 bytes of its
  buffer, the terminating zero included.
\<close>

fun value_type :: "field_value \<Rightarrow> field_type" where
  "value_type (VBool _) = FT_BOOL"
| "value_type (VDouble _) = FT_DOUBLE"
| "value_type (VInt _) = FT_INT"
| "value_type (VShort _) = FT_SHORT"
| "value_type (VString _) = FT_STRING"
| "value_type (VTime _) = FT_TIME"
| "value_type (VUint _) = FT_UINT"
| "value_type (VUlong _) = FT_ULONG"

fun value_bytes :: "clib \<Rightarrow> field_value \<Rightarrow> bytes" where
  "value_bytes cl (VBool b) = [if b then 1 else 0]"
| "value_bytes cl (VDouble d) =
     (let str = cl_snprintf cl d in if length str + 1 > 32 then take 31 str @ [0] else str @ [0])"
| "value_bytes cl (VInt w) = be32 w"
| "value_bytes cl (VShort w) = be16 w"
| "value_bytes cl (VString s) = s @ [0]"
| "value_bytes cl (VTime w) = be64 w"
| "value_bytes cl (VUint w) = be32 w"
| "value_bytes cl (VUlong w) = be64 w"

text \<open>The getters are chosen by the type in the mapping; an unknown type throws.\<close>

definition get_field :: "clib \<Rightarrow> field_type \<Rightarrow> field_value \<Rightarrow> bytes option" where
  "get_field cl t v = (if value_type v = t then Some (value_bytes cl v) else None)"

text \<open>The text up to the terminating zero, if there is one in the packet.\<close>

definition c_string :: "bytes \<Rightarrow> bytes option" where
  "c_string b = (let str = takeWhile (\<lambda>c. c \<noteq> 0) b in if length str \<ge> length b then None else Some str)"

text \<open>The functions \<open>set_boolean\<close> to \<open>set_ulong\<close>: the value and the number of bytes used.\<close>

fun set_field :: "clib \<Rightarrow> field_type \<Rightarrow> bytes \<Rightarrow> exn + (field_value \<times> nat)" where
  "set_field cl FT_BOOL b = (if b = [] then Inl Msg_fmt else Inr (VBool (hd b \<noteq> 0), 1))"
| "set_field cl FT_DOUBLE b =
     (case c_string b of None \<Rightarrow> Inl Msg_fmt | Some s \<Rightarrow> Inr (VDouble (cl_strtod cl s), length s + 1))"
| "set_field cl FT_INT b = (if length b < 4 then Inl Msg_fmt else Inr (VInt (of_be32 b), 4))"
| "set_field cl FT_SHORT b = (if length b < 2 then Inl Msg_fmt else Inr (VShort (of_be16 b), 2))"
| "set_field cl FT_STRING b =
     (case c_string b of None \<Rightarrow> Inl Msg_fmt | Some s \<Rightarrow> Inr (VString s, length s + 1))"
| "set_field cl FT_TIME b = (if length b < 8 then Inl Msg_fmt else Inr (VTime (of_be64 b), 8))"
| "set_field cl FT_UINT b = (if length b < 4 then Inl Msg_fmt else Inr (VUint (of_be32 b), 4))"
| "set_field cl FT_ULONG b = (if length b < 8 then Inl Msg_fmt else Inr (VUlong (of_be64 b), 8))"
| "set_field cl FT_USHORT b = Inl Msg_fmt"
| "set_field cl FT_UNKNOWN b = Inl Msg_fmt"

subsection \<open>Events and the registry\<close>

record 'o event =
  ev_type :: u32
  ev_source_id :: u32
  ev_destination_id :: u32
  ev_obj :: 'o

record 'o mapping_entry =
  me_type :: field_type
  me_serialize :: bool
  me_get :: "'o \<Rightarrow> field_value"
  me_set :: "field_value \<Rightarrow> 'o \<Rightarrow> 'o"

datatype 'o event_ops =
    Mapped "'o mapping_entry list" "'o option"
  | Protobuf "'o \<Rightarrow> bytes" "bytes \<Rightarrow> 'o option"

type_synonym 'o registry = "u32 \<Rightarrow> 'o event_ops option"

subsection \<open>Serialization\<close>

definition packet_header :: "'o event \<Rightarrow> u16 \<Rightarrow> bytes" where
  "packet_header e sz =
     (let h = be16 sz @ be32 (ev_type e) @ be32 (ev_source_id e) @ be32 (ev_destination_id e)
      in be16 (crc16_ccitt h) @ h)"

text \<open>
  The loop that splits the content of a mapped event: the packets that are full, and the content
  of the one being filled.
\<close>

function split_content :: "'o event \<Rightarrow> bytes \<Rightarrow> bytes \<Rightarrow> bytes \<times> bytes" where
  "split_content e done content =
     (if int (length content) \<ge> 0xffff
      then split_content e (done @ packet_header e 0xffff @ take 0xffff content)
             (drop 0xffff content)
      else (done, content))"
  by pat_completeness auto
termination by (relation "measure (\<lambda>(e, d, c). length c)") auto

declare split_content.simps [simp del]

fun serialize_entries :: "clib \<Rightarrow> 'o event \<Rightarrow> 'o mapping_entry list \<Rightarrow> bytes \<Rightarrow> bytes \<Rightarrow>
    exn + (bytes \<times> bytes)" where
  "serialize_entries cl e [] done content = Inr (done, content)"
| "serialize_entries cl e (m # ms) done content =
     (case (if me_serialize m then map_option (\<lambda>b. content @ b) (get_field cl (me_type m) (me_get m (ev_obj e)))
            else Some content) of
        None \<Rightarrow> Inl Msg_fmt
      | Some content' \<Rightarrow>
          (case split_content e done content' of
             (done'', content'') \<Rightarrow> serialize_entries cl e ms done'' content''))"

text \<open>The loop of the protobuf case.\<close>

function protobuf_packets :: "'o event \<Rightarrow> bytes \<Rightarrow> bytes" where
  "protobuf_packets e r =
     (if int (length r) < 0xffff then packet_header e (of_nat (length r)) @ r
      else packet_header e 0xffff @ take 0xffff r @
           (if int (length r) - 0xffff > 0 then protobuf_packets e (drop 0xffff r) else []))"
  by pat_completeness auto
termination by (relation "measure (\<lambda>(e, r). length r)") auto

declare protobuf_packets.simps [simp del]

definition bbdo_serialize :: "clib \<Rightarrow> 'o registry \<Rightarrow> 'o event \<Rightarrow> exn + bytes option" where
  "bbdo_serialize cl reg e =
     (case reg (ev_type e) of
        None \<Rightarrow> Inr None
      | Some (Mapped ms _) \<Rightarrow>
          (case serialize_entries cl e ms [] [] of
             Inl x \<Rightarrow> Inl x
           | Inr (done, content) \<Rightarrow>
               Inr (Some (done @ packet_header e (of_nat (length content)) @ content)))
      | Some (Protobuf ser _) \<Rightarrow> Inr (Some (protobuf_packets e (ser (ev_obj e)))))"

subsection \<open>Unserialization\<close>

fun unserialize_entries :: "clib \<Rightarrow> 'o mapping_entry list \<Rightarrow> 'o \<Rightarrow> bytes \<Rightarrow> exn + 'o" where
  "unserialize_entries cl [] t buffer = Inr t"
| "unserialize_entries cl (m # ms) t buffer =
     (if me_serialize m then
        (case set_field cl (me_type m) buffer of
           Inl x \<Rightarrow> Inl x
         | Inr (v, rb) \<Rightarrow> unserialize_entries cl ms (me_set m v t) (drop rb buffer))
      else unserialize_entries cl ms t buffer)"

definition bbdo_unserialize :: "clib \<Rightarrow> 'o registry \<Rightarrow> u32 \<Rightarrow> u32 \<Rightarrow> u32 \<Rightarrow> bytes \<Rightarrow>
    exn + 'o event option" where
  "bbdo_unserialize cl reg event_type source_id destination_id buffer =
     (case reg event_type of
        None \<Rightarrow> Inr None
      | Some ops \<Rightarrow>
          (case (case ops of
                   Mapped ms ctor \<Rightarrow>
                     (case ctor of None \<Rightarrow> Inl Msg_fmt | Some t \<Rightarrow> unserialize_entries cl ms t buffer)
                 | Protobuf _ unser \<Rightarrow>
                     (case unser buffer of None \<Rightarrow> Inl Msg_fmt | Some t \<Rightarrow> Inr t)) of
             Inl x \<Rightarrow> Inl x
           | Inr t \<Rightarrow>
               Inr (Some \<lparr>ev_type = event_type, ev_source_id = source_id,
                          ev_destination_id = destination_id, ev_obj = t\<rparr>)))"

subsection \<open>The checksum, bit by bit\<close>

text \<open>The reflected CRC of polynomial \<open>0x8408\<close>, one bit of the message at a time.\<close>

definition crc_bit :: "u16 \<Rightarrow> bool \<Rightarrow> u16" where
  "crc_bit crc b = (if odd crc \<noteq> b then drop_bit 1 crc XOR 0x8408 else drop_bit 1 crc)"

definition crc_reference :: "bytes \<Rightarrow> u16" where
  "crc_reference data = NOT (foldl crc_bit 0xffff (concat (map (\<lambda>c. map (bit c) [0..<8]) data)))"

lemma nibble_index:
  "(w :: u16) AND 15 = of_bool (bit w 0) + 2 * of_bool (bit w 1) + 4 * of_bool (bit w 2) + 8 * of_bool (bit w 3)"
proof -
  have "w AND 15 = take_bit 4 w" by (simp add: take_bit_eq_mask mask_numeral and.commute)
  also have "\<dots> = of_bool (bit w 0) + 2 * of_bool (bit w 1) + 4 * of_bool (bit w 2) + 8 * of_bool (bit w 3)"
    by (simp add: numeral_eq_Suc take_bit_Suc bit_Suc bit_0 mod2_eq_if)
  finally show ?thesis .
qed

lemma crc_nibble_bits:
  "crc_nibble crc c =
     crc_bit (crc_bit (crc_bit (crc_bit crc (bit c 0)) (bit c 1)) (bit c 2)) (bit c 3)"
proof -
  have m: "drop_bit 4 crc AND 0xfff = drop_bit 4 crc"
  proof -
    have "0xfff = (mask 12 :: u16)" by (simp add: mask_eq_exp_minus_1)
    then have "drop_bit 4 crc AND 0xfff = take_bit 12 (drop_bit 4 crc)" by (simp only: take_bit_eq_mask)
    also have "\<dots> = drop_bit 4 crc"
      by (rule bit_word_eqI) (auto simp: bit_simps dest: bit_imp_le_length)
    finally show ?thesis .
  qed
  have b: "bit (crc XOR ucast c) i \<longleftrightarrow> bit crc i \<noteq> bit c i" if "i < 8" for i
    using that by (simp add: bit_simps)
  have i: "(crc XOR ucast c) AND 15 =
      of_bool (bit crc 0 \<noteq> bit c 0) + 2 * of_bool (bit crc 1 \<noteq> bit c 1) +
      4 * of_bool (bit crc 2 \<noteq> bit c 2) + 8 * of_bool (bit crc 3 \<noteq> bit c 3)"
    unfolding nibble_index by (simp add: b)
  have d: "drop_bit (Suc (Suc (Suc (Suc 0)))) crc = drop_bit 4 crc" by (simp add: numeral_eq_Suc)
  have two: "bit w 2 = bit w (Suc (Suc 0))" "bit w 3 = bit w (Suc (Suc (Suc 0)))" for w :: "'a::len word"
    by (simp_all add: numeral_eq_Suc)
  show ?thesis
    unfolding crc_nibble_def m i crc_bit_def two
    by (cases "bit crc 0 = bit c 0"; cases "bit crc 1 = bit c 1"; cases "bit crc (Suc (Suc 0)) = bit c (Suc (Suc 0))";
        cases "bit crc (Suc (Suc (Suc 0))) = bit c (Suc (Suc (Suc 0)))")
      (simp_all add: d crc_tbl_def xor.assoc drop_bit_xor bit_0 [symmetric] bit_xor_iff
        bit_drop_bit_eq)
qed

lemma crc_byte_bits: "crc_byte crc c = foldl crc_bit crc (map (bit c) [0..<8])"
proof -
  have "[0..<8] = [0, 1, 2, 3, 4, 5, 6, 7 :: nat]" by (simp add: upt_rec)
  then show ?thesis by (simp add: crc_byte_def crc_nibble_bits bit_drop_bit_eq)
qed

lemma foldl_crc_byte:
  "foldl crc_byte crc data = foldl crc_bit crc (concat (map (\<lambda>c. map (bit c) [0..<8]) data))"
  by (induction data arbitrary: crc) (simp_all add: crc_byte_bits del: upt_rec_numeral)

lemma crc_all_ones: "w AND 0xffff = (w :: u16)"
proof -
  have "0xffff = (mask 16 :: u16)" by (simp add: mask_eq_exp_minus_1)
  then show ?thesis by (simp only: flip: take_bit_eq_mask) (simp add: take_bit_word_eq_self)
qed

lemma crc16_bits: "crc16_ccitt data = crc_reference data"
  by (simp add: crc16_ccitt_def crc_reference_def foldl_crc_byte crc_all_ones)

lemma crc_bit_inject: "crc_bit s False = crc_bit t False \<Longrightarrow> s = t"
proof -
  assume eq: "crc_bit s False = crc_bit t False"
  have top: "bit (crc_bit w False) 15 = odd w" for w
    by (auto simp: crc_bit_def bit_simps dest: bit_imp_le_length)
  have o: "odd s = odd t" using top [of s] top [of t] eq by simp
  have r: "drop_bit 1 w = crc_bit w False XOR (if odd w then 0x8408 else 0)" for w
    by (simp add: crc_bit_def xor.assoc)
  have "drop_bit 1 s = drop_bit 1 t" unfolding r [of s] r [of t] eq o ..
  then have "bit (drop_bit 1 s) n = bit (drop_bit 1 t) n" for n by simp
  then have "bit s (Suc n) = bit t (Suc n)" for n by (simp add: bit_drop_bit_eq)
  then have "bit s n = bit t n" for n using o by (cases n) (auto simp: bit_0)
  then show ?thesis by (simp add: bit_eq_iff)
qed

lemma crc_zeros_inject:
  "foldl crc_bit s (replicate n False) = foldl crc_bit t (replicate n False) \<Longrightarrow> s = t"
  by (induction n arbitrary: s t) (auto dest: crc_bit_inject)

lemma crc_bits_inject: "foldl crc_bit s bs = foldl crc_bit t bs \<Longrightarrow> s = t"
proof (induction bs arbitrary: s t)
  case (Cons b bs)
  have f: "crc_bit w b = crc_bit (w XOR of_bool b) False" for w
    by (auto simp: crc_bit_def bit_simps even_xor_iff drop_bit_xor)
  have "crc_bit s b = crc_bit t b" using Cons by simp
  then have "s XOR of_bool b = t XOR of_bool b" unfolding f by (rule crc_bit_inject)
  then have "(s XOR of_bool b) XOR of_bool b = (t XOR of_bool b) XOR of_bool b" by simp
  then show ?case by (simp add: xor.assoc)
qed simp

lemma bit_push_1: "bit (push_bit 1 w) 0 = False" "bit (push_bit 1 w) (Suc n) = (Suc n < 16 \<and> bit (w::u16) n)" for n
    by (simp_all only: bit_push_bit_iff) (auto dest: bit_imp_le_length)

lemma odd_push_1: "odd ((s::u16) XOR (of_bool b OR push_bit 1 w)) = (odd s \<noteq> b)"
    unfolding bit_0 [symmetric] bit_xor_iff bit_or_iff bit_push_1 by (auto simp: bit_of_bool_iff)

lemma drop_push_1: 
    assumes "\<not> bit w 15" shows "drop_bit 1 (s XOR (of_bool b OR push_bit 1 w)) = drop_bit 1 (s::u16) XOR w"
  proof (rule bit_word_eqI)
    fix n :: nat assume "n < LENGTH(16)"
    then consider "n = 15" | "Suc n < 16" by (simp, linarith)
    then show "bit (drop_bit 1 (s XOR (of_bool b OR push_bit 1 w))) n = bit (drop_bit 1 s XOR w) n"
      unfolding bit_xor_iff bit_or_iff bit_drop_bit_eq comp_def plus_1_eq_Suc bit_push_1 bit_of_bool_iff
      by cases (use assms in \<open>auto dest: bit_imp_le_length\<close>)
  qed

lemma crc_bit_push: assumes "\<not> bit w 15" shows "crc_bit (s XOR (of_bool b OR push_bit 1 w)) False = crc_bit s b XOR w"
unfolding crc_bit_def odd_push_1 drop_push_1 [OF assms] by (simp add: ac_simps)

lemma foldl_crc_zeros:
  "length bs \<le> 16 \<Longrightarrow>
   foldl crc_bit s bs = foldl crc_bit (s XOR horner_sum of_bool 2 bs) (replicate (length bs) False)"
proof (induction bs arbitrary: s)
  case (Cons b bs)
  let ?h = "horner_sum of_bool 2 bs :: u16"
  have n: "\<not> bit ?h 15" using Cons.prems by (simp add: bit_horner_sum_bit_iff)
  have "horner_sum of_bool 2 (b # bs) = of_bool b OR push_bit 1 ?h"
  proof (rule bit_word_eqI)
    fix n show "bit (horner_sum of_bool 2 (b # bs) :: u16) n = bit (of_bool b OR push_bit 1 ?h) n"
      if "n < LENGTH(16)"
      using that unfolding bit_or_iff bit_horner_sum_bit_iff bit_of_bool_iff
      by (cases n) (simp_all only: bit_push_1, auto simp: bit_horner_sum_bit_iff)
  qed
  then show ?case using Cons.IH [of "crc_bit s b"] Cons.prems crc_bit_push [OF n, of s b]
    by (simp del: horner_sum_simps)
qed simp

lemma crc_burst:
  assumes "length bs = length cs" "length bs \<le> 16" "foldl crc_bit s bs = foldl crc_bit s cs"
  shows "bs = cs"
proof -
  have l: "length cs \<le> 16" using assms(1,2) by simp
  note z = trans [OF trans [OF foldl_crc_zeros [OF assms(2), symmetric] assms(3)] foldl_crc_zeros [OF l]]
  have "s XOR horner_sum of_bool 2 bs = s XOR horner_sum of_bool 2 cs"
    by (rule crc_zeros_inject [OF z [folded assms(1)]])
  then have "s XOR (s XOR horner_sum of_bool 2 bs) = s XOR (s XOR horner_sum of_bool 2 cs)" by (rule arg_cong)
  then have e: "horner_sum of_bool 2 bs = (horner_sum of_bool 2 cs :: u16)"
    by (simp flip: xor.assoc)
  have n: "bs ! n = bit (horner_sum of_bool 2 bs :: u16) n" if "length bs \<le> 16" "n < length bs" for n bs
    using that by (simp add: bit_horner_sum_bit_iff)
  show ?thesis
    by (rule nth_equalityI [OF assms(1)]) (use assms(1) n [OF assms(2)] n [OF l] e in simp)
qed

lemma byte_bits_inject: "map (bit c) [0..<8] = map (bit d) [0..<8] \<Longrightarrow> c = (d :: byte)"
  by (rule bit_word_eqI) (auto simp del: upt_rec_numeral)

lemma bytes_bits_inject:
  "length x = length y \<Longrightarrow>
   concat (map (\<lambda>c. map (bit c) [0..<8]) x) = concat (map (\<lambda>c. map (bit c) [0..<8]) y) \<Longrightarrow> x = (y :: bytes)"
proof (induction x y rule: list_induct2)
  case (Cons c x d y)
  then have "map (bit c) [0..<8] = map (bit d) [0..<8]"
    "concat (map (\<lambda>c. map (bit c) [0..<8]) x) = concat (map (\<lambda>c. map (bit c) [0..<8]) y)"
    by (simp_all del: upt_rec_numeral)
  then show ?case using Cons.IH byte_bits_inject by blast
qed simp

lemma crc_detects:
  assumes "length x = length y" "length x \<le> 2" "x \<noteq> y"
  shows "crc16_ccitt (p @ x @ q) \<noteq> crc16_ccitt (p @ y @ q)"
proof
  let ?b = "\<lambda>d :: bytes. concat (map (\<lambda>c. map (bit c) [0..<8]) d)"
  assume "crc16_ccitt (p @ x @ q) = crc16_ccitt (p @ y @ q)"
  then have "foldl crc_bit (foldl crc_bit (foldl crc_bit 0xffff (?b p)) (?b x)) (?b q)
      = foldl crc_bit (foldl crc_bit (foldl crc_bit 0xffff (?b p)) (?b y)) (?b q)"
    by (simp add: crc16_bits crc_reference_def del: upt_rec_numeral)
  note e = crc_bits_inject [OF this]
  have l: "length (?b d) = 8 * length d" for d
    by (induction d) (simp_all del: upt_rec_numeral)
  have "?b x = ?b y" by (rule crc_burst [OF _ _ e], unfold l) (use assms in simp_all)
  then show False using bytes_bits_inject assms by blast
qed

subsection \<open>Fields\<close>

lemma length_be64 [simp]: "length (be64 w) = 8"
  by (simp add: be64_def)

lemma of_be64_be64 [simp, codec_simps]: "of_be64 (be64 w @ r) = w"
proof -
  have m: "(0xffffffff :: u64) = mask 32" by (simp add: mask_eq_exp_minus_1)
  have "push_bit 32 (ucast (ucast (drop_bit 32 w) :: u32)) OR ucast (ucast (w AND mask 32) :: u32) = w"
    by (rule bit_word_eqI) (auto simp: bit_simps dest: bit_imp_le_length)
  then show ?thesis by (simp add: of_be64_def be64_def m)
qed

text \<open>The values whose text form can be read back.\<close>

fun encodable :: "clib \<Rightarrow> field_value \<Rightarrow> bool" where
  "encodable cl (VString s) \<longleftrightarrow> 0 \<notin> set s"
| "encodable cl (VDouble d) \<longleftrightarrow>
     0 \<notin> set (cl_snprintf cl d) \<and> length (cl_snprintf cl d) \<le> 31 \<and>
     cl_strtod cl (cl_snprintf cl d) = d"
| "encodable cl _ \<longleftrightarrow> True"

lemma c_string_append: "0 \<notin> set s \<Longrightarrow> c_string (s @ 0 # r) = Some s"
proof -
  assume "0 \<notin> set s"
  then have "takeWhile (\<lambda>c. c \<noteq> 0) (s @ 0 # r) = s" by (induction s) auto
  then show ?thesis by (simp add: c_string_def)
qed

lemma set_field_value_bytes:
  "encodable cl v \<Longrightarrow>
   set_field cl (value_type v) (value_bytes cl v @ r) = Inr (v, length (value_bytes cl v))"
  by (cases v) (simp_all add: c_string_append Let_def not_less_eq)

subsection \<open>The payload of an event and its packets\<close>

fun entries_bytes :: "clib \<Rightarrow> 'o mapping_entry list \<Rightarrow> 'o \<Rightarrow> bytes option" where
  "entries_bytes cl [] obj = Some []"
| "entries_bytes cl (m # ms) obj =
     (if me_serialize m
      then (case get_field cl (me_type m) (me_get m obj) of
              None \<Rightarrow> None
            | Some b \<Rightarrow> map_option ((@) b) (entries_bytes cl ms obj))
      else entries_bytes cl ms obj)"

function packets :: "'o event \<Rightarrow> bytes \<Rightarrow> bytes" where
  "packets e p =
     (if int (length p) \<ge> 0xffff
      then packet_header e 0xffff @ take 0xffff p @ packets e (drop 0xffff p)
      else packet_header e (of_nat (length p)) @ p)"
  by pat_completeness auto
termination by (relation "measure (\<lambda>(e, p). length p)") auto

declare packets.simps [simp del]

lemma length_packet_header: "length (packet_header e sz) = 16"
  by (simp add: packet_header_def Let_def)

lemma split_content_packets:
  "split_content e d c = (d', c') \<Longrightarrow>
   d' @ packets e (c' @ x) = d @ packets e (c @ x) \<and> int (length c') < 0xffff"
proof (induction e d c rule: split_content.induct)
  case (1 e d c)
  show ?case
  proof (cases "int (length c) \<ge> 0xffff")
    case True
    then have "split_content e (d @ packet_header e 0xffff @ take 0xffff c) (drop 0xffff c) = (d', c')"
      using 1(2) by (subst (asm) split_content.simps) simp
    with 1(1) [OF True] have "d' @ packets e (c' @ x) =
        (d @ packet_header e 0xffff @ take 0xffff c) @ packets e (drop 0xffff c @ x) \<and> int (length c') < 0xffff"
      by blast
    then show ?thesis using True by (simp add: packets.simps [of e "c @ x"])
  next
    case False
    then show ?thesis using 1(2) by (subst (asm) split_content.simps) auto
  qed
qed

lemma serialize_entries_packets:
  "int (length c) < 0xffff \<Longrightarrow>
   (case entries_bytes cl ms (ev_obj e) of
      None \<Rightarrow> serialize_entries cl e ms d c = Inl Msg_fmt
    | Some p \<Rightarrow> \<exists>d' c'. serialize_entries cl e ms d c = Inr (d', c') \<and>
        d' @ packets e c' = d @ packets e (c @ p) \<and> int (length c') < 0xffff)"
proof (induction ms arbitrary: d c)
  case (Cons m ms)
  define b where "b = (if me_serialize m then get_field cl (me_type m) (me_get m (ev_obj e)) else Some [])"
  show ?case
  proof (cases b)
    case None
    then show ?thesis by (auto simp: b_def split: if_splits)
  next
    case (Some b')
    obtain d1 c1 where s: "split_content e d (c @ b') = (d1, c1)" by fastforce
    note p = split_content_packets [OF s]
    have r: "serialize_entries cl e (m # ms) d c = serialize_entries cl e ms d1 c1"
      using Some s by (auto simp: b_def split: if_splits)
    have e: "entries_bytes cl (m # ms) (ev_obj e) = map_option ((@) b') (entries_bytes cl ms (ev_obj e))"
      using Some by (cases "entries_bytes cl ms (ev_obj e)") (auto simp: b_def split: if_splits)
    show ?thesis
    proof (cases "entries_bytes cl ms (ev_obj e)")
      case None
      then show ?thesis using Cons.IH [of c1 d1] p r e by simp
    next
      case (Some q)
      then show ?thesis using Cons.IH [of c1 d1] p [of q] r e by auto
    qed
  qed
qed simp

lemma protobuf_packets_eq:
  "protobuf_packets e r @ (if r \<noteq> [] \<and> 0xffff dvd int (length r) then packet_header e 0 else []) = packets e r"
proof (induction e r rule: protobuf_packets.induct)
  case (1 e r)
  consider "int (length r) < 0xffff" | "int (length r) = 0xffff" | "int (length r) > 0xffff" by linarith
  then show ?case
  proof cases
    case 1
    have "\<not> (0xffff dvd int (length r))" if "r \<noteq> []"
      using that 1 zdvd_imp_le [of "0xffff" "int (length r)"] by auto
    then show ?thesis using 1 by (auto simp: protobuf_packets.simps [of e r] packets.simps [of e r])
  next
    case 2
    then have "drop 0xffff r = []" by simp
    then show ?thesis using 2
      by (simp add: protobuf_packets.simps [of e r] packets.simps [of e r] packets.simps [of e "[]"])
        auto
  next
    case 3
    then have l: "int (length (drop 0xffff r)) = int (length r) - 0xffff" "drop 0xffff r \<noteq> []" "r \<noteq> []" by auto
    have "0xffff dvd int (length (drop 0xffff r)) \<longleftrightarrow> 0xffff dvd int (length r)"
      unfolding l(1) by (simp add: dvd_diff_left_iff)
    with 1 [OF _ ] 3 l show ?thesis
      by (simp add: protobuf_packets.simps [of e r] packets.simps [of e r])
  qed
qed

subsection \<open>Events that survive the trip\<close>

text \<open>The object after the setters were run on what the getters gave.\<close>

fun rebuilt :: "'o mapping_entry list \<Rightarrow> 'o \<Rightarrow> 'o \<Rightarrow> 'o" where
  "rebuilt [] obj t = t"
| "rebuilt (m # ms) obj t = rebuilt ms obj (if me_serialize m then me_set m (me_get m obj) t else t)"

definition entry_ok :: "clib \<Rightarrow> 'o \<Rightarrow> 'o mapping_entry \<Rightarrow> bool" where
  "entry_ok cl obj m \<longleftrightarrow>
     (me_serialize m \<longrightarrow> value_type (me_get m obj) = me_type m \<and> encodable cl (me_get m obj))"

lemma unserialize_entries_bytes:
  "list_all (entry_ok cl obj) ms \<Longrightarrow>
   \<exists>p. entries_bytes cl ms obj = Some p \<and>
       (\<forall>t. unserialize_entries cl ms t (p @ r) = Inr (rebuilt ms obj t))"
proof (induction ms)
  case (Cons m ms)
  then obtain p where p: "entries_bytes cl ms obj = Some p"
    "\<And>t. unserialize_entries cl ms t (p @ r) = Inr (rebuilt ms obj t)" by auto
  show ?case
  proof (cases "me_serialize m")
    case True
    then have v: "value_type (me_get m obj) = me_type m" "encodable cl (me_get m obj)"
      using Cons.prems by (auto simp: entry_ok_def)
    then show ?thesis
      using True p set_field_value_bytes [OF v(2), of "p @ r"] by (simp add: get_field_def)
  qed (use p in simp)
qed simp

definition event_payload :: "clib \<Rightarrow> 'o registry \<Rightarrow> 'o event \<Rightarrow> bytes option" where
  "event_payload cl reg e =
     (case reg (ev_type e) of
        None \<Rightarrow> None
      | Some (Mapped ms _) \<Rightarrow> entries_bytes cl ms (ev_obj e)
      | Some (Protobuf ser _) \<Rightarrow> Some (ser (ev_obj e)))"

text \<open>
  An event is storable when its payload decodes to it, and when a protobuf payload does not end
  at the end of a full packet: the empty packet that would close the event is not sent then.
\<close>

definition storable :: "clib \<Rightarrow> 'o registry \<Rightarrow> 'o event \<Rightarrow> bool" where
  "storable cl reg e \<longleftrightarrow>
     (case event_payload cl reg e of
        None \<Rightarrow> False
      | Some p \<Rightarrow>
          bbdo_unserialize cl reg (ev_type e) (ev_source_id e) (ev_destination_id e) p = Inr (Some e) \<and>
          (case reg (ev_type e) of
             Some (Protobuf _ _) \<Rightarrow> \<not> (p \<noteq> [] \<and> 0xffff dvd int (length p))
           | _ \<Rightarrow> True))"

lemma serialize_mapped:
  assumes "reg (ev_type e) = Some (Mapped ms ctor)"
  shows "bbdo_serialize cl reg e =
     (case entries_bytes cl ms (ev_obj e) of None \<Rightarrow> Inl Msg_fmt | Some p \<Rightarrow> Inr (Some (packets e p)))"
proof (cases "entries_bytes cl ms (ev_obj e)")
  case None
  then show ?thesis using serialize_entries_packets [of "[]" cl e ms "[]"] assms
    by (simp add: bbdo_serialize_def)
next
  case (Some p)
  then obtain d c where s: "serialize_entries cl e ms [] [] = Inr (d, c)" "d @ packets e c = packets e p"
      "int (length c) < 0xffff"
    using serialize_entries_packets [of "[]" cl e ms "[]"] by auto
  then show ?thesis using Some assms by (simp add: bbdo_serialize_def packets.simps [of e c])
qed

lemma serialize_storable:
  assumes "storable cl reg e"
  obtains p where "event_payload cl reg e = Some p" "bbdo_serialize cl reg e = Inr (Some (packets e p))"
    "bbdo_unserialize cl reg (ev_type e) (ev_source_id e) (ev_destination_id e) p = Inr (Some e)"
proof -
  obtain p where p: "event_payload cl reg e = Some p"
      "bbdo_unserialize cl reg (ev_type e) (ev_source_id e) (ev_destination_id e) p = Inr (Some e)"
    using assms by (auto simp: storable_def split: option.splits)
  have "bbdo_serialize cl reg e = Inr (Some (packets e p))"
  proof (cases "reg (ev_type e)")
    case None
    then show ?thesis using p by (simp add: event_payload_def)
  next
    case (Some ops)
    show ?thesis
    proof (cases ops)
      case (Mapped ms ctor)
      then show ?thesis using Some p by (simp add: serialize_mapped event_payload_def)
    next
      case (Protobuf ser unser)
      then show ?thesis using Some p assms protobuf_packets_eq [of e p]
        by (auto simp: event_payload_def storable_def bbdo_serialize_def split: if_splits)
    qed
  qed
  then show thesis using p by (intro that)
qed

lemma storable_mapped:
  assumes "reg (ev_type e) = Some (Mapped ms (Some t))" "list_all (entry_ok cl (ev_obj e)) ms"
    and "rebuilt ms (ev_obj e) t = ev_obj e"
  shows "storable cl reg e"
  using assms unserialize_entries_bytes [OF assms(2), of "[]"]
  by (auto simp: storable_def event_payload_def bbdo_unserialize_def)

lemma storable_protobuf:
  assumes "reg (ev_type e) = Some (Protobuf ser unser)" "unser (ser (ev_obj e)) = Some (ev_obj e)"
    and "ser (ev_obj e) = [] \<or> \<not> 0xffff dvd int (length (ser (ev_obj e)))"
  shows "storable cl reg e"
  using assms by (auto simp: storable_def event_payload_def bbdo_unserialize_def)

subsection \<open>Properties\<close>

text \<open>
  The table-driven checksum of the packet headers is the reflected CRC of polynomial
  \<open>0x8408\<close> with all-ones initial value and complemented result, computed bit by bit.
\<close>

theorem crc16_reference: "crc16_ccitt data = crc_reference data"
  by (rule crc16_bits)

text \<open>
  C24. The checksum changes whenever the data changes within two neighbouring bytes: such a
  corruption of a header is always detected.
\<close>

theorem crc16_detects_burst:
  assumes "length x = length y" "length x \<le> 2" "x \<noteq> y"
  shows "crc16_ccitt (p @ x @ q) \<noteq> crc16_ccitt (p @ y @ q)"
  using assms by (rule crc_detects)

theorem crc16_detects_burst_witness:
  "crc16_ccitt ([1] @ [2, 3] @ [4]) \<noteq> crc16_ccitt ([1] @ [2, 7] @ [4])"
  by (rule crc16_detects_burst) simp_all

text \<open>
  C27. The result of \<open>serialize\<close> for every kind of event: nothing for an unknown type, an error for a
  field of another type than the mapping says, and otherwise the payload in packets, all full but
  the last one. A protobuf payload that ends with a full packet lacks the last, empty packet.
\<close>

theorem bbdo_serialize_packets:
  "bbdo_serialize cl reg e =
     (case reg (ev_type e) of
        None \<Rightarrow> Inr None
      | Some (Mapped ms _) \<Rightarrow>
          (case entries_bytes cl ms (ev_obj e) of
             None \<Rightarrow> Inl Msg_fmt
           | Some p \<Rightarrow> Inr (Some (packets e p)))
      | Some (Protobuf ser _) \<Rightarrow>
          (let p = ser (ev_obj e); q = packets e p in
           Inr (Some (if p \<noteq> [] \<and> 0xffff dvd int (length p) then take (length q - 16) q else q))))"
proof (cases "reg (ev_type e)")
  case None
  then show ?thesis by (simp add: bbdo_serialize_def)
next
  case (Some ops)
  show ?thesis
  proof (cases ops)
    case (Mapped ms ctor)
    then show ?thesis using Some by (simp add: serialize_mapped)
  next
    case (Protobuf ser unser)
    show ?thesis using Some Protobuf protobuf_packets_eq [of e "ser (ev_obj e)", symmetric]
      by (simp add: bbdo_serialize_def Let_def length_packet_header)
  qed
qed

text \<open>
  C28. An event whose fields have the types of its mapping, and text fields without a zero byte, is
  serialized to packets whose payload is unserialized to the same event.
\<close>

theorem mapped_event_roundtrip:
  assumes "reg (ev_type e) = Some (Mapped ms (Some t))" "list_all (entry_ok cl (ev_obj e)) ms"
    and "rebuilt ms (ev_obj e) t = ev_obj e"
  shows "\<exists>p. bbdo_serialize cl reg e = Inr (Some (packets e p)) \<and>
    bbdo_unserialize cl reg (ev_type e) (ev_source_id e) (ev_destination_id e) p = Inr (Some e)"
  using serialize_storable [OF storable_mapped [of reg e, OF assms]] by blast

text \<open>A mapping of two serialized fields and one that is not.\<close>

definition sample_clib :: clib where
  "sample_clib = \<lparr>cl_snprintf = \<lambda>d. be64 d, cl_strtod = of_be64\<rparr>"

definition sample_entries :: "(u32 \<times> bytes) mapping_entry list" where
  "sample_entries =
     [\<lparr>me_type = FT_UINT, me_serialize = True, me_get = \<lambda>x. VUint (fst x),
       me_set = \<lambda>v x. case v of VUint w \<Rightarrow> (w, snd x) | _ \<Rightarrow> x\<rparr>,
      \<lparr>me_type = FT_BOOL, me_serialize = False, me_get = \<lambda>x. VBool False, me_set = \<lambda>v x. x\<rparr>,
      \<lparr>me_type = FT_STRING, me_serialize = True, me_get = \<lambda>x. VString (snd x),
       me_set = \<lambda>v x. case v of VString s \<Rightarrow> (fst x, s) | _ \<Rightarrow> x\<rparr>]"

definition sample_registry :: "(u32 \<times> bytes) registry" where
  "sample_registry = [0x10001 \<mapsto> Mapped sample_entries (Some (0, []))]"

definition sample_event :: "u32 \<Rightarrow> bytes \<Rightarrow> (u32 \<times> bytes) event" where
  "sample_event w s = \<lparr>ev_type = 0x10001, ev_source_id = 3, ev_destination_id = 0, ev_obj = (w, s)\<rparr>"

lemma sample_event_mapped:
  assumes "0 \<notin> set s"
  shows "sample_registry (ev_type (sample_event w s)) = Some (Mapped sample_entries (Some (0, [])))"
    "list_all (entry_ok sample_clib (ev_obj (sample_event w s))) sample_entries"
    "rebuilt sample_entries (ev_obj (sample_event w s)) (0, []) = ev_obj (sample_event w s)"
  using assms by (simp_all add: sample_registry_def sample_event_def sample_entries_def entry_ok_def)

theorem mapped_event_roundtrip_witness:
  "\<exists>p. bbdo_serialize sample_clib sample_registry (sample_event 7 [65, 66]) =
         Inr (Some (packets (sample_event 7 [65, 66]) p)) \<and>
       bbdo_unserialize sample_clib sample_registry (ev_type (sample_event 7 [65, 66]))
         (ev_source_id (sample_event 7 [65, 66])) (ev_destination_id (sample_event 7 [65, 66])) p =
         Inr (Some (sample_event 7 [65, 66]))"
  by (rule mapped_event_roundtrip [of sample_registry, OF sample_event_mapped]) simp_all

end
