(* ===== verification/Splitter.thy ===== *)
theory Splitter
  imports Collect_Prelude
begin

section \<open>Split retention files\<close>

text \<open>
  Models \<^verbatim>\<open>broker/core/src/file/disk_accessor.cc\<close> and \<^verbatim>\<open>broker/core/src/file/splitter.cc\<close>: the
  queue files of the broker, a sequence of numbered parts read at one end and written at the
  other.

  The file system is explicit: a directory of names and inodes, the bytes of each inode, and
  the faults the code has a branch for (a file that cannot be opened, a failing \<open>fread\<close> or
  \<open>fflush\<close>). A \<open>FILE*\<close> is a descriptor on an inode, so that removing a name does not close
  it, and two \<open>shared_ptr<FILE>\<close> are equal when they hold the same descriptor. Writes are in
  append mode, as the parts are opened with \<^verbatim>\<open>a+b\<close>. The C library is taken to write a buffer
  whole; the limit of the disk accessor is the only refusal. Part numbers are natural numbers:
  the constructor makes them non-negative and they only grow.

  That a splitter that deletes what it has read is a first-in first-out queue of bytes across
  its parts is shown in \<open>Splitter_Queue\<close>.
\<close>

subsection \<open>The disk accessor\<close>

datatype errno = ENOENT | EAGAIN | EINTR | EACCES | EIO | ENOSPC

record handle =
  h_fd :: nat
  h_ino :: nat

record fs =
  fs_dir :: "(string \<times> nat) list"
  fs_data :: "nat \<Rightarrow> bytes"
  fs_next :: nat
  fs_errno :: errno
  fs_denied :: "string \<Rightarrow> bool"
  fs_read_error :: "errno option"
  fs_flush_error :: bool
  da_limit_size :: u64
  da_current_size :: u64

definition da_set_current_size :: "u64 \<Rightarrow> fs \<Rightarrow> fs" where
  "da_set_current_size n fs = fs\<lparr>da_current_size := n\<rparr>"

definition da_fwrite :: "bytes \<Rightarrow> handle \<Rightarrow> fs \<Rightarrow> nat \<times> fs" where
  "da_fwrite buf h fs =
     (if da_limit_size fs = 0 \<or>
         da_current_size fs + of_nat (length buf) \<le> da_limit_size fs
      then (length buf,
            fs\<lparr>da_current_size := da_current_size fs + of_nat (length buf),
               fs_data := (fs_data fs)(h_ino h := fs_data fs (h_ino h) @ buf)\<rparr>)
      else (0, fs\<lparr>fs_errno := ENOSPC\<rparr>))"

text \<open>\<open>fseek\<close> to an offset, then \<open>fread\<close>: the bytes, whether \<open>feof\<close> holds, and \<open>errno\<close>.\<close>

definition da_fread :: "handle \<Rightarrow> nat \<Rightarrow> nat \<Rightarrow> fs \<Rightarrow> bytes \<times> bool \<times> fs" where
  "da_fread h offset n fs =
     (case fs_read_error fs of
        Some e \<Rightarrow> ([], False, fs\<lparr>fs_errno := e\<rparr>)
      | None \<Rightarrow> (let d = take n (drop offset (fs_data fs (h_ino h))) in (d, length d < n, fs)))"

definition da_remove :: "string \<Rightarrow> fs \<Rightarrow> fs" where
  "da_remove name fs =
     (let fs' = (case map_of (fs_dir fs) name of
                   Some i \<Rightarrow> fs\<lparr>da_current_size := da_current_size fs - of_nat (length (fs_data fs i))\<rparr>
                 | None \<Rightarrow> fs)
      in fs'\<lparr>fs_dir := filter (\<lambda>(p, _). p \<noteq> name) (fs_dir fs')\<rparr>)"

definition new_handle :: "nat \<Rightarrow> fs \<Rightarrow> handle \<times> fs" where
  "new_handle i fs = (\<lparr>h_fd = fs_next fs, h_ino = i\<rparr>, fs\<lparr>fs_next := Suc (fs_next fs)\<rparr>)"

text \<open>\<open>fopen\<close> with mode \<^verbatim>\<open>r+b\<close> and with mode \<^verbatim>\<open>a+b\<close>, which creates the file.\<close>

definition da_fopen_r :: "string \<Rightarrow> fs \<Rightarrow> handle option \<times> fs" where
  "da_fopen_r name fs =
     (if fs_denied fs name then (None, fs\<lparr>fs_errno := EACCES\<rparr>)
      else case map_of (fs_dir fs) name of
             None \<Rightarrow> (None, fs\<lparr>fs_errno := ENOENT\<rparr>)
           | Some i \<Rightarrow> (let (h, fs') = new_handle i fs in (Some h, fs')))"

definition da_fopen_a :: "string \<Rightarrow> fs \<Rightarrow> handle option \<times> fs" where
  "da_fopen_a name fs =
     (if fs_denied fs name then (None, fs\<lparr>fs_errno := EACCES\<rparr>)
      else case map_of (fs_dir fs) name of
             Some i \<Rightarrow> (let (h, fs') = new_handle i fs in (Some h, fs'))
           | None \<Rightarrow>
               (let i = fs_next fs;
                    (h, fs') = new_handle i
                      (fs\<lparr>fs_dir := fs_dir fs @ [(name, i)], fs_data := (fs_data fs)(i := [])\<rparr>)
                in (Some h, fs')))"

subsection \<open>The splitter\<close>

record splitter =
  sp_auto_delete :: bool
  sp_base_path :: string
  sp_max_file_size :: u32
  sp_rfile :: "handle option"
  sp_rid :: nat
  sp_roffset :: nat
  sp_wfile :: "handle option"
  sp_wid :: nat
  sp_woffset :: nat

type_synonym sfs = "splitter \<times> fs"

definition get_file_path :: "splitter \<Rightarrow> nat \<Rightarrow> string" where
  "get_file_path sp i = (if i \<noteq> 0 then sp_base_path sp @ dec i else sp_base_path sp)"

text \<open>The header of a part: the integers 0 and, in network order, 8.\<close>

definition part_header :: bytes where
  "part_header = [0, 0, 0, 0] @ be32 8"

definition open_write_file :: "sfs \<Rightarrow> (sfs, bool) outcome" where
  "open_write_file s =
     (let (sp, fs) = s in
      case da_fopen_a (get_file_path sp (sp_wid sp)) fs of
        (None, fs1) \<Rightarrow> (Inl Msg_fmt, (sp\<lparr>sp_wfile := None\<rparr>, fs1))
      | (Some h, fs1) \<Rightarrow>
          (let off = length (fs_data fs1 (h_ino h));
               sp1 = sp\<lparr>sp_wfile := Some h, sp_woffset := off\<rparr>
           in if off < 8 then
                (let (n, fs2) = da_fwrite part_header h fs1 in
                 if n \<noteq> length part_header then (Inr False, (sp1\<lparr>sp_wfile := None\<rparr>, fs2))
                 else (Inr True, (sp1\<lparr>sp_woffset := 8\<rparr>, fs2)))
              else (Inr True, (sp1, fs1))))"

definition open_read_file :: "sfs \<Rightarrow> (sfs, unit) outcome" where
  "open_read_file s =
     (let (sp, fs) = s in
      if sp_rid sp = sp_wid sp \<and> sp_wfile sp \<noteq> None then
        (Inr (), (sp\<lparr>sp_rfile := sp_wfile sp, sp_roffset := 8\<rparr>, fs))
      else
        case da_fopen_r (get_file_path sp (sp_rid sp)) fs of
          (Some h, fs1) \<Rightarrow> (Inr (), (sp\<lparr>sp_rfile := Some h, sp_roffset := 8\<rparr>, fs1))
        | (None, fs1) \<Rightarrow>
            (if fs_errno fs1 = ENOENT then (Inr (), (sp\<lparr>sp_rfile := None\<rparr>, fs1))
             else (Inl Msg_fmt, (sp\<lparr>sp_rfile := None\<rparr>, fs1))))"

text \<open>
  One round of \<open>read\<close> on an open part: \<open>None\<close> is the recursive call on the next part. The
  lock is owned exactly when both ends are on the same part.
\<close>

definition read_once :: "nat \<Rightarrow> handle \<Rightarrow> sfs \<Rightarrow> (exn + bytes) option \<times> sfs" where
  "read_once max_size h s =
     (let (sp, fs) = s;
          (d, eof, fs1) = da_fread h (sp_roffset sp) max_size fs;
          sp1 = sp\<lparr>sp_roffset := sp_roffset sp + length d\<rparr>
      in if d \<noteq> [] then (Some (Inr d), (sp1, fs1))
         else if eof then
           (let (sp2, fs2) =
                  (if sp_auto_delete sp1 then
                     ((if sp_rid sp1 = sp_wid sp1 \<and> sp_wfile sp1 = sp_rfile sp1
                       then sp1\<lparr>sp_rfile := None, sp_wfile := None\<rparr>
                       else sp1\<lparr>sp_rfile := None\<rparr>),
                      da_remove (get_file_path sp1 (sp_rid sp1)) fs1)
                   else (sp1, fs1))
            in if sp_rid sp2 < sp_wid sp2
               then (None, (sp2\<lparr>sp_rid := Suc (sp_rid sp2)\<rparr>, fs2))
               else (Some (Inl Shutdown), (sp2, fs2)))
         else if fs_errno fs1 = EAGAIN \<or> fs_errno fs1 = EINTR then (Some (Inr []), (sp1, fs1))
         else (Some (Inl Msg_fmt), (sp1, fs1)))"

definition ensure_rfile :: "sfs \<Rightarrow> (sfs, unit) outcome" where
  "ensure_rfile s = (if sp_rfile (fst s) = None then open_read_file s else (Inr (), s))"

lemma ensure_rfile_ids:
  "ensure_rfile s = (r, s') \<Longrightarrow> sp_rid (fst s') = sp_rid (fst s) \<and> sp_wid (fst s') = sp_wid (fst s)"
  by (cases s) (auto simp: ensure_rfile_def open_read_file_def Let_def split: if_splits prod.splits option.splits)

lemma read_once_next_ids:
  "read_once n h s = (None, s') \<Longrightarrow>
   sp_rid (fst s) < sp_wid (fst s) \<and> sp_rid (fst s') = Suc (sp_rid (fst s)) \<and>
   sp_wid (fst s') = sp_wid (fst s)"
  by (cases s) (auto simp: read_once_def Let_def split: if_splits prod.splits)

function splitter_read :: "nat \<Rightarrow> sfs \<Rightarrow> (sfs, bytes) outcome" where
  "splitter_read max_size s =
     (case ensure_rfile s of
        (Inl e, s1) \<Rightarrow> (Inl e, s1)
      | (Inr _, s1) \<Rightarrow>
          (case sp_rfile (fst s1) of
             None \<Rightarrow> (Inr [], s1)
           | Some h \<Rightarrow>
               (case read_once max_size h s1 of
                  (Some r, s2) \<Rightarrow> (r, s2)
                | (None, s2) \<Rightarrow> splitter_read max_size s2)))"
  by pat_completeness auto
termination
  by (relation "measure (\<lambda>(n, s). sp_wid (fst s) - sp_rid (fst s))")
    (auto dest!: ensure_rfile_ids [OF sym] read_once_next_ids [OF sym])

definition write_payload :: "bytes \<Rightarrow> sfs \<Rightarrow> (sfs, nat) outcome" where
  "write_payload buf s =
     (let (sp, fs) = s in
      case sp_wfile sp of
        None \<Rightarrow> (Inr 0, s)
      | Some h \<Rightarrow>
          (let (wb, fs1) = da_fwrite buf h fs in
           if wb \<noteq> length buf then (Inr 0, (sp, fs1))
           else (Inr (length buf), (sp\<lparr>sp_woffset := sp_woffset sp + length buf\<rparr>, fs1))))"

definition next_write_file :: "bytes \<Rightarrow> sfs \<Rightarrow> (sfs, bool) outcome" where
  "next_write_file buf s =
     (let (sp, fs) = s in
      if int (sp_woffset sp + length buf) > uint (sp_max_file_size sp) then
        (if fs_flush_error fs then (Inl Msg_fmt, s)
         else open_write_file (sp\<lparr>sp_wid := Suc (sp_wid sp)\<rparr>, fs))
      else (Inr True, s))"

definition splitter_write :: "bytes \<Rightarrow> sfs \<Rightarrow> (sfs, nat) outcome" where
  "splitter_write buf s =
     (case (if sp_wfile (fst s) = None then open_write_file s else (Inr True, s)) of
        (Inl e, s1) \<Rightarrow> (Inl e, s1)
      | (Inr False, s1) \<Rightarrow> (Inr 0, s1)
      | (Inr True, s1) \<Rightarrow>
          (case next_write_file buf s1 of
             (Inl e, s2) \<Rightarrow> (Inl e, s2)
           | (Inr False, s2) \<Rightarrow> (Inr 0, s2)
           | (Inr True, s2) \<Rightarrow> write_payload buf s2))"

definition splitter_flush :: "sfs \<Rightarrow> (sfs, unit) outcome" where
  "splitter_flush s = (if fs_flush_error (snd s) then (Inl Msg_fmt, s) else (Inr (), s))"

definition splitter_close :: "sfs \<Rightarrow> sfs" where
  "splitter_close s = ((fst s)\<lparr>sp_rfile := None, sp_wfile := None\<rparr>, snd s)"

definition splitter_seek :: "sfs \<Rightarrow> (sfs, unit) outcome" where
  "splitter_seek s = (Inl Msg_fmt, s)"

definition splitter_tell :: "sfs \<Rightarrow> nat" where
  "splitter_tell s = sp_roffset (fst s)"

text \<open>
  The files \<open>dir_content_with_filter\<close> finds for a base path: the names that extend it inside
  the same directory.
\<close>

definition part_names :: "string \<Rightarrow> fs \<Rightarrow> string list" where
  "part_names base fs =
     filter (\<lambda>p. take (length base) p = base \<and> CHR ''/'' \<notin> set (drop (length base) p))
       (map fst (fs_dir fs))"

definition remove_all_files :: "sfs \<Rightarrow> sfs" where
  "remove_all_files s =
     (let (sp, fs) = splitter_close s
      in (sp\<lparr>sp_rid := 0, sp_wid := 0\<rparr>,
          foldl (\<lambda>f p. da_remove p f) fs (part_names (sp_base_path sp) fs)))"

text \<open>
  The constructor. \<open>part_number\<close> is the number of a part from its name, \<open>None\<close> for the
  \<open>continue\<close> on an invalid conversion; the value of \<open>strtol\<close> is narrowed to an \<open>int\<close>.
\<close>

definition to_int32 :: "int \<Rightarrow> int" where
  "to_int32 n = sint (of_int n :: 32 word)"

definition part_number :: "string \<Rightarrow> string \<Rightarrow> int option" where
  "part_number base p =
     (let ptr = drop (length base) p in
      if ptr = [] then Some 0
      else let (v, rest) = strtol ptr in if rest = [] then Some (to_int32 v) else None)"

fun scan_parts :: "string \<Rightarrow> fs \<Rightarrow> string list \<Rightarrow> int \<times> int \<times> u64 \<Rightarrow> int \<times> int \<times> u64" where
  "scan_parts base fs [] acc = acc"
| "scan_parts base fs (p # ps) (rid, wid, sz) =
     (case part_number base p of
        None \<Rightarrow> scan_parts base fs ps (rid, wid, sz)
      | Some v \<Rightarrow>
          scan_parts base fs ps
            (min rid v, max wid v,
             case map_of (fs_dir fs) p of
               Some i \<Rightarrow> sz + of_nat (length (fs_data fs i))
             | None \<Rightarrow> sz))"

definition splitter_new :: "string \<Rightarrow> u32 \<Rightarrow> bool \<Rightarrow> fs \<Rightarrow> (sfs, bool) outcome" where
  "splitter_new path max_file_size auto_delete fs =
     (let (rid, wid, sz) =
            scan_parts path fs (part_names path fs) (2 ^ 31 - 1, 0, 0);
          rid' = (if rid = 2 ^ 31 - 1 \<or> rid < 0 then 0 else rid);
          sp = \<lparr>sp_auto_delete = auto_delete, sp_base_path = path,
                sp_max_file_size =
                  (if max_file_size = 0 then 0xFFFFFFFF else max max_file_size 10000),
                sp_rfile = None, sp_rid = nat rid', sp_roffset = 0,
                sp_wfile = None, sp_wid = nat wid, sp_woffset = 0\<rparr>
      in open_write_file (sp, da_set_current_size sz fs))"

end
