(* ===== verification/Splitter_Queue.thy ===== *)
theory Splitter_Queue
  imports Splitter
begin

section \<open>A splitter is a queue of bytes\<close>

text \<open>
  The correctness of \<open>Splitter\<close>. \<open>pending\<close> is the abstraction, the bytes that wait in the parts
  from the read position on; \<open>sp_inv\<close> is the invariant of a splitter with automatic deletion on
  a file system whose files can be opened and read. The locale \<open>byte_queue\<close> is the contract of
  the file streams above, \<open>spq\<close> its interpretation on the splitter. The theory also relates
  the space counter of the disk accessor to the files, and the state after a restart to the
  state before.
\<close>

subsection \<open>The bytes that wait in a splitter\<close>

definition file_bytes :: "fs \<Rightarrow> string \<Rightarrow> bytes" where
  "file_bytes fs p = (case map_of (fs_dir fs) p of None \<Rightarrow> [] | Some i \<Rightarrow> fs_data fs i)"

definition part_ino :: "sfs \<Rightarrow> nat \<Rightarrow> nat option" where
  "part_ino s i = map_of (fs_dir (snd s)) (get_file_path (fst s) i)"

definition content :: "sfs \<Rightarrow> nat \<Rightarrow> bytes" where
  "content s i = file_bytes (snd s) (get_file_path (fst s) i)"

definition payload :: "sfs \<Rightarrow> nat \<Rightarrow> bytes" where
  "payload s i = drop 8 (content s i)"

definition unread :: "sfs \<Rightarrow> bytes" where
  "unread s = drop (if sp_rfile (fst s) = None then 8 else sp_roffset (fst s))
                (content s (sp_rid (fst s)))"

definition later_parts :: "sfs \<Rightarrow> bytes" where
  "later_parts s = concat (map (payload s) [Suc (sp_rid (fst s))..<Suc (sp_wid (fst s))])"

definition pending :: "sfs \<Rightarrow> bytes" where
  "pending s = unread s @ later_parts s"

definition healthy :: "fs \<Rightarrow> bool" where
  "healthy fs \<longleftrightarrow> fs_denied fs = (\<lambda>_. False) \<and> fs_read_error fs = None"

definition dir_wf :: "fs \<Rightarrow> bool" where
  "dir_wf fs \<longleftrightarrow> distinct (map fst (fs_dir fs)) \<and> distinct (map snd (fs_dir fs)) \<and>
     (\<forall>i \<in> snd ` set (fs_dir fs). i < fs_next fs)"

text \<open>
  The invariant of a splitter that deletes what it has read. \<open>parts_wf\<close> is about the files,
  \<open>read_end_wf\<close> and \<open>write_end_wf\<close> about the two open ends.
\<close>

definition parts_wf :: "sfs \<Rightarrow> bool" where
  "parts_wf s \<longleftrightarrow> sp_auto_delete (fst s) \<and> healthy (snd s) \<and> dir_wf (snd s) \<and>
     sp_rid (fst s) \<le> sp_wid (fst s) \<and>
     (\<forall>i. sp_rid (fst s) \<le> i \<and> i < sp_wid (fst s) \<longrightarrow> 8 \<le> length (content s i)) \<and>
     (\<forall>i > sp_wid (fst s). part_ino s i = None)"

definition read_end_wf :: "sfs \<Rightarrow> bool" where
  "read_end_wf s \<longleftrightarrow>
     (case sp_rfile (fst s) of
        None \<Rightarrow> True
      | Some h \<Rightarrow> part_ino s (sp_rid (fst s)) = Some (h_ino h) \<and>
          8 \<le> sp_roffset (fst s) \<and> sp_roffset (fst s) \<le> length (content s (sp_rid (fst s))) \<and>
          (sp_rid (fst s) = sp_wid (fst s) \<longrightarrow> sp_wfile (fst s) = Some h))"

definition write_end_wf :: "sfs \<Rightarrow> bool" where
  "write_end_wf s \<longleftrightarrow>
     (case sp_wfile (fst s) of
        None \<Rightarrow> content s (sp_wid (fst s)) = []
      | Some h \<Rightarrow> part_ino s (sp_wid (fst s)) = Some (h_ino h) \<and>
          sp_woffset (fst s) = length (content s (sp_wid (fst s))) \<and> 8 \<le> sp_woffset (fst s))"

definition sp_inv :: "sfs \<Rightarrow> bool" where
  "sp_inv s \<longleftrightarrow> parts_wf s \<and> read_end_wf s \<and> write_end_wf s"

lemma get_file_path_inject [simp]:
  "get_file_path sp i = get_file_path sp j \<longleftrightarrow> i = j"
  by (auto simp: get_file_path_def)

lemma get_file_path_update [simp]:
  "get_file_path (sp\<lparr>sp_rfile := a\<rparr>) i = get_file_path sp i"
  "get_file_path (sp\<lparr>sp_wfile := a\<rparr>) i = get_file_path sp i"
  "get_file_path (sp\<lparr>sp_roffset := n\<rparr>) i = get_file_path sp i"
  "get_file_path (sp\<lparr>sp_woffset := n\<rparr>) i = get_file_path sp i"
  "get_file_path (sp\<lparr>sp_rid := n\<rparr>) i = get_file_path sp i"
  "get_file_path (sp\<lparr>sp_wid := n\<rparr>) i = get_file_path sp i"
  by (simp_all add: get_file_path_def)

lemma part_view [simp]:
  "part_ino (sp, fs) i = map_of (fs_dir fs) (get_file_path sp i)"
  "content (sp, fs) i = file_bytes fs (get_file_path sp i)"
  by (simp_all add: part_ino_def content_def)

lemma dir_ino_inject:
  assumes "dir_wf fs" "map_of (fs_dir fs) p = Some i" "map_of (fs_dir fs) q = Some i"
  shows "p = q"
proof -
  have "(p, i) \<in> set (fs_dir fs)" "(q, i) \<in> set (fs_dir fs)"
    using assms by (simp_all add: map_of_SomeD)
  moreover have "inj_on snd (set (fs_dir fs))"
    using assms(1) by (simp add: dir_wf_def distinct_map)
  ultimately show ?thesis by (metis Pair_inject inj_on_eq_iff snd_conv)
qed

lemma dir_ino_less: "dir_wf fs \<Longrightarrow> map_of (fs_dir fs) p = Some i \<Longrightarrow> i < fs_next fs"
  by (force simp: dir_wf_def dest: map_of_SomeD)

subsection \<open>What the accessor changes\<close>

lemma map_of_filter_name:
  "map_of (filter (\<lambda>(p, _). p \<noteq> name) ps) q = (if q = name then None else map_of ps q)"
  by (induction ps) auto

lemma da_remove_view [simp]:
  "map_of (fs_dir (da_remove name fs)) q = (if q = name then None else map_of (fs_dir fs) q)"
  "file_bytes (da_remove name fs) q = (if q = name then [] else file_bytes fs q)"
  "healthy (da_remove name fs) = healthy fs"
  by (auto simp: da_remove_def map_of_filter_name Let_def file_bytes_def healthy_def
      split: option.splits)

lemma da_remove_wf: "dir_wf fs \<Longrightarrow> dir_wf (da_remove name fs)"
  by (auto simp: dir_wf_def da_remove_def Let_def distinct_map intro: inj_on_subset
      split: option.splits)

lemma da_fwrite_cases:
  assumes "da_fwrite buf h fs = (n, fs')"
  obtains (refused) "n = 0" "fs' = fs\<lparr>fs_errno := ENOSPC\<rparr>"
      "da_limit_size fs \<noteq> 0" "\<not> da_current_size fs + of_nat (length buf) \<le> da_limit_size fs"
    | (written) "n = length buf" "fs' = fs\<lparr>da_current_size := da_current_size fs + of_nat (length buf),
          fs_data := (fs_data fs)(h_ino h := fs_data fs (h_ino h) @ buf)\<rparr>"
  using assms by (auto simp: da_fwrite_def split: if_splits)

lemma file_bytes_append:
  assumes "dir_wf fs" "map_of (fs_dir fs) p = Some i"
  shows "file_bytes (fs\<lparr>da_current_size := c, fs_data := (fs_data fs)(i := fs_data fs i @ buf)\<rparr>) q =
    (if q = p then file_bytes fs p @ buf else file_bytes fs q)"
proof (cases "map_of (fs_dir fs) q = Some i")
  case True
  with dir_ino_inject [OF assms] have "q = p" by blast
  with assms(2) show ?thesis by (simp add: file_bytes_def)
next
  case False
  with assms(2) show ?thesis by (auto simp: file_bytes_def split: option.split)
qed

lemma fs_field_views [simp]:
  "dir_wf (fs\<lparr>fs_errno := e\<rparr>) = dir_wf fs"
  "dir_wf (fs\<lparr>da_current_size := c\<rparr>) = dir_wf fs"
  "dir_wf (fs\<lparr>fs_data := d\<rparr>) = dir_wf fs"
  "healthy (fs\<lparr>fs_errno := e\<rparr>) = healthy fs"
  "healthy (fs\<lparr>da_current_size := c\<rparr>) = healthy fs"
  "healthy (fs\<lparr>fs_data := d\<rparr>) = healthy fs"
  "file_bytes (fs\<lparr>fs_errno := e\<rparr>) q = file_bytes fs q"
  "file_bytes (fs\<lparr>da_current_size := c\<rparr>) q = file_bytes fs q"
  by (simp_all add: dir_wf_def healthy_def file_bytes_def split: option.split)

text \<open>Opening a file for appending adds its name and changes the bytes of no file.\<close>

lemma da_fopen_a_spec:
  assumes "healthy fs" "dir_wf fs"
  obtains h fs1 where "da_fopen_a name fs = (Some h, fs1)" "healthy fs1" "dir_wf fs1"
    "map_of (fs_dir fs1) = (map_of (fs_dir fs))(name \<mapsto> h_ino h)"
    "file_bytes fs1 = file_bytes fs"
    "fs_data fs1 (h_ino h) = file_bytes fs name"
    "da_limit_size fs1 = da_limit_size fs" "da_current_size fs1 = da_current_size fs"
    "fs_flush_error fs1 = fs_flush_error fs"
proof (cases "map_of (fs_dir fs) name")
  case None
  define i where "i = fs_next fs"
  define fs1 where "fs1 = fs\<lparr>fs_dir := fs_dir fs @ [(name, i)], fs_data := (fs_data fs)(i := []),
      fs_next := Suc (fs_next fs)\<rparr>"
  have o: "da_fopen_a name fs = (Some \<lparr>h_fd = fs_next fs, h_ino = i\<rparr>, fs1)"
    using None assms(1) by (simp add: da_fopen_a_def new_handle_def healthy_def i_def fs1_def Let_def)
  have m: "map_of (fs_dir fs1) = (map_of (fs_dir fs))(name \<mapsto> i)"
    using None by (simp add: fs1_def fun_eq_iff map_add_def split: option.split)
  have d: "dir_wf fs1"
    using assms(2) None
    by (auto simp: dir_wf_def fs1_def i_def map_of_eq_None_iff less_Suc_eq)
  have b: "file_bytes fs1 = file_bytes fs"
  proof
    fix q
    have "k \<noteq> i" if "map_of (fs_dir fs) q = Some k" for k
      using dir_ino_less [OF assms(2) that] by (simp add: i_def)
    then show "file_bytes fs1 q = file_bytes fs q"
      using None by (auto simp: file_bytes_def m) (auto simp: fs1_def split: option.splits)
  qed
  have r: "healthy fs1" "da_limit_size fs1 = da_limit_size fs"
    "da_current_size fs1 = da_current_size fs" "fs_flush_error fs1 = fs_flush_error fs"
    using assms(1) by (simp_all add: fs1_def healthy_def)
  have n: "fs_data fs1 i = file_bytes fs name" using None by (simp add: fs1_def file_bytes_def)
  show ?thesis by (rule that [OF o r(1) d _ b]) (simp_all add: m r n)
next
  case (Some i)
  have o: "da_fopen_a name fs = (Some \<lparr>h_fd = fs_next fs, h_ino = i\<rparr>, fs\<lparr>fs_next := Suc (fs_next fs)\<rparr>)"
    using Some assms(1) by (simp add: da_fopen_a_def new_handle_def healthy_def)
  show ?thesis
    by (rule that [OF o]) (use assms Some in
        \<open>auto simp: healthy_def dir_wf_def file_bytes_def fun_eq_iff split: option.splits\<close>)
qed

subsection \<open>Accounting of the disk space\<close>

definition disk_usage :: "fs \<Rightarrow> nat" where
  "disk_usage fs = sum_list (map (\<lambda>(p, i). length (fs_data fs i)) (fs_dir fs))"

definition accounted :: "fs \<Rightarrow> bool" where
  "accounted fs \<longleftrightarrow> da_current_size fs = of_nat (disk_usage fs)"

lemma disk_usage_remove:
  assumes "dir_wf fs"
  shows "disk_usage fs = disk_usage (da_remove p fs) + length (file_bytes fs p)"
proof -
  have "sum_list (map (\<lambda>(p, i). length (d i)) ps) =
      sum_list (map (\<lambda>(p, i). length (d i)) (filter (\<lambda>(q, _). q \<noteq> p) ps)) +
      length (case map_of ps p of None \<Rightarrow> [] | Some i \<Rightarrow> d i)"
    if "distinct (map fst ps)" for ps and d :: "nat \<Rightarrow> bytes"
    using that
  proof (induction ps)
    case (Cons x ps)
    have "filter (\<lambda>(q, _). q \<noteq> p) ps = ps" if "fst x = p"
      using Cons.prems that by (intro filter_True) (auto, metis fst_conv image_eqI)
    moreover have "map_of ps p = None" if "fst x = p"
      using Cons.prems that by (simp add: map_of_eq_None_iff)
    ultimately show ?case using Cons by (cases x) auto
  qed simp
  from this [of "fs_dir fs" "fs_data fs"] assms show ?thesis
    by (auto simp: disk_usage_def da_remove_def Let_def file_bytes_def dir_wf_def split: option.splits)
qed

lemma accounted_remove:
  assumes "accounted fs" "dir_wf fs"
  shows "accounted (da_remove p fs)"
proof -
  have "da_current_size (da_remove p fs) = da_current_size fs - of_nat (length (file_bytes fs p))"
    by (auto simp: da_remove_def file_bytes_def Let_def split: option.splits)
  with assms(1) disk_usage_remove [OF assms(2), of p] show ?thesis
    by (simp add: accounted_def)
qed

lemma disk_usage_append:
  assumes "dir_wf fs" "map_of (fs_dir fs) p = Some i"
  shows "disk_usage (fs\<lparr>da_current_size := c, fs_data := (fs_data fs)(i := fs_data fs i @ buf)\<rparr>) =
    disk_usage fs + length buf"
proof -
  have "sum_list (map (\<lambda>(p, j). length ((d(i := d i @ buf)) j)) ps) =
      sum_list (map (\<lambda>(p, j). length (d j)) ps) + (if i \<in> snd ` set ps then length buf else 0)"
    if "distinct (map snd ps)" for ps :: "(string \<times> nat) list" and d :: "nat \<Rightarrow> bytes"
    using that by (induction ps) (auto simp: image_iff)
  from this [of "fs_dir fs" "fs_data fs"] assms map_of_SomeD [OF assms(2)] show ?thesis
    by (force simp: disk_usage_def dir_wf_def)
qed

lemma accounted_fwrite:
  assumes "accounted fs" "dir_wf fs" "map_of (fs_dir fs) p = Some (h_ino h)"
    and "da_fwrite buf h fs = (n, fs')"
  shows "accounted fs'"
  using assms(4)
proof (cases rule: da_fwrite_cases)
  case refused
  with assms(1) show ?thesis by (simp add: accounted_def disk_usage_def)
next
  case written
  with assms disk_usage_append [OF assms(2,3)] show ?thesis by (simp add: accounted_def)
qed


lemma accounted_fopen_a:
  assumes "healthy fs" "dir_wf fs" "accounted fs" "da_fopen_a p fs = (r, fs')"
  shows "accounted fs'"
proof (cases "map_of (fs_dir fs) p")
  case None
  define fs1 where "fs1 = fs\<lparr>fs_dir := fs_dir fs @ [(p, fs_next fs)],
      fs_data := (fs_data fs)(fs_next fs := []), fs_next := Suc (fs_next fs)\<rparr>"
  have "sum_list (map (\<lambda>(p, i). length ((d(n := [])) i)) ps) = sum_list (map (\<lambda>(p, i). length (d i)) ps)"
    if "\<forall>i \<in> snd ` set ps. i < n" for ps :: "(string \<times> nat) list" and d :: "nat \<Rightarrow> bytes" and n
    using that by (induction ps) auto
  from this [of "fs_dir fs" "fs_next fs" "fs_data fs"] assms(2)
  have "disk_usage fs1 = disk_usage fs"
    by (simp add: disk_usage_def fs1_def dir_wf_def)
  moreover have "fs' = fs1"
    using None assms by (simp add: da_fopen_a_def new_handle_def healthy_def Let_def fs1_def)
  ultimately show ?thesis using assms(3) by (simp add: accounted_def fs1_def)
next
  case (Some i)
  with assms show ?thesis
    by (auto simp: accounted_def disk_usage_def da_fopen_a_def new_handle_def healthy_def)
qed

lemma accounted_fields [simp]:
  "accounted (fs\<lparr>fs_errno := e\<rparr>) = accounted fs"
  "accounted (fs\<lparr>fs_next := n\<rparr>) = accounted fs"
  by (simp_all add: accounted_def disk_usage_def)

lemma later_parts_cong:
  assumes "sp_rid (fst s') = sp_rid (fst s)" "sp_wid (fst s') = sp_wid (fst s)"
    and "\<And>i. sp_rid (fst s) < i \<Longrightarrow> i \<le> sp_wid (fst s) \<Longrightarrow> payload s' i = payload s i"
  shows "later_parts s' = later_parts s"
  unfolding later_parts_def assms(1,2)
  by (rule concat_map_cong_set) (use assms(3) in auto)

lemma later_parts_same_part: "sp_rid (fst s) = sp_wid (fst s) \<Longrightarrow> later_parts s = []"
  by (simp add: later_parts_def)

lemma later_parts_last:
  "sp_rid (fst s) < sp_wid (fst s) \<Longrightarrow>
   later_parts s = concat (map (payload s) [Suc (sp_rid (fst s))..<sp_wid (fst s)])
     @ payload s (sp_wid (fst s))"
  by (simp add: later_parts_def)

lemma later_parts_first:
  "sp_rid (fst s) < sp_wid (fst s) \<Longrightarrow>
   later_parts s = payload s (Suc (sp_rid (fst s)))
     @ concat (map (payload s) [Suc (Suc (sp_rid (fst s)))..<Suc (sp_wid (fst s))])"
  by (simp add: later_parts_def upt_conv_Cons del: upt_Suc)

lemmas sp_defs = sp_inv_def parts_wf_def read_end_wf_def write_end_wf_def

lemma part_header_length [simp]: "length part_header = 8"
  by (simp add: part_header_def)

lemma errno_irrelevant [simp]:
  "sp_inv (sp, fs\<lparr>fs_errno := e\<rparr>) = sp_inv (sp, fs)"
  "pending (sp, fs\<lparr>fs_errno := e\<rparr>) = pending (sp, fs)"
proof -
  have "payload (sp, fs\<lparr>fs_errno := e\<rparr>) = payload (sp, fs)"
    by (simp add: payload_def fun_eq_iff)
  then show "pending (sp, fs\<lparr>fs_errno := e\<rparr>) = pending (sp, fs)"
    by (simp add: pending_def unread_def later_parts_def)
  show "sp_inv (sp, fs\<lparr>fs_errno := e\<rparr>) = sp_inv (sp, fs)"
    by (simp add: sp_defs split: option.split)
qed

text \<open>Opening the write end: the header is written, nothing waits more or less.\<close>

lemma open_write_file_spec:
  assumes "parts_wf s" "content s (sp_wid (fst s)) = []"
    and "read_end_wf s" and "sp_rid (fst s) = sp_wid (fst s) \<Longrightarrow> sp_rfile (fst s) = None"
  obtains b s' where "open_write_file s = (Inr b, s')" "sp_inv s'" "pending s' = pending s"
    "b \<longleftrightarrow> sp_wfile (fst s') \<noteq> None" "fs_flush_error (snd s') = fs_flush_error (snd s)"
    "sp_wid (fst s') = sp_wid (fst s)" "sp_max_file_size (fst s') = sp_max_file_size (fst s)"
    "b \<longrightarrow> content s' (sp_wid (fst s')) = part_header"
    "da_limit_size (snd s') = da_limit_size (snd s)"
    "da_limit_size (snd s) = 0 \<longrightarrow> b"
    "accounted (snd s) \<longrightarrow> accounted (snd s')"
proof -
  obtain sp fs where s: "s = (sp, fs)" by (cases s)
  let ?p = "get_file_path sp (sp_wid sp)"
  have H: "healthy fs" "dir_wf fs" using assms(1) by (simp_all add: parts_wf_def s)
  obtain h fs1 where o: "da_fopen_a ?p fs = (Some h, fs1)" "healthy fs1" "dir_wf fs1"
    and m: "map_of (fs_dir fs1) = (map_of (fs_dir fs))(?p \<mapsto> h_ino h)"
    and b: "file_bytes fs1 = file_bytes fs" and d: "fs_data fs1 (h_ino h) = file_bytes fs ?p"
    and l: "da_limit_size fs1 = da_limit_size fs" "da_current_size fs1 = da_current_size fs"
      "fs_flush_error fs1 = fs_flush_error fs"
    by (rule da_fopen_a_spec [OF H])
  have e: "file_bytes fs ?p = []" using assms(2) by (simp add: s)
  obtain n fs2 where w: "da_fwrite part_header h fs1 = (n, fs2)" by fastforce
  have a: "accounted fs \<longrightarrow> accounted fs2"
    using accounted_fopen_a [OF H _ o(1)] accounted_fwrite [OF _ o(3) _ w, of ?p] m by simp
  from w show thesis
  proof (cases rule: da_fwrite_cases)
    case refused
    define s' where "s' = (sp\<lparr>sp_wfile := None, sp_woffset := 0\<rparr>, fs2)"
    have r: "open_write_file s = (Inr False, s')"
      using o d e w refused by (simp add: open_write_file_def s s'_def Let_def)
    have "sp_inv s'"
      using assms o m b e refused by (auto simp: sp_defs s s'_def split: option.splits)
    moreover have "pending s' = pending s"
      using b refused by (auto simp: pending_def unread_def later_parts_def payload_def s s'_def
          intro!: concat_map_cong_set)
    ultimately show thesis
      using refused l a by (intro that [OF r]) (auto simp: s'_def s)
  next
    case written
    define s' where "s' = (sp\<lparr>sp_wfile := Some h, sp_woffset := 8\<rparr>, fs2)"
    have r: "open_write_file s = (Inr True, s')"
      using o d e w written by (simp add: open_write_file_def s s'_def Let_def)
    have f: "file_bytes fs2 q = (if q = ?p then part_header else file_bytes fs q)" for q
      using file_bytes_append [OF o(3), of ?p "h_ino h"] m e b by (simp add: written)
    have g: "map_of (fs_dir fs2) = (map_of (fs_dir fs))(?p \<mapsto> h_ino h)" "healthy fs2" "dir_wf fs2"
      using m o by (simp_all add: written)
    have "sp_inv s'"
      using assms g f e by (auto simp: sp_defs s s'_def split: option.splits)
    moreover have "pending s' = pending s"
    proof -
      have "payload s' i = payload s i" for i
        using e by (simp add: payload_def s s'_def f part_header_def)
      moreover have "unread s' = unread s"
        using assms(4) e by (auto simp: unread_def s s'_def f part_header_def)
      ultimately show ?thesis
        by (simp add: pending_def later_parts_def s s'_def cong: map_cong)
    qed
    ultimately show thesis
      using l f a by (intro that [OF r]) (simp_all add: s'_def s, simp_all add: written)
  qed
qed

lemma write_payload_spec:
  assumes "sp_inv s" "sp_wfile (fst s) \<noteq> None"
  obtains n s' where "write_payload buf s = (Inr n, s')" "sp_inv s'"
    "n = 0 \<or> n = length buf" "pending s' = pending s @ take n buf"
    "da_limit_size (snd s) = 0 \<longrightarrow> n = length buf"
    "accounted (snd s) \<longrightarrow> accounted (snd s')" "sp_wfile (fst s') = sp_wfile (fst s)"
proof -
  obtain sp fs where s: "s = (sp, fs)" by (cases s)
  obtain h where h: "sp_wfile sp = Some h" using assms(2) by (auto simp: s)
  let ?p = "get_file_path sp (sp_wid sp)"
  have i: "map_of (fs_dir fs) ?p = Some (h_ino h)" "dir_wf fs" "healthy fs"
      "sp_woffset sp = length (file_bytes fs ?p)" "8 \<le> length (file_bytes fs ?p)"
      "sp_rid sp \<le> sp_wid sp"
    using assms(1) h by (auto simp: sp_defs s)
  obtain n fs1 where w: "da_fwrite buf h fs = (n, fs1)" by fastforce
  have a: "accounted fs \<longrightarrow> accounted fs1" using accounted_fwrite [OF _ i(2,1) w] by simp
  from w show thesis
  proof (cases rule: da_fwrite_cases)
    case refused
    have r: "write_payload buf s = (Inr 0, (sp, fs1))"
      using h w refused by (auto simp: write_payload_def s)
    show thesis
      using assms(1) refused a by (intro that [OF r]) (auto simp: s)
  next
    case written
    define s' where "s' = (sp\<lparr>sp_woffset := sp_woffset sp + length buf\<rparr>, fs1)"
    have r: "write_payload buf s = (Inr n, s')"
      using h w written by (simp add: write_payload_def s s'_def)
    have f: "file_bytes fs1 q = (if q = ?p then file_bytes fs ?p @ buf else file_bytes fs q)" for q
      using file_bytes_append [OF i(2,1)] by (simp add: written)
    have g: "fs_dir fs1 = fs_dir fs" "healthy fs1" "dir_wf fs1" using i by (simp_all add: written)
    have "sp_inv s'"
      using assms(1) g f h by (auto simp: sp_defs s s'_def split: option.splits)
    moreover have "pending s' = pending s @ buf"
    proof (cases "sp_rid sp = sp_wid sp")
      case True
      have "sp_rfile sp \<noteq> None \<longrightarrow> sp_roffset sp \<le> length (file_bytes fs ?p)"
        using assms(1) True by (auto simp: sp_defs s split: option.splits)
      with True i(5) show ?thesis
        by (simp add: pending_def unread_def later_parts_same_part s s'_def f)
    next
      case False
      then have lt: "sp_rid sp < sp_wid sp" using i(6) by simp
      have "concat (map (payload s') [Suc (sp_rid sp)..<sp_wid sp]) =
          concat (map (payload s) [Suc (sp_rid sp)..<sp_wid sp])"
        by (rule concat_map_cong_set) (auto simp: payload_def s s'_def f)
      moreover have "payload s' (sp_wid sp) = payload s (sp_wid sp) @ buf"
        using i(5) by (simp add: payload_def s s'_def f)
      moreover have "unread s' = unread s" using lt by (auto simp: unread_def s s'_def f)
      ultimately show ?thesis
        using lt by (simp add: pending_def later_parts_last s s'_def)
    qed
    ultimately show thesis
      using a by (intro that [OF r]) (simp_all add: s'_def s, simp_all add: written)
  qed
qed


lemma next_write_file_spec:
  assumes "sp_inv s" "sp_wfile (fst s) \<noteq> None"
  obtains r s' where "next_write_file buf s = (r, s')" "sp_inv s'" "pending s' = pending s"
    "r = Inr True \<longrightarrow> sp_wfile (fst s') \<noteq> None"
    "da_limit_size (snd s') = da_limit_size (snd s)"
    "da_limit_size (snd s) = 0 \<longrightarrow> r = Inr True \<or> fs_flush_error (snd s) \<and> r = Inl Msg_fmt"
    "accounted (snd s) \<longrightarrow> accounted (snd s')"
proof -
  obtain sp fs where s: "s = (sp, fs)" by (cases s)
  show thesis
  proof (cases "int (sp_woffset sp + length buf) > uint (sp_max_file_size sp) \<and> \<not> fs_flush_error fs")
    case True
    define s1 where "s1 = (sp\<lparr>sp_wid := Suc (sp_wid sp)\<rparr>, fs)"
    have p: "parts_wf s1"
      using assms by (auto simp: sp_defs s s1_def less_Suc_eq split: option.splits)
    have none: "map_of (fs_dir fs) (get_file_path sp (Suc (sp_wid sp))) = None"
      using assms(1) by (simp add: sp_defs s)
    have c: "content s1 (sp_wid (fst s1)) = []"
      using none by (simp add: s1_def file_bytes_def)
    have h: "read_end_wf s1"
      using assms(1) by (auto simp: sp_defs s s1_def split: option.splits)
    have n: "sp_rfile (fst s1) = None" if "sp_rid (fst s1) = sp_wid (fst s1)"
      using that assms(1) by (simp add: sp_defs s s1_def)
    have q: "pending s1 = pending s"
    proof -
      have "payload s1 = payload s" by (simp add: payload_def s s1_def fun_eq_iff)
      moreover have "payload s (Suc (sp_wid sp)) = []"
        using none by (simp add: payload_def s file_bytes_def)
      ultimately show ?thesis
        using assms(1) by (simp add: pending_def unread_def later_parts_def s s1_def sp_defs)
    qed
    have e: "next_write_file buf s = open_write_file s1"
      using True by (simp add: next_write_file_def s s1_def)
    have z: "snd s1 = snd s" by (simp add: s s1_def)
    obtain b s' where "open_write_file s1 = (Inr b, s')" "sp_inv s'" "pending s' = pending s1"
      "b \<longleftrightarrow> sp_wfile (fst s') \<noteq> None" "da_limit_size (snd s') = da_limit_size (snd s1)"
      "da_limit_size (snd s1) = 0 \<longrightarrow> b" "accounted (snd s1) \<longrightarrow> accounted (snd s')"
      by (rule open_write_file_spec [OF p c h n])
    then show thesis
      by (intro that [of "Inr b" s']) (auto simp: e q z)
  next
    case False
    with assms show thesis
      by (intro that [OF prod.collapse [symmetric]])
        (auto simp: next_write_file_def s split: if_splits)
  qed
qed


lemma splitter_write_spec:
  assumes "sp_inv s"
  obtains (refused) e s' where "splitter_write buf s = (Inl e, s')" "sp_inv s'"
      "pending s' = pending s" "da_limit_size (snd s) = 0 \<longrightarrow> fs_flush_error (snd s)"
      "accounted (snd s) \<longrightarrow> accounted (snd s')"
    | (accepted) n s' where "splitter_write buf s = (Inr n, s')" "sp_inv s'"
      "n = 0 \<or> n = length buf" "pending s' = pending s @ take n buf"
      "da_limit_size (snd s) = 0 \<longrightarrow> n = length buf \<and> sp_wfile (fst s') \<noteq> None"
      "accounted (snd s) \<longrightarrow> accounted (snd s')"
proof -
  have "\<exists>b s1. (if sp_wfile (fst s) = None then open_write_file s else (Inr True, s)) = (Inr b, s1) \<and>
      sp_inv s1 \<and> pending s1 = pending s \<and> (b \<longrightarrow> sp_wfile (fst s1) \<noteq> None) \<and>
      da_limit_size (snd s1) = da_limit_size (snd s) \<and> (da_limit_size (snd s) = 0 \<longrightarrow> b) \<and>
      fs_flush_error (snd s1) = fs_flush_error (snd s) \<and> (accounted (snd s) \<longrightarrow> accounted (snd s1))"
  proof (cases "sp_wfile (fst s)")
    case None
    have c: "parts_wf s" "content s (sp_wid (fst s)) = []" "read_end_wf s"
      and n: "sp_rid (fst s) = sp_wid (fst s) \<Longrightarrow> sp_rfile (fst s) = None"
      using assms None by (auto simp: sp_defs split: option.splits)
    obtain b s' where "open_write_file s = (Inr b, s')" "sp_inv s'" "pending s' = pending s"
      "b \<longleftrightarrow> sp_wfile (fst s') \<noteq> None" "da_limit_size (snd s') = da_limit_size (snd s)"
      "da_limit_size (snd s) = 0 \<longrightarrow> b" "fs_flush_error (snd s') = fs_flush_error (snd s)"
      "accounted (snd s) \<longrightarrow> accounted (snd s')"
      by (rule open_write_file_spec [OF c n])
    with None show ?thesis by auto
  next
    case (Some h)
    with assms show ?thesis by auto
  qed
  then obtain b s1 where 1: "(if sp_wfile (fst s) = None then open_write_file s else (Inr True, s)) = (Inr b, s1)"
      "sp_inv s1" "pending s1 = pending s" "b \<longrightarrow> sp_wfile (fst s1) \<noteq> None"
      "da_limit_size (snd s1) = da_limit_size (snd s)" "da_limit_size (snd s) = 0 \<longrightarrow> b"
      "fs_flush_error (snd s1) = fs_flush_error (snd s)" "accounted (snd s) \<longrightarrow> accounted (snd s1)"
    by blast
  show thesis
  proof (cases b)
    case False
    with 1 show thesis by (intro accepted [of 0 s1]) (auto simp: splitter_write_def)
  next
    case True
    obtain r s2 where 2: "next_write_file buf s1 = (r, s2)" "sp_inv s2" "pending s2 = pending s1"
      "r = Inr True \<longrightarrow> sp_wfile (fst s2) \<noteq> None" "da_limit_size (snd s2) = da_limit_size (snd s1)"
      "da_limit_size (snd s1) = 0 \<longrightarrow> r = Inr True \<or> fs_flush_error (snd s1) \<and> r = Inl Msg_fmt"
      "accounted (snd s1) \<longrightarrow> accounted (snd s2)"
      by (rule next_write_file_spec [OF 1(2)]) (use 1 True in auto)
    consider (exn) e where "r = Inl e" | (full) "r = Inr False" | (ok) "r = Inr True"
      by (cases r) auto
    then show thesis
    proof cases
      case exn
      with 1 2 True show thesis by (intro refused [of e s2]) (auto simp: splitter_write_def)
    next
      case full
      with 1 2 True show thesis
        by (intro accepted [of 0 s2]) (auto simp: splitter_write_def)
    next
      case ok
      obtain n s3 where "write_payload buf s2 = (Inr n, s3)" "sp_inv s3"
          "n = 0 \<or> n = length buf" "pending s3 = pending s2 @ take n buf"
          "da_limit_size (snd s2) = 0 \<longrightarrow> n = length buf" "accounted (snd s2) \<longrightarrow> accounted (snd s3)"
          "sp_wfile (fst s3) = sp_wfile (fst s2)"
        by (rule write_payload_spec [OF 2(2)]) (use 2 ok in auto)
      with ok 1 2 True show thesis
        by (intro accepted [of n s3]) (auto simp: splitter_write_def)
    qed
  qed
qed

declare splitter_read.simps [simp del]

text \<open>The read end: what opening it does, then one round on an open part.\<close>

lemma ensure_rfile_spec:
  assumes "sp_inv s"
  obtains (opened) h s1 where "ensure_rfile s = (Inr (), s1)" "sp_rfile (fst s1) = Some h"
      "sp_inv s1" "pending s1 = pending s" "accounted (snd s) \<longrightarrow> accounted (snd s1)"
      "sp_wfile (fst s1) = sp_wfile (fst s)"
    | (missing) s1 where "ensure_rfile s = (Inr (), s1)" "sp_rfile (fst s1) = None"
      "sp_inv s1" "pending s1 = []" "pending s = []" "accounted (snd s) \<longrightarrow> accounted (snd s1)"
      "sp_wfile (fst s) = None"
    | (stale) h s1 where "ensure_rfile s = (Inr (), s1)" "sp_rfile (fst s1) = Some h"
      "parts_wf s1" "sp_rid (fst s1) = sp_wid (fst s1)" "sp_wfile (fst s1) = None"
      "fs_data (snd s1) (h_ino h) = []" "pending s = []" "accounted (snd s) \<longrightarrow> accounted (snd s1)"
      "sp_wfile (fst s) = None"
proof (cases "sp_rfile (fst s)")
  case (Some h)
  then show thesis using assms opened [of s h] by (simp add: ensure_rfile_def)
next
  case None
  obtain sp fs where s: "s = (sp, fs)" by (cases s)
  let ?p = "get_file_path sp (sp_rid sp)"
  have e: "ensure_rfile (sp, fs) = open_read_file (sp, fs)"
    using None by (simp add: ensure_rfile_def s)
  have H: "healthy fs" "dir_wf fs" "sp_rid sp \<le> sp_wid sp" using assms by (simp_all add: sp_defs s)
  show thesis
  proof (cases "sp_rid sp = sp_wid sp \<and> sp_wfile sp \<noteq> None")
    case True
    then obtain h where h: "sp_wfile sp = Some h" by blast
    define s1 where "s1 = (sp\<lparr>sp_rfile := Some h, sp_roffset := 8\<rparr>, fs)"
    have "sp_inv s1" using assms True h by (simp add: sp_defs s s1_def)
    moreover have "pending s1 = pending s"
      using None True by (simp add: pending_def unread_def later_parts_same_part s s1_def)
    ultimately show thesis
      using True h by (intro opened [of s1 h]) (simp_all add: e open_read_file_def s s1_def)
  next
    case False
    note no_share = this
    show thesis
    proof (cases "map_of (fs_dir fs) ?p")
      case None2: None
      have eq: "sp_rid sp = sp_wid sp"
        using assms None2 H(3) by (force simp: sp_defs s file_bytes_def)
      define s1 where "s1 = (sp\<lparr>sp_rfile := None\<rparr>, fs\<lparr>fs_errno := ENOENT\<rparr>)"
      have "sp\<lparr>sp_rfile := None\<rparr> = sp" using None by (simp add: s)
      then have "sp_inv s1" "pending s1 = pending s" using assms by (simp_all add: s s1_def)
      moreover have "pending s = []"
        using None2 eq None by (simp add: pending_def unread_def later_parts_same_part s file_bytes_def)
      ultimately show thesis
        using no_share None2 H eq by (intro missing [of s1])
          (auto simp: e open_read_file_def da_fopen_r_def healthy_def s s1_def)
    next
      case (Some i)
      define h where "h = \<lparr>h_fd = fs_next fs, h_ino = i\<rparr>"
      define s1 where "s1 = (sp\<lparr>sp_rfile := Some h, sp_roffset := 8\<rparr>, fs\<lparr>fs_next := Suc (fs_next fs)\<rparr>)"
      have r: "ensure_rfile s = (Inr (), s1)"
        using no_share Some H
        by (auto simp: e open_read_file_def da_fopen_r_def new_handle_def healthy_def s s1_def h_def)
      have d: "dir_wf (fs\<lparr>fs_next := Suc (fs_next fs)\<rparr>)" "healthy (fs\<lparr>fs_next := Suc (fs_next fs)\<rparr>)"
        "file_bytes (fs\<lparr>fs_next := Suc (fs_next fs)\<rparr>) = file_bytes fs"
        using H by (auto simp: dir_wf_def healthy_def file_bytes_def fun_eq_iff split: option.split)
      have p: "parts_wf s1" using assms d by (simp add: sp_defs s s1_def)
      show thesis
      proof (cases "sp_rid sp = sp_wid sp")
        case True
        with no_share have "file_bytes fs ?p = []" using assms by (simp add: sp_defs s)
        moreover from this have "fs_data fs i = []" using Some by (simp add: file_bytes_def)
        ultimately show thesis
          using True no_share None p
          by (intro stale [OF r, of h])
            (simp_all add: s1_def h_def s pending_def unread_def later_parts_same_part)
      next
        case False
        have "sp_inv s1"
          using assms p False d Some H(3)
          by (auto simp: sp_defs s s1_def h_def split: option.splits)
        moreover have "payload s1 = payload s" by (simp add: payload_def s s1_def d fun_eq_iff)
        then have "pending s1 = pending s"
          using None by (simp add: pending_def unread_def later_parts_def s s1_def d)
        ultimately show thesis by (intro opened [OF r, of h]) (simp_all add: s s1_def)
      qed
    qed
  qed
qed

lemma read_once_spec:
  assumes "sp_inv s" "sp_rfile (fst s) = Some h" "0 < n"
  obtains (data) d s' where "read_once n h s = (Some (Inr d), s')" "d \<noteq> []" "length d \<le> n"
      "sp_inv s'" "pending s = d @ pending s'" "accounted (snd s) \<longrightarrow> accounted (snd s')"
      "sp_wfile (fst s') = sp_wfile (fst s)"
    | (advance) s' where "read_once n h s = (None, s')" "sp_inv s'" "pending s' = pending s" "accounted (snd s) \<longrightarrow> accounted (snd s')"
      "sp_wfile (fst s') = sp_wfile (fst s)"
    | (finished) s' where "read_once n h s = (Some (Inl Shutdown), s')" "sp_inv s'"
      "pending s = []" "pending s' = []" "accounted (snd s) \<longrightarrow> accounted (snd s')"
proof -
  obtain sp fs where s: "s = (sp, fs)" by (cases s)
  let ?p = "get_file_path sp (sp_rid sp)"
  have I: "map_of (fs_dir fs) ?p = Some (h_ino h)" "healthy fs" "dir_wf fs" "sp_auto_delete sp"
      "sp_rid sp \<le> sp_wid sp" "sp_rfile sp = Some h"
    using assms by (simp_all add: sp_defs s)
  have u: "unread s = drop (sp_roffset sp) (fs_data fs (h_ino h))"
    using I by (simp add: unread_def s file_bytes_def)
  define d where "d = take n (unread s)"
  have f: "da_fread h (sp_roffset sp) n fs = (d, length d < n, fs)"
    using I(2) by (simp add: da_fread_def healthy_def d_def u)
  show thesis
  proof (cases "unread s = []")
    case False
    define s' where "s' = (sp\<lparr>sp_roffset := sp_roffset sp + length d\<rparr>, fs)"
    have dn: "d \<noteq> []" "length d \<le> n" using False assms(3) by (simp_all add: d_def)
    have r: "read_once n h s = (Some (Inr d), s')"
      using f dn by (simp add: read_once_def s s'_def)
    have "unread s = d @ drop (length d) (unread s)"
      by (cases "n \<le> length (unread s)") (simp_all add: d_def)
    then have un: "unread s = d @ unread s'"
      using I by (simp add: u unread_def s s'_def file_bytes_def add.commute)
    have "sp_roffset sp + length d \<le> length (fs_data fs (h_ino h))"
      using dn(1) by (auto simp: d_def u min_def)
    then have "sp_inv s'"
      using assms(1) I by (auto simp: sp_defs s s'_def file_bytes_def split: option.splits)
    moreover have "later_parts s' = later_parts s"
      by (rule later_parts_cong) (simp_all add: s s'_def payload_def)
    ultimately show thesis
      using un by (intro data [OF r dn]) (simp_all add: pending_def s s'_def)
  next
    case True
    then have d0: "d = []" by (simp add: d_def)
    define fs1 where "fs1 = da_remove ?p fs"
    have g: "dir_wf fs1" "healthy fs1"
        "\<And>q. map_of (fs_dir fs1) q = (if q = ?p then None else map_of (fs_dir fs) q)"
        "\<And>q. file_bytes fs1 q = (if q = ?p then [] else file_bytes fs q)"
      using I by (simp_all add: fs1_def da_remove_wf)
    have a: "accounted fs \<longrightarrow> accounted fs1" using I(3) by (simp add: fs1_def accounted_remove)
    show thesis
    proof (cases "sp_rid sp = sp_wid sp")
      case True2: True
      define s' where "s' = (sp\<lparr>sp_rfile := None, sp_wfile := None\<rparr>, fs1)"
      have w: "sp_wfile sp = Some h" using assms(1) True2 I(6) by (simp add: sp_defs s)
      have "read_once n h s = (Some (Inl Shutdown), s')"
        using f d0 I True2 w assms(3) by (simp add: read_once_def s s'_def fs1_def)
      moreover have "sp_inv s'" using assms(1) g True2 by (simp add: sp_defs s s'_def)
      moreover have "pending s = []"
        using True True2 by (simp add: pending_def later_parts_same_part s)
      moreover have "pending s' = []"
        using True2 g by (simp add: pending_def unread_def later_parts_same_part s'_def)
      moreover have "accounted (snd s) \<longrightarrow> accounted (snd s')" using a by (simp add: s s'_def)
      ultimately show thesis by (rule finished)
    next
      case False
      then have lt: "sp_rid sp < sp_wid sp" using I(5) by simp
      define s' where "s' = (sp\<lparr>sp_rfile := None, sp_rid := Suc (sp_rid sp)\<rparr>, fs1)"
      have "read_once n h s = (None, s')"
        using f d0 I lt assms(3) by (simp add: read_once_def s s'_def fs1_def)
      moreover have "sp_inv s'"
        using assms(1) g lt by (auto simp: sp_defs s s'_def split: option.splits)
      moreover have "pending s' = pending s"
      proof -
        have "concat (map (payload s') [Suc (Suc (sp_rid sp))..<Suc (sp_wid sp)]) =
            concat (map (payload s) [Suc (Suc (sp_rid sp))..<Suc (sp_wid sp)])"
          by (rule concat_map_cong_set) (auto simp: payload_def s s'_def g)
        with True lt show ?thesis
          by (simp add: pending_def later_parts_first s del: upt_Suc)
            (simp add: unread_def later_parts_def payload_def s s'_def g del: upt_Suc)
      qed
      moreover have "accounted (snd s) \<longrightarrow> accounted (snd s')" using a by (simp add: s s'_def)
      moreover have "sp_wfile (fst s') = sp_wfile (fst s)" by (simp add: s s'_def)
      ultimately show thesis by (rule advance)
    qed
  qed
qed

lemma splitter_read_spec:
  assumes "sp_inv s" "0 < n" "splitter_read n s = (r, s')"
  shows "sp_inv s' \<and> (accounted (snd s) \<longrightarrow> accounted (snd s')) \<and>
    (case r of Inr d \<Rightarrow> pending s = d @ pending s' \<and> length d \<le> n \<and> (d = [] \<longrightarrow> pending s = []) \<and>
         (sp_wfile (fst s) \<noteq> None \<longrightarrow> d \<noteq> [] \<and> sp_wfile (fst s') \<noteq> None)
     | Inl e \<Rightarrow> e = Shutdown \<and> pending s = [] \<and> pending s' = [])"
  using assms
proof (induction n s rule: splitter_read.induct)
  case (1 n s)
  show ?case
    using 1(2)
  proof (cases rule: ensure_rfile_spec)
    case (opened h s1)
    show ?thesis
      using opened(3,2) 1(3)
    proof (cases rule: read_once_spec)
      case (data d s2)
      with 1(4) opened show ?thesis by (simp add: splitter_read.simps [of n s]) auto
    next
      case (advance s2)
      have "splitter_read n s2 = (r, s')"
        using 1(4) opened advance by (simp add: splitter_read.simps [of n s])
      with 1(1) [OF opened(1)[symmetric] refl opened(2) advance(1)[symmetric] refl] 1(3) advance opened
      show ?thesis by (cases r) auto
    next
      case (finished s2)
      with 1(4) opened show ?thesis by (simp add: splitter_read.simps [of n s]) auto
    qed
  next
    case (missing s1)
    with 1(4) show ?thesis by (simp add: splitter_read.simps [of n s]) auto
  next
    case (stale h s1)
    obtain sp fs where s1: "s1 = (sp, fs)" by (cases s1)
    let ?fs = "da_remove (get_file_path sp (sp_rid sp)) fs"
    have p: "sp_auto_delete sp" "healthy fs" "dir_wf fs" using stale by (simp_all add: parts_wf_def s1)
    have "da_fread h (sp_roffset sp) n fs = ([], True, fs)"
      using stale p 1(3) by (simp add: da_fread_def healthy_def s1)
    then have ro: "read_once n h s1 = (Some (Inl Shutdown), (sp\<lparr>sp_rfile := None\<rparr>, ?fs))"
      using stale p by (simp add: read_once_def s1)
    have "sp_inv (sp\<lparr>sp_rfile := None\<rparr>, ?fs)"
      using stale p by (auto simp: sp_defs s1 da_remove_wf)
    moreover have "pending (sp\<lparr>sp_rfile := None\<rparr>, ?fs) = []"
      using stale by (simp add: pending_def unread_def later_parts_same_part s1)
    moreover have "r = Inl Shutdown \<and> s' = (sp\<lparr>sp_rfile := None\<rparr>, ?fs)"
      using 1(4) stale(1,2) ro by (simp add: splitter_read.simps [of n s])
    ultimately show ?thesis using stale p by (simp add: s1 accounted_remove)
  qed
qed

subsection \<open>The interface: a queue of bytes\<close>

text \<open>
  What the stream above relies on. \<open>run_queue\<close> executes a sequence of calls, in the order the
  producer and the consumer make them, and collects the accepted and the delivered bytes.
\<close>

datatype byte_op = Put bytes | Get nat

fun run_queue :: "(bytes \<Rightarrow> 's \<Rightarrow> ('s, nat) outcome) \<Rightarrow> (nat \<Rightarrow> 's \<Rightarrow> ('s, bytes) outcome) \<Rightarrow>
    byte_op list \<Rightarrow> 's \<Rightarrow> bytes \<times> bytes \<times> 's" where
  "run_queue put get [] s = ([], [], s)"
| "run_queue put get (Put b # ops) s =
     (let (r, s1) = put b s;
          (acc, del, s2) = run_queue put get ops s1
      in ((case r of Inr n \<Rightarrow> take n b | Inl _ \<Rightarrow> []) @ acc, del, s2))"
| "run_queue put get (Get n # ops) s =
     (let (r, s1) = get n s;
          (acc, del, s2) = run_queue put get ops s1
      in (acc, (case r of Inr d \<Rightarrow> d | Inl _ \<Rightarrow> []) @ del, s2))"

locale byte_queue =
  fixes inv :: "'s \<Rightarrow> bool"
    and waiting :: "'s \<Rightarrow> bytes"
    and put :: "bytes \<Rightarrow> 's \<Rightarrow> ('s, nat) outcome"
    and get :: "nat \<Rightarrow> 's \<Rightarrow> ('s, bytes) outcome"
  assumes put_ok: "inv s \<Longrightarrow> put b s = (Inr n, s') \<Longrightarrow>
      inv s' \<and> (n = 0 \<or> n = length b) \<and> waiting s' = waiting s @ take n b"
    and put_exn: "inv s \<Longrightarrow> put b s = (Inl e, s') \<Longrightarrow> inv s' \<and> waiting s' = waiting s"
    and get_ok: "inv s \<Longrightarrow> 0 < n \<Longrightarrow> get n s = (Inr d, s') \<Longrightarrow>
      inv s' \<and> waiting s = d @ waiting s' \<and> length d \<le> n \<and> (d = [] \<longrightarrow> waiting s = [])"
    and get_exn: "inv s \<Longrightarrow> 0 < n \<Longrightarrow> get n s = (Inl e, s') \<Longrightarrow>
      inv s' \<and> e = Shutdown \<and> waiting s = [] \<and> waiting s' = []"
begin

lemma get_nonempty:
  assumes "inv s" "0 < n" "waiting s \<noteq> []"
  obtains d s' where "get n s = (Inr d, s')" "inv s'" "d \<noteq> []" "waiting s = d @ waiting s'"
proof -
  obtain r s' where g: "get n s = (r, s')" by fastforce
  show thesis
  proof (cases r)
    case (Inl e)
    with g get_exn [OF assms(1,2)] assms(3) show thesis by blast
  next
    case (Inr d)
    with g get_ok [OF assms(1,2)] assms(3) show thesis by (intro that [of d s']) auto
  qed
qed

lemma run_fifo:
  assumes "inv s" "\<forall>n. Get n \<in> set ops \<longrightarrow> 0 < n" "run_queue put get ops s = (acc, del, s')"
  shows "inv s' \<and> waiting s @ acc = del @ waiting s'"
  using assms
proof (induction ops arbitrary: s acc del)
  case Nil
  then show ?case by simp
next
  case (Cons op ops)
  show ?case
  proof (cases op)
    case (Put b)
    obtain r s1 where p: "put b s = (r, s1)" by fastforce
    obtain a d where q: "run_queue put get ops s1 = (a, d, s')" "del = d"
        "acc = (case r of Inr n \<Rightarrow> take n b | Inl _ \<Rightarrow> []) @ a"
      using Cons.prems(3) p by (auto simp: Put split: prod.splits)
    have "inv s1 \<and> waiting s1 = waiting s @ (case r of Inr n \<Rightarrow> take n b | Inl _ \<Rightarrow> [])"
      using p put_ok [OF Cons.prems(1)] put_exn [OF Cons.prems(1)] by (cases r) auto
    with Cons.IH [of s1] Cons.prems(2) q show ?thesis by simp
  next
    case (Get n)
    then have n: "0 < n" using Cons.prems(2) by simp
    obtain r s1 where p: "get n s = (r, s1)" by fastforce
    obtain a d where q: "run_queue put get ops s1 = (a, d, s')" "acc = a"
        "del = (case r of Inr x \<Rightarrow> x | Inl _ \<Rightarrow> []) @ d"
      using Cons.prems(3) p by (auto simp: Get split: prod.splits)
    have "inv s1 \<and> waiting s = (case r of Inr x \<Rightarrow> x | Inl _ \<Rightarrow> []) @ waiting s1"
      using p get_ok [OF Cons.prems(1) n] get_exn [OF Cons.prems(1) n] by (cases r) auto
    with Cons.IH [of s1] Cons.prems(2) q show ?thesis by simp
  qed
qed

text \<open>Reading until nothing waits takes at most one call per byte.\<close>

lemma drain:
  assumes "inv s" "0 < n" "length (waiting s) \<le> k"
  shows "\<exists>s'. run_queue put get (replicate k (Get n)) s = ([], waiting s, s') \<and> inv s' \<and> waiting s' = []"
  using assms
proof (induction k arbitrary: s)
  case 0
  then show ?case by simp
next
  case (Suc k)
  obtain r s1 where g: "get n s = (r, s1)" by fastforce
  have r: "inv s1 \<and> waiting s = (case r of Inr x \<Rightarrow> x | Inl _ \<Rightarrow> []) @ waiting s1 \<and>
      length (waiting s1) \<le> k"
  proof (cases r)
    case (Inl e)
    with g get_exn [OF Suc.prems(1,2)] show ?thesis by auto
  next
    case (Inr d)
    with g get_ok [OF Suc.prems(1,2)] have "inv s1" "waiting s = d @ waiting s1" "d = [] \<longrightarrow> waiting s = []"
      by auto
    with Inr Suc.prems(3) show ?thesis by (cases d) auto
  qed
  then obtain s' where "run_queue put get (replicate k (Get n)) s1 = ([], waiting s1, s')"
      "inv s'" "waiting s' = []"
    using Suc.IH Suc.prems(2) by blast
  with g r show ?case by simp
qed

end

interpretation spq: byte_queue sp_inv pending splitter_write splitter_read
proof
  fix s b n s'
  assume "sp_inv s" "splitter_write b s = (Inr n, s')"
  then show "sp_inv s' \<and> (n = 0 \<or> n = length b) \<and> pending s' = pending s @ take n b"
    by (cases rule: splitter_write_spec [of s b]) auto
next
  fix s b e s'
  assume "sp_inv s" "splitter_write b s = (Inl e, s')"
  then show "sp_inv s' \<and> pending s' = pending s"
    by (cases rule: splitter_write_spec [of s b]) auto
next
  fix s n d s'
  assume "sp_inv s" "0 < n" "splitter_read n s = (Inr d, s')"
  from splitter_read_spec [OF this]
  show "sp_inv s' \<and> pending s = d @ pending s' \<and> length d \<le> n \<and> (d = [] \<longrightarrow> pending s = [])"
    unfolding sum.case by blast
next
  fix s n e s'
  assume "sp_inv s" "0 < n" "splitter_read n s = (Inl e, s')"
  from splitter_read_spec [OF this]
  show "sp_inv s' \<and> e = Shutdown \<and> pending s = [] \<and> pending s' = []"
    by simp
qed

subsection \<open>Opening a splitter on existing files\<close>

text \<open>No file of the directory is taken for a part but the parts of the splitter.\<close>

definition own_parts :: "sfs \<Rightarrow> bool" where
  "own_parts s \<longleftrightarrow>
     (\<forall>p \<in> set (part_names (sp_base_path (fst s)) (snd s)).
        \<exists>i. sp_rid (fst s) \<le> i \<and> i \<le> sp_wid (fst s) \<and> p = get_file_path (fst s) i)"

text \<open>The bytes of the current part that were read before.\<close>

definition reread :: "sfs \<Rightarrow> bytes" where
  "reread s = (if sp_rfile (fst s) = None then []
               else take (sp_roffset (fst s) - 8) (payload s (sp_rid (fst s))))"

lemma to_int32_small: "n < 2 ^ 31 \<Longrightarrow> to_int32 (int n) = int n"
  using int_word_sint [of "int n", where 'a = 32] by (simp add: to_int32_def)

lemma no_slash_dec: "CHR ''/'' \<notin> set (dec n)"
  using dec_digits [of "CHR ''/''" n] by (auto simp: is_digit_def)

lemma part_names_path:
  assumes "map_of (fs_dir fs) (get_file_path sp i) = Some ino"
  shows "get_file_path sp i \<in> set (part_names (sp_base_path sp) fs)"
  using map_of_SomeD [OF assms]
  by (force simp: part_names_def get_file_path_def no_slash_dec split: if_splits)

lemma part_number_path:
  assumes "i < 2 ^ 31"
  shows "part_number (sp_base_path sp) (get_file_path sp i) = Some (int i)"
proof -
  have "strtol (dec i) = (int i, [])" using strtol_dec [of i "[]"] assms by simp
  then show ?thesis using assms to_int32_small by (simp add: part_number_def get_file_path_def)
qed

lemma scan_parts_min_max:
  assumes "\<forall>p \<in> set ps. part_number base p = Some (f p)"
  shows "\<exists>c. scan_parts base fs ps (r, w, z) =
    (Min (insert r (f ` set ps)), Max (insert w (f ` set ps)), c)"
  using assms
proof (induction ps arbitrary: r w z)
  case (Cons p ps)
  have m: "Min (insert (min r v) S) = Min (insert r (insert v S))"
      "Max (insert (max w v) S) = Max (insert w (insert v S))" if "finite S" for v and S :: "int set"
    using that by (cases "S = {}"; simp add: min.assoc max.assoc Min_insert Max_insert)+
  obtain c where "scan_parts base fs (p # ps) (r, w, z) =
      (Min (insert (min r (f p)) (f ` set ps)), Max (insert (max w (f p)) (f ` set ps)), c)"
    using Cons.IH [of "min r (f p)" "max w (f p)"] Cons.prems by fastforce
  then show ?case by (simp only: m finite_imageI finite_set list.set(2) image_insert) blast
qed simp

lemma open_write_file_reopen:
  assumes "parts_wf s" "8 \<le> length (content s (sp_wid (fst s)))" "sp_rfile (fst s) = None"
  obtains s' where "open_write_file s = (Inr True, s')" "sp_inv s'" "pending s' = pending s"
proof -
  obtain sp fs where s: "s = (sp, fs)" by (cases s)
  let ?p = "get_file_path sp (sp_wid sp)"
  have H: "healthy fs" "dir_wf fs" using assms(1) by (simp_all add: parts_wf_def s)
  obtain h fs1 where o: "da_fopen_a ?p fs = (Some h, fs1)" "healthy fs1" "dir_wf fs1"
    and m: "map_of (fs_dir fs1) = (map_of (fs_dir fs))(?p \<mapsto> h_ino h)"
    and b: "file_bytes fs1 = file_bytes fs" and d: "fs_data fs1 (h_ino h) = file_bytes fs ?p"
    by (rule da_fopen_a_spec [OF H])
  define s' where "s' = (sp\<lparr>sp_wfile := Some h, sp_woffset := length (file_bytes fs ?p)\<rparr>, fs1)"
  have r: "open_write_file s = (Inr True, s')"
    using assms(2) o d by (simp add: open_write_file_def s s'_def)
  have "sp_inv s'" using assms o m b by (auto simp: sp_defs s s'_def)
  moreover have "payload s' = payload s" by (simp add: payload_def s s'_def b fun_eq_iff)
  then have "pending s' = pending s"
    by (simp add: pending_def unread_def later_parts_def s s'_def b)
  ultimately show thesis by (rule that [OF r])
qed

lemma reread_unread:
  assumes "sp_inv s"
  shows "reread s @ unread s = payload s (sp_rid (fst s))"
proof (cases "sp_rfile (fst s)")
  case None
  then show ?thesis by (simp add: reread_def unread_def payload_def)
next
  case (Some h)
  then have "8 \<le> sp_roffset (fst s)" using assms by (simp add: sp_defs)
  then have "drop (sp_roffset (fst s) - 8) (payload s (sp_rid (fst s))) = unread s"
    using Some by (simp add: unread_def payload_def)
  with Some show ?thesis by (simp add: reread_def) (metis append_take_drop_id)
qed


text \<open>The parts on disk: all up to the write end, which may not have been created yet.\<close>

definition parts_end :: "sfs \<Rightarrow> nat" where
  "parts_end s = (if part_ino s (sp_wid (fst s)) = None then sp_wid (fst s) else Suc (sp_wid (fst s)))"

lemma existing_parts:
  assumes "sp_inv s" "own_parts s"
  shows "set (part_names (sp_base_path (fst s)) (snd s)) =
    get_file_path (fst s) ` {sp_rid (fst s)..<parts_end s}"
    (is "?P = ?Q")
proof
  show "?P \<subseteq> ?Q"
  proof
    fix p
    assume p: "p \<in> ?P"
    then obtain i where i: "sp_rid (fst s) \<le> i" "i \<le> sp_wid (fst s)" "p = get_file_path (fst s) i"
      using assms(2) by (auto simp: own_parts_def)
    have "map_of (fs_dir (snd s)) p \<noteq> None"
      using p by (auto simp: part_names_def map_of_eq_None_iff)
    with i show "p \<in> ?Q"
      by (cases "i = sp_wid (fst s)") (auto simp: part_ino_def parts_end_def)
  qed
  show "?Q \<subseteq> ?P"
  proof
    fix p
    assume "p \<in> ?Q"
    then obtain i where i: "sp_rid (fst s) \<le> i" "i < parts_end s" "p = get_file_path (fst s) i"
      by auto
    have "part_ino s i \<noteq> None"
    proof (cases "i = sp_wid (fst s)")
      case True
      with i(2) show ?thesis by (auto simp: parts_end_def split: if_splits)
    next
      case False
      with i have "i < sp_wid (fst s)" by (auto simp: parts_end_def split: if_splits)
      with i(1) assms(1) have "8 \<le> length (content s i)" by (simp add: sp_defs)
      then show ?thesis by (auto simp: content_def part_ino_def file_bytes_def split: option.splits)
    qed
    then show "p \<in> ?P" using i(3) part_names_path [of "snd s" "fst s" i] by (auto simp: part_ino_def)
  qed
qed

text \<open>
  The state the constructor reaches before it opens the write end: reading restarts at the
  beginning of the oldest part.
\<close>

definition recovered :: "sfs \<Rightarrow> u32 \<Rightarrow> nat \<Rightarrow> nat \<Rightarrow> u64 \<Rightarrow> sfs" where
  "recovered s m r w z =
     (\<lparr>sp_auto_delete = True, sp_base_path = sp_base_path (fst s),
       sp_max_file_size = (if m = 0 then 0xFFFFFFFF else max m 10000),
       sp_rfile = None, sp_rid = r, sp_roffset = 0, sp_wfile = None, sp_wid = w, sp_woffset = 0\<rparr>,
      da_set_current_size z (snd s))"

lemma interval_min_max:
  assumes "a < b" "b \<le> 2 ^ 31 - 1"
  shows "Min (insert (2 ^ 31 - 1) (int ` {a..<b})) = int a"
    and "Max (insert 0 (int ` {a..<b})) = int (b - 1)"
proof -
  show "Min (insert (2 ^ 31 - 1) (int ` {a..<b})) = int a"
    using assms by (intro Min_eqI) auto
  have "int (b - 1) \<in> int ` {a..<b}" using assms by (intro imageI) auto
  then show "Max (insert 0 (int ` {a..<b})) = int (b - 1)"
    using assms by (intro Max_eqI) auto
qed

lemma splitter_new_recovered:
  assumes "sp_inv s" "own_parts s" "sp_wid (fst s) < 2 ^ 31 - 2"
  obtains z where "splitter_new (sp_base_path (fst s)) m True (snd s) =
      open_write_file (if sp_rid (fst s) < parts_end s
        then recovered s m (sp_rid (fst s)) (parts_end s - 1) z else recovered s m 0 0 z)"
proof -
  let ?base = "sp_base_path (fst s)"
  let ?J = "{sp_rid (fst s)..<parts_end s}"
  have e: "parts_end s \<le> 2 ^ 31 - 1" using assms(3) by (simp add: parts_end_def)
  have n: "part_number ?base (get_file_path (fst s) i) = Some (int i)" if "i \<in> ?J" for i
    using that e by (intro part_number_path) auto
  define num where "num p = the (part_number ?base p)" for p
  have P: "set (part_names ?base (snd s)) = get_file_path (fst s) ` ?J"
    by (rule existing_parts [OF assms(1,2)])
  then have f: "\<forall>p \<in> set (part_names ?base (snd s)). part_number ?base p = Some (num p)"
    using n by (auto simp: num_def)
  have "num ` set (part_names ?base (snd s)) = int ` ?J"
    unfolding P image_image by (rule image_cong) (simp_all add: num_def n)
  with scan_parts_min_max [OF f, of "snd s" "2 ^ 31 - 1" 0 0]
  obtain z where z: "scan_parts ?base (snd s) (part_names ?base (snd s)) (2 ^ 31 - 1, 0, 0) =
      (Min (insert (2 ^ 31 - 1) (int ` ?J)), Max (insert 0 (int ` ?J)), z)"
    by auto
  show thesis
  proof (cases "sp_rid (fst s) < parts_end s")
    case True
    moreover have "nat (int (parts_end s) - 1) = parts_end s - Suc 0" by arith
    ultimately show thesis using z interval_min_max [OF True e] e
      by (intro that [of z]) (simp add: splitter_new_def recovered_def)
  next
    case False
    then have "?J = {}" by simp
    with z False show thesis by (intro that [of z]) (simp add: splitter_new_def recovered_def)
  qed
qed

lemma recovered_view [simp]:
  "content (recovered s m r w z) i = content s i"
  "part_ino (recovered s m r w z) i = part_ino s i"
  "payload (recovered s m r w z) i = payload s i"
  "sp_rid (fst (recovered s m r w z)) = r" "sp_wid (fst (recovered s m r w z)) = w"
  "sp_rfile (fst (recovered s m r w z)) = None"
  by (simp_all add: recovered_def content_def part_ino_def payload_def da_set_current_size_def
      get_file_path_def)

lemma recovered_parts_wf:
  assumes "healthy (snd s)" "dir_wf (snd s)" "r \<le> w"
    and "\<And>i. r \<le> i \<Longrightarrow> i < w \<Longrightarrow> 8 \<le> length (content s i)"
    and "\<And>i. w < i \<Longrightarrow> part_ino s i = None"
  shows "parts_wf (recovered s m r w z)"
proof -
  have "sp_auto_delete (fst (recovered s m r w z))" "healthy (snd (recovered s m r w z))"
      "dir_wf (snd (recovered s m r w z))"
    using assms(1,2) by (simp_all add: recovered_def da_set_current_size_def)
  with assms show ?thesis by (simp add: parts_wf_def)
qed

lemma pending_recovered:
  "r \<le> w \<Longrightarrow> pending (recovered s m r w z) = concat (map (payload s) [r..<Suc w])"
  by (simp add: pending_def unread_def later_parts_def payload_def upt_conv_Cons cong: map_cong del: upt_Suc)

lemma open_recovered:
  assumes "parts_wf (recovered s m r w z)" "content s w = [] \<or> 8 \<le> length (content s w)"
  obtains b s' where "open_write_file (recovered s m r w z) = (Inr b, s')" "sp_inv s'"
    "pending s' = pending (recovered s m r w z)"
  using assms(2)
proof
  assume c: "content s w = []"
  have e: "read_end_wf (recovered s m r w z)" by (simp add: read_end_wf_def)
  show thesis
    by (rule open_write_file_spec [OF assms(1) _ e]) (use c that in auto)
next
  assume "8 \<le> length (content s w)"
  with assms(1) show thesis
    by (elim open_write_file_reopen [of "recovered s m r w z"]) (use that in auto)
qed

lemma content_none: "part_ino s i = None \<Longrightarrow> content s i = []"
  by (simp add: part_ino_def content_def file_bytes_def)

lemma last_part_size:
  assumes "sp_inv s"
  shows "content s (sp_wid (fst s)) = [] \<or> 8 \<le> length (content s (sp_wid (fst s)))"
  using assms by (auto simp: sp_defs split: option.splits)

lemma splitter_restart_aux:
  assumes "sp_inv s" "own_parts s" "sp_wid (fst s) < 2 ^ 31 - 2"
  obtains b s' where "splitter_new (sp_base_path (fst s)) m True (snd s) = (Inr b, s')"
    "sp_inv s'" "pending s' = reread s @ pending s"
proof -
  obtain z where new: "splitter_new (sp_base_path (fst s)) m True (snd s) =
      open_write_file (if sp_rid (fst s) < parts_end s
        then recovered s m (sp_rid (fst s)) (parts_end s - 1) z else recovered s m 0 0 z)"
    by (rule splitter_new_recovered [OF assms])
  have I: "healthy (snd s)" "dir_wf (snd s)" "sp_rid (fst s) \<le> sp_wid (fst s)"
      "\<And>i. sp_rid (fst s) \<le> i \<Longrightarrow> i < sp_wid (fst s) \<Longrightarrow> 8 \<le> length (content s i)"
      "\<And>i. sp_wid (fst s) < i \<Longrightarrow> part_ino s i = None"
    using assms(1) by (simp_all add: sp_defs)
  have rp: "reread s @ pending s = concat (map (payload s) [sp_rid (fst s)..<Suc (sp_wid (fst s))])"
    using reread_unread [OF assms(1)] I(3)
    by (simp add: pending_def later_parts_def upt_conv_Cons flip: append_assoc del: upt_Suc append_assoc)
  show thesis
  proof (cases "sp_rid (fst s) < parts_end s")
    case True
    define w where "w = parts_end s - 1"
    have le: "sp_rid (fst s) \<le> w"
      and w: "w = sp_wid (fst s) \<or> (sp_wid (fst s) = Suc w \<and> part_ino s (Suc w) = None)"
      using True by (auto simp: w_def parts_end_def split: if_splits)
    have "part_ino s i = None" if "w < i" for i
      using w that I(5) [of i] by (cases "i = Suc w") auto
    then have p: "parts_wf (recovered s m (sp_rid (fst s)) w z)"
      using w le I by (intro recovered_parts_wf) auto
    have c: "content s w = [] \<or> 8 \<le> length (content s w)"
      using w le last_part_size [OF assms(1)] I(4) [of w] by auto
    have "concat (map (payload s) [sp_rid (fst s)..<Suc w]) = reread s @ pending s"
      unfolding rp using w le by (auto simp: payload_def content_none)
    with new True open_recovered [OF p c] pending_recovered [OF le] that show thesis
      by (metis w_def)
  next
    case False
    then have e: "parts_end s = sp_wid (fst s)" "sp_rid (fst s) = sp_wid (fst s)" "part_ino s (sp_wid (fst s)) = None"
      using I(3) by (auto simp: parts_end_def split: if_splits)
    have n: "part_ino s i = None" for i
    proof (rule ccontr)
      assume "part_ino s i \<noteq> None"
      then have "get_file_path (fst s) i \<in> set (part_names (sp_base_path (fst s)) (snd s))"
        using part_names_path by (auto simp: part_ino_def)
      then show False using existing_parts [OF assms(1,2)] e by simp
    qed
    have p: "parts_wf (recovered s m 0 0 z)"
      using I(1,2) n by (intro recovered_parts_wf) auto
    have "reread s @ pending s = []" unfolding rp using e n by (simp add: payload_def content_none)
    moreover have "pending (recovered s m 0 0 z) = []"
      using n by (simp add: pending_recovered payload_def content_none)
    ultimately show thesis
      using new False open_recovered [OF p] content_none [OF n] that by metis
  qed
qed

subsection \<open>A splitter that keeps its files\<close>

text \<open>
  Without automatic deletion the read end is not closed at the end of a part: the calls that
  follow read the same exhausted file until the last part is reached.
\<close>

lemma splitter_read_keeps_file:
  assumes "\<not> sp_auto_delete (fst s)" "sp_rfile (fst s) = Some h" "fs_read_error (snd s) = None" "0 < n"
    and "length (fs_data (snd s) (h_ino h)) \<le> sp_roffset (fst s)" "sp_rid (fst s) \<le> sp_wid (fst s)"
  shows "splitter_read n s = (Inl Shutdown, ((fst s)\<lparr>sp_rid := sp_wid (fst s)\<rparr>, snd s))"
  using assms
proof (induction "sp_wid (fst s) - sp_rid (fst s)" arbitrary: s)
  case 0
  obtain sp fs where s: "s = (sp, fs)" by (cases s)
  have "read_once n h s = (Some (Inl Shutdown), s)"
    using 0 by (simp add: s read_once_def da_fread_def)
  moreover have "sp\<lparr>sp_rid := sp_wid sp\<rparr> = sp" using 0 by (simp add: s)
  ultimately show ?case using 0 by (simp add: s splitter_read.simps [of n] ensure_rfile_def)
next
  case (Suc k)
  obtain sp fs where s: "s = (sp, fs)" by (cases s)
  let ?s = "(sp\<lparr>sp_rid := Suc (sp_rid sp)\<rparr>, fs)"
  have "read_once n h s = (None, ?s)"
    using Suc by (simp add: s read_once_def da_fread_def)
  then have "splitter_read n s = splitter_read n ?s"
    using Suc by (simp add: s splitter_read.simps [of n "(sp, fs)"] ensure_rfile_def)
  also have "\<dots> = (Inl Shutdown, ((fst ?s)\<lparr>sp_rid := sp_wid (fst ?s)\<rparr>, snd ?s))"
    using Suc by (intro Suc.hyps(1)) (simp_all add: s)
  finally show ?case by (simp add: s)
qed

lemma splitter_new_empty:
  assumes "healthy fs" "dir_wf fs" "part_names path fs = []"
  obtains b s' where "splitter_new path m True fs = (Inr b, s')" "sp_inv s'" "pending s' = []"
proof -
  define s where "s = (\<lparr>sp_auto_delete = True, sp_base_path = path, sp_max_file_size = 0,
      sp_rfile = None, sp_rid = 0, sp_roffset = 0, sp_wfile = None, sp_wid = 0, sp_woffset = 0\<rparr>, fs)"
  have b: "sp_base_path (fst s) = path" "snd s = fs" by (simp_all add: s_def)
  have n: "part_ino s i = None" for i
    using part_names_path [of fs "fst s" i] assms(3) b by (cases "part_ino s i") (auto simp: part_ino_def)
  have "parts_wf (recovered s m 0 0 0)"
    using assms n by (intro recovered_parts_wf) (auto simp: b)
  then obtain c s' where "open_write_file (recovered s m 0 0 0) = (Inr c, s')" "sp_inv s'"
      "pending s' = pending (recovered s m 0 0 0)"
    using open_recovered content_none [OF n] by metis
  moreover have "splitter_new path m True fs = open_write_file (recovered s m 0 0 0)"
    by (simp add: splitter_new_def assms(3) recovered_def b)
  moreover have "pending (recovered s m 0 0 0) = []"
    by (simp add: pending_recovered payload_def content_none [OF n])
  ultimately show thesis using that by simp
qed

subsection \<open>Properties\<close>

text \<open>
  C1. First in, first out across the parts: whatever the sequence of writes and reads on a
  splitter that deletes what it has read, the bytes delivered followed by the bytes that still
  wait are the bytes that waited at first followed by the accepted ones. Nothing is lost,
  duplicated or reordered at a change of part, and the invariant is kept.
\<close>
theorem splitter_fifo:
  assumes "sp_inv s" "\<forall>n. Get n \<in> set ops \<longrightarrow> 0 < n"
    and "run_queue splitter_write splitter_read ops s = (accepted, delivered, s')"
  shows "sp_inv s' \<and> pending s @ accepted = delivered @ pending s'"
  by (rule spq.run_fifo [OF assms])

text \<open>
  C22. Reading makes progress: as many reads as bytes wait deliver all of them, and leave
  nothing.
\<close>
theorem splitter_drain:
  assumes "sp_inv s" "0 < n"
  shows "\<exists>s'. run_queue splitter_write splitter_read (replicate (length (pending s)) (Get n)) s =
      ([], pending s, s') \<and> sp_inv s' \<and> pending s' = []"
  by (rule spq.drain [OF assms]) simp

text \<open>
  With no limit on the disk and no failing flush, a write is accepted whole, whatever its
  size and wherever the current part ends.
\<close>
theorem splitter_write_accepts:
  assumes "sp_inv s" "da_limit_size (snd s) = 0" "\<not> fs_flush_error (snd s)"
  shows "\<exists>s'. splitter_write buf s = (Inr (length buf), s') \<and> sp_inv s' \<and>
             pending s' = pending s @ buf"
  using assms(1) by (cases rule: splitter_write_spec [of s buf]) (use assms in auto)

text \<open>
  C15. Restarting loses nothing: a new splitter on the files of a closed one finds every byte
  that waited, after the bytes of its oldest part that had already been read, which are
  delivered a second time.
\<close>
theorem splitter_restart:
  assumes "sp_inv s" "own_parts s" "sp_wid (fst s) < 2 ^ 31 - 2"
  shows "\<exists>b s'. splitter_new (sp_base_path (fst s)) m True (snd (splitter_close s)) = (Inr b, s') \<and>
             sp_inv s' \<and> pending s' = reread s @ pending s"
  using splitter_restart_aux [OF assms, of m] by (metis snd_conv splitter_close_def)

text \<open>
  The disk accessor knows how much space is used: reads, which remove the exhausted
  parts, and writes, accepted or refused, keep its counter equal to the total size of the
  files.
\<close>
theorem splitter_accounting:
  assumes "sp_inv s" "accounted (snd s)" "0 < n"
  shows "accounted (snd (snd (splitter_write buf s))) \<and> accounted (snd (snd (splitter_read n s)))"
proof
  show "accounted (snd (snd (splitter_write buf s)))"
    using assms(1) by (cases rule: splitter_write_spec [of s buf]) (use assms(2) in auto)
  show "accounted (snd (snd (splitter_read n s)))"
    using splitter_read_spec [OF assms(1,3) prod.collapse [symmetric]] assms(2) by blast
qed

text \<open>
  A splitter that does not delete its files never opens the part after the one it has
  exhausted: the next read throws and moves to the last part, whatever the parts in between
  hold.
\<close>
theorem splitter_keeps_file:
  assumes "\<not> sp_auto_delete (fst s)" "sp_rfile (fst s) = Some h" "fs_read_error (snd s) = None"
    and "length (fs_data (snd s) (h_ino h)) \<le> sp_roffset (fst s)" "sp_rid (fst s) \<le> sp_wid (fst s)"
    and "0 < n"
  shows "splitter_read n s = (Inl Shutdown, ((fst s)\<lparr>sp_rid := sp_wid (fst s)\<rparr>, snd s))"
  using splitter_read_keeps_file [OF assms(1-3,6,4,5)] .

text \<open>An empty disk, and the properties on a splitter opened there.\<close>

definition empty_fs :: fs where
  "empty_fs = \<lparr>fs_dir = [], fs_data = (\<lambda>_. []), fs_next = 0, fs_errno = ENOENT,
     fs_denied = (\<lambda>_. False), fs_read_error = None, fs_flush_error = False,
     da_limit_size = 0, da_current_size = 0\<rparr>"

definition sample_splitter :: sfs where
  "sample_splitter = snd (splitter_new ''queue'' 0 True empty_fs)"

lemma sample_splitter_inv: "sp_inv sample_splitter" "pending sample_splitter = []"
proof -
  have "healthy empty_fs" "dir_wf empty_fs" "part_names ''queue'' empty_fs = []"
    by (simp_all add: healthy_def dir_wf_def part_names_def empty_fs_def)
  then show "sp_inv sample_splitter" "pending sample_splitter = []"
    unfolding sample_splitter_def using splitter_new_empty by (metis snd_conv)+
qed

lemma sample_splitter_fields:
  "da_limit_size (snd sample_splitter) = 0" "\<not> fs_flush_error (snd sample_splitter)"
  "accounted (snd sample_splitter)" "sp_wid (fst sample_splitter) = 0"
  "sp_rid (fst sample_splitter) = 0" "sp_base_path (fst sample_splitter) = ''queue''"
  "fs_dir (snd sample_splitter) = [(''queue'', 0)]"
  "sp_wfile (fst sample_splitter) = Some \<lparr>h_fd = 0, h_ino = 0\<rparr>"
  by code_simp+

theorem splitter_fifo_witness:
  "sp_inv sample_splitter \<and>
   (\<exists>s'. run_queue splitter_write splitter_read [Put [1, 2, 3], Get 2, Get 2] sample_splitter =
      ([1, 2, 3], [1, 2, 3], s') \<and> sp_inv s' \<and> pending s' = [])"
proof -
  obtain a d s' where r: "run_queue splitter_write splitter_read [Put [1, 2, 3], Get 2, Get 2]
      sample_splitter = (a, d, s')" using prod_cases3 by blast
  have "fst (run_queue splitter_write splitter_read [Put [1, 2, 3], Get 2, Get 2] sample_splitter) = [1, 2, 3]"
    "fst (snd (run_queue splitter_write splitter_read [Put [1, 2, 3], Get 2, Get 2] sample_splitter)) = [1, 2, 3]"
    by code_simp+
  with r have "a = [1, 2, 3]" "d = [1, 2, 3]" by simp_all
  with splitter_fifo [OF sample_splitter_inv(1) _ r] r sample_splitter_inv show ?thesis by simp
qed

definition sample_written :: sfs where
  "sample_written = snd (splitter_write [1, 2, 3] sample_splitter)"

lemma sample_written_inv: "sp_inv sample_written" "pending sample_written = [1, 2, 3]"
proof -
  have "fst (splitter_write [1, 2, 3] sample_splitter) = Inr 3" by code_simp
  then have "splitter_write [1, 2, 3] sample_splitter = (Inr 3, sample_written)"
    by (simp add: sample_written_def prod_eq_iff)
  from spq.put_ok [OF sample_splitter_inv(1) this]
  show "sp_inv sample_written" "pending sample_written = [1, 2, 3]"
    by (simp_all add: sample_splitter_inv)
qed

theorem splitter_drain_witness:
  "sp_inv sample_written \<and>
   (\<exists>s'. run_queue splitter_write splitter_read [Get 2, Get 2, Get 2] sample_written =
      ([], [1, 2, 3], s') \<and> pending s' = [])"
  using splitter_drain [OF sample_written_inv(1), of 2] sample_written_inv
  by (auto simp: numeral_3_eq_3)

theorem splitter_write_accepts_witness:
  "sp_inv sample_splitter \<and>
   (\<exists>s'. splitter_write [7, 8] sample_splitter = (Inr 2, s') \<and> pending s' = [7, 8])"
  using splitter_write_accepts [OF sample_splitter_inv(1) sample_splitter_fields(1,2), of "[7, 8]"]
    sample_splitter_inv by auto

theorem splitter_restart_witness:
  "sp_inv (snd (splitter_read 2 sample_written)) \<and>
   (\<exists>b s'. splitter_new ''queue'' 0 True (snd (splitter_close (snd (splitter_read 2 sample_written)))) =
      (Inr b, s') \<and> pending s' = [1, 2, 3])"
proof -
  let ?s = "snd (splitter_read 2 sample_written)"
  have r: "fst (splitter_read 2 sample_written) = Inr [1, 2]" by code_simp
  then have "splitter_read 2 sample_written = (Inr [1, 2], ?s)" by (simp add: prod_eq_iff)
  from spq.get_ok [OF sample_written_inv(1) _ this]
  have i: "sp_inv ?s" "pending ?s = [3]" by (simp_all add: sample_written_inv)
  have f: "sp_base_path (fst ?s) = ''queue''" "sp_wid (fst ?s) = 0" "sp_rid (fst ?s) = 0"
      "part_names ''queue'' (snd ?s) = [''queue'']" "reread ?s = [1, 2]"
    by code_simp+
  have o: "own_parts ?s" by (simp add: own_parts_def f get_file_path_def)
  show ?thesis
    using splitter_restart [OF i(1) o, of 0] i by (auto simp: f)
qed

theorem splitter_accounting_witness:
  "sp_inv sample_written \<and> accounted (snd sample_written) \<and>
   accounted (snd (snd (splitter_write [4] sample_written)))"
proof -
  have "accounted (snd sample_written)" by code_simp
  then show ?thesis
    using splitter_accounting [OF sample_written_inv(1), of 1 "[4]"] sample_written_inv by simp
qed

text \<open>Two parts, the first one exhausted, and no automatic deletion.\<close>

definition sample_kept :: sfs where
  "sample_kept =
     (\<lparr>sp_auto_delete = False, sp_base_path = ''cache'', sp_max_file_size = 10000,
       sp_rfile = Some \<lparr>h_fd = 2, h_ino = 0\<rparr>, sp_rid = 0, sp_roffset = 9,
       sp_wfile = Some \<lparr>h_fd = 3, h_ino = 1\<rparr>, sp_wid = 1, sp_woffset = 9\<rparr>,
      empty_fs\<lparr>fs_dir := [(''cache'', 0), (''cache1'', 1)],
        fs_data := (\<lambda>i. part_header @ [of_nat i]), fs_next := 4\<rparr>)"

theorem splitter_keeps_file_witness:
  "payload sample_kept 1 = [1] \<and> fst (splitter_read 4 sample_kept) = Inl Shutdown"
proof -
  have "payload sample_kept 1 = [1]" by code_simp
  then show ?thesis
    using splitter_keeps_file [of sample_kept "\<lparr>h_fd = 2, h_ino = 0\<rparr>" 4]
    by (simp add: sample_kept_def empty_fs_def)
qed

end
