(* ===== verification/File_Stream.thy ===== *)
theory File_Stream
  imports Splitter_Queue
begin

section \<open>File streams\<close>

text \<open>
  Models \<^verbatim>\<open>broker/core/src/file/stream.cc\<close>, the stream of raw data above the splitter, and
  states the interface between the layers of a stream stack. An \<open>io::data\<close> is raw bytes or an
  event; a null pointer is \<open>None\<close>. The result of \<open>read\<close> is its return value, false on a
  timeout, and the data.

  The write loop of the file stream runs until every byte is accepted, so that it may not
  return: it is a partial function, whose value is then \<open>None\<close>. Statistics are left out, as
  they change no data.
\<close>

datatype 'e io_data = Raw bytes | Event 'e

type_synonym ('s, 'e) stream_read = "'s \<Rightarrow> ('s, bool \<times> 'e io_data option) outcome option"
type_synonym ('s, 'e) stream_write = "'e io_data option \<Rightarrow> 's \<Rightarrow> ('s, nat) outcome option"

subsection \<open>The stream\<close>

definition bufsiz :: nat where
  "bufsiz = 8192"

definition file_read :: "(sfs, 'e) stream_read" where
  "file_read s =
     (case splitter_read bufsiz s of
        (Inl e, s1) \<Rightarrow> Some (Inl e, s1)
      | (Inr d, s1) \<Rightarrow> Some (Inr (True, if d = [] then None else Some (Raw d)), s1))"

partial_function (option) file_write_loop :: "bytes \<Rightarrow> sfs \<Rightarrow> (sfs, unit) outcome option" where
  "file_write_loop memory s =
     (if memory = [] then Some (Inr (), s)
      else case splitter_write memory s of
             (r, s1) \<Rightarrow>
               (case r of
                  Inl e \<Rightarrow> Some (Inl e, s1)
                | Inr wb \<Rightarrow> file_write_loop (drop wb memory) s1))"

text \<open>The size of the data is kept in a \<open>uint32_t\<close>.\<close>

definition file_write :: "(sfs, 'e) stream_write" where
  "file_write d s =
     (case d of
        Some (Raw buf) \<Rightarrow>
          (case file_write_loop (take (unat (of_nat (length buf) :: u32)) buf) s of
             None \<Rightarrow> None
           | Some (Inl e, s1) \<Rightarrow> Some (Inl e, s1)
           | Some (Inr _, s1) \<Rightarrow> Some (Inr 1, s1))
      | _ \<Rightarrow> Some (Inr 1, s))"

definition file_stop :: "sfs \<Rightarrow> nat" where
  "file_stop s = 0"

subsection \<open>The interface of a stack of streams\<close>

text \<open>
  What a layer assumes of the layer below, and provides to the one above: raw data is a
  sequence of bytes whose boundaries carry no meaning. \<open>waiting\<close> is what can still be read;
  \<open>accepts\<close> says which buffers can be written. At the end the layer below throws.
\<close>

locale raw_channel =
  fixes inv :: "'s \<Rightarrow> bool"
    and waiting :: "'s \<Rightarrow> bytes"
    and ended :: "'s \<Rightarrow> bool"
    and accepts :: "bytes \<Rightarrow> bool"
    and sub_read :: "('s, 'e) stream_read"
    and sub_write :: "('s, 'e) stream_write"
  assumes read_more: "inv s \<Longrightarrow> waiting s \<noteq> [] \<Longrightarrow>
      \<exists>d s'. sub_read s = Some (Inr (True, Some (Raw d)), s') \<and> d \<noteq> [] \<and> inv s' \<and>
             waiting s = d @ waiting s'"
    and read_end: "inv s \<Longrightarrow> waiting s = [] \<Longrightarrow>
      \<exists>s'. sub_read s = Some (Inl Shutdown, s') \<and> ended s'"
    and write_all: "inv s \<Longrightarrow> accepts b \<Longrightarrow>
      \<exists>s'. sub_write (Some (Raw b)) s = Some (Inr 1, s') \<and> inv s' \<and> waiting s' = waiting s @ b"

subsection \<open>The file stream is such a channel\<close>

text \<open>No fault, no limit, and no other file whose name could be taken for a part.\<close>

definition file_inv :: "string \<Rightarrow> sfs \<Rightarrow> bool" where
  "file_inv path s \<longleftrightarrow> sp_inv s \<and> sp_wfile (fst s) \<noteq> None \<and> da_limit_size (snd s) = 0 \<and>
     \<not> fs_flush_error (snd s) \<and> own_parts s \<and> sp_base_path (fst s) = path"

text \<open>Once everything is read, the files are gone.\<close>

definition disk_empty :: "string \<Rightarrow> fs \<Rightarrow> bool" where
  "disk_empty path fs \<longleftrightarrow> healthy fs \<and> dir_wf fs \<and> part_names path fs = [] \<and>
     da_limit_size fs = 0 \<and> \<not> fs_flush_error fs"

definition file_ended :: "string \<Rightarrow> sfs \<Rightarrow> bool" where
  "file_ended path s \<longleftrightarrow> disk_empty path (snd s)"

text \<open>Nothing the splitter does changes the limit or the faults of the disk.\<close>

lemma da_frame [simp]:
  "da_limit_size (snd (da_fwrite b h fs)) = da_limit_size fs"
  "fs_flush_error (snd (da_fwrite b h fs)) = fs_flush_error fs"
  "da_limit_size (da_remove p fs) = da_limit_size fs"
  "fs_flush_error (da_remove p fs) = fs_flush_error fs"
  "da_limit_size (snd (da_fopen_a p fs)) = da_limit_size fs"
  "fs_flush_error (snd (da_fopen_a p fs)) = fs_flush_error fs"
  "da_limit_size (snd (da_fopen_r p fs)) = da_limit_size fs"
  "fs_flush_error (snd (da_fopen_r p fs)) = fs_flush_error fs"
  by (auto simp: da_fwrite_def da_remove_def da_fopen_a_def da_fopen_r_def new_handle_def Let_def
      split: option.splits)

lemma open_write_file_frame:
  assumes "open_write_file s = (r, s')"
  shows "da_limit_size (snd s') = da_limit_size (snd s) \<and>
    fs_flush_error (snd s') = fs_flush_error (snd s)"
proof -
  obtain sp fs where s: "s = (sp, fs)" by (cases s)
  obtain h fs1 where o: "da_fopen_a (get_file_path sp (sp_wid sp)) fs = (h, fs1)" by fastforce
  have 1: "da_limit_size fs1 = da_limit_size fs" "fs_flush_error fs1 = fs_flush_error fs"
    using da_frame(5,6) [of "get_file_path sp (sp_wid sp)" fs] by (simp_all add: o)
  show ?thesis
  proof (cases h)
    case None
    with assms o 1 show ?thesis by (auto simp: open_write_file_def s)
  next
    case (Some h')
    obtain n fs2 where w: "da_fwrite part_header h' fs1 = (n, fs2)" by fastforce
    have "da_limit_size fs2 = da_limit_size fs1" "fs_flush_error fs2 = fs_flush_error fs1"
      using da_frame(1,2) [of part_header h' fs1] by (simp_all add: w)
    with Some assms o 1 w show ?thesis
      by (auto simp: open_write_file_def s Let_def split: if_splits)
  qed
qed

abbreviation same_faults :: "sfs \<Rightarrow> sfs \<Rightarrow> bool" where
  "same_faults s' s \<equiv> da_limit_size (snd s') = da_limit_size (snd s) \<and>
     fs_flush_error (snd s') = fs_flush_error (snd s)"

lemma da_frame_eq:
  "da_fwrite b h fs = (n, fs') \<Longrightarrow> da_limit_size fs' = da_limit_size fs \<and> fs_flush_error fs' = fs_flush_error fs"
  "da_fopen_r p fs = (x, fs') \<Longrightarrow> da_limit_size fs' = da_limit_size fs \<and> fs_flush_error fs' = fs_flush_error fs"
  using da_frame(1,2) [of b h fs] da_frame(7,8) [of p fs] by auto

lemma write_payload_frame: "write_payload b s = (r, s') \<Longrightarrow> same_faults s' s"
  by (cases s) (auto simp: write_payload_def Let_def split: option.splits prod.splits if_splits
      dest: da_frame_eq)

lemma next_write_file_frame: "next_write_file b s = (r, s') \<Longrightarrow> same_faults s' s"
  by (cases s) (auto simp: next_write_file_def split: if_splits dest: open_write_file_frame)

lemma splitter_write_frame: "splitter_write b s = (r, s') \<Longrightarrow> same_faults s' s"
  by (auto simp: splitter_write_def split: prod.splits sum.splits bool.splits if_splits
      dest!: open_write_file_frame next_write_file_frame write_payload_frame)

lemma ensure_rfile_frame: "ensure_rfile s = (r, s') \<Longrightarrow> same_faults s' s"
  by (cases s) (auto simp: ensure_rfile_def open_read_file_def split: prod.splits option.splits if_splits
      dest: da_frame_eq)

lemma read_once_frame: "read_once n h s = (r, s') \<Longrightarrow> same_faults s' s"
  by (cases s) (auto simp: read_once_def da_fread_def Let_def split: prod.splits option.splits if_splits)

lemma splitter_read_frame: "splitter_read n s = (r, s') \<Longrightarrow> same_faults s' s"
proof (induction n s rule: splitter_read.induct)
  case (1 n s)
  obtain r1 s1 where e: "ensure_rfile s = (r1, s1)" by (cases "ensure_rfile s")
  note f1 = ensure_rfile_frame [OF e]
  show ?case
  proof (cases "\<exists>u h. r1 = Inr u \<and> sp_rfile (fst s1) = Some h")
    case False
    with 1(2) e f1 show ?thesis
      by (auto simp: splitter_read.simps [of n s] split: sum.splits option.splits)
  next
    case True
    then obtain u h where h: "r1 = Inr u" "sp_rfile (fst s1) = Some h" by blast
    obtain r2 s2 where o: "read_once n h s1 = (r2, s2)" by (cases "read_once n h s1")
    note f2 = read_once_frame [OF o]
    show ?thesis
    proof (cases r2)
      case None
      with 1(2) e h o have "splitter_read n s2 = (r, s')" by (simp add: splitter_read.simps [of n s])
      with 1(1) [OF e [symmetric] h o [symmetric] None] f1 f2 show ?thesis by simp
    next
      case (Some r3)
      with 1(2) e h o f1 f2 show ?thesis by (simp add: splitter_read.simps [of n s])
    qed
  qed
qed

text \<open>The files of a splitter stay the parts between its two ends.\<close>

lemma part_names_view:
  "part_names base (snd (da_fopen_r p fs)) = part_names base fs"
  "part_names base (snd (da_fwrite b h fs)) = part_names base fs"
  "set (part_names base (snd (da_fopen_a p fs))) \<subseteq> insert p (set (part_names base fs))"
  "set (part_names base (da_remove p fs)) = set (part_names base fs) - {p}"
  by (auto simp: part_names_def da_fopen_r_def da_fwrite_def da_fopen_a_def da_remove_def new_handle_def Let_def
      split: option.splits)

abbreviation same_place :: "sfs \<Rightarrow> sfs \<Rightarrow> bool" where
  "same_place s' s \<equiv> sp_base_path (fst s') = sp_base_path (fst s) \<and> sp_auto_delete (fst s') = sp_auto_delete (fst s)"

lemma open_write_file_own:
  assumes "open_write_file s = (r, s')" "own_parts s" "sp_rid (fst s) \<le> sp_wid (fst s)"
  shows "own_parts s' \<and> same_place s' s \<and> sp_rid (fst s') = sp_rid (fst s) \<and> sp_wid (fst s') = sp_wid (fst s)"
proof -
  obtain sp fs where s: "s = (sp, fs)" by (cases s)
  obtain h fs1 where o: "da_fopen_a (get_file_path sp (sp_wid sp)) fs = (h, fs1)" by fastforce
  have n: "set (part_names (sp_base_path sp) fs1) \<subseteq>
      insert (get_file_path sp (sp_wid sp)) (set (part_names (sp_base_path sp) fs))"
    using part_names_view(3) [of "sp_base_path sp" "get_file_path sp (sp_wid sp)" fs] by (simp add: o)
  have w: "part_names (sp_base_path sp) fs2 = part_names (sp_base_path sp) fs1"
    if "da_fwrite part_header x fs1 = (k, fs2)" for x k fs2
    using part_names_view(2) [of "sp_base_path sp" part_header x fs1] by (simp add: that)
  show ?thesis
    using assms n by (auto simp: open_write_file_def s o Let_def own_parts_def
        split: option.splits if_splits prod.splits dest!: w) 
qed

lemma next_write_file_own:
  assumes "next_write_file b s = (r, s')" "own_parts s" "sp_rid (fst s) \<le> sp_wid (fst s)"
  shows "own_parts s' \<and> same_place s' s \<and> sp_rid (fst s') \<le> sp_wid (fst s')"
proof (cases "int (sp_woffset (fst s) + length b) > uint (sp_max_file_size (fst s)) \<and> \<not> fs_flush_error (snd s)")
  case False
  then show ?thesis using assms by (auto simp: next_write_file_def split: if_splits prod.splits)
next
  case True
  define s1 where "s1 = ((fst s)\<lparr>sp_wid := Suc (sp_wid (fst s))\<rparr>, snd s)"
  have o: "open_write_file s1 = (r, s')" using True assms(1) by (auto simp: next_write_file_def s1_def split: prod.splits)
  have "own_parts s1" using assms(2) by (fastforce simp: own_parts_def s1_def)
  with open_write_file_own [OF o] assms(3) show ?thesis by (simp add: s1_def)
qed

lemma write_payload_own:
  assumes "write_payload b s = (r, s')" "own_parts s"
  shows "own_parts s' \<and> same_place s' s"
proof -
  obtain sp fs where s: "s = (sp, fs)" by (cases s)
  have w: "part_names (sp_base_path sp) fs2 = part_names (sp_base_path sp) fs"
    if "da_fwrite b x fs = (k, fs2)" for x k fs2
    using part_names_view(2) [of "sp_base_path sp" b x fs] by (simp add: that)
  show ?thesis using assms
    by (auto simp: write_payload_def s Let_def own_parts_def split: option.splits prod.splits if_splits dest!: w)
qed

lemma splitter_write_own:
  assumes "splitter_write b s = (r, s')" "own_parts s" "sp_rid (fst s) \<le> sp_wid (fst s)"
  shows "own_parts s' \<and> same_place s' s"
proof -
  obtain r1 s1 where 1: "(if sp_wfile (fst s) = None then open_write_file s else (Inr True, s)) = (r1, s1)"
    by (cases "if sp_wfile (fst s) = None then open_write_file s else (Inr True, s)")
  then have f1: "own_parts s1 \<and> same_place s1 s \<and> sp_rid (fst s1) \<le> sp_wid (fst s1)"
    using open_write_file_own [of s] assms(2,3) by (auto split: if_splits)
  obtain r2 s2 where 2: "next_write_file b s1 = (r2, s2)" by (cases "next_write_file b s1")
  note f2 = next_write_file_own [OF 2]
  show ?thesis
    using assms(1) f1 f2 write_payload_own [of b s2] 2
    by (auto simp: splitter_write_def 1 split: sum.splits bool.splits)
qed

lemma ensure_rfile_own:
  assumes "ensure_rfile s = (r, s')" "own_parts s"
  shows "own_parts s' \<and> same_place s' s"
proof -
  obtain sp fs where s: "s = (sp, fs)" by (cases s)
  have w: "part_names (sp_base_path sp) fs2 = part_names (sp_base_path sp) fs"
    if "da_fopen_r p fs = (k, fs2)" for p k fs2
    using part_names_view(1) [of "sp_base_path sp" p fs] by (simp add: that)
  show ?thesis using assms
    by (auto simp: ensure_rfile_def open_read_file_def s own_parts_def
        split: option.splits prod.splits if_splits dest!: w)
qed

lemma read_once_own:
  assumes "read_once n h s = (r, s')" "own_parts s" "sp_auto_delete (fst s)" "sp_rid (fst s) \<le> sp_wid (fst s)"
  shows "own_parts s' \<and> same_place s' s \<and> sp_rid (fst s') \<le> sp_wid (fst s') \<and>
    (r = Some (Inl Shutdown) \<longrightarrow> part_names (sp_base_path (fst s)) (snd s') = [])"
proof -
  obtain sp fs where s: "s = (sp, fs)" by (cases s)
  obtain d e fs1 where f: "da_fread h (sp_roffset sp) n fs = (d, e, fs1)"
    by (cases "da_fread h (sp_roffset sp) n fs")
  have p: "part_names (sp_base_path sp) fs1 = part_names (sp_base_path sp) fs"
    using f by (auto simp: da_fread_def part_names_def Let_def split: option.splits)
  let ?g = "da_remove (get_file_path sp (sp_rid sp)) fs1"
  have rm: "\<exists>i. Suc (sp_rid sp) \<le> i \<and> i \<le> sp_wid sp \<and> q = get_file_path sp i"
    if "q \<in> set (part_names (sp_base_path sp) ?g)" for q
  proof -
    from that have "q \<in> set (part_names (sp_base_path sp) fs)" "q \<noteq> get_file_path sp (sp_rid sp)"
      by (auto simp: part_names_view p)
    then obtain i where "sp_rid sp \<le> i" "i \<le> sp_wid sp" "q = get_file_path sp i"
      using assms(2) by (auto simp: own_parts_def s)
    with \<open>q \<noteq> get_file_path sp (sp_rid sp)\<close> show ?thesis by (intro exI [of _ i]) (auto simp: le_less)
  qed
  have none: "part_names (sp_base_path sp) ?g = []" if "\<not> sp_rid sp < sp_wid sp"
    using rm that by (cases "part_names (sp_base_path sp) ?g") force+
  consider (data) "d \<noteq> []" | (next_part) "d = []" "e" "sp_rid sp < sp_wid sp"
    | (finished) "d = []" "e" "\<not> sp_rid sp < sp_wid sp" | (fault) "d = []" "\<not> e" by blast
  then show ?thesis
  proof cases
    case data
    then show ?thesis using assms p by (auto simp: read_once_def s f Let_def own_parts_def)
  next
    case next_part
    then show ?thesis using assms rm by (auto simp: read_once_def s f Let_def own_parts_def)
  next
    case finished
    then show ?thesis using assms none
      by (auto simp: read_once_def s f Let_def own_parts_def split: if_splits)
  next
    case fault
    then show ?thesis using assms p by (auto simp: read_once_def s f Let_def own_parts_def split: if_splits)
  qed
qed

lemma splitter_read_own:
  assumes "splitter_read n s = (r, s')" "own_parts s" "sp_auto_delete (fst s)" "sp_rid (fst s) \<le> sp_wid (fst s)"
  shows "own_parts s' \<and> same_place s' s \<and>
    (r = Inl Shutdown \<longrightarrow> part_names (sp_base_path (fst s)) (snd s') = [])"
  using assms
proof (induction n s rule: splitter_read.induct)
  case (1 n s)
  obtain r1 s1 where e: "ensure_rfile s = (r1, s1)" by (cases "ensure_rfile s")
  note f1 = ensure_rfile_own [OF e 1(3)] ensure_rfile_ids [OF e]
  have ns: "r1 \<noteq> Inl Shutdown" using e
    by (cases s) (auto simp: ensure_rfile_def open_read_file_def split: if_splits prod.splits option.splits)
  show ?case
  proof (cases "\<exists>u h. r1 = Inr u \<and> sp_rfile (fst s1) = Some h")
    case False
    with 1(2) e f1 ns show ?thesis
      by (auto simp: splitter_read.simps [of n s] split: sum.splits option.splits)
  next
    case True
    then obtain u h where h: "r1 = Inr u" "sp_rfile (fst s1) = Some h" by blast
    obtain r2 s2 where o: "read_once n h s1 = (r2, s2)" by (cases "read_once n h s1")
    have f2: "own_parts s2 \<and> same_place s2 s1 \<and> sp_rid (fst s2) \<le> sp_wid (fst s2) \<and>
        (r2 = Some (Inl Shutdown) \<longrightarrow> part_names (sp_base_path (fst s1)) (snd s2) = [])"
      by (rule read_once_own [OF o]) (use f1 1(4,5) in simp_all)
    show ?thesis
    proof (cases r2)
      case None
      with 1(2) e h o have "splitter_read n s2 = (r, s')" by (simp add: splitter_read.simps [of n s])
      with 1(1) [OF e [symmetric] h o [symmetric] None] f1 f2 1(4) show ?thesis by auto
    next
      case (Some r3)
      with 1(2) e h o f1 f2 show ?thesis by (auto simp: splitter_read.simps [of n s])
    qed
  qed
qed

lemma sp_inv_ids: "sp_inv s \<Longrightarrow> sp_rid (fst s) \<le> sp_wid (fst s) \<and> sp_auto_delete (fst s)"
  by (simp add: sp_defs)

lemma file_write_loop_ok:
  assumes "file_inv path s"
  shows "\<exists>s'. file_write_loop b s = Some (Inr (), s') \<and> file_inv path s' \<and> pending s' = pending s @ b"
proof (cases "b = []")
  case True
  with assms show ?thesis by (simp add: file_write_loop.simps)
next
  case False
  have i: "sp_inv s" "da_limit_size (snd s) = 0" "\<not> fs_flush_error (snd s)" "own_parts s"
      "sp_base_path (fst s) = path"
    using assms by (simp_all add: file_inv_def)
  from i(1) obtain s' where w: "splitter_write b s = (Inr (length b), s')" "sp_inv s'"
      "pending s' = pending s @ b" "sp_wfile (fst s') \<noteq> None"
    by (cases rule: splitter_write_spec [of s b]) (use i in auto)
  with splitter_write_frame [OF w(1)] splitter_write_own [OF w(1) i(4)] sp_inv_ids [OF i(1)] i False show ?thesis
    by (subst file_write_loop.simps) (simp add: file_inv_def file_write_loop.simps [of "[]"])
qed

interpretation fc: raw_channel "file_inv path" pending "file_ended path" "\<lambda>b. length b < 2 ^ 32"
    file_read file_write for path
proof
  fix s
  assume i: "file_inv path s" and p: "pending s \<noteq> []"
  then have j: "sp_inv s" "own_parts s" by (simp_all add: file_inv_def)
  obtain r s' where g: "splitter_read bufsiz s = (r, s')" by (cases "splitter_read bufsiz s")
  with splitter_read_spec [OF j(1) _ g] splitter_read_frame [OF g] splitter_read_own [OF g j(2)]
    sp_inv_ids [OF j(1)] i p
  show "\<exists>d s'. file_read s = Some (Inr (True, Some (Raw d)), s') \<and> d \<noteq> [] \<and> file_inv path s' \<and>
      pending s = d @ pending s'"
    by (cases r) (auto simp: file_read_def file_inv_def bufsiz_def)
next
  fix s
  assume i: "file_inv path s" and p: "pending s = []"
  then have j: "sp_inv s" "own_parts s" by (simp_all add: file_inv_def)
  obtain r s' where g: "splitter_read bufsiz s = (r, s')" by (cases "splitter_read bufsiz s")
  have r: "r = Inl Shutdown" "sp_inv s'"
    using splitter_read_spec [OF j(1) _ g] i p by (cases r, auto simp: file_inv_def bufsiz_def)
  have "file_ended path s'"
    using splitter_read_frame [OF g] splitter_read_own [OF g j(2)] sp_inv_ids [OF j(1)] i r
    by (simp add: file_ended_def disk_empty_def file_inv_def sp_defs)
  with g r show "\<exists>s'. file_read s = Some (Inl Shutdown, s') \<and> file_ended path s'"
    by (auto simp: file_read_def)
next
  fix s and b :: bytes
  assume i: "file_inv path s" and b: "length b < 2 ^ 32"
  have "take (unat (of_nat (length b) :: u32)) b = b"
    using b by (simp add: unat_of_nat)
  with file_write_loop_ok [OF i, of b]
  show "\<exists>s'. file_write (Some (Raw b)) s = Some (Inr 1, s') \<and> file_inv path s' \<and> pending s' = pending s @ b"
    by (auto simp: file_write_def)
qed

subsection \<open>A full disk\<close>

text \<open>The disk accessor refuses the bytes, which would fit in the current part.\<close>

definition disk_full :: "bytes \<Rightarrow> sfs \<Rightarrow> bool" where
  "disk_full b s \<longleftrightarrow> b \<noteq> [] \<and> sp_wfile (fst s) \<noteq> None \<and>
     int (sp_woffset (fst s) + length b) \<le> uint (sp_max_file_size (fst s)) \<and>
     da_limit_size (snd s) \<noteq> 0 \<and>
     \<not> da_current_size (snd s) + of_nat (length b) \<le> da_limit_size (snd s)"

lemma splitter_write_disk_full:
  assumes "disk_full b s"
  shows "\<exists>s'. splitter_write b s = (Inr 0, s') \<and> disk_full b s'"
proof -
  obtain sp fs where s: "s = (sp, fs)" by (cases s)
  show ?thesis
    using assms by (auto simp: disk_full_def s splitter_write_def next_write_file_def
        write_payload_def da_fwrite_def)
qed

lemma file_write_loop_stuck:
  assumes "file_write_loop b s = Some y"
  shows "\<not> disk_full b s"
proof (rule file_write_loop.raw_induct [where P = "\<lambda>b s y. \<not> disk_full b s", OF _ assms], rule notI)
  fix loop :: "bytes \<Rightarrow> sfs \<Rightarrow> (sfs, unit) outcome option" and b s y
  assume hyp: "\<And>b s y. loop b s = Some y \<Longrightarrow> \<not> disk_full b s" and f: "disk_full b s"
    and step: "(if b = [] then Some (Inr (), s)
      else case splitter_write b s of (r, s1) \<Rightarrow>
             (case r of Inl e \<Rightarrow> Some (Inl e, s1) | Inr wb \<Rightarrow> loop (drop wb b) s1)) = Some y"
  obtain s' where w: "splitter_write b s = (Inr 0, s')" "disk_full b s'"
    using splitter_write_disk_full [OF f] by blast
  have "b \<noteq> []" using f by (simp add: disk_full_def)
  with step w(1) have "loop b s' = Some y" by simp
  with hyp w(2) show False by blast
qed

subsection \<open>Properties\<close>

text \<open>
  On a disk without limit and without faults the file stream writes every buffer whole, and
  reads back, in order and from the first byte that waits, non-empty pieces of what was written.
\<close>
theorem file_stream_transfers:
  assumes "file_inv path s" "length b < 2 ^ 32"
  shows "(\<exists>s'. file_write (Some (Raw b)) s = Some (Inr 1, s') \<and> file_inv path s' \<and>
             pending s' = pending s @ b) \<and>
         (pending s \<noteq> [] \<longrightarrow>
            (\<exists>d s'. file_read s = Some (Inr (True, Some (Raw d)), s') \<and> d \<noteq> [] \<and>
               file_inv path s' \<and> pending s = d @ pending s'))"
  using fc.write_all [OF assms] fc.read_more [OF assms(1)] by blast

text \<open>
  When the disk accessor refuses a buffer because the limit of the queue files is reached,
  the write loop of the file stream never returns: the buffer is offered again for ever.
\<close>
theorem file_write_disk_full:
  assumes "disk_full b s" "length b < 2 ^ 32"
  shows "file_write (Some (Raw b)) s = None"
proof -
  have "take (unat (of_nat (length b) :: u32)) b = b" using assms(2) by (simp add: unat_of_nat)
  moreover have "file_write_loop b s = None" using file_write_loop_stuck assms(1) by (cases "file_write_loop b s") auto
  ultimately show ?thesis by (simp add: file_write_def)
qed

lemma sample_written_file: "file_inv ''queue'' sample_written"
proof -
  have f: "da_limit_size (snd sample_written) = 0" "\<not> fs_flush_error (snd sample_written)"
    "sp_wfile (fst sample_written) = Some \<lparr>h_fd = 0, h_ino = 0\<rparr>" "sp_base_path (fst sample_written) = ''queue''"
    "part_names ''queue'' (snd sample_written) = [''queue'']" "sp_rid (fst sample_written) = 0"
    by code_simp+
  have "own_parts sample_written" by (auto simp: own_parts_def f get_file_path_def)
  then show ?thesis by (simp add: file_inv_def sample_written_inv f)
qed

theorem file_stream_transfers_witness:
  "file_inv ''queue'' sample_written \<and>
   (\<exists>s'. file_write (Some (Raw [9])) sample_written = Some (Inr 1, s') \<and> pending s' = [1, 2, 3, 9]) \<and>
   (\<exists>d s'. file_read sample_written = Some (Inr (True, Some (Raw d)), s') \<and> [1, 2, 3] = d @ pending s')"
  using file_stream_transfers [OF sample_written_file, of "[9]"] sample_written_inv sample_written_file by auto

definition sample_full :: sfs where
  "sample_full = ((fst sample_written), (snd sample_written)\<lparr>da_limit_size := 12\<rparr>)"

theorem file_write_disk_full_witness:
  "disk_full [4, 5] sample_full \<and> file_write (Some (Raw [4, 5])) sample_full = None"
proof -
  have "disk_full [4, 5] sample_full" by code_simp
  with file_write_disk_full [of "[4, 5]" sample_full] show ?thesis by simp
qed

end
