(* ===== verification/Compression_Stream.thy ===== *)
theory Compression_Stream
  imports File_Stream
begin

section \<open>Compression streams\<close>

text \<open>
  Models \<^verbatim>\<open>broker/core/src/compression\<close>: the buffer \<open>stack_array\<close>, the wrapper of zlib and the
  stream itself, which sends each compressed chunk behind its length in network order and,
  when it reads, skips bytes until a chunk can be uncompressed.

  The functions of zlib are a parameter, a record of \<open>compressBound\<close>, \<open>compress2\<close> and
  \<open>uncompress\<close>; \<open>zlib_contract\<close> is what its manual says of them. The stream below is a
  parameter too, by its \<open>read\<close> and \<open>write\<close>. The loops that read may wait for more data for ever,
  so they are partial functions.
\<close>

subsection \<open>The read buffer\<close>

record stack_array =
  sa_buffer :: bytes
  sa_offset :: nat

definition sa_data :: "stack_array \<Rightarrow> bytes" where
  "sa_data a = drop (sa_offset a) (sa_buffer a)"

definition sa_pop :: "nat \<Rightarrow> stack_array \<Rightarrow> stack_array" where
  "sa_pop n a = a\<lparr>sa_offset := sa_offset a + n\<rparr>"

definition sa_push :: "bytes \<Rightarrow> stack_array \<Rightarrow> stack_array" where
  "sa_push b a =
     (let a' = (if sa_offset a \<noteq> 0
                then a\<lparr>sa_buffer := drop (sa_offset a) (sa_buffer a), sa_offset := 0\<rparr> else a)
      in a'\<lparr>sa_buffer := sa_buffer a' @ b\<rparr>)"

definition sa_size :: "stack_array \<Rightarrow> nat" where
  "sa_size a = length (sa_buffer a) - sa_offset a"

subsection \<open>zlib\<close>

datatype z_deflate = Z_OK bytes | Z_MEM_ERROR | Z_BUF_ERROR

datatype z_inflate = ZI_OK bytes | ZI_MEM_ERROR | ZI_BUF_ERROR | ZI_DATA_ERROR

record zlib =
  z_compressBound :: "nat \<Rightarrow> nat"
  z_compress2 :: "nat \<Rightarrow> bytes \<Rightarrow> int \<Rightarrow> z_deflate"
  z_uncompress :: "nat \<Rightarrow> bytes \<Rightarrow> z_inflate"

definition max_data_size :: int where
  "max_data_size = 100000000"

partial_function (option) compress_loop :: "zlib \<Rightarrow> bytes \<Rightarrow> int \<Rightarrow> nat \<Rightarrow> (exn + bytes) option" where
  "compress_loop z data level len =
     (case z_compress2 z len data level of
        Z_OK c \<Rightarrow> Some (Inr (be32 (of_nat (length data)) @ c))
      | Z_MEM_ERROR \<Rightarrow> Some (Inl Msg_fmt)
      | Z_BUF_ERROR \<Rightarrow> compress_loop z data level (2 * len))"

definition zlib_compress :: "zlib \<Rightarrow> bytes \<Rightarrow> int \<Rightarrow> (exn + bytes) option" where
  "zlib_compress z data level =
     (if data = [] then Some (Inr [0, 0, 0, 0])
      else let level' = (if level < - 1 \<or> level > 9 then - 1 else level)
           in compress_loop z data level' (z_compressBound z (length data)))"

definition zlib_uncompress :: "zlib \<Rightarrow> bytes \<Rightarrow> exn + bytes" where
  "zlib_uncompress z data =
     (if length data < 4 \<or> length data = 4 \<and> data \<noteq> [0, 0, 0, 0] then Inl Corruption
      else let expected_size = uint (of_be32 data);
               len = (if expected_size > 1 then expected_size else 1)
           in if len > max_data_size then Inl Corruption
              else case z_uncompress z (nat len) (drop 4 data) of
                     ZI_OK d \<Rightarrow> Inr d
                   | ZI_MEM_ERROR \<Rightarrow> Inl Msg_fmt
                   | ZI_BUF_ERROR \<Rightarrow> Inl Corruption
                   | ZI_DATA_ERROR \<Rightarrow> Inl Corruption)"

subsection \<open>The stream\<close>

record cstream =
  cs_level :: int
  cs_rbuffer :: stack_array
  cs_shutdown :: bool
  cs_size :: nat
  cs_wbuffer :: bytes

definition cs_new :: "int \<Rightarrow> nat \<Rightarrow> cstream" where
  "cs_new level sz =
     \<lparr>cs_level = level, cs_rbuffer = \<lparr>sa_buffer = [], sa_offset = 0\<rparr>, cs_shutdown = False,
      cs_size = sz, cs_wbuffer = []\<rparr>"

text \<open>\<open>_get_data\<close>: a shutdown of the stream below is noted and the buffer kept as it is.\<close>

partial_function (option) cs_get_data :: "('s, 'e) stream_read \<Rightarrow> nat \<Rightarrow> cstream \<Rightarrow> 's \<Rightarrow>
    (cstream \<times> 's, unit) outcome option" where
  "cs_get_data sub_read sz c s =
     (if sa_size (cs_rbuffer c) < sz then
        (case sub_read s of
           None \<Rightarrow> None
         | Some (r, s1) \<Rightarrow>
             (case r of
                Inl e \<Rightarrow>
                  (if e = Shutdown then Some (Inr (), (c\<lparr>cs_shutdown := True\<rparr>, s1))
                   else Some (Inl e, (c, s1)))
              | Inr (ok, d) \<Rightarrow>
                  (if \<not> ok then Some (Inl Timeout, (c, s1))
                   else case d of
                          None \<Rightarrow> Some (Inl Interrupt, (c, s1))
                        | Some data \<Rightarrow>
                            cs_get_data sub_read sz
                              (case data of
                                 Raw b \<Rightarrow> c\<lparr>cs_rbuffer := sa_push b (cs_rbuffer c)\<rparr>
                               | Event _ \<Rightarrow> c) s1)))
      else Some (Inr (), (c, s)))"

text \<open>The body of the \<open>try\<close> block of \<open>read\<close>: the next chunk that can be uncompressed.\<close>

definition cs_uncompress_chunk :: "zlib \<Rightarrow> nat \<Rightarrow> cstream \<Rightarrow> exn + bytes" where
  "cs_uncompress_chunk z sz c =
     (if sa_size (cs_rbuffer c) \<ge> sz + 4 then
        (case zlib_uncompress z (take sz (drop 4 (sa_data (cs_rbuffer c)))) of
           Inl Corruption \<Rightarrow> Inr []
         | r \<Rightarrow> r)
      else Inr [])"

definition cs_skip :: "nat \<Rightarrow> cstream \<Rightarrow> cstream" where
  "cs_skip n c = c\<lparr>cs_rbuffer := sa_pop n (cs_rbuffer c)\<rparr>"

partial_function (option) cs_read_loop :: "zlib \<Rightarrow> ('s, 'e) stream_read \<Rightarrow> cstream \<Rightarrow> 's \<Rightarrow>
    (cstream \<times> 's, bytes) outcome option" where
  "cs_read_loop z sub_read c s =
     (case cs_get_data sub_read 4 c s of
        None \<Rightarrow> None
      | Some (r1, c1, s1) \<Rightarrow>
          (case r1 of
             Inl e \<Rightarrow> Some (Inl e, (c1, s1))
           | Inr _ \<Rightarrow>
               (if sa_size (cs_rbuffer c1) < 4 then Some (Inl Shutdown, (c1, s1))
                else
                  (let sz = uint (of_be32 (sa_data (cs_rbuffer c1))) in
                   if sz \<le> 0 \<or> sz > max_data_size then cs_read_loop z sub_read (cs_skip 1 c1) s1
                   else
                     (case cs_get_data sub_read (nat sz + 4) c1 s1 of
                        None \<Rightarrow> None
                      | Some (r2, c2, s2) \<Rightarrow>
                          (case r2 of
                             Inl e \<Rightarrow> Some (Inl e, (c2, s2))
                           | Inr _ \<Rightarrow>
                               (case cs_uncompress_chunk z (nat sz) c2 of
                                  Inl e \<Rightarrow> Some (Inl e, (c2, s2))
                                | Inr d \<Rightarrow>
                                    (if d = [] then cs_read_loop z sub_read (cs_skip 1 c2) s2
                                     else Some (Inr d, (cs_skip (nat sz + 4) c2, s2))))))))))"

definition cs_read :: "zlib \<Rightarrow> ('s, 'e) stream_read \<Rightarrow> (cstream \<times> 's, 'e) stream_read" where
  "cs_read z sub_read cs =
     (let (c, s) = cs in
      if cs_shutdown c then Some (Inl Shutdown, cs)
      else case cs_read_loop z sub_read c s of
             None \<Rightarrow> None
           | Some (r, c1, s1) \<Rightarrow>
               (case r of
                  Inr d \<Rightarrow> Some (Inr (True, Some (Raw d)), (c1, s1))
                | Inl Interrupt \<Rightarrow> Some (Inr (True, None), (c1, s1))
                | Inl Timeout \<Rightarrow> Some (Inr (False, None), (c1, s1))
                | Inl Shutdown \<Rightarrow>
                    (let c2 = c1\<lparr>cs_shutdown := True\<rparr> in
                     if cs_wbuffer c2 \<noteq> []
                     then Some (Inr (True, Some (Raw (cs_wbuffer c2))), (c2\<lparr>cs_wbuffer := []\<rparr>, s1))
                     else Some (Inl Shutdown, (c2, s1)))
                | Inl e \<Rightarrow> Some (Inl e, (c1, s1))))"

definition cs_flush :: "zlib \<Rightarrow> ('s, 'e) stream_write \<Rightarrow> cstream \<times> 's \<Rightarrow>
    (cstream \<times> 's, nat) outcome option" where
  "cs_flush z sub_write cs =
     (let (c, s) = cs in
      if cs_shutdown c then Some (Inl Shutdown, cs)
      else if cs_wbuffer c = [] then Some (Inr 0, cs)
      else case zlib_compress z (cs_wbuffer c) (cs_level c) of
             None \<Rightarrow> None
           | Some (Inl e) \<Rightarrow> Some (Inl e, cs)
           | Some (Inr data) \<Rightarrow>
               (case sub_write (Some (Raw (be32 (of_nat (length data)) @ data))) s of
                  None \<Rightarrow> None
                | Some (Inl e, s1) \<Rightarrow> Some (Inl e, (c\<lparr>cs_wbuffer := []\<rparr>, s1))
                | Some (Inr _, s1) \<Rightarrow> Some (Inr 0, (c\<lparr>cs_wbuffer := []\<rparr>, s1))))"

definition cs_write :: "zlib \<Rightarrow> ('s, 'e) stream_write \<Rightarrow> (cstream \<times> 's, 'e) stream_write" where
  "cs_write z sub_write d cs =
     (let (c, s) = cs in
      case d of
        None \<Rightarrow> Some (Inr 1, cs)
      | Some data \<Rightarrow>
          (if cs_shutdown c then Some (Inl Shutdown, cs)
           else case data of
                  Event _ \<Rightarrow> Some (Inr 1, cs)
                | Raw b \<Rightarrow>
                    (if int (length b) > max_data_size then Some (Inl Msg_fmt, cs)
                     else if b = [] then Some (Inr 1, cs)
                     else let c1 = c\<lparr>cs_wbuffer := cs_wbuffer c @ b\<rparr> in
                          if length (cs_wbuffer c1) \<ge> cs_size c1 then
                            (case cs_flush z sub_write (c1, s) of
                               None \<Rightarrow> None
                             | Some (Inl e, cs1) \<Rightarrow> Some (Inl e, cs1)
                             | Some (Inr _, cs1) \<Rightarrow> Some (Inr 1, cs1))
                          else Some (Inr 1, (c1, s)))))"

subsection \<open>The bytes that wait behind the compression\<close>

text \<open>The contract of zlib: what \<open>compress2\<close> makes, \<open>uncompress\<close> undoes.\<close>

definition zlib_contract :: "zlib \<Rightarrow> bool" where
  "zlib_contract z \<longleftrightarrow>
     (\<forall>d level. d \<noteq> [] \<and> - 1 \<le> level \<and> level \<le> 9 \<longrightarrow>
        (\<exists>c. z_compress2 z (z_compressBound z (length d)) d level = Z_OK c \<and> c \<noteq> [] \<and>
             length c \<le> z_compressBound z (length d) \<and> z_uncompress z (length d) c = ZI_OK d))"

text \<open>The buffers that fit a chunk, compressed or not.\<close>

definition compressible :: "zlib \<Rightarrow> bytes \<Rightarrow> bool" where
  "compressible z b \<longleftrightarrow> int (length b) \<le> max_data_size \<and>
     int (z_compressBound z (length b)) + 4 \<le> max_data_size"

text \<open>The content of a sequence of complete chunks.\<close>

function decode_chunks :: "zlib \<Rightarrow> bytes \<Rightarrow> bytes option" where
  "decode_chunks z bs =
     (if bs = [] then Some []
      else if length bs < 4 then None
      else let sz = uint (of_be32 bs) in
           if sz \<le> 0 \<or> sz > max_data_size \<or> length bs < nat sz + 4 then None
           else case zlib_uncompress z (take (nat sz) (drop 4 bs)) of
                  Inl _ \<Rightarrow> None
                | Inr d \<Rightarrow>
                    (if d = [] then None
                     else case decode_chunks z (drop (nat sz + 4) bs) of
                            None \<Rightarrow> None
                          | Some r \<Rightarrow> Some (d @ r)))"
  by pat_completeness auto
termination by (relation "measure (\<lambda>(z, bs). length bs)") auto

declare decode_chunks.simps [simp del]

definition cs_waiting :: "zlib \<Rightarrow> ('s \<Rightarrow> bytes) \<Rightarrow> cstream \<times> 's \<Rightarrow> bytes" where
  "cs_waiting z waiting cs =
     the (decode_chunks z (sa_data (cs_rbuffer (fst cs)) @ waiting (snd cs)))"

definition cs_inv :: "zlib \<Rightarrow> ('s \<Rightarrow> bool) \<Rightarrow> ('s \<Rightarrow> bytes) \<Rightarrow> cstream \<times> 's \<Rightarrow> bool" where
  "cs_inv z sub_inv waiting cs \<longleftrightarrow> zlib_contract z \<and> sub_inv (snd cs) \<and> \<not> cs_shutdown (fst cs) \<and>
     cs_wbuffer (fst cs) = [] \<and> cs_size (fst cs) = 0 \<and>
     decode_chunks z (sa_data (cs_rbuffer (fst cs)) @ waiting (snd cs)) \<noteq> None"

lemma stack_array_view [simp]:
  "sa_data (sa_push b a) = sa_data a @ b"
  "sa_data (sa_pop n a) = drop n (sa_data a)"
  "sa_size a = length (sa_data a)"
  by (simp_all add: sa_data_def sa_push_def sa_pop_def sa_size_def Let_def add.commute)

lemma decode_chunks_append:
  "decode_chunks z a = Some x \<Longrightarrow>
   decode_chunks z (a @ b) = map_option (\<lambda>y. x @ y) (decode_chunks z b)"
proof (induction z a arbitrary: x rule: decode_chunks.induct)
  case (1 z a)
  show ?case
  proof (cases "a = []")
    case True
    with 1(2) have "x = []" by (simp add: decode_chunks.simps)
    with True show ?thesis by (simp add: option.map_ident)
  next
    case False
    define sz where "sz = uint (of_be32 a)"
    from 1(2) False obtain d r where c: "4 \<le> length a" "sz \<noteq> 0" "sz \<le> max_data_size" "nat sz + 4 \<le> length a"
        "zlib_uncompress z (take (nat sz) (drop 4 a)) = Inr d" "d \<noteq> []"
        "decode_chunks z (drop (nat sz + 4) a) = Some r" "x = d @ r"
      by (auto simp: decode_chunks.simps [of z a] Let_def sz_def not_less not_le
          split: if_splits sum.splits option.splits)
    have pos: "\<not> sz \<le> 0" using c(2) uint_ge_0 [of "of_be32 a"] by (simp add: sz_def)
    have ih: "decode_chunks z (drop (nat sz + 4) a @ b) = map_option (\<lambda>y. r @ y) (decode_chunks z b)"
      using 1(1) [OF False _ sz_def _ c(5,6,7)] c pos by simp
    have "of_be32 (a @ b) = of_be32 a" using c(1) by (rule of_be32_append)
    with c pos ih False show ?thesis
      by (simp add: decode_chunks.simps [of z "a @ b"] Let_def flip: sz_def)
        (cases "decode_chunks z b"; simp)
  qed
qed

definition chunk :: "bytes \<Rightarrow> bytes" where
  "chunk data = be32 (of_nat (length data)) @ data"

lemma uint_of_nat_u32: "int n \<le> max_data_size + 4 \<Longrightarrow> uint (of_nat n :: u32) = int n"
  by (simp add: max_data_size_def uint_nat unat_of_nat)

lemma zlib_compress_ok:
  assumes "zlib_contract z" "b \<noteq> []" "compressible z b"
  obtains c where "zlib_compress z b level = Some (Inr (be32 (of_nat (length b)) @ c))"
    "zlib_uncompress z (be32 (of_nat (length b)) @ c) = Inr b"
    "int (length c) + 4 \<le> max_data_size"
proof -
  define l where "l = (if level < - 1 \<or> level > 9 then - 1 else level)"
  obtain c where c: "z_compress2 z (z_compressBound z (length b)) b l = Z_OK c" "c \<noteq> []"
      "length c \<le> z_compressBound z (length b)" "z_uncompress z (length b) c = ZI_OK b"
  proof -
    have "- 1 \<le> l \<and> l \<le> 9" by (auto simp: l_def)
    with assms(1,2) that show thesis unfolding zlib_contract_def by blast
  qed
  have "zlib_compress z b level = Some (Inr (be32 (of_nat (length b)) @ c))"
    using assms(2) c(1) by (simp add: zlib_compress_def compress_loop.simps l_def Let_def)
  moreover have "zlib_uncompress z (be32 (of_nat (length b)) @ c) = Inr b"
  proof -
    have "uint (of_nat (length b) :: u32) = int (length b)"
      using assms(3) by (intro uint_of_nat_u32) (simp add: compressible_def)
    moreover have "int (length b) \<le> max_data_size" using assms(3) by (simp add: compressible_def)
    moreover have "(if int (length b) > 1 then int (length b) else 1) = int (length b)"
      using assms(2) by (cases b) auto
    ultimately show ?thesis using c(2,4) assms(2)
      by (simp add: zlib_uncompress_def Let_def)
  qed
  moreover have "int (length c) + 4 \<le> max_data_size"
    using c(3) assms(3) by (simp add: compressible_def)
  ultimately show thesis by (rule that)
qed

lemma decode_chunk:
  assumes "zlib_uncompress z data = Inr b" "b \<noteq> []" "int (length data) \<le> max_data_size" "data \<noteq> []"
  shows "decode_chunks z (chunk data) = Some b"
proof -
  have "uint (of_nat (length data) :: u32) = int (length data)"
    using assms(3) by (intro uint_of_nat_u32) simp
  with assms show ?thesis
    by (simp add: decode_chunks.simps [of z "chunk data"] chunk_def Let_def)
      (simp add: decode_chunks.simps)
qed

lemma decode_nonempty: "decode_chunks z bs = Some [] \<Longrightarrow> bs = []"
  by (subst (asm) decode_chunks.simps) (auto simp: Let_def split: if_splits sum.splits option.splits)

lemma decode_first:
  assumes "decode_chunks z bs = Some x" "x \<noteq> []"
  obtains data d rest r where "bs = chunk data @ rest" "zlib_uncompress z data = Inr d" "d \<noteq> []"
    "int (length data) \<le> max_data_size" "data \<noteq> []" "decode_chunks z rest = Some r" "x = d @ r"
proof -
  define sz where "sz = uint (of_be32 bs)"
  have ne: "bs \<noteq> []" using assms by (auto simp: decode_chunks.simps)
  from assms(1) ne obtain d r where c: "4 \<le> length bs" "sz \<noteq> 0" "sz \<le> max_data_size" "nat sz + 4 \<le> length bs"
      "zlib_uncompress z (take (nat sz) (drop 4 bs)) = Inr d" "d \<noteq> []"
      "decode_chunks z (drop (nat sz + 4) bs) = Some r" "x = d @ r"
    by (auto simp: decode_chunks.simps [of z bs] Let_def sz_def not_less not_le
        split: if_splits sum.splits option.splits)
  define data where "data = take (nat sz) (drop 4 bs)"
  have pos: "0 < sz" using c(2) uint_ge_0 [of "of_be32 bs"] unfolding sz_def by linarith
  have l: "length data = nat sz" using c(4) by (simp add: data_def)
  have "of_be32 bs = of_nat (length data)"
    using l by (simp add: sz_def word_unat_eq_iff)
  then have "take 4 bs = be32 (of_nat (length data))"
    using be32_of_be32 [OF c(1)] by simp
  moreover have "take 4 bs @ data @ drop (nat sz + 4) bs = bs"
    unfolding data_def drop_drop [symmetric] append_take_drop_id ..
  ultimately have "bs = chunk data @ drop (nat sz + 4) bs" by (simp add: chunk_def)
  then show thesis
    using c pos l by (intro that [of data "drop (nat sz + 4) bs" d r]) (auto simp: data_def [symmetric])
qed

context raw_channel
begin

text \<open>\<open>_get_data\<close> returns once the channel holds enough bytes, and moves them only.\<close>

lemma get_data_fill:
  assumes "inv s" "n \<le> length (sa_data (cs_rbuffer c) @ waiting s)"
  shows "\<exists>a s'. cs_get_data sub_read n c s = Some (Inr (), (c\<lparr>cs_rbuffer := a\<rparr>, s')) \<and> inv s' \<and>
    n \<le> length (sa_data a) \<and> sa_data a @ waiting s' = sa_data (cs_rbuffer c) @ waiting s"
  using assms
proof (induction "length (waiting s)" arbitrary: c s rule: less_induct)
  case less
  show ?case
  proof (cases "length (sa_data (cs_rbuffer c)) < n")
    case False
    then show ?thesis
      using less.prems by (intro exI [of _ "cs_rbuffer c"] exI [of _ s]) (simp add: cs_get_data.simps)
  next
    case True
    with less.prems(2) have "waiting s \<noteq> []" by auto
    from read_more [OF less.prems(1) this] obtain d s1
      where d: "sub_read s = Some (Inr (True, Some (Raw d)), s1)" "d \<noteq> []" "inv s1" "waiting s = d @ waiting s1"
      by blast
    define c1 where "c1 = c\<lparr>cs_rbuffer := sa_push d (cs_rbuffer c)\<rparr>"
    have "length (waiting s1) < length (waiting s)" using d by simp
    moreover have "n \<le> length (sa_data (cs_rbuffer c1) @ waiting s1)"
      using less.prems(2) d by (simp add: c1_def)
    moreover have "cs_get_data sub_read n c s = cs_get_data sub_read n c1 s1"
      using True d(1) by (subst cs_get_data.simps) (simp add: c1_def)
    ultimately show ?thesis using less.hyps [of s1 c1] d by (simp add: c1_def)
  qed
qed

lemma get_data_end:
  assumes "inv s" "waiting s = []" "length (sa_data (cs_rbuffer c)) < n"
  shows "\<exists>s'. cs_get_data sub_read n c s = Some (Inr (), (c\<lparr>cs_shutdown := True\<rparr>, s')) \<and> ended s'"
  using read_end [OF assms(1,2)] assms(3) by (auto simp: cs_get_data.simps)

lemma cs_read_chunk:
  assumes "inv s" "zlib_uncompress z data = Inr b" "b \<noteq> []"
    and "int (length data) \<le> max_data_size" "data \<noteq> []"
    and w: "sa_data (cs_rbuffer c) @ waiting s = chunk data @ rest"
  shows "\<exists>a s'. cs_read_loop z sub_read c s = Some (Inr b, (c\<lparr>cs_rbuffer := a\<rparr>, s')) \<and> inv s' \<and>
    sa_data a @ waiting s' = rest"
proof -
  have u: "uint (of_nat (length data) :: u32) = int (length data)"
    using assms(4) by (intro uint_of_nat_u32) simp
  obtain a1 s1 where 1: "cs_get_data sub_read 4 c s = Some (Inr (), (c\<lparr>cs_rbuffer := a1\<rparr>, s1))"
      "inv s1" "4 \<le> length (sa_data a1)" "sa_data a1 @ waiting s1 = chunk data @ rest"
    using get_data_fill [OF assms(1), of 4 c] w by (auto simp: chunk_def)
  have h1: "of_be32 (sa_data a1) = of_nat (length data)"
    using of_be32_append [OF 1(3), of "waiting s1"] 1(4) by (simp add: chunk_def)
  obtain a2 s2 where 2: "cs_get_data sub_read (length data + 4) (c\<lparr>cs_rbuffer := a1\<rparr>) s1 =
        Some (Inr (), (c\<lparr>cs_rbuffer := a2\<rparr>, s2))"
      "inv s2" "length data + 4 \<le> length (sa_data a2)" "sa_data a2 @ waiting s2 = chunk data @ rest"
    using get_data_fill [OF 1(2), of "length data + 4" "c\<lparr>cs_rbuffer := a1\<rparr>"] 1(4)
    by (auto simp: chunk_def)
  have t: "take (length data) (drop 4 (sa_data a2)) = data"
  proof -
    have "take (length data) (drop 4 (sa_data a2)) = take (length data) (drop 4 (sa_data a2 @ waiting s2))"
      using 2(3) by simp
    then show ?thesis unfolding 2(4) by (simp add: chunk_def)
  qed
  have r: "drop (length data + 4) (sa_data a2) @ waiting s2 = rest"
  proof -
    have "drop (length data + 4) (sa_data a2 @ waiting s2) = rest"
      unfolding 2(4) by (simp add: chunk_def)
    then show ?thesis using 2(3) by simp
  qed
  show ?thesis
    using 1 2 h1 u t r assms(2-5)
    by (subst cs_read_loop.simps)
      (auto simp: cs_uncompress_chunk_def cs_skip_def Let_def intro!: exI [of _ "sa_pop (length data + 4) a2"])
qed

lemma cs_read_more:
  assumes "cs_inv z inv waiting cs" "cs_waiting z waiting cs \<noteq> []"
  shows "\<exists>d cs'. cs_read z sub_read cs = Some (Inr (True, Some (Raw d)), cs') \<and> d \<noteq> [] \<and>
    cs_inv z inv waiting cs' \<and> cs_waiting z waiting cs = d @ cs_waiting z waiting cs'"
proof -
  obtain c s where cs: "cs = (c, s)" by (cases cs)
  have i: "zlib_contract z" "inv s" "\<not> cs_shutdown c" "cs_wbuffer c = []" "cs_size c = 0"
    using assms(1) by (simp_all add: cs_inv_def cs)
  obtain x where x: "decode_chunks z (sa_data (cs_rbuffer c) @ waiting s) = Some x" "x \<noteq> []"
    using assms by (auto simp: cs_inv_def cs_waiting_def cs)
  obtain data d rest r where f: "sa_data (cs_rbuffer c) @ waiting s = chunk data @ rest"
      "zlib_uncompress z data = Inr d" "d \<noteq> []" "int (length data) \<le> max_data_size" "data \<noteq> []"
      "decode_chunks z rest = Some r" "x = d @ r"
    by (rule decode_first [OF x])
  obtain a s' where "cs_read_loop z sub_read c s = Some (Inr d, (c\<lparr>cs_rbuffer := a\<rparr>, s'))" "inv s'"
      "sa_data a @ waiting s' = rest"
    using cs_read_chunk [OF i(2) f(2-5,1)] by blast
  with i x f show ?thesis
    by (auto simp: cs cs_read_def cs_inv_def cs_waiting_def)
qed

lemma cs_read_end:
  assumes "cs_inv z inv waiting cs" "cs_waiting z waiting cs = []"
  shows "\<exists>cs'. cs_read z sub_read cs = Some (Inl Shutdown, cs') \<and> cs_shutdown (fst cs') \<and> ended (snd cs')"
proof -
  obtain c s where cs: "cs = (c, s)" by (cases cs)
  have i: "inv s" "\<not> cs_shutdown c" "cs_wbuffer c = []"
    using assms(1) by (simp_all add: cs_inv_def cs)
  have "decode_chunks z (sa_data (cs_rbuffer c) @ waiting s) = Some []"
    using assms by (auto simp: cs_inv_def cs_waiting_def cs)
  then have e: "sa_data (cs_rbuffer c) = []" "waiting s = []"
    using decode_nonempty by fastforce+
  from get_data_end [OF i(1) e(2), of c 4] e(1) i show ?thesis
    by (auto simp: cs cs_read_def cs_read_loop.simps)
qed

lemma cs_write_all:
  assumes "\<And>x. int (length x) \<le> max_data_size + 4 \<Longrightarrow> accepts x"
    and "cs_inv z inv waiting cs" "b = [] \<or> compressible z b"
  shows "\<exists>cs'. cs_write z sub_write (Some (Raw b)) cs = Some (Inr 1, cs') \<and> cs_inv z inv waiting cs' \<and>
    cs_waiting z waiting cs' = cs_waiting z waiting cs @ b"
proof (cases "b = []")
  case True
  with assms(2) show ?thesis by (cases cs) (auto simp: cs_write_def cs_inv_def max_data_size_def)
next
  case False
  obtain c s where cs: "cs = (c, s)" by (cases cs)
  have i: "zlib_contract z" "inv s" "\<not> cs_shutdown c" "cs_wbuffer c = []" "cs_size c = 0"
    using assms(2) by (simp_all add: cs_inv_def cs)
  obtain x where x: "decode_chunks z (sa_data (cs_rbuffer c) @ waiting s) = Some x"
    using assms(2) by (auto simp: cs_inv_def cs)
  have k: "compressible z b" using assms(3) False by simp
  obtain e where z: "zlib_compress z b (cs_level c) = Some (Inr (be32 (of_nat (length b)) @ e))"
      "zlib_uncompress z (be32 (of_nat (length b)) @ e) = Inr b" "int (length e) + 4 \<le> max_data_size"
    by (rule zlib_compress_ok [OF i(1) False k])
  define data where "data = be32 (of_nat (length b)) @ e"
  have d: "zlib_uncompress z data = Inr b" "int (length data) \<le> max_data_size" "data \<noteq> []"
    using z by (auto simp: data_def be32_def)
  obtain s' where w: "sub_write (Some (Raw (chunk data))) s = Some (Inr 1, s')" "inv s'"
      "waiting s' = waiting s @ chunk data"
    using write_all [OF i(2) assms(1) [of "chunk data"]] d(2) by (auto simp: chunk_def)
  have "decode_chunks z (sa_data (cs_rbuffer c) @ waiting s') = Some (x @ b)"
    using decode_chunks_append [OF x, of "chunk data"] decode_chunk [OF d(1) False d(2,3)] w(3) by simp
  moreover have "cs_write z sub_write (Some (Raw b)) cs = Some (Inr 1, (c, s'))"
  proof -
    have "c\<lparr>cs_wbuffer := []\<rparr> = c" using i(4) by simp
    then show ?thesis
      using i False k z(1) w(1)
      by (simp add: cs_write_def cs cs_flush_def compressible_def Let_def flip: chunk_def data_def)
  qed
  ultimately show ?thesis
    using i w x by (auto simp: cs cs_inv_def cs_waiting_def)
qed

end

interpretation ccf: raw_channel "cs_inv z (file_inv path) pending" "cs_waiting z pending"
    "\<lambda>cs. cs_shutdown (fst cs) \<and> file_ended path (snd cs)" "\<lambda>b. b = [] \<or> compressible z b" "cs_read z file_read" "cs_write z file_write" for z path
proof (unfold_locales, goal_cases)
  case (1 cs)
  then show ?case by (rule fc.cs_read_more)
next
  case (2 cs)
  then show ?case by (rule fc.cs_read_end)
next
  case (3 cs b)
  show ?case by (rule fc.cs_write_all [OF _ 3]) (simp add: max_data_size_def)
qed

subsection \<open>Properties\<close>

text \<open>
  C23. With a zlib that meets its contract, the compression stream over a file stream is
  transparent: what is written is read back in order, through the chunk headers, the
  compression and the boundaries of the parts on disk.
\<close>
theorem compression_transfers:
  assumes "cs_inv z (file_inv path) pending cs" "compressible z b"
  shows "(\<exists>cs'. cs_write z file_write (Some (Raw b)) cs = Some (Inr 1, cs') \<and>
             cs_inv z (file_inv path) pending cs' \<and>
             cs_waiting z pending cs' = cs_waiting z pending cs @ b) \<and>
         (cs_waiting z pending cs \<noteq> [] \<longrightarrow>
            (\<exists>d cs'. cs_read z file_read cs = Some (Inr (True, Some (Raw d)), cs') \<and> d \<noteq> [] \<and>
               cs_inv z (file_inv path) pending cs' \<and>
               cs_waiting z pending cs = d @ cs_waiting z pending cs'))"
  using ccf.write_all [OF assms(1), of b] assms(2) ccf.read_more [OF assms(1)] by blast

text \<open>
  Once a read has thrown at the end of the data, the compression stream stays shut: every
  later read, write or flush throws, whatever the stream below has to offer.
\<close>
theorem compression_closed_after_end:
  assumes "cs_read z sub_read (c, s) = Some (Inl Shutdown, (c', s'))"
  shows "cs_read z sub_read' (c', s'') = Some (Inl Shutdown, (c', s'')) \<and>
         cs_write z sub_write (Some d) (c', s'') = Some (Inl Shutdown, (c', s'')) \<and>
         cs_flush z sub_write (c', s'') = Some (Inl Shutdown, (c', s''))"
proof -
  have "cs_shutdown c'"
    using assms by (auto simp: cs_read_def Let_def split: if_splits option.splits sum.splits prod.splits exn.splits)
  then show ?thesis by (simp add: cs_read_def cs_write_def cs_flush_def)
qed

text \<open>A zlib that stores its input behind a marker, and the properties on it.\<close>

definition stored_zlib :: zlib where
  "stored_zlib =
     \<lparr>z_compressBound = (\<lambda>n. Suc n), z_compress2 = (\<lambda>len d level. Z_OK (0x78 # d)),
      z_uncompress = (\<lambda>len c. if c = [] \<or> length (tl c) > len then ZI_BUF_ERROR else ZI_OK (tl c))\<rparr>"

lemma stored_zlib_contract: "zlib_contract stored_zlib"
  by (simp add: zlib_contract_def stored_zlib_def)

definition sample_cstream :: "cstream \<times> sfs" where
  "sample_cstream = (cs_new (- 1) 0, sample_splitter)"

lemma sample_splitter_file: "file_inv ''queue'' sample_splitter"
proof -
  have p: "part_names ''queue'' (snd sample_splitter) = [''queue'']" by code_simp
  have "own_parts sample_splitter" by (auto simp: own_parts_def sample_splitter_fields p get_file_path_def)
  then show ?thesis by (simp add: file_inv_def sample_splitter_inv sample_splitter_fields)
qed

lemma sample_cstream_inv:
  "cs_inv stored_zlib (file_inv ''queue'') pending sample_cstream"
  "cs_waiting stored_zlib pending sample_cstream = []"
  by (simp_all add: cs_inv_def cs_waiting_def stored_zlib_contract sample_splitter_file sample_splitter_inv
      sample_cstream_def cs_new_def sa_data_def decode_chunks.simps)

theorem compression_transfers_witness:
  "cs_inv stored_zlib (file_inv ''queue'') pending sample_cstream \<and>
   (\<exists>cs'. cs_write stored_zlib file_write (Some (Raw [5, 6])) sample_cstream = Some (Inr 1, cs') \<and>
      cs_waiting stored_zlib pending cs' = [5, 6])"
proof -
  have "compressible stored_zlib [5, 6]" by (simp add: compressible_def stored_zlib_def max_data_size_def)
  with compression_transfers [OF sample_cstream_inv(1), of "[5, 6]"] sample_cstream_inv
  show ?thesis by auto
qed

theorem compression_closed_after_end_witness:
  "\<exists>c' s'. cs_read stored_zlib (file_read :: (sfs, unit) stream_read) sample_cstream = Some (Inl Shutdown, (c', s')) \<and>
     cs_write stored_zlib (file_write :: (sfs, unit) stream_write) (Some (Raw [1])) (c', s') = Some (Inl Shutdown, (c', s'))"
proof -
  have "fst (splitter_read bufsiz sample_splitter) = Inl Shutdown" by code_simp
  then obtain s' where "(file_read :: (sfs, unit) stream_read) sample_splitter = Some (Inl Shutdown, s')"
    by (cases "splitter_read bufsiz sample_splitter") (auto simp: file_read_def)
  then obtain c' where r: "cs_read stored_zlib (file_read :: (sfs, unit) stream_read) (cs_new (- 1) 0, sample_splitter) =
      Some (Inl Shutdown, (c', s'))"
    by (simp add: cs_read_def cs_new_def cs_read_loop.simps cs_get_data.simps sa_data_def)
  with compression_closed_after_end [OF r, of file_read s' file_write "Raw [1]"]
  show ?thesis unfolding sample_cstream_def by blast
qed

end
