(* ===== verification/Bbdo_Stream.thy ===== *)
theory Bbdo_Stream
  imports Bbdo_Codec Compression_Stream
begin

unbundle bit_operations_syntax

section \<open>The BBDO stream\<close>

text \<open>
  Models the class \<open>bbdo::stream\<close> (\<^verbatim>\<open>broker/core/src/bbdo/stream.cc\<close>): packets are collected from
  the stream below, long events put together from their parts, control messages handled on the
  way, and events acknowledged. The loops end only when the stream below lets them, so they are
  partial functions; \<open>None\<close> means that the call does not return.

  The accessors and constructors of the control messages are generated code and parameters of the
  model, as is the clock. The negotiation of extensions is not modelled.
\<close>

subsection \<open>State\<close>

record bbdo_buffer =
  bb_event_id :: u32
  bb_source_id :: u32
  bb_dest_id :: u32
  bb_buf :: "bytes list"

definition buffer_matches :: "u32 \<Rightarrow> u32 \<Rightarrow> u32 \<Rightarrow> bbdo_buffer \<Rightarrow> bool" where
  "buffer_matches event_id source_id dest_id b \<longleftrightarrow>
     event_id = bb_event_id b \<and> source_id = bb_source_id b \<and> dest_id = bb_dest_id b"

definition buffer_to_vector :: "bbdo_buffer \<Rightarrow> bytes" where
  "buffer_to_vector b = concat (bb_buf b)"

definition buffer_push_back :: "bytes \<Rightarrow> bbdo_buffer \<Rightarrow> bbdo_buffer" where
  "buffer_push_back v b = b\<lparr>bb_buf := bb_buf b @ [v]\<rparr>"

text \<open>What the source uses of the message classes.\<close>

record 'o control =
  ct_bbdo_major :: "'o \<Rightarrow> u16"
  ct_welcome_major :: "'o \<Rightarrow> u16"
  ct_ack_events :: "'o \<Rightarrow> u32"
  ct_pb_ack_events :: "'o \<Rightarrow> u32"
  ct_poller_id :: "'o \<Rightarrow> u64"
  ct_make_ack :: "u32 \<Rightarrow> 'o event"
  ct_make_pb_ack :: "u32 \<Rightarrow> 'o event"
  ct_make_pb_stop :: "u64 \<Rightarrow> 'o event"
  ct_make_local_stop :: "u64 \<Rightarrow> 'o event"
  ct_is_protobuf :: "'o event \<Rightarrow> bool"

record 'o bbdo_env =
  bbe_clib :: clib
  bbe_registry :: "'o registry"
  bbe_control :: "'o control"
  bbe_version_major :: u16
  bbe_version_total :: u64

record 'o bstream =
  bs_packet :: bytes
  bs_buffer :: "bbdo_buffer list"
  bs_skipped :: int
  bs_is_input :: bool
  bs_coarse :: bool
  bs_negotiate :: bool
  bs_negotiated :: bool
  bs_timeout :: int
  bs_acknowledged_events :: u32
  bs_ack_limit :: u32
  bs_events_received :: u32
  bs_last_sent_ack :: int
  bs_grpc_serialized :: bool
  bs_grpc_queue :: "'o event list"
  bs_published :: "'o event list"

text \<open>\<open>bs_published\<close> collects what the stream hands to the local publisher.\<close>

definition bs_new :: "bool \<Rightarrow> bool \<Rightarrow> int \<Rightarrow> 'o bstream" where
  "bs_new is_input grpc now =
     \<lparr>bs_packet = [], bs_buffer = [], bs_skipped = 0, bs_is_input = is_input, bs_coarse = False,
      bs_negotiate = True, bs_negotiated = False, bs_timeout = 5, bs_acknowledged_events = 0,
      bs_ack_limit = 1000, bs_events_received = 0, bs_last_sent_ack = now,
      bs_grpc_serialized = grpc, bs_grpc_queue = [], bs_published = []\<rparr>"

definition set_ack_limit :: "u32 \<Rightarrow> 'o bstream \<Rightarrow> 'o bstream" where
  "set_ack_limit limit b = b\<lparr>bs_ack_limit := limit\<rparr>"

definition set_coarse :: "bool \<Rightarrow> 'o bstream \<Rightarrow> 'o bstream" where
  "set_coarse coarse b = b\<lparr>bs_coarse := coarse\<rparr>"

definition set_negotiate :: "bool \<Rightarrow> 'o bstream \<Rightarrow> 'o bstream" where
  "set_negotiate n b = b\<lparr>bs_negotiate := n\<rparr>"

definition set_timeout :: "int \<Rightarrow> 'o bstream \<Rightarrow> 'o bstream" where
  "set_timeout t b = b\<lparr>bs_timeout := t\<rparr>"

subsection \<open>Reading packets\<close>

partial_function (option) bs_read_packet :: "('s, 'o event) stream_read \<Rightarrow> nat \<Rightarrow> 'o bstream \<Rightarrow> 's \<Rightarrow>
    ('o bstream \<times> 's, unit) outcome option" where
  "bs_read_packet sub_read sz b s =
     (if length (bs_packet b) < sz then
        (case sub_read s of
           None \<Rightarrow> None
         | Some (r, s1) \<Rightarrow>
             (case r of
                Inl e \<Rightarrow> Some (Inl e, (b, s1))
              | Inr (ok, d) \<Rightarrow>
                  (case d of
                     Some (Event e) \<Rightarrow> Some (Inr (), (b\<lparr>bs_grpc_queue := bs_grpc_queue b @ [e]\<rparr>, s1))
                   | Some (Raw v) \<Rightarrow>
                       (if \<not> ok then Some (Inl Timeout, (b\<lparr>bs_packet := bs_packet b @ v\<rparr>, s1))
                        else bs_read_packet sub_read sz (b\<lparr>bs_packet := bs_packet b @ v\<rparr>) s1)
                   | None \<Rightarrow>
                       (if \<not> ok then Some (Inl Timeout, (b, s1))
                        else bs_read_packet sub_read sz b s1))))
      else Some (Inr (), (b, s)))"

text \<open>The fields of the header in front of the packet.\<close>

definition header_chksum :: "bytes \<Rightarrow> u16" where
  "header_chksum p = of_be16 p"

definition header_size :: "bytes \<Rightarrow> nat" where
  "header_size p = unat (of_be16 (drop 2 p))"

definition header_event_id :: "bytes \<Rightarrow> u32" where
  "header_event_id p = of_be32 (drop 4 p)"

definition header_source_id :: "bytes \<Rightarrow> u32" where
  "header_source_id p = of_be32 (drop 8 p)"

definition header_dest_id :: "bytes \<Rightarrow> u32" where
  "header_dest_id p = of_be32 (drop 12 p)"

definition header_expected :: "bytes \<Rightarrow> u16" where
  "header_expected p = crc16_ccitt (take 14 (drop 2 p))"

definition extract_content :: "nat \<Rightarrow> 'o bstream \<Rightarrow> bytes \<times> 'o bstream" where
  "extract_content n b =
     (if length (bs_packet b) = 16 + n
      then (drop 16 (bs_packet b), b\<lparr>bs_packet := []\<rparr>)
      else (take n (drop 16 (bs_packet b)), b\<lparr>bs_packet := drop (16 + n) (bs_packet b)\<rparr>))"

text \<open>The first buffer that waits for more of the event is taken out and completed.\<close>

fun join_buffer :: "u32 \<Rightarrow> u32 \<Rightarrow> u32 \<Rightarrow> bytes \<Rightarrow> bbdo_buffer list \<Rightarrow> bytes \<times> bbdo_buffer list" where
  "join_buffer eid src dst part [] = (part, [])"
| "join_buffer eid src dst part (x # xs) =
     (if buffer_matches eid src dst x then (buffer_to_vector (buffer_push_back part x), xs)
      else case join_buffer eid src dst part xs of (c, ys) \<Rightarrow> (c, x # ys))"

fun store_buffer :: "u32 \<Rightarrow> u32 \<Rightarrow> u32 \<Rightarrow> bytes \<Rightarrow> bbdo_buffer list \<Rightarrow> bbdo_buffer list" where
  "store_buffer eid src dst part [] =
     [\<lparr>bb_event_id = eid, bb_source_id = src, bb_dest_id = dst, bb_buf = [part]\<rparr>]"
| "store_buffer eid src dst part (x # xs) =
     (if buffer_matches eid src dst x then buffer_push_back part x # xs
      else x # store_buffer eid src dst part xs)"

fun purge_buffer :: "nat \<Rightarrow> bbdo_buffer list \<Rightarrow> bbdo_buffer list" where
  "purge_buffer n [] = []"
| "purge_buffer n (x # xs) = (if length (x # xs) > n then purge_buffer n xs else x # xs)"

text \<open>
  The loop of \<open>_read_any\<close>. The payload is read with \<open>_read_packet\<close>, which comes back early when
  the stream below delivers a whole event; the packet may then be shorter than the payload.
\<close>

partial_function (option) bs_read_any_loop :: "'o bbdo_env \<Rightarrow> ('s, 'o event) stream_read \<Rightarrow> 'o bstream \<Rightarrow> 's \<Rightarrow>
    ('o bstream \<times> 's, 'o event option) outcome option" where
  "bs_read_any_loop env sub_read b s =
     (case bs_read_packet sub_read 16 b s of
        None \<Rightarrow> None
      | Some (r1, b1, s1) \<Rightarrow>
          (case r1 of
             Inl x \<Rightarrow> Some (Inl x, (b1, s1))
           | Inr _ \<Rightarrow>
               (if bs_grpc_queue b1 \<noteq> []
                then Some (Inr (Some (hd (bs_grpc_queue b1))), (b1\<lparr>bs_grpc_queue := tl (bs_grpc_queue b1)\<rparr>, s1))
                else
                  (let pack = bs_packet b1; n = header_size pack; eid = header_event_id pack;
                       src = header_source_id pack; dst = header_dest_id pack in
                   if header_expected pack \<noteq> header_chksum pack
                   then bs_read_any_loop env sub_read
                          (b1\<lparr>bs_skipped := bs_skipped b1 + 1, bs_packet := tl pack\<rparr>) s1
                   else
                     (case bs_read_packet sub_read (16 + n) (b1\<lparr>bs_skipped := 0\<rparr>) s1 of
                        None \<Rightarrow> None
                      | Some (r2, b2, s2) \<Rightarrow>
                          (case r2 of
                             Inl x \<Rightarrow> Some (Inl x, (b2, s2))
                           | Inr _ \<Rightarrow>
                               (if length (bs_packet b2) < 16 + n then Some (Inl Undefined, (b2, s2))
                                else
                                  (let (part, b3) = extract_content n b2 in
                                   if int n \<noteq> 0xffff then
                                     (let (part', buffers) = join_buffer eid src dst part (bs_buffer b3);
                                          b4 = b3\<lparr>bs_buffer := purge_buffer 3 buffers\<rparr> in
                                      Some (bbdo_unserialize (bbe_clib env) (bbe_registry env) eid src dst part',
                                            (b4, s2)))
                                   else bs_read_any_loop env sub_read
                                          (b3\<lparr>bs_buffer :=
                                             purge_buffer 4 (store_buffer eid src dst part (bs_buffer b3))\<rparr>)
                                          s2))))))))"

definition bs_read_any :: "'o bbdo_env \<Rightarrow> ('s, 'o event) stream_read \<Rightarrow> 'o bstream \<times> 's \<Rightarrow>
    ('o bstream \<times> 's, bool \<times> 'o event option) outcome option" where
  "bs_read_any env sub_read bs =
     (case bs_read_any_loop env sub_read (fst bs) (snd bs) of
        None \<Rightarrow> None
      | Some (Inl Timeout, bs1) \<Rightarrow> Some (Inr (False, None), bs1)
      | Some (Inl x, bs1) \<Rightarrow> Some (Inl x, bs1)
      | Some (Inr d, bs1) \<Rightarrow> Some (Inr (True, d), bs1))"

subsection \<open>Writing and acknowledging\<close>

definition bs_write_event :: "'o bbdo_env \<Rightarrow> ('s, 'o event) stream_write \<Rightarrow> 'o event \<Rightarrow> 'o bstream \<times> 's \<Rightarrow>
    ('o bstream \<times> 's, unit) outcome option" where
  "bs_write_event env sub_write d bs =
     (let (b, s) = bs;
          sub = (\<lambda>x. case sub_write x s of
                       None \<Rightarrow> None
                     | Some (Inl e, s1) \<Rightarrow> Some (Inl e, (b, s1))
                     | Some (Inr _, s1) \<Rightarrow> Some (Inr (), (b, s1))) in
      if \<not> bs_grpc_serialized b \<or> \<not> ct_is_protobuf (bbe_control env) d then
        (case bbdo_serialize (bbe_clib env) (bbe_registry env) d of
           Inl e \<Rightarrow> Some (Inl e, bs)
         | Inr None \<Rightarrow> Some (Inr (), bs)
         | Inr (Some serialized) \<Rightarrow> sub (Some (Raw serialized)))
      else sub (Some (Event d)))"

text \<open>The events acknowledged are returned as a signed number and reset.\<close>

definition bs_take_acknowledged :: "'o bstream \<times> 's \<Rightarrow> ('o bstream \<times> 's, int) outcome" where
  "bs_take_acknowledged bs =
     (Inr (sint (bs_acknowledged_events (fst bs))), ((fst bs)\<lparr>bs_acknowledged_events := 0\<rparr>, snd bs))"

definition bs_write :: "'o bbdo_env \<Rightarrow> ('s, 'o event) stream_write \<Rightarrow> 'o event \<Rightarrow> 'o bstream \<times> 's \<Rightarrow>
    ('o bstream \<times> 's, int) outcome option" where
  "bs_write env sub_write d bs =
     (case bs_write_event env sub_write d bs of
        None \<Rightarrow> None
      | Some (Inl e, bs1) \<Rightarrow> Some (Inl e, bs1)
      | Some (Inr _, bs1) \<Rightarrow> Some (bs_take_acknowledged bs1))"

definition bs_flush :: "('s \<Rightarrow> ('s, int) outcome option) \<Rightarrow> 'o bstream \<times> 's \<Rightarrow>
    ('o bstream \<times> 's, int) outcome option" where
  "bs_flush sub_flush bs =
     (case sub_flush (snd bs) of
        None \<Rightarrow> None
      | Some (Inl e, s1) \<Rightarrow> Some (Inl e, (fst bs, s1))
      | Some (Inr _, s1) \<Rightarrow> Some (bs_take_acknowledged (fst bs, s1)))"

definition acknowledge_events :: "u32 \<Rightarrow> 'o bstream \<Rightarrow> 'o bstream" where
  "acknowledge_events n b = b\<lparr>bs_acknowledged_events := bs_acknowledged_events b + n\<rparr>"

definition send_event_acknowledgement :: "'o bbdo_env \<Rightarrow> ('s, 'o event) stream_write \<Rightarrow> 'o bstream \<times> 's \<Rightarrow>
    ('o bstream \<times> 's, unit) outcome option" where
  "send_event_acknowledgement env sub_write bs =
     (if bs_coarse (fst bs) then Some (Inr (), bs)
      else
        (let n = bs_events_received (fst bs);
             msg = (if bbe_version_total env \<ge> 0x0300000001 then ct_make_pb_ack (bbe_control env) n
                    else ct_make_ack (bbe_control env) n) in
         case bs_write_event env sub_write msg bs of
           None \<Rightarrow> None
         | Some (Inl e, bs1) \<Rightarrow> Some (Inl e, bs1)
         | Some (Inr _, (b1, s1)) \<Rightarrow> Some (Inr (), (b1\<lparr>bs_events_received := 0\<rparr>, s1))))"

subsection \<open>Control messages\<close>

definition de_version_response :: u32 where "de_version_response = 0x20001"
definition de_ack :: u32 where "de_ack = 0x20002"
definition de_stop :: u32 where "de_stop = 0x20003"
definition de_welcome :: u32 where "de_welcome = 0x20007"
definition de_pb_ack :: u32 where "de_pb_ack = 0x20008"
definition de_pb_stop :: u32 where "de_pb_stop = 0x20009"

text \<open>
  The body of the loop of \<open>read\<close>. A message of type \<open>stop\<close> is cast to \<open>pb_stop\<close>, a class it is not
  an instance of.
\<close>

definition bs_control :: "'o bbdo_env \<Rightarrow> ('s, 'o event) stream_write \<Rightarrow> 'o event \<Rightarrow> 'o bstream \<times> 's \<Rightarrow>
    ('o bstream \<times> 's, unit) outcome option" where
  "bs_control env sub_write d bs =
     (let ct = bbe_control env; t = ev_type d; obj = ev_obj d in
      if t = de_version_response then
        (if ct_bbdo_major ct obj \<noteq> bbe_version_major env then Some (Inl Msg_fmt, bs) else Some (Inr (), bs))
      else if t = de_welcome then
        (if ct_welcome_major ct obj \<noteq> bbe_version_major env then Some (Inl Msg_fmt, bs) else Some (Inr (), bs))
      else if t = de_ack then Some (Inr (), (acknowledge_events (ct_ack_events ct obj) (fst bs), snd bs))
      else if t = de_pb_ack then Some (Inr (), (acknowledge_events (ct_pb_ack_events ct obj) (fst bs), snd bs))
      else if t = de_stop then Some (Inl Undefined, bs)
      else if t = de_pb_stop then
        (case send_event_acknowledgement env sub_write bs of
           None \<Rightarrow> None
         | Some (Inl e, bs1) \<Rightarrow> Some (Inl e, bs1)
         | Some (Inr _, (b1, s1)) \<Rightarrow>
             Some (Inr (), (b1\<lparr>bs_published := bs_published b1 @ [ct_make_local_stop ct (ct_poller_id ct obj)]\<rparr>, s1)))
      else Some (Inr (), bs))"

partial_function (option) bs_read_loop :: "'o bbdo_env \<Rightarrow> ('s, 'o event) stream_read \<Rightarrow> ('s, 'o event) stream_write \<Rightarrow>
    'o bstream \<times> 's \<Rightarrow> ('o bstream \<times> 's, bool \<times> 'o event option) outcome option" where
  "bs_read_loop env sub_read sub_write bs =
     (case bs_read_any env sub_read bs of
        None \<Rightarrow> None
      | Some (r, bs1) \<Rightarrow>
          (case r of
             Inl x \<Rightarrow> Some (Inl x, bs1)
           | Inr (ok, d) \<Rightarrow>
               (if ok \<and> drop_bit 16 (case d of None \<Rightarrow> 0 | Some e \<Rightarrow> ev_type e) = 2 then
                  (case bs_control env sub_write (the d) bs1 of
                     None \<Rightarrow> None
                   | Some (r2, bs2) \<Rightarrow>
                       (case r2 of
                          Inl x \<Rightarrow> Some (Inl x, bs2)
                        | Inr _ \<Rightarrow> bs_read_loop env sub_read sub_write bs2))
                else Some (Inr (ok, d), bs1))))"

definition bs_read :: "'o bbdo_env \<Rightarrow> ('s, 'o event) stream_read \<Rightarrow> ('s, 'o event) stream_write \<Rightarrow> int \<Rightarrow>
    'o bstream \<times> 's \<Rightarrow> ('o bstream \<times> 's, bool \<times> 'o event option) outcome option" where
  "bs_read env sub_read sub_write now bs =
     (case bs_read_loop env sub_read sub_write bs of
        None \<Rightarrow> None
      | Some (Inl x, bs1) \<Rightarrow> Some (Inl x, bs1)
      | Some (Inr (ok, d), (b1, s1)) \<Rightarrow>
          (let b2 = (if ok then b1\<lparr>bs_events_received := bs_events_received b1 + 1\<rparr> else b1) in
           if bs_events_received b2 \<ge> bs_ack_limit b2 \<or>
              bs_events_received b2 \<noteq> 0 \<and> bs_last_sent_ack b2 + 5 < now
           then (case send_event_acknowledgement env sub_write (b2\<lparr>bs_last_sent_ack := now\<rparr>, s1) of
                   None \<Rightarrow> None
                 | Some (Inl x, bs3) \<Rightarrow> Some (Inl x, bs3)
                 | Some (Inr _, bs3) \<Rightarrow> Some (Inr (ok, d), bs3))
           else Some (Inr (ok, d), (b2, s1))))"

subsection \<open>Stopping\<close>

definition send_event_stop_and_wait_for_ack :: "'o bbdo_env \<Rightarrow> ('s, 'o event) stream_read \<Rightarrow>
    ('s, 'o event) stream_write \<Rightarrow> u64 \<Rightarrow> 'o bstream \<times> 's \<Rightarrow> ('o bstream \<times> 's, unit) outcome option" where
  "send_event_stop_and_wait_for_ack env sub_read sub_write poller_id bs =
     (if bs_coarse (fst bs) then Some (Inr (), bs)
      else case bs_write_event env sub_write (ct_make_pb_stop (bbe_control env) poller_id) bs of
             None \<Rightarrow> None
           | Some (Inl x, bs1) \<Rightarrow> Some (Inl x, bs1)
           | Some (Inr _, bs1) \<Rightarrow>
               (case bs_read_any env sub_read bs1 of
                  None \<Rightarrow> None
                | Some (Inl x, bs2) \<Rightarrow> Some (Inl x, bs2)
                | Some (Inr (_, None), bs2) \<Rightarrow> Some (Inr (), bs2)
                | Some (Inr (_, Some d), (b2, s2)) \<Rightarrow>
                    Some (Inr (),
                      (if ev_type d = de_ack
                       then acknowledge_events (ct_ack_events (bbe_control env) (ev_obj d)) b2
                       else if ev_type d = de_pb_ack
                       then acknowledge_events (ct_pb_ack_events (bbe_control env) (ev_obj d)) b2
                       else b2, s2))))"

text \<open>Every exception of the wait for the last acknowledgement is caught.\<close>

definition bs_stop :: "'o bbdo_env \<Rightarrow> ('s, 'o event) stream_read \<Rightarrow> ('s, 'o event) stream_write \<Rightarrow>
    ('s \<Rightarrow> ('s, int) outcome option) \<Rightarrow> u64 \<Rightarrow> 'o bstream \<times> 's \<Rightarrow> ('o bstream \<times> 's, int) outcome option" where
  "bs_stop env sub_read sub_write sub_stop poller_id bs =
     (case (if bs_is_input (fst bs) then Some (Inr (), bs)
            else send_event_stop_and_wait_for_ack env sub_read sub_write poller_id bs) of
        None \<Rightarrow> None
      | Some (_, bs1) \<Rightarrow>
          (case (if bs_events_received (fst bs1) \<noteq> 0 then send_event_acknowledgement env sub_write bs1
                 else Some (Inr (), bs1)) of
             None \<Rightarrow> None
           | Some (Inl x, bs2) \<Rightarrow> Some (Inl x, bs2)
           | Some (Inr _, (b2, s2)) \<Rightarrow>
               (case sub_stop s2 of
                  None \<Rightarrow> None
                | Some (Inl x, s3) \<Rightarrow> Some (Inl x, (b2, s3))
                | Some (Inr _, s3) \<Rightarrow> Some (bs_take_acknowledged (b2, s3)))))"

subsection \<open>Headers\<close>

lemma header_fields:
  "header_chksum (packet_header e sz @ r) = header_expected (packet_header e sz @ r)"
  "header_size (packet_header e sz @ r) = unat sz"
  "header_event_id (packet_header e sz @ r) = ev_type e"
  "header_source_id (packet_header e sz @ r) = ev_source_id e"
  "header_dest_id (packet_header e sz @ r) = ev_destination_id e"
proof -
  define h where "h = be16 sz @ be32 (ev_type e) @ be32 (ev_source_id e) @ be32 (ev_destination_id e)"
  have p: "packet_header e sz = be16 (crc16_ccitt h) @ h" by (simp add: packet_header_def h_def Let_def)
  have l: "length h = 14" by (simp add: h_def)
  show "header_chksum (packet_header e sz @ r) = header_expected (packet_header e sz @ r)"
    unfolding p header_chksum_def header_expected_def using l by simp
  show "header_size (packet_header e sz @ r) = unat sz"
    "header_event_id (packet_header e sz @ r) = ev_type e"
    "header_source_id (packet_header e sz @ r) = ev_source_id e"
    "header_dest_id (packet_header e sz @ r) = ev_destination_id e"
    unfolding p header_size_def header_event_id_def header_source_id_def header_dest_id_def
    by (simp_all add: h_def)
qed

lemma header_prefix:
  assumes "16 \<le> length p"
  shows "header_chksum (p @ w) = header_chksum p" "header_expected (p @ w) = header_expected p"
proof -
  obtain a b q where "p = a # b # q" using assms by (auto simp: numeral_eq_Suc Suc_le_length_iff)
  then show "header_chksum (p @ w) = header_chksum p" by (simp add: header_chksum_def)
  show "header_expected (p @ w) = header_expected p" using assms by (simp add: header_expected_def)
qed

lemma split_prefix:
  assumes "p @ w = h @ r" "length h \<le> length p"
  obtains q where "p = h @ q" "q @ w = r"
  using assms by (metis append_eq_append_conv_if append_take_drop_id append_eq_conv_conj)

lemma extract_content_append:
  assumes "length h = 16" "bs_packet b = h @ c @ r"
  shows "extract_content (length c) b = (c, b\<lparr>bs_packet := r\<rparr>)"
  using assms by (auto simp: extract_content_def)

text \<open>The parts of an event that has not ended yet.\<close>

definition partial_buffer :: "'o event \<Rightarrow> bytes list \<Rightarrow> bbdo_buffer list" where
  "partial_buffer e acc =
     (if acc = [] then []
      else [\<lparr>bb_event_id = ev_type e, bb_source_id = ev_source_id e, bb_dest_id = ev_destination_id e,
             bb_buf = acc\<rparr>])"

lemma partial_buffer_simps [simp]:
  "join_buffer (ev_type e) (ev_source_id e) (ev_destination_id e) c (partial_buffer e acc) = (concat acc @ c, [])"
  "store_buffer (ev_type e) (ev_source_id e) (ev_destination_id e) c (partial_buffer e acc) =
     partial_buffer e (acc @ [c])"
  "0 < n \<Longrightarrow> purge_buffer n (partial_buffer e acc) = partial_buffer e acc"
  by (simp_all add: partial_buffer_def buffer_matches_def buffer_push_back_def buffer_to_vector_def)

subsection \<open>The events that wait in a stream\<close>

definition event_packets :: "'o bbdo_env \<Rightarrow> 'o event \<Rightarrow> bytes" where
  "event_packets env e = packets e (the (event_payload (bbe_clib env) (bbe_registry env) e))"

text \<open>Events of the category \<open>bbdo\<close> are consumed by the stream that reads them.\<close>

definition queueable :: "'o bbdo_env \<Rightarrow> 'o event \<Rightarrow> bool" where
  "queueable env e \<longleftrightarrow> storable (bbe_clib env) (bbe_registry env) e \<and> drop_bit 16 (ev_type e) \<noteq> 2"

text \<open>
  A coarse stream, as the ones over files are, holds the events whose packets it has read ahead or
  the stream below still has.
\<close>

definition bs_holds :: "'o bbdo_env \<Rightarrow> ('s \<Rightarrow> bool) \<Rightarrow> ('s \<Rightarrow> bytes) \<Rightarrow> 'o bstream \<times> 's \<Rightarrow>
    'o event list \<Rightarrow> bool" where
  "bs_holds env sub_inv waiting bs es \<longleftrightarrow>
     (let (b, s) = bs in
      sub_inv s \<and> bs_buffer b = [] \<and> bs_grpc_queue b = [] \<and> bs_coarse b \<and> \<not> bs_grpc_serialized b \<and>
      bs_packet b @ waiting s = concat (map (event_packets env) es) \<and> list_all (queueable env) es)"

subsection \<open>Reading over a channel of bytes\<close>

locale bbdo_channel = raw_channel inv waiting ended accepts sub_read sub_write
  for inv :: "'s \<Rightarrow> bool" and waiting :: "'s \<Rightarrow> bytes" and ended :: "'s \<Rightarrow> bool" and accepts :: "bytes \<Rightarrow> bool"
    and sub_read :: "('s, 'o event) stream_read" and sub_write :: "('s, 'o event) stream_write" +
  fixes env :: "'o bbdo_env"
begin

lemma read_packet_fill:
  assumes "inv s" "n \<le> length (bs_packet b @ waiting s)"
  shows "\<exists>p s'. bs_read_packet sub_read n b s = Some (Inr (), (b\<lparr>bs_packet := p\<rparr>, s')) \<and> inv s' \<and>
    n \<le> length p \<and> p @ waiting s' = bs_packet b @ waiting s"
  using assms
proof (induction "length (waiting s)" arbitrary: b s rule: less_induct)
  case less
  show ?case
  proof (cases "length (bs_packet b) < n")
    case False
    then show ?thesis
      using less.prems by (intro exI [of _ "bs_packet b"] exI [of _ s]) (simp add: bs_read_packet.simps)
  next
    case True
    with less.prems(2) have "waiting s \<noteq> []" by auto
    from read_more [OF less.prems(1) this] obtain d s1
      where d: "sub_read s = Some (Inr (True, Some (Raw d)), s1)" "d \<noteq> []" "inv s1" "waiting s = d @ waiting s1"
      by blast
    define b1 where "b1 = b\<lparr>bs_packet := bs_packet b @ d\<rparr>"
    have "length (waiting s1) < length (waiting s)" using d by simp
    moreover have "n \<le> length (bs_packet b1 @ waiting s1)"
      using less.prems(2) d by (simp add: b1_def)
    moreover have "bs_read_packet sub_read n b s = bs_read_packet sub_read n b1 s1"
      using True d(1) by (subst bs_read_packet.simps) (simp add: b1_def)
    ultimately show ?thesis using less.hyps [of s1 b1] d by (simp add: b1_def)
  qed
qed

lemma read_packet_end:
  assumes "inv s" "length (bs_packet b @ waiting s) < n"
  shows "\<exists>p s'. bs_read_packet sub_read n b s = Some (Inl Shutdown, (b\<lparr>bs_packet := p\<rparr>, s')) \<and> ended s'"
  using assms
proof (induction "length (waiting s)" arbitrary: b s rule: less_induct)
  case less
  have n: "length (bs_packet b) < n" using less.prems by simp
  show ?case
  proof (cases "waiting s = []")
    case True
    then show ?thesis using read_end [OF less.prems(1) True] n
      by (intro exI [of _ "bs_packet b"]) (auto simp: bs_read_packet.simps)
  next
    case False
    from read_more [OF less.prems(1) False] obtain d s1
      where d: "sub_read s = Some (Inr (True, Some (Raw d)), s1)" "d \<noteq> []" "inv s1" "waiting s = d @ waiting s1"
      by blast
    define b1 where "b1 = b\<lparr>bs_packet := bs_packet b @ d\<rparr>"
    have "length (waiting s1) < length (waiting s)" using d by simp
    moreover have "length (bs_packet b1 @ waiting s1) < n"
      using less.prems(2) d by (simp add: b1_def)
    moreover have "bs_read_packet sub_read n b s = bs_read_packet sub_read n b1 s1"
      using n d(1) by (subst bs_read_packet.simps) (simp add: b1_def)
    ultimately show ?thesis using less.hyps [of s1 b1] d by (simp add: b1_def)
  qed
qed

text \<open>One packet: the event is complete, or its part is stored and the loop goes on.\<close>

lemma read_any_packet:
  assumes "inv s" "bs_grpc_queue b = []" "length c = unat sz"
    and w: "bs_packet b @ waiting s = packet_header e sz @ c @ rest"
  shows "\<exists>p s'. inv s' \<and> p @ waiting s' = rest \<and>
    bs_read_any_loop env sub_read b s =
      (let b' = b\<lparr>bs_packet := p, bs_skipped := 0\<rparr> in
       if int (unat sz) \<noteq> 0xffff then
         (let (part, bufs) = join_buffer (ev_type e) (ev_source_id e) (ev_destination_id e) c (bs_buffer b) in
          Some (bbdo_unserialize (bbe_clib env) (bbe_registry env) (ev_type e) (ev_source_id e)
                  (ev_destination_id e) part, (b'\<lparr>bs_buffer := purge_buffer 3 bufs\<rparr>, s')))
       else bs_read_any_loop env sub_read
              (b'\<lparr>bs_buffer := purge_buffer 4
                 (store_buffer (ev_type e) (ev_source_id e) (ev_destination_id e) c (bs_buffer b))\<rparr>) s')"
proof -
  have hl: "length (packet_header e sz) = 16" by (rule length_packet_header)
  obtain p1 s1 where 1: "bs_read_packet sub_read 16 b s = Some (Inr (), (b\<lparr>bs_packet := p1\<rparr>, s1))"
      "inv s1" "16 \<le> length p1" "p1 @ waiting s1 = packet_header e sz @ c @ rest"
    using read_packet_fill [OF assms(1), of 16 b] w hl by auto
  obtain q where q: "p1 = packet_header e sz @ q"
    using split_prefix [OF 1(4)] 1(3) hl by auto
  define b1 where "b1 = b\<lparr>bs_packet := p1, bs_skipped := 0\<rparr>"
  obtain p2 s2 where 2: "bs_read_packet sub_read (16 + unat sz) b1 s1 = Some (Inr (), (b1\<lparr>bs_packet := p2\<rparr>, s2))"
      "inv s2" "16 + unat sz \<le> length p2" "p2 @ waiting s2 = packet_header e sz @ c @ rest"
    using read_packet_fill [OF 1(2), of "16 + unat sz" b1] 1(4) hl assms(3) by (auto simp: b1_def)
  obtain p where p: "p2 = (packet_header e sz @ c) @ p" "p @ waiting s2 = rest"
    using split_prefix [of p2 "waiting s2" "packet_header e sz @ c" rest] 2(3,4) hl assms(3) by auto
  have x: "extract_content (unat sz) (b1\<lparr>bs_packet := p2\<rparr>) = (c, b1\<lparr>bs_packet := p\<rparr>)"
    using extract_content_append [OF hl, of "b1\<lparr>bs_packet := p2\<rparr>" c p] p assms(3) by simp
  note f = header_fields [of e sz q, folded q]
  have bf: "bs_buffer b1 = bs_buffer b" by (simp add: b1_def)
  have "bs_read_any_loop env sub_read b s =
      (let b' = b1\<lparr>bs_packet := p\<rparr> in
       if int (unat sz) \<noteq> 0xffff then
         (let (part, bufs) = join_buffer (ev_type e) (ev_source_id e) (ev_destination_id e) c (bs_buffer b) in
          Some (bbdo_unserialize (bbe_clib env) (bbe_registry env) (ev_type e) (ev_source_id e)
                  (ev_destination_id e) part, (b'\<lparr>bs_buffer := purge_buffer 3 bufs\<rparr>, s2)))
       else bs_read_any_loop env sub_read
              (b'\<lparr>bs_buffer := purge_buffer 4
                 (store_buffer (ev_type e) (ev_source_id e) (ev_destination_id e) c (bs_buffer b))\<rparr>) s2)"
    using 2(1,3) assms(2)
    by (subst bs_read_any_loop.simps)
      (simp add: 1(1) f b1_def [symmetric] x bf Let_def)
  moreover have "b1\<lparr>bs_packet := p\<rparr> = b\<lparr>bs_packet := p, bs_skipped := 0\<rparr>" by (cases b) (simp add: b1_def)
  ultimately show ?thesis using 2(2) p(2) by (intro exI [of _ p] exI [of _ s2]) simp
qed

lemma read_any_end:
  assumes "inv s" "bs_packet b @ waiting s = []"
  shows "\<exists>bs'. bs_read_any_loop env sub_read b s = Some (Inl Shutdown, bs') \<and> ended (snd bs')"
  using read_packet_end [OF assms(1), of b 16] assms(2) by (auto simp: bs_read_any_loop.simps)

lemma read_any_event:
  assumes "inv s" "bs_grpc_queue b = []" "bs_buffer b = partial_buffer e acc"
    and "bs_packet b @ waiting s = packets e p @ rest"
  shows "\<exists>q s'. inv s' \<and> q @ waiting s' = rest \<and>
    bs_read_any_loop env sub_read b s =
      Some (bbdo_unserialize (bbe_clib env) (bbe_registry env) (ev_type e) (ev_source_id e)
              (ev_destination_id e) (concat acc @ p),
            (b\<lparr>bs_packet := q, bs_skipped := 0, bs_buffer := []\<rparr>, s'))"
  using assms
proof (induction e p arbitrary: b s acc rule: packets.induct)
  case (1 e p)
  note prems = 1(2-)
  show ?case
  proof (cases "int (length p) \<ge> 0xffff")
    case True
    then have w: "bs_packet b @ waiting s =
        packet_header e 0xffff @ take 0xffff p @ (packets e (drop 0xffff p) @ rest)"
      and l: "length (take 0xffff p) = unat (0xffff :: u16)"
      using prems(4) by (auto simp: packets.simps [of e p] min_def)
    from read_any_packet [OF prems(1,2) l w] obtain q s1 where r: "inv s1"
        "q @ waiting s1 = packets e (drop 0xffff p) @ rest"
        "bs_read_any_loop env sub_read b s = bs_read_any_loop env sub_read
           (b\<lparr>bs_packet := q, bs_skipped := 0, bs_buffer := partial_buffer e (acc @ [take 0xffff p])\<rparr>) s1"
      using prems(3) by (auto simp: Let_def)
    let ?b = "b\<lparr>bs_packet := q, bs_skipped := 0, bs_buffer := partial_buffer e (acc @ [take 0xffff p])\<rparr>"
    have g: "bs_grpc_queue ?b = []" "bs_buffer ?b = partial_buffer e (acc @ [take 0xffff p])"
      "bs_packet ?b @ waiting s1 = packets e (drop 0xffff p) @ rest" using prems(2) r(2) by simp_all
    have n: "?b\<lparr>bs_packet := q', bs_skipped := 0, bs_buffer := []\<rparr> =
        b\<lparr>bs_packet := q', bs_skipped := 0, bs_buffer := []\<rparr>" for q' by simp
    have c: "concat (acc @ [take 0xffff p]) @ drop 0xffff p = concat acc @ p"
      by (simp only: concat_append append_assoc concat.simps append_Nil2 append_take_drop_id)
    show ?thesis
      using 1(1) [OF True r(1) g] unfolding r(3) n c .
  next
    case False
    then have u: "unat (of_nat (length p) :: u16) = length p" by (simp add: unat_of_nat take_bit_nat_eq_self_iff)
    with False have w: "bs_packet b @ waiting s = packet_header e (of_nat (length p)) @ p @ rest"
      and l: "length p = unat (of_nat (length p) :: u16)"
      using prems(4) by (auto simp: packets.simps [of e p])
    from read_any_packet [OF prems(1,2) l w] obtain q s1 where r: "inv s1" "q @ waiting s1 = rest"
        "bs_read_any_loop env sub_read b s =
           Some (bbdo_unserialize (bbe_clib env) (bbe_registry env) (ev_type e) (ev_source_id e)
              (ev_destination_id e) (concat acc @ p),
            (b\<lparr>bs_packet := q, bs_skipped := 0, bs_buffer := []\<rparr>, s1))"
      using prems(3) u False by (auto simp: Let_def)
    then show ?thesis by blast
  qed
qed

lemma read_event:
  assumes "bs_holds env inv waiting bs (e # es)"
  shows "\<exists>bs'. bs_read env sub_read sub_write now bs = Some (Inr (True, Some e), bs') \<and>
    bs_holds env inv waiting bs' es"
proof -
  obtain b s where bs: "bs = (b, s)" by (cases bs)
  note h = assms [unfolded bs bs_holds_def, simplified]
  obtain p where p: "event_payload (bbe_clib env) (bbe_registry env) e = Some p"
      "bbdo_unserialize (bbe_clib env) (bbe_registry env) (ev_type e) (ev_source_id e)
        (ev_destination_id e) p = Inr (Some e)"
    using h serialize_storable [of "bbe_clib env" "bbe_registry env" e] by (auto simp: queueable_def)
  then have w: "bs_packet b @ waiting s = packets e p @ concat (map (event_packets env) es)"
    using h by (simp add: event_packets_def)
  obtain q s1 where r: "inv s1" "q @ waiting s1 = concat (map (event_packets env) es)"
      "bs_read_any_loop env sub_read b s =
         Some (Inr (Some e), (b\<lparr>bs_packet := q, bs_skipped := 0, bs_buffer := []\<rparr>, s1))"
    using read_any_event [where acc = "[]", OF _ _ _ w] h p(2) by (auto simp: partial_buffer_def)
  have c: "drop_bit 16 (ev_type e) \<noteq> 2" using h by (simp add: queueable_def)
  then have l: "bs_read_loop env sub_read sub_write bs =
      Some (Inr (True, Some e), (b\<lparr>bs_packet := q, bs_skipped := 0, bs_buffer := []\<rparr>, s1))"
    by (simp add: bs_read_loop.simps bs_read_any_def bs r(3))
  show ?thesis
    using h r(1,2) by (auto simp: bs_read_def l Let_def send_event_acknowledgement_def bs_holds_def)
qed

lemma read_no_event:
  assumes "bs_holds env inv waiting bs []"
  shows "\<exists>bs'. bs_read env sub_read sub_write now bs = Some (Inl Shutdown, bs') \<and> ended (snd bs')"
proof -
  obtain b s where bs: "bs = (b, s)" by (cases bs)
  obtain bs' where "bs_read_any_loop env sub_read b s = Some (Inl Shutdown, bs')" "ended (snd bs')"
    using read_any_end [of s b] assms by (auto simp: bs bs_holds_def)
  then show ?thesis by (simp add: bs_read_def bs_read_loop.simps bs_read_any_def bs)
qed

lemma write_event:
  assumes "bs_holds env inv waiting bs es" "queueable env e" "accepts (event_packets env e)"
  shows "\<exists>n bs'. bs_write env sub_write e bs = Some (Inr n, bs') \<and> bs_holds env inv waiting bs' (es @ [e])"
proof -
  obtain b s where bs: "bs = (b, s)" by (cases bs)
  note h = assms(1) [unfolded bs bs_holds_def, simplified]
  obtain p where p: "event_payload (bbe_clib env) (bbe_registry env) e = Some p"
      "bbdo_serialize (bbe_clib env) (bbe_registry env) e = Inr (Some (packets e p))"
    using assms(2) serialize_storable [of "bbe_clib env" "bbe_registry env" e] by (auto simp: queueable_def)
  then have ep: "event_packets env e = packets e p" by (simp add: event_packets_def)
  obtain s1 where w: "sub_write (Some (Raw (packets e p))) s = Some (Inr 1, s1)" "inv s1"
      "waiting s1 = waiting s @ packets e p"
    using write_all [of s "packets e p"] assms(3) h ep by auto
  have "bs_packet b @ waiting s1 = concat (map (event_packets env) (es @ [e]))"
    using h w(3) ep by (simp flip: append_assoc)
  then show ?thesis
    using h w(1,2) assms(2) p(2)
    by (auto simp: bs_write_def bs_write_event_def bs bs_take_acknowledged_def bs_holds_def)
qed

text \<open>Bytes in front of which no valid header stands are skipped.\<close>

lemma read_any_skip:
  assumes "inv s" "bs_grpc_queue b = []" "bs_packet b @ waiting s = g @ r" "16 \<le> length r"
    and "\<forall>k < length g. header_expected (drop k (g @ r)) \<noteq> header_chksum (drop k (g @ r))"
  shows "\<exists>p s' k. inv s' \<and> p @ waiting s' = r \<and>
    bs_read_any_loop env sub_read b s = bs_read_any_loop env sub_read (b\<lparr>bs_packet := p, bs_skipped := k\<rparr>) s'"
  using assms
proof (induction g arbitrary: b s)
  case Nil
  then show ?case by (intro exI [of _ "bs_packet b"] exI [of _ s] exI [of _ "bs_skipped b"]) simp
next
  case (Cons c g)
  obtain p1 s1 where 1: "bs_read_packet sub_read 16 b s = Some (Inr (), (b\<lparr>bs_packet := p1\<rparr>, s1))"
      "inv s1" "16 \<le> length p1" "p1 @ waiting s1 = (c # g) @ r"
    using read_packet_fill [OF Cons.prems(1), of 16 b] Cons.prems(3,4) by auto
  have bad: "header_expected p1 \<noteq> header_chksum p1"
    using Cons.prems(5) 1(3,4) header_prefix [OF 1(3), of "waiting s1"] by force
  define b1 where "b1 = b\<lparr>bs_packet := tl p1, bs_skipped := bs_skipped b + 1\<rparr>"
  have eq: "b\<lparr>bs_packet := p1\<rparr>\<lparr>bs_skipped := bs_skipped (b\<lparr>bs_packet := p1\<rparr>) + 1, bs_packet := tl p1\<rparr> = b1"
    by (cases b) (simp add: b1_def)
  have s: "bs_read_any_loop env sub_read b s = bs_read_any_loop env sub_read b1 s1"
    using Cons.prems(2) bad by (subst bs_read_any_loop.simps) (simp add: 1(1) Let_def eq [simplified])
  have w: "bs_packet b1 @ waiting s1 = g @ r" using 1(3,4) by (cases p1) (auto simp: b1_def)
  have q: "bs_grpc_queue b1 = []" using Cons.prems(2) by (simp add: b1_def)
  have "\<forall>k < length g. header_expected (drop k (g @ r)) \<noteq> header_chksum (drop k (g @ r))"
    using Cons.prems(5) by (metis Suc_less_eq append_Cons drop_Suc_Cons length_Cons)
  from Cons.IH [OF 1(2) q w Cons.prems(4) this] show ?case
    unfolding s by (auto simp: b1_def)
qed

end

subsection \<open>Long events that never end\<close>

lemma purge_buffer_length: "length (purge_buffer n xs) \<le> n"
  by (induction xs) auto

lemma read_packet_buffer:
  assumes "bs_read_packet sub_read n b s = Some y"
  shows "bs_buffer (fst (snd y)) = bs_buffer b"
proof (rule bs_read_packet.raw_induct
    [where P = "\<lambda>sub_read n b s y. bs_buffer (fst (snd y)) = bs_buffer b", OF _ assms], goal_cases)
  case (1 f sub_read n b s y)
  from 1(2) show ?case
    by (auto split: if_splits option.splits prod.splits sum.splits io_data.splits dest!: 1(1))
qed

lemma read_any_buffers:
  assumes "bs_read_any_loop env sub_read b s = Some y"
  shows "length (bs_buffer b) \<le> 4 \<longrightarrow> length (bs_buffer (fst (snd y))) \<le> 4"
proof (rule bs_read_any_loop.raw_induct
    [where P = "\<lambda>env sub_read b s y. length (bs_buffer b) \<le> 4 \<longrightarrow> length (bs_buffer (fst (snd y))) \<le> 4",
      OF _ assms], goal_cases)
  case (1 f env sub_read b s y)
  have p: "length (purge_buffer 3 xs) \<le> 4" "length (purge_buffer 4 xs) \<le> 4" for xs
    using purge_buffer_length [of 3 xs] purge_buffer_length [of 4 xs] by simp_all
  from 1(2) show ?case
    by (auto simp: Let_def p split: if_splits option.splits prod.splits sum.splits
        dest!: 1(1) read_packet_buffer)
qed

lemma write_event_stream:
  "bs_write_event env sub_write d bs = Some y \<Longrightarrow> fst (snd y) = fst bs"
  by (auto simp: bs_write_event_def Let_def split: if_splits option.splits prod.splits sum.splits)

lemma send_acknowledgement_buffer:
  "send_event_acknowledgement env sub_write bs = Some y \<Longrightarrow> bs_buffer (fst (snd y)) = bs_buffer (fst bs)"
  by (auto simp: send_event_acknowledgement_def Let_def split: if_splits option.splits prod.splits sum.splits
      dest!: write_event_stream)

lemma control_buffer:
  "bs_control env sub_write d bs = Some y \<Longrightarrow> bs_buffer (fst (snd y)) = bs_buffer (fst bs)"
  by (auto simp: bs_control_def acknowledge_events_def Let_def
      split: if_splits option.splits prod.splits sum.splits dest!: send_acknowledgement_buffer)

lemma read_any_catch_buffers:
  "bs_read_any env sub_read bs = Some y \<Longrightarrow> length (bs_buffer (fst bs)) \<le> 4 \<Longrightarrow> length (bs_buffer (fst (snd y))) \<le> 4"
  by (auto simp: bs_read_any_def split: option.splits prod.splits sum.splits exn.splits dest!: read_any_buffers)

lemma read_loop_buffers:
  assumes "bs_read_loop env sub_read sub_write bs = Some y"
  shows "length (bs_buffer (fst bs)) \<le> 4 \<longrightarrow> length (bs_buffer (fst (snd y))) \<le> 4"
proof (rule bs_read_loop.raw_induct
    [where P = "\<lambda>env sub_read sub_write bs y. length (bs_buffer (fst bs)) \<le> 4 \<longrightarrow> length (bs_buffer (fst (snd y))) \<le> 4",
      OF _ assms], goal_cases)
  case (1 f env sub_read sub_write bs y)
  show ?case
  proof
    assume l: "length (bs_buffer (fst bs)) \<le> 4"
    from 1(2) obtain r bs1 where a: "bs_read_any env sub_read bs = Some (r, bs1)" by (auto split: option.splits)
    have l1: "length (bs_buffer (fst bs1)) \<le> 4" using read_any_catch_buffers [OF a l] by simp
    from 1(2) a l1 show "length (bs_buffer (fst (snd y))) \<le> 4"
      by (auto split: if_splits option.splits prod.splits sum.splits dest!: 1(1) control_buffer)
  qed
qed

lemma read_buffers:
  "bs_read env sub_read sub_write now bs = Some y \<Longrightarrow> length (bs_buffer (fst bs)) \<le> 4 \<Longrightarrow>
   length (bs_buffer (fst (snd y))) \<le> 4"
  by (auto simp: bs_read_def Let_def split: if_splits option.splits prod.splits sum.splits
      dest!: read_loop_buffers send_acknowledgement_buffer)

subsection \<open>The stream over compressed files\<close>

interpretation bcf: bbdo_channel "cs_inv z (file_inv path) pending" "cs_waiting z pending"
    "\<lambda>cs. cs_shutdown (fst cs) \<and> file_ended path (snd cs)" "\<lambda>b. b = [] \<or> compressible z b" "cs_read z file_read" "cs_write z file_write" env for z path env
  by unfold_locales

subsection \<open>Properties\<close>

text \<open>
  C33. Whatever the peer sends, at most four events of which parts are missing are kept: a call of
  \<open>read\<close> keeps this bound, whether it returns an event, times out or throws.
\<close>

theorem bbdo_buffers_bounded:
  assumes "length (bs_buffer b) \<le> 4"
  shows "case bs_read env sub_read sub_write now (b, s) of
           None \<Rightarrow> True
         | Some (_, (b', _)) \<Rightarrow> length (bs_buffer b') \<le> 4"
  using read_buffers [of env sub_read sub_write now "(b, s)"] assms by (auto split: option.splits)

text \<open>
  C30. The stream recovers from corrupted data: bytes in front of an event at which no header with a
  valid checksum starts are skipped, and the event behind them is returned whole, however many
  packets it takes.
\<close>

theorem bbdo_resynchronises:
  assumes "cs_inv z (file_inv path) pending s" "bs_grpc_queue b = []" "bs_buffer b = []" "queueable env e"
    and "bs_packet b @ cs_waiting z pending s = g @ event_packets env e @ rest"
    and "\<forall>k < length g. header_expected (drop k (g @ event_packets env e @ rest)) \<noteq>
           header_chksum (drop k (g @ event_packets env e @ rest))"
  shows "\<exists>b' s'. bs_read_any env (cs_read z file_read) (b, s) = Some (Inr (True, Some e), (b', s')) \<and>
           cs_inv z (file_inv path) pending s' \<and> bs_buffer b' = [] \<and>
           bs_packet b' @ cs_waiting z pending s' = rest"
proof -
  obtain p where d: "event_payload (bbe_clib env) (bbe_registry env) e = Some p"
      "bbdo_unserialize (bbe_clib env) (bbe_registry env) (ev_type e) (ev_source_id e)
        (ev_destination_id e) p = Inr (Some e)"
    using assms(4) unfolding queueable_def by (elim conjE serialize_storable)
  then have p: "event_packets env e = packets e p" by (simp add: event_packets_def)
  have "16 \<le> length (event_packets env e @ rest)"
    by (simp add: p packets.simps [of e p] length_packet_header)
  from bcf.read_any_skip [where env = env, OF assms(1,2,5) this assms(6)] obtain q s1 k where 1:
      "cs_inv z (file_inv path) pending s1" "q @ cs_waiting z pending s1 = event_packets env e @ rest"
      "bs_read_any_loop env (cs_read z file_read) b s =
         bs_read_any_loop env (cs_read z file_read) (b\<lparr>bs_packet := q, bs_skipped := k\<rparr>) s1"
    by blast
  let ?b = "b\<lparr>bs_packet := q, bs_skipped := k\<rparr>"
  have w: "bs_packet ?b @ cs_waiting z pending s1 = packets e p @ rest" using 1(2) p by simp
  have g: "bs_grpc_queue ?b = []" "bs_buffer ?b = partial_buffer e []"
    using assms(2,3) by (simp_all add: partial_buffer_def)
  obtain q' s2 where 2: "cs_inv z (file_inv path) pending s2" "q' @ cs_waiting z pending s2 = rest"
      "bs_read_any_loop env (cs_read z file_read) ?b s1 =
        Some (Inr (Some e), (?b\<lparr>bs_packet := q', bs_skipped := 0, bs_buffer := []\<rparr>, s2))"
    using bcf.read_any_event [where env = env, OF 1(1) g w, unfolded concat.simps append_Nil d(2)] by blast
  show ?thesis using 2(1,2) unfolding bs_read_any_def fst_conv snd_conv 1(3) 2(3) by simp
qed

text \<open>An environment with the mapping of the codec, and the properties on it.\<close>

definition sample_control :: "(u32 \<times> bytes) control" where
  "sample_control =
     \<lparr>ct_bbdo_major = (\<lambda>_. 3), ct_welcome_major = (\<lambda>_. 3), ct_ack_events = fst, ct_pb_ack_events = fst,
      ct_poller_id = (\<lambda>x. ucast (fst x)),
      ct_make_ack = (\<lambda>n. \<lparr>ev_type = de_ack, ev_source_id = 0, ev_destination_id = 0, ev_obj = (n, [])\<rparr>),
      ct_make_pb_ack = (\<lambda>n. \<lparr>ev_type = de_pb_ack, ev_source_id = 0, ev_destination_id = 0, ev_obj = (n, [])\<rparr>),
      ct_make_pb_stop = (\<lambda>n. \<lparr>ev_type = de_pb_stop, ev_source_id = 0, ev_destination_id = 0, ev_obj = (ucast n, [])\<rparr>),
      ct_make_local_stop = (\<lambda>n. \<lparr>ev_type = 0x90001, ev_source_id = 0, ev_destination_id = 0, ev_obj = (ucast n, [])\<rparr>),
      ct_is_protobuf = (\<lambda>_. False)\<rparr>"

definition sample_env :: "(u32 \<times> bytes) bbdo_env" where
  "sample_env =
     \<lparr>bbe_clib = sample_clib, bbe_registry = sample_registry, bbe_control = sample_control,
      bbe_version_major = 3, bbe_version_total = 0x0300000001\<rparr>"

lemma sample_event_queueable: "0 \<notin> set s \<Longrightarrow> queueable sample_env (sample_event w s)"
  using storable_mapped [of sample_registry "sample_event w s" sample_entries "(0, [])" sample_clib] sample_event_mapped
  by (simp add: queueable_def sample_env_def) (simp add: sample_event_def)

theorem bbdo_buffers_bounded_witness:
  "case bs_read sample_env (\<lambda>s. Some (Inl Shutdown, s)) (\<lambda>_ s. Some (Inr 1, s)) 0
      ((bs_new True False 0)\<lparr>bs_buffer := partial_buffer (sample_event 1 []) [[65]]\<rparr>, ()) of
     None \<Rightarrow> False
   | Some (_, (b', _)) \<Rightarrow> length (bs_buffer b') \<le> 4"
  using bbdo_buffers_bounded [of "(bs_new True False 0)\<lparr>bs_buffer := partial_buffer (sample_event 1 []) [[65]]\<rparr>"
      sample_env "\<lambda>s. Some (Inl Shutdown, s)" "\<lambda>_ s. Some (Inr 1, s)" 0 "()"]
  by (simp add: partial_buffer_def bs_new_def bs_read_def bs_read_loop.simps bs_read_any_def bs_read_any_loop.simps
      bs_read_packet.simps)

lemma sample_corrupted:
  "\<forall>k < length [7 :: byte]. header_expected (drop k ([7] @ event_packets sample_env (sample_event 1 [65]) @ [])) \<noteq>
     header_chksum (drop k ([7] @ event_packets sample_env (sample_event 1 [65]) @ []))"
proof -
  have "header_expected ([7] @ event_packets sample_env (sample_event 1 [65]) @ []) \<noteq>
     header_chksum ([7] @ event_packets sample_env (sample_event 1 [65]) @ [])" by code_simp
  then show ?thesis by simp
qed

theorem bbdo_resynchronises_witness:
  "\<exists>b' s'. bs_read_any sample_env (cs_read stored_zlib file_read)
      ((bs_new True False 0)\<lparr>bs_packet := 7 # event_packets sample_env (sample_event 1 [65])\<rparr>, sample_cstream) =
    Some (Inr (True, Some (sample_event 1 [65])), (b', s')) \<and> bs_packet b' @ cs_waiting stored_zlib pending s' = []"
  using bbdo_resynchronises [OF sample_cstream_inv(1) _ _ sample_event_queueable _ sample_corrupted,
      of "(bs_new True False 0)\<lparr>bs_packet := 7 # event_packets sample_env (sample_event 1 [65])\<rparr>"]
    sample_cstream_inv(2)
  by (auto simp: bs_new_def)

end
