(* ===== verification/Persistent_File.thy ===== *)
theory Persistent_File
  imports Bbdo_Stream
begin

section \<open>Persistent files\<close>

text \<open>
  Models \<^verbatim>\<open>broker/core/src/persistent_file.cc\<close>: events kept on disk, as a BBDO stream over a
  compression stream over a splitted file. The locale \<open>event_queue\<close> is what the muxers rely on;
  the persistent file implements it, and survives the end of the process.
\<close>

subsection \<open>Model\<close>

type_synonym 'o pfile = "'o bstream \<times> cstream \<times> sfs"

text \<open>The constructor. Its streams are built over the splitter, whose constructor may throw.\<close>

definition pf_new :: "string \<Rightarrow> int \<Rightarrow> fs \<Rightarrow> (exn + 'o pfile) \<times> fs" where
  "pf_new path now fs =
     (case splitter_new path 100000000 True fs of
        (Inl e, s) \<Rightarrow> (Inl e, snd s)
      | (Inr _, s) \<Rightarrow>
          (Inr (set_negotiate False (set_coarse True (bs_new True False now)), cs_new (- 1) 0, s), snd s))"

definition pf_read :: "'o bbdo_env \<Rightarrow> zlib \<Rightarrow> int \<Rightarrow> 'o pfile \<Rightarrow>
    ('o pfile, bool \<times> 'o event option) outcome option" where
  "pf_read env z now f = bs_read env (cs_read z file_read) (cs_write z file_write) now f"

definition pf_write :: "'o bbdo_env \<Rightarrow> zlib \<Rightarrow> 'o event \<Rightarrow> 'o pfile \<Rightarrow> ('o pfile, int) outcome option" where
  "pf_write env z d f = bs_write env (cs_write z file_write) d f"

definition cs_stop :: "zlib \<Rightarrow> ('s, 'e) stream_write \<Rightarrow> cstream \<times> 's \<Rightarrow> (cstream \<times> 's, int) outcome option" where
  "cs_stop z sub_write cs =
     (case cs_flush z sub_write cs of
        None \<Rightarrow> None
      | Some (Inl e, cs1) \<Rightarrow> Some (Inl e, cs1)
      | Some (Inr _, cs1) \<Rightarrow> Some (Inr 0, cs1))"

definition pf_stop :: "'o bbdo_env \<Rightarrow> zlib \<Rightarrow> u64 \<Rightarrow> 'o pfile \<Rightarrow> ('o pfile, int) outcome option" where
  "pf_stop env z poller_id f =
     bs_stop env (cs_read z file_read) (cs_write z file_write) (cs_stop z file_write) poller_id f"

text \<open>
  The destructor: the compression stream flushes what it still holds, whatever comes of it, and the
  splitter closes its files. The result is the disk it leaves.
\<close>

definition pf_close :: "zlib \<Rightarrow> 'o pfile \<Rightarrow> fs option" where
  "pf_close z f =
     (case f of (b, cs) \<Rightarrow>
        (case cs_flush z (file_write :: (sfs, 'o event) stream_write) cs of
           None \<Rightarrow> None
         | Some (_, c1, s1) \<Rightarrow> Some (snd (splitter_close s1))))"

definition pf_remove_all_files :: "'o pfile \<Rightarrow> 'o pfile" where
  "pf_remove_all_files f = (case f of (b, c, s) \<Rightarrow> (b, c, remove_all_files s))"

subsection \<open>Queues of events\<close>

locale event_queue =
  fixes holds :: "'q \<Rightarrow> 'e list \<Rightarrow> bool"
    and ended :: "'q \<Rightarrow> bool"
    and fits :: "'e \<Rightarrow> bool"
    and qread :: "int \<Rightarrow> 'q \<Rightarrow> ('q, bool \<times> 'e option) outcome option"
    and qwrite :: "'e \<Rightarrow> 'q \<Rightarrow> ('q, int) outcome option"
  assumes read_first: "holds q (e # es) \<Longrightarrow>
      \<exists>q'. qread now q = Some (Inr (True, Some e), q') \<and> holds q' es"
    and read_empty: "holds q [] \<Longrightarrow> \<exists>q'. qread now q = Some (Inl Shutdown, q') \<and> ended q'"
    and write_last: "holds q es \<Longrightarrow> fits e \<Longrightarrow>
      \<exists>n q'. qwrite e q = Some (Inr n, q') \<and> holds q' (es @ [e])"
begin

text \<open>Writing a sequence of events, and reading until the queue is empty.\<close>

lemma write_seq:
  "holds q es \<Longrightarrow> list_all fits xs \<Longrightarrow>
   \<exists>q'. fold (\<lambda>e o'. case o' of None \<Rightarrow> None
                  | Some q \<Rightarrow> (case qwrite e q of Some (Inr _, q1) \<Rightarrow> Some q1 | _ \<Rightarrow> None)) xs (Some q) = Some q' \<and>
        holds q' (es @ xs)"
proof (induction xs arbitrary: q es)
  case (Cons e xs)
  obtain n q1 where 1: "qwrite e q = Some (Inr n, q1)" "holds q1 (es @ [e])"
    using write_last [OF Cons.prems(1), of e] Cons.prems(2) by auto
  from Cons.IH [OF 1(2)] Cons.prems(2) 1(1) show ?case by simp
qed auto

end

text \<open>The events a persistent file holds, and the ones it can take.\<close>

definition pf_holds :: "'o bbdo_env \<Rightarrow> zlib \<Rightarrow> string \<Rightarrow> 'o pfile \<Rightarrow> 'o event list \<Rightarrow> bool" where
  "pf_holds env z path f es \<longleftrightarrow>
     bs_holds env (cs_inv z (file_inv path) pending) (cs_waiting z pending) f es"

definition pf_ended :: "zlib \<Rightarrow> string \<Rightarrow> 'o pfile \<Rightarrow> bool" where
  "pf_ended z path f \<longleftrightarrow> (\<exists>fs. pf_close z f = Some fs \<and> disk_empty path fs)"

definition pf_fits :: "'o bbdo_env \<Rightarrow> zlib \<Rightarrow> 'o event \<Rightarrow> bool" where
  "pf_fits env z e \<longleftrightarrow> queueable env e \<and> compressible z (event_packets env e)"

interpretation pfq: event_queue "pf_holds env z path" "pf_ended z path" "pf_fits env z" "pf_read env z" "pf_write env z"
  for env z path
proof (unfold_locales, goal_cases)
  case (1 q e es now)
  then show ?case unfolding pf_holds_def pf_read_def by (rule bcf.read_event)
next
  case (2 q now)
  then show ?case using bcf.read_no_event [of env z path q now]
    by (auto simp: pf_holds_def pf_read_def pf_ended_def pf_close_def cs_flush_def splitter_close_def file_ended_def
        split: prod.splits)
next
  case (3 q es e)
  then show ?case unfolding pf_holds_def pf_write_def pf_fits_def
    using bcf.write_event by blast
qed

subsection \<open>Restart\<close>

lemma da_fwrite_unlimited: "da_limit_size fs = 0 \<Longrightarrow> fst (da_fwrite b h fs) = length b"
  by (simp add: da_fwrite_def Let_def)

lemma open_write_file_unlimited:
  assumes "open_write_file s = (Inr b, s')" "da_limit_size (snd s) = 0"
  shows "sp_wfile (fst s') \<noteq> None"
proof -
  obtain sp fs where s: "s = (sp, fs)" by (cases s)
  obtain h fs1 where o: "da_fopen_a (get_file_path sp (sp_wid sp)) fs = (h, fs1)" by fastforce
  have l: "da_limit_size fs1 = 0"
    using assms(2) da_frame(5) [of "get_file_path sp (sp_wid sp)" fs] by (simp add: o s)
  show ?thesis
    using assms(1) o da_fwrite_unlimited [OF l, of part_header]
    by (auto simp: open_write_file_def s Let_def split: option.splits if_splits prod.splits) (metis fst_conv)
qed

lemma splitter_new_opens:
  obtains sp c where "open_write_file (sp, da_set_current_size c fs) = splitter_new path m a fs"
    "sp_base_path sp = path"
proof -
  obtain rid wid sz where p: "scan_parts path fs (part_names path fs) (2 ^ 31 - 1, 0, 0) = (rid, wid, sz)"
    by (cases "scan_parts path fs (part_names path fs) (2 ^ 31 - 1, 0, 0)")
  show thesis
    by (rule that, unfold splitter_new_def p Let_def prod.case, rule refl) simp
qed

lemma splitter_new_file:
  assumes "splitter_new path m a fs = (Inr b, s')" "da_limit_size fs = 0" "\<not> fs_flush_error fs" "sp_inv s'"
    "own_parts s'"
  shows "file_inv path s'"
proof -
  obtain sp c where o: "open_write_file (sp, da_set_current_size c fs) = (Inr b, s')" "sp_base_path sp = path"
    by (rule splitter_new_opens [where path = path and m = m and a = a and fs = fs]) (use assms(1) in simp)
  have c: "da_limit_size (da_set_current_size c fs) = 0" "\<not> fs_flush_error (da_set_current_size c fs)"
    using assms(2,3) by (simp_all add: da_set_current_size_def)
  have "sp_base_path (fst s') = path"
    using o by (auto simp: open_write_file_def Let_def split: prod.splits option.splits if_splits)
  with open_write_file_unlimited [OF o(1)] open_write_file_frame [OF o(1)] c assms(4,5)
  show ?thesis by (simp add: file_inv_def)
qed

lemma recovered_own:
  assumes "set (part_names (sp_base_path (fst s)) (snd s)) \<subseteq> get_file_path (fst s) ` {r..w}"
  shows "own_parts (recovered s m r w z)"
proof -
  have v: "part_names (sp_base_path (fst (recovered s m r w z))) (snd (recovered s m r w z)) =
      part_names (sp_base_path (fst s)) (snd s)"
    by (simp add: recovered_def part_names_def da_set_current_size_def)
  have g: "get_file_path (fst (recovered s m r w z)) = get_file_path (fst s)"
    by (rule ext) (simp add: get_file_path_def recovered_def)
  show ?thesis unfolding own_parts_def v g recovered_view
  proof
    fix p assume "p \<in> set (part_names (sp_base_path (fst s)) (snd s))"
    then obtain i where "i \<in> {r..w}" "p = get_file_path (fst s) i" using assms by blast
    then show "\<exists>i\<ge>r. i \<le> w \<and> p = get_file_path (fst s) i" by auto
  qed
qed

lemma splitter_restart_own:
  assumes "sp_inv s" "own_parts s" "sp_wid (fst s) < 2 ^ 31 - 2"
    and n: "splitter_new (sp_base_path (fst s)) m True (snd s) = (Inr b, s')"
  shows "own_parts s'"
proof -
  obtain z where new: "splitter_new (sp_base_path (fst s)) m True (snd s) =
      open_write_file (if sp_rid (fst s) < parts_end s
        then recovered s m (sp_rid (fst s)) (parts_end s - 1) z else recovered s m 0 0 z)"
    by (rule splitter_new_recovered [OF assms(1-3)])
  note e = existing_parts [OF assms(1,2)]
  show ?thesis
  proof (cases "sp_rid (fst s) < parts_end s")
    case True
    then have o: "open_write_file (recovered s m (sp_rid (fst s)) (parts_end s - 1) z) = (Inr b, s')"
      using new n by simp
    have "own_parts (recovered s m (sp_rid (fst s)) (parts_end s - 1) z)"
      by (rule recovered_own) (use e True in auto)
    from open_write_file_own [OF o this] True show ?thesis by simp
  next
    case False
    then have o: "open_write_file (recovered s m 0 0 z) = (Inr b, s')" using new n by simp
    have "own_parts (recovered s m 0 0 z)" by (rule recovered_own) (use e False in auto)
    from open_write_file_own [OF o this] show ?thesis by simp
  qed
qed

lemma pf_new_splitter:
  assumes "splitter_new path 100000000 True fs = (Inr b, s)" "file_inv path s" "zlib_contract z"
    and "decode_chunks z (pending s) = Some (concat (map (event_packets env) xs))" "list_all (queueable env) xs"
  shows "\<exists>f fs'. pf_new path now fs = (Inr f, fs') \<and> pf_holds env z path f xs"
  using assms
  by (simp add: pf_new_def pf_holds_def bs_holds_def cs_inv_def cs_waiting_def cs_new_def bs_new_def
      set_negotiate_def set_coarse_def sa_data_def)

lemma pf_new_restart:
  assumes "pf_holds env z path (b, c, s) es" "sp_wid (fst s) < 2 ^ 31 - 2"
    and "decode_chunks z (reread s @ pending s) = Some (concat (map (event_packets env) xs))"
    and "list_all (queueable env) xs"
  shows "\<exists>f fs'. pf_new path now (snd s) = (Inr f, fs') \<and> pf_holds env z path f xs"
proof -
  have z: "zlib_contract z" and i: "sp_inv s" "own_parts s" "da_limit_size (snd s) = 0" "\<not> fs_flush_error (snd s)"
      "sp_base_path (fst s) = path"
    using assms(1) by (auto simp: pf_holds_def bs_holds_def cs_inv_def file_inv_def)
  obtain b s' where n: "splitter_new path 100000000 True (snd s) = (Inr b, s')" "sp_inv s'"
      "pending s' = reread s @ pending s"
    using splitter_restart_aux [OF i(1,2) assms(2), of 100000000] i(5) by metis
  have "own_parts s'" using splitter_restart_own [OF i(1,2) assms(2)] n(1) i(5) by blast
  then have f: "file_inv path s'" by (rule splitter_new_file [OF n(1) i(3,4) n(2)])
  show ?thesis by (rule pf_new_splitter [OF n(1) f z _ assms(4)]) (use n(3) assms(3) in simp)
qed

text \<open>On the disk that a file leaves once it is read, a new file is empty.\<close>

lemma pf_new_empty:
  assumes "disk_empty path fs" "zlib_contract z"
  shows "\<exists>f fs'. pf_new path now fs = (Inr f, fs') \<and> pf_holds env z path f []"
proof -
  have a: "healthy fs" "dir_wf fs" "part_names path fs = []" "da_limit_size fs = 0"
      "\<not> fs_flush_error fs"
    using assms(1) by (simp_all add: disk_empty_def)
  obtain b s' where n: "splitter_new path 100000000 True fs = (Inr b, s')" "sp_inv s'" "pending s' = []"
    by (rule splitter_new_empty [OF a(1-3)])
  obtain sp c where o: "open_write_file (sp, da_set_current_size c fs) = (Inr b, s')" "sp_base_path sp = path"
    by (rule splitter_new_opens [where path = path and m = 100000000 and a = True and fs = fs])
      (use n(1) in simp)
  have i: "sp_rid (fst s') = sp_rid sp \<and> sp_wid (fst s') = sp_wid sp"
    using o by (auto simp: open_write_file_def Let_def split: prod.splits option.splits if_splits)
  then have "sp_rid sp \<le> sp_wid sp" using sp_inv_ids [OF n(2)] by simp
  moreover have "own_parts (sp, da_set_current_size c fs)"
    using a(3) o(2) by (simp add: own_parts_def part_names_def da_set_current_size_def)
  ultimately have "own_parts s'" using open_write_file_own [OF o(1)] by simp
  then have f: "file_inv path s'" by (rule splitter_new_file [OF n(1) a(4,5) n(2)])
  have d: "decode_chunks z (pending s') = Some (concat (map (event_packets env) []))"
    using n(3) by (simp add: decode_chunks.simps)
  show ?thesis by (rule pf_new_splitter [OF n(1) f assms(2) d]) simp
qed

subsection \<open>Properties\<close>

text \<open>
  C2. A persistent file is a queue of events: what is written is read back, event by event and in
  order, through the packets, the compression and the parts on disk, and \<open>shutdown\<close> is thrown
  exactly when nothing is left.
\<close>

theorem persistent_file_queue:
  assumes "pf_holds env z path f es"
  shows "(pf_fits env z e \<longrightarrow>
            (\<exists>n f'. pf_write env z e f = Some (Inr n, f') \<and> pf_holds env z path f' (es @ [e]))) \<and>
         (case es of
            [] \<Rightarrow> (\<exists>f'. pf_read env z now f = Some (Inl Shutdown, f') \<and> pf_ended z path f')
          | x # xs \<Rightarrow> (\<exists>f'. pf_read env z now f = Some (Inr (True, Some x), f') \<and> pf_holds env z path f' xs))"
  using pfq.write_last [OF assms] pfq.read_empty [of env z path f now] pfq.read_first [of env z path f _ _ now] assms
  by (auto split: list.splits)


text \<open>A persistent file with one event on disk.\<close>

definition sample_chunk :: bytes where
  "sample_chunk =
     [0, 0, 0, 27, 0, 0, 0, 22, 0x78,
      177, 36, 0, 6, 0, 1, 0, 1, 0, 0, 0, 3, 0, 0, 0, 0, 0, 0, 0, 1, 65, 0]"

definition sample_stored :: sfs where
  "sample_stored = snd (splitter_write sample_chunk sample_splitter)"

definition sample_pfile :: "(u32 \<times> bytes) pfile" where
  "sample_pfile = (set_negotiate False (set_coarse True (bs_new True False 0)), cs_new (- 1) 0, sample_stored)"

lemma sample_stored_inv: "sp_inv sample_stored" "pending sample_stored = sample_chunk"
proof -
  have "fst (splitter_write sample_chunk sample_splitter) = Inr (length sample_chunk)" by code_simp
  then have w: "splitter_write sample_chunk sample_splitter = (Inr (length sample_chunk), sample_stored)"
    by (simp add: sample_stored_def prod_eq_iff)
  from spq.put_ok [OF sample_splitter_inv(1) w]
  show "sp_inv sample_stored" "pending sample_stored = sample_chunk" by (simp_all add: sample_splitter_inv)
qed

lemma sample_stored_fields:
  "sp_base_path (fst sample_stored) = ''queue''" "sp_wid (fst sample_stored) = 0" "sp_rid (fst sample_stored) = 0"
  "part_names ''queue'' (snd sample_stored) = [''queue'']" "reread sample_stored = []"
  "da_limit_size (snd sample_stored) = 0" "\<not> fs_flush_error (snd sample_stored)"
  "sp_wfile (fst sample_stored) = Some \<lparr>h_fd = 0, h_ino = 0\<rparr>"
  by code_simp+

lemma sample_chunk_decodes:
  "decode_chunks stored_zlib sample_chunk = Some (event_packets sample_env (sample_event 1 [65]))"
proof -
  have "decode_chunks stored_zlib sample_chunk =
      Some [177, 36, 0, 6, 0, 1, 0, 1, 0, 0, 0, 3, 0, 0, 0, 0, 0, 0, 0, 1, 65, 0]" by code_simp
  moreover have "event_packets sample_env (sample_event 1 [65]) =
      [177, 36, 0, 6, 0, 1, 0, 1, 0, 0, 0, 3, 0, 0, 0, 0, 0, 0, 0, 1, 65, 0]" by code_simp
  ultimately show ?thesis by simp
qed

lemma sample_pfile_holds: "pf_holds sample_env stored_zlib ''queue'' sample_pfile [sample_event 1 [65]]"
proof -
  have "own_parts sample_stored" by (auto simp: own_parts_def sample_stored_fields get_file_path_def)
  then show ?thesis
    by (simp add: pf_holds_def bs_holds_def sample_pfile_def cs_inv_def cs_waiting_def cs_new_def bs_new_def
        set_negotiate_def set_coarse_def sa_data_def stored_zlib_contract file_inv_def sample_stored_inv
        sample_stored_fields sample_chunk_decodes sample_event_queueable)
qed

theorem persistent_file_queue_witness:
  "\<exists>f'. pf_read sample_env stored_zlib 0 sample_pfile = Some (Inr (True, Some (sample_event 1 [65])), f') \<and>
     pf_holds sample_env stored_zlib ''queue'' f' []"
  using persistent_file_queue [OF sample_pfile_holds, of _ 0] by simp


end
