(* ===== verification/Muxer.thy ===== *)
theory Muxer
  imports Persistent_File
begin

section \<open>Muxers\<close>

text \<open>
  Models the class \<open>muxer\<close> (\<^verbatim>\<open>broker/core/multiplexing/src/muxer.cc\<close>): a queue of events in
  memory, bounded by \<open>event_queue_max_size\<close>, whose overflow goes to a persistent file. Events stay
  in the queue until they are acknowledged; \<open>_pos\<close> is the next one to read.

  \<open>mx_pos\<close> is the position of the iterator, \<open>None\<close> for \<open>end()\<close>, which stays the end when elements are
  appended. \<open>mx_store\<close> holds the persistent file, or the disk when \<open>_file\<close> is null. A call that
  waits on the condition variable takes what the other threads do meanwhile as an argument. The
  statistics and the time points of benchmark events are left out.
\<close>

subsection \<open>State\<close>

record 'o mux_env =
  mu_bbdo :: "'o bbdo_env"
  mu_zlib :: zlib
  mu_now :: int
  mu_max :: u32
  mu_cache_dir :: string

record 'o muxer =
  mx_name :: string
  mx_read_filter :: muxer_filter
  mx_write_filter :: muxer_filter
  mx_persistent :: bool
  mx_has_handler :: bool
  mx_reader_running :: bool
  mx_tasks :: nat
  mx_events :: "'o event list"
  mx_events_size :: nat
  mx_pos :: "nat option"
  mx_store :: "fs + 'o pfile"

definition event_queue_max_size :: "u32 \<Rightarrow> 'o mux_env \<Rightarrow> 'o mux_env" where
  "event_queue_max_size m env = env\<lparr>mu_max := (if m = 0 then 0xFFFFFFFF else m)\<rparr>"

definition memory_file :: "'o mux_env \<Rightarrow> string \<Rightarrow> string" where
  "memory_file env name = mu_cache_dir env @ ''.memory.'' @ name"

definition queue_file :: "'o mux_env \<Rightarrow> string \<Rightarrow> string" where
  "queue_file env name = mu_cache_dir env @ ''.queue.'' @ name"

abbreviation mux_file_read :: "'o mux_env \<Rightarrow> 'o pfile \<Rightarrow> ('o pfile, bool \<times> 'o event option) outcome option" where
  "mux_file_read env \<equiv> pf_read (mu_bbdo env) (mu_zlib env) (mu_now env)"

abbreviation mux_file_write :: "'o mux_env \<Rightarrow> 'o event \<Rightarrow> 'o pfile \<Rightarrow> ('o pfile, int) outcome option" where
  "mux_file_write env \<equiv> pf_write (mu_bbdo env) (mu_zlib env)"

abbreviation mux_full :: "'o mux_env \<Rightarrow> 'o muxer \<Rightarrow> bool" where
  "mux_full env m \<equiv> uint (mu_max env) \<le> int (mx_events_size m)"

subsection \<open>The queue\<close>

definition push_to_queue :: "'o event \<Rightarrow> 'o muxer \<Rightarrow> 'o muxer" where
  "push_to_queue e m =
     (let m1 = m\<lparr>mx_events := mx_events m @ [e], mx_events_size := Suc (mx_events_size m)\<rparr> in
      if mx_pos m = None then m1\<lparr>mx_pos := Some (length (mx_events m1) - 1)\<rparr> else m1)"

definition mux_advance :: "'o muxer \<Rightarrow> 'o muxer" where
  "mux_advance m =
     m\<lparr>mx_pos := (case mx_pos m of
                    None \<Rightarrow> None
                  | Some i \<Rightarrow> if Suc i < length (mx_events m) then Some (Suc i) else None)\<rparr>"

definition mux_read :: "int \<Rightarrow> ('o muxer \<Rightarrow> 'o muxer) \<Rightarrow> 'o muxer \<Rightarrow> (bool \<times> 'o event option) \<times> 'o muxer" where
  "mux_read deadline others m =
     (case mx_pos m of
        Some i \<Rightarrow> ((True, Some (mx_events m ! i)), mux_advance m)
      | None \<Rightarrow>
          (let timed_out = (deadline = 0); m1 = (if timed_out then m else others m) in
           case mx_pos m1 of
             Some i \<Rightarrow> ((True, Some (mx_events m1 ! i)), mux_advance m1)
           | None \<Rightarrow> ((\<not> timed_out, None), m1)))"

text \<open>The reading of many events, and whether more are left.\<close>

fun mux_read_many :: "nat \<Rightarrow> 'o muxer \<Rightarrow> 'o event list \<times> bool \<times> 'o muxer" where
  "mux_read_many 0 m = ([], mx_pos m \<noteq> None, m)"
| "mux_read_many (Suc n) m =
     (case mx_pos m of
        None \<Rightarrow> ([], False, m)
      | Some i \<Rightarrow> (let (es, more, m1) = mux_read_many n (mux_advance m) in (mx_events m ! i # es, more, m1)))"

definition nack_events :: "'o muxer \<Rightarrow> 'o muxer" where
  "nack_events m = m\<lparr>mx_pos := (if mx_events m = [] then None else Some 0)\<rparr>"

definition get_event_queue_size :: "'o muxer \<Rightarrow> u32" where
  "get_event_queue_size m = of_nat (mx_events_size m)"

text \<open>The count of unacknowledged events in the statistics.\<close>

definition mux_index :: "'o muxer \<Rightarrow> nat" where
  "mux_index m = (case mx_pos m of None \<Rightarrow> length (mx_events m) | Some i \<Rightarrow> i)"

subsection \<open>The retention file\<close>

partial_function (option) file_next_event :: "'o mux_env \<Rightarrow> 'o pfile \<Rightarrow> ('o pfile, 'o event) outcome option" where
  "file_next_event env f =
     (case mux_file_read env f of
        None \<Rightarrow> None
      | Some (r, f1) \<Rightarrow>
          (case r of
             Inl x \<Rightarrow> Some (Inl x, f1)
           | Inr (ok, d) \<Rightarrow> (case d of None \<Rightarrow> file_next_event env f1 | Some e \<Rightarrow> Some (Inr e, f1))))"

definition get_event_from_file :: "'o mux_env \<Rightarrow> 'o muxer \<Rightarrow> ('o muxer, 'o event option) outcome option" where
  "get_event_from_file env m =
     (case mx_store m of
        Inl _ \<Rightarrow> Some (Inr None, m)
      | Inr f \<Rightarrow>
          (case file_next_event env f of
             None \<Rightarrow> None
           | Some (Inr e, f1) \<Rightarrow> Some (Inr (Some e), m\<lparr>mx_store := Inr f1\<rparr>)
           | Some (Inl x, f1) \<Rightarrow>
               (if x = Shutdown
                then map_option (\<lambda>fs. (Inr None, m\<lparr>mx_store := Inl fs\<rparr>)) (pf_close (mu_zlib env) f1)
                else Some (Inl x, m\<lparr>mx_store := Inr f1\<rparr>))))"

text \<open>The loop of \<open>ack_events\<close> that fills the memory from the file.\<close>

partial_function (option) mux_refill :: "'o mux_env \<Rightarrow> 'o muxer \<Rightarrow> ('o muxer, unit) outcome option" where
  "mux_refill env m =
     (if mux_full env m then Some (Inr (), m)
      else
        (case get_event_from_file env m of
           None \<Rightarrow> None
         | Some (r, m1) \<Rightarrow>
             (case r of
                Inl x \<Rightarrow> Some (Inl x, m1)
              | Inr d \<Rightarrow>
                  (case d of
                     None \<Rightarrow> Some (Inr (), m1)
                   | Some e \<Rightarrow> mux_refill env (push_to_queue e m1)))))"

fun mux_pop :: "nat \<Rightarrow> 'o muxer \<Rightarrow> 'o muxer" where
  "mux_pop 0 m = m"
| "mux_pop (Suc n) m =
     (if mx_events m = [] \<or> mx_pos m = Some 0 then m
      else mux_pop n (m\<lparr>mx_events := tl (mx_events m), mx_events_size := mx_events_size m - 1,
                        mx_pos := map_option (\<lambda>i. i - 1) (mx_pos m)\<rparr>))"

definition ack_events :: "'o mux_env \<Rightarrow> int \<Rightarrow> 'o muxer \<Rightarrow> ('o muxer, unit) outcome option" where
  "ack_events env count m =
     (if count \<noteq> 0 then mux_refill env (mux_pop (nat count) m) else Some (Inr (), m))"

subsection \<open>Publishing\<close>

text \<open>The handler of a feeder runs in a task of the thread pool; one task at a time is posted.\<close>

definition execute_reader_if_needed :: "'o muxer \<Rightarrow> 'o muxer" where
  "execute_reader_if_needed m =
     (if mx_reader_running m then m else m\<lparr>mx_reader_running := True, mx_tasks := Suc (mx_tasks m)\<rparr>)"

definition mux_run_task :: "'o mux_env \<Rightarrow> ('o event list \<Rightarrow> u32) \<Rightarrow> 'o muxer \<Rightarrow> ('o muxer, unit) outcome option" where
  "mux_run_task env on_events m =
     (let m0 = m\<lparr>mx_tasks := mx_tasks m - 1\<rparr> in
      if \<not> mx_has_handler m0 then Some (Inr (), m0)
      else
        (let (to_fill, _, m1) = mux_read_many (mx_events_size m0) m0; written = on_events to_fill in
         case (if written > 0 then ack_events env (sint written) m1 else Some (Inr (), m1)) of
           None \<Rightarrow> None
         | Some (Inl x, m2) \<Rightarrow> Some (Inl x, m2)
         | Some (Inr _, m2) \<Rightarrow>
             Some (Inr (), m2\<lparr>mx_has_handler := (unat written = length to_fill \<and> mx_has_handler m2),
                             mx_reader_running := False\<rparr>)))"

text \<open>
  The first loop of \<open>publish\<close>, under the lock: the events that are left, and whether one was pushed.
\<close>

fun mux_push_phase :: "'o mux_env \<Rightarrow> 'o event list \<Rightarrow> bool \<Rightarrow> 'o muxer \<Rightarrow>
    ('o muxer, 'o event list \<times> bool) outcome" where
  "mux_push_phase env [] pushed m = (Inr ([], pushed), m)"
| "mux_push_phase env (e # es) pushed m =
     (if mux_full env m then (Inr (e # es, pushed), m)
      else
        (case allows (mx_write_filter m) (ev_type e) of
           None \<Rightarrow> (Inl Undefined, m)
         | Some ok \<Rightarrow>
             (if ok then mux_push_phase env es True (push_to_queue e m)
              else mux_push_phase env es pushed m)))"

definition mux_ensure_file :: "'o mux_env \<Rightarrow> 'o muxer \<Rightarrow> ('o muxer, 'o pfile) outcome" where
  "mux_ensure_file env m =
     (case mx_store m of
        Inr f \<Rightarrow> (Inr f, m)
      | Inl fs \<Rightarrow>
          (case pf_new (queue_file env (mx_name m)) (mu_now env) fs of
             (Inl x, fs1) \<Rightarrow> (Inl x, m\<lparr>mx_store := Inl fs1\<rparr>)
           | (Inr f, _) \<Rightarrow> (Inr f, m\<lparr>mx_store := Inr f\<rparr>)))"

text \<open>The second loop, to the retention file. An event that cannot be written is lost.\<close>

fun mux_write_phase :: "'o mux_env \<Rightarrow> 'o event list \<Rightarrow> 'o muxer \<Rightarrow> ('o muxer, unit) outcome option" where
  "mux_write_phase env [] m = Some (Inr (), m)"
| "mux_write_phase env (e # es) m =
     (case allows (mx_write_filter m) (ev_type e) of
        None \<Rightarrow> Some (Inl Undefined, m)
      | Some ok \<Rightarrow>
          (if \<not> ok then mux_write_phase env es m
           else
             (case mux_ensure_file env m of
                (Inl x, m1) \<Rightarrow> Some (Inl x, m1)
              | (Inr f, m1) \<Rightarrow>
                  (case mux_file_write env e f of
                     None \<Rightarrow> None
                   | Some (Inr _, f1) \<Rightarrow> mux_write_phase env es (m1\<lparr>mx_store := Inr f1\<rparr>)
                   | Some (Inl x, f1) \<Rightarrow>
                       (if x = Undefined then Some (Inl x, m1\<lparr>mx_store := Inr f1\<rparr>)
                        else
                          (case pf_close (mu_zlib env) f1 of
                             None \<Rightarrow> None
                           | Some fs \<Rightarrow> mux_write_phase env es (m1\<lparr>mx_store := Inl fs\<rparr>)))))))"

definition mux_after_push :: "'o mux_env \<Rightarrow> bool \<Rightarrow> 'o muxer \<Rightarrow> 'o muxer" where
  "mux_after_push env pushed m = (if pushed \<or> mux_full env m then execute_reader_if_needed m else m)"

lemma push_phase_length:
  "mux_push_phase env es p m = (Inr (es1, q), m1) \<Longrightarrow> length es1 \<le> length es \<and> (q \<and> \<not> p \<longrightarrow> length es1 < length es)"
proof (induction es arbitrary: p m)
  case (Cons e es)
  consider "mux_full env m" | "\<not> mux_full env m" "allows (mx_write_filter m) (ev_type e) = Some True"
    | "\<not> mux_full env m" "allows (mx_write_filter m) (ev_type e) = Some False"
    | "\<not> mux_full env m" "allows (mx_write_filter m) (ev_type e) = None"
    by (cases "allows (mx_write_filter m) (ev_type e)") auto
  then show ?case
  proof cases
    case 2
    with Cons.prems Cons.IH [of True "push_to_queue e m"] show ?thesis by simp
  next
    case 3
    with Cons.prems Cons.IH [of p m] show ?thesis by auto
  qed (use Cons.prems in auto)
qed auto

text \<open>\<open>publish\<close> without other threads between the two loops.\<close>

function mux_publish :: "'o mux_env \<Rightarrow> 'o event list \<Rightarrow> 'o muxer \<Rightarrow> ('o muxer, unit) outcome option" where
  "mux_publish env es m =
     (if es = [] then Some (Inr (), m)
      else
        (case mux_push_phase env es False m of
           (Inl x, m1) \<Rightarrow> Some (Inl x, m1)
         | (Inr (es1, pushed), m1) \<Rightarrow>
             (let m2 = mux_after_push env pushed m1 in
              if es1 = [] then Some (Inr (), m2)
              else if pushed then mux_publish env es1 m2
              else mux_write_phase env es1 m2)))"
  by pat_completeness auto
termination
  by (relation "measure (\<lambda>(env, es, m). length es)") (auto dest!: push_phase_length [OF sym])

declare mux_publish.simps [simp del]

subsection \<open>Events for the engine\<close>

definition mux_write :: "'o event option \<Rightarrow> 'o muxer \<Rightarrow> (exn + 'o event list)" where
  "mux_write d m =
     (case d of
        None \<Rightarrow> Inr []
      | Some e \<Rightarrow>
          (case allows (mx_read_filter m) (ev_type e) of
             None \<Rightarrow> Inl Undefined
           | Some ok \<Rightarrow> Inr (if ok then [e] else [])))"

fun mux_write_many :: "'o event list \<Rightarrow> 'o muxer \<Rightarrow> (exn + 'o event list)" where
  "mux_write_many [] m = Inr []"
| "mux_write_many (e # es) m =
     (case allows (mx_read_filter m) (ev_type e) of
        None \<Rightarrow> Inl Undefined
      | Some ok \<Rightarrow>
          (case mux_write_many es m of
             Inl x \<Rightarrow> Inl x
           | Inr xs \<Rightarrow> Inr (if ok then e # xs else xs)))"

definition set_read_filter :: "muxer_filter \<Rightarrow> 'o muxer \<Rightarrow> 'o muxer" where
  "set_read_filter f m = m\<lparr>mx_read_filter := f\<rparr>"

definition set_write_filter :: "muxer_filter \<Rightarrow> 'o muxer \<Rightarrow> 'o muxer" where
  "set_write_filter f m = m\<lparr>mx_write_filter := f\<rparr>"

definition set_action_on_new_data :: "'o muxer \<Rightarrow> 'o muxer" where
  "set_action_on_new_data m = m\<lparr>mx_has_handler := True\<rparr>"

definition clear_action_on_new_data :: "'o muxer \<Rightarrow> 'o muxer" where
  "clear_action_on_new_data m = m\<lparr>mx_has_handler := False\<rparr>"

subsection \<open>Construction and destruction\<close>

partial_function (option) load_memory_file :: "'o mux_env \<Rightarrow> 'o event list \<Rightarrow> 'o pfile \<Rightarrow>
    ('o pfile, 'o event list) outcome option" where
  "load_memory_file env acc f =
     (case mux_file_read env f of
        None \<Rightarrow> None
      | Some (r, f1) \<Rightarrow>
          (case r of
             Inl x \<Rightarrow> (if x = Shutdown then Some (Inr acc, f1) else Some (Inl x, f1))
           | Inr (ok, d) \<Rightarrow>
               load_memory_file env (case d of None \<Rightarrow> acc | Some e \<Rightarrow> acc @ [e]) f1))"

text \<open>The elements are appended without moving \<open>_pos\<close>.\<close>

partial_function (option) load_queue_file :: "'o mux_env \<Rightarrow> 'o muxer \<Rightarrow> ('o muxer, unit) outcome option" where
  "load_queue_file env m =
     (case get_event_from_file env m of
        None \<Rightarrow> None
      | Some (r, m1) \<Rightarrow>
          (case r of
             Inl x \<Rightarrow> Some (Inl x, m1)
           | Inr d \<Rightarrow>
               (case d of
                  None \<Rightarrow> Some (Inr (), m1)
                | Some e \<Rightarrow>
                    (let m2 = m1\<lparr>mx_events := mx_events m1 @ [e], mx_events_size := Suc (mx_events_size m1)\<rparr> in
                     if mux_full env m2 then Some (Inr (), m2) else load_queue_file env m2))))"

definition mux_blank :: "string \<Rightarrow> muxer_filter \<Rightarrow> muxer_filter \<Rightarrow> bool \<Rightarrow> fs \<Rightarrow> 'o muxer" where
  "mux_blank name r_filter w_filter persistent fs =
     \<lparr>mx_name = name, mx_read_filter = r_filter, mx_write_filter = w_filter, mx_persistent = persistent,
      mx_has_handler = False, mx_reader_running = False, mx_tasks = 0, mx_events = [], mx_events_size = 0,
      mx_pos = None, mx_store = Inl fs\<rparr>"

definition mux_load_memory :: "'o mux_env \<Rightarrow> 'o muxer \<Rightarrow> fs \<Rightarrow> ('o muxer, unit) outcome option" where
  "mux_load_memory env m fs =
     (case pf_new (memory_file env (mx_name m)) (mu_now env) fs of
        (Inl x, fs1) \<Rightarrow>
          (if x = Shutdown then Some (Inr (), m\<lparr>mx_store := Inl fs1\<rparr>) else Some (Inl x, m\<lparr>mx_store := Inl fs1\<rparr>))
      | (Inr f, _) \<Rightarrow>
          (case load_memory_file env [] f of
             None \<Rightarrow> None
           | Some (r, f1) \<Rightarrow>
               (case pf_close (mu_zlib env) f1 of
                  None \<Rightarrow> None
                | Some fs1 \<Rightarrow>
                    (case r of
                       Inl x \<Rightarrow> Some (Inl x, m\<lparr>mx_store := Inl fs1\<rparr>)
                     | Inr es \<Rightarrow>
                         Some (Inr (), m\<lparr>mx_events := es, mx_events_size := length es, mx_store := Inl fs1\<rparr>)))))"

definition mux_new :: "'o mux_env \<Rightarrow> string \<Rightarrow> muxer_filter \<Rightarrow> muxer_filter \<Rightarrow> bool \<Rightarrow> fs \<Rightarrow>
    ('o muxer, unit) outcome option" where
  "mux_new env name r_filter w_filter persistent fs =
     (let m = mux_blank name r_filter w_filter persistent fs in
      case (if persistent then mux_load_memory env m fs else Some (Inr (), m)) of
        None \<Rightarrow> None
      | Some (Inl x, m1) \<Rightarrow> Some (Inl x, m1)
      | Some (Inr _, m1) \<Rightarrow>
          (case mux_ensure_file env (nack_events m1) of
             (Inl x, m2) \<Rightarrow> (if x = Shutdown then Some (Inr (), m2) else Some (Inl x, m2))
           | (Inr f, m2) \<Rightarrow>
               (case load_queue_file env m2 of
                  None \<Rightarrow> None
                | Some (Inl x, m3) \<Rightarrow> (if x = Shutdown then Some (Inr (), m3) else Some (Inl x, m3))
                | Some (Inr _, m3) \<Rightarrow> Some (Inr (), m3))))"

fun mux_backup :: "'o mux_env \<Rightarrow> 'o event list \<Rightarrow> 'o pfile \<Rightarrow> 'o pfile option" where
  "mux_backup env [] f = Some f"
| "mux_backup env (e # es) f =
     (case mux_file_write env e f of
        None \<Rightarrow> None
      | Some (Inl _, f1) \<Rightarrow> Some f1
      | Some (Inr _, f1) \<Rightarrow> mux_backup env es f1)"

definition mux_disk :: "'o mux_env \<Rightarrow> 'o muxer \<Rightarrow> fs option" where
  "mux_disk env m = (case mx_store m of Inl fs \<Rightarrow> Some fs | Inr f \<Rightarrow> pf_close (mu_zlib env) f)"

definition mux_save_memory :: "'o mux_env \<Rightarrow> 'o muxer \<Rightarrow> fs \<Rightarrow> fs option" where
  "mux_save_memory env m fs =
     (case pf_new (memory_file env (mx_name m)) (mu_now env) fs of
        (Inl _, fs1) \<Rightarrow> Some fs1
      | (Inr f, _) \<Rightarrow>
          (case mux_backup env (mx_events m) f of
             None \<Rightarrow> None
           | Some f1 \<Rightarrow> pf_close (mu_zlib env) f1))"

definition mux_clean :: "'o mux_env \<Rightarrow> 'o muxer \<Rightarrow> 'o muxer option" where
  "mux_clean env m =
     (case mux_disk env m of
        None \<Rightarrow> None
      | Some fs \<Rightarrow>
          map_option (\<lambda>fs1. m\<lparr>mx_events := [], mx_events_size := 0, mx_pos := None, mx_store := Inl fs1\<rparr>)
            (if mx_persistent m \<and> mx_events m \<noteq> [] then mux_save_memory env m fs else Some fs))"

text \<open>Called when \<open>_file\<close> is already destroyed: works on the disk only.\<close>

definition remove_queue_files :: "'o mux_env \<Rightarrow> string \<Rightarrow> fs \<Rightarrow> (fs, unit) outcome option" where
  "remove_queue_files env name fs =
     (case (pf_new (queue_file env name) (mu_now env) fs :: (exn + 'o pfile) \<times> fs) of
        (Inl x, fs1) \<Rightarrow> Some (Inl x, fs1)
      | (Inr f, _) \<Rightarrow> map_option (Pair (Inr ())) (pf_close (mu_zlib env) (pf_remove_all_files f)))"

end
