(* ===== verification/Muxer_Queue.thy ===== *)
theory Muxer_Queue
  imports Muxer
begin

section \<open>Muxers as queues\<close>

text \<open>
  What the operations of \<^verbatim>\<open>Muxer\<close> do to the events a muxer holds. The locale \<open>cursor_queue\<close> is the contract
  of a subscriber towards the engine and the thread that reads it, and muxers implement it as
  long as no other thread runs between the two loops of a publication.
\<close>

subsection \<open>Invariant\<close>

text \<open>
  What a muxer holds is the list \<open>mx_events m\<close> in memory followed by the list \<open>es\<close> on disk; \<open>mux_index\<close>
  is the number of events that are read and not acknowledged.
\<close>

definition mux_file :: "'o mux_env \<Rightarrow> string \<Rightarrow> fs + 'o pfile \<Rightarrow> 'o event list \<Rightarrow> bool" where
  "mux_file env name st es \<longleftrightarrow>
     (case st of
        Inl fs \<Rightarrow> es = [] \<and> disk_empty (queue_file env name) fs
      | Inr f \<Rightarrow> pf_holds (mu_bbdo env) (mu_zlib env) (queue_file env name) f es)"

definition mux_inv :: "'o mux_env \<Rightarrow> 'o muxer \<Rightarrow> 'o event list \<Rightarrow> bool" where
  "mux_inv env m es \<longleftrightarrow>
     zlib_contract (mu_zlib env) \<and> mx_events_size m = length (mx_events m) \<and>
     (\<forall>i. mx_pos m = Some i \<longrightarrow> i < length (mx_events m)) \<and> mux_file env (mx_name m) (mx_store m) es"

abbreviation mux_allows :: "'o muxer \<Rightarrow> 'o event \<Rightarrow> bool" where
  "mux_allows m e \<equiv> ev_type e \<in> allowed (mx_write_filter m)"

definition mux_fits :: "'o mux_env \<Rightarrow> 'o event \<Rightarrow> bool" where
  "mux_fits env e \<longleftrightarrow> valid_type (ev_type e) \<and> pf_fits (mu_bbdo env) (mu_zlib env) e"

definition mux_same :: "'o muxer \<Rightarrow> 'o muxer \<Rightarrow> bool" where
  "mux_same m m' \<longleftrightarrow> mx_name m' = mx_name m \<and> mx_read_filter m' = mx_read_filter m \<and>
     mx_write_filter m' = mx_write_filter m \<and> mx_persistent m' = mx_persistent m"

lemma mux_same_refl [simp]: "mux_same m m"
  by (simp add: mux_same_def)

lemma mux_same_trans [trans]: "mux_same a b \<Longrightarrow> mux_same b c \<Longrightarrow> mux_same a c"
  by (simp add: mux_same_def)

lemma allows_valid: "valid_type t \<Longrightarrow> allows f t = Some (t \<in> allowed f)"
  using allows_bit mem_allowed by (fastforce simp: valid_type_def)

lemma mux_index_le: "mux_inv env m es \<Longrightarrow> mux_index m \<le> length (mx_events m)"
  by (auto simp: mux_inv_def mux_index_def split: option.splits)

lemma mux_pos_index:
  "mux_inv env m es \<Longrightarrow> mx_pos m = (if mux_index m < length (mx_events m) then Some (mux_index m) else None)"
  by (auto simp: mux_inv_def mux_index_def split: option.splits)

lemma mux_index_store [simp]: "mux_index (m\<lparr>mx_store := st\<rparr>) = mux_index m"
  by (auto simp: mux_index_def split: option.splits)

lemma push_to_queue_view:
  "mx_events (push_to_queue e m) = mx_events m @ [e]"
  "mux_index (push_to_queue e m) = mux_index m"
  "mx_store (push_to_queue e m) = mx_store m"
  "mux_same m (push_to_queue e m)"
  by (auto simp: push_to_queue_def Let_def mux_index_def mux_same_def split: option.splits)

lemma push_to_queue_inv: "mux_inv env m es \<Longrightarrow> mux_inv env (push_to_queue e m) es"
  by (auto simp: mux_inv_def push_to_queue_def Let_def less_SucI)

lemma mux_advance_inv:
  "mux_inv env m es \<Longrightarrow> mux_index m < length (mx_events m) \<Longrightarrow>
   mux_inv env (mux_advance m) es \<and> mx_events (mux_advance m) = mx_events m \<and>
   mux_index (mux_advance m) = Suc (mux_index m) \<and> mux_same m (mux_advance m)"
  by (auto simp: mux_inv_def mux_advance_def mux_index_def mux_same_def split: option.splits)

subsection \<open>Publishing\<close>

lemma push_phase_inv:
  assumes "mux_inv env m es" "list_all (mux_fits env) evs"
  obtains pre rest q m1 where "mux_push_phase env evs p m = (Inr (rest, q), m1)" "evs = pre @ rest"
    "mux_inv env m1 es" "mx_events m1 = mx_events m @ filter (mux_allows m) pre" "mux_index m1 = mux_index m"
    "mux_same m m1" "rest \<noteq> [] \<longrightarrow> mux_full env m1" "mux_full env m \<longrightarrow> pre = []"
    "q \<longleftrightarrow> p \<or> filter (mux_allows m) pre \<noteq> []"
  using assms
proof (induction evs arbitrary: m p thesis)
  case Nil
  show ?case by (rule Nil(1) [of "[]" p m "[]"]) (use Nil in auto)
next
  case (Cons e evs)
  have v: "allows (mx_write_filter m) (ev_type e) = Some (mux_allows m e)"
    using Cons.prems(3) by (auto simp: mux_fits_def allows_valid)
  show ?case
  proof (cases "mux_full env m")
    case True
    show ?thesis by (rule Cons.prems(1) [of "e # evs" p m "[]"]) (use Cons True in auto)
  next
    case False
    define m0 where "m0 = (if mux_allows m e then push_to_queue e m else m)"
    have m0: "mux_inv env m0 es" "mx_events m0 = mx_events m @ filter (mux_allows m) [e]" "mux_index m0 = mux_index m"
        "mux_same m m0"
      using Cons.prems(2) by (auto simp: m0_def push_to_queue_view push_to_queue_inv)
    then have w: "mx_write_filter m0 = mx_write_filter m" by (simp add: mux_same_def)
    obtain pre rest q m1 where r: "mux_push_phase env evs (p \<or> mux_allows m e) m0 = (Inr (rest, q), m1)" "evs = pre @ rest"
        "mux_inv env m1 es" "mx_events m1 = mx_events m0 @ filter (mux_allows m0) pre" "mux_index m1 = mux_index m0"
        "mux_same m0 m1" "rest \<noteq> [] \<longrightarrow> mux_full env m1"
        "q \<longleftrightarrow> (p \<or> mux_allows m e) \<or> filter (mux_allows m0) pre \<noteq> []"
      by (rule Cons.IH [where m = m0 and p = "p \<or> mux_allows m e"]) (use m0 Cons.prems(3) in auto)
    show ?thesis
    proof (rule Cons.prems(1) [of rest q m1 "e # pre"])
      show "mux_push_phase env (e # evs) p m = (Inr (rest, q), m1)"
        using r(1) False v by (cases "mux_allows m e") (auto simp: m0_def)
      show "mux_same m m1" using m0(4) r(6) by (rule mux_same_trans)
    qed (use m0 r w False in auto)
  qed
qed

lemma ensure_file_inv:
  assumes "mux_inv env m es"
  obtains f where "mux_ensure_file env m = (Inr f, m\<lparr>mx_store := Inr f\<rparr>)"
    "pf_holds (mu_bbdo env) (mu_zlib env) (queue_file env (mx_name m)) f es"
proof (cases "mx_store m")
  case (Inr f)
  show thesis by (rule that [of f]) (use assms Inr in \<open>auto simp: mux_ensure_file_def mux_inv_def mux_file_def\<close>)
next
  case (Inl fs)
  have a: "disk_empty (queue_file env (mx_name m)) fs" "zlib_contract (mu_zlib env)" "es = []"
    using assms Inl by (auto simp: mux_inv_def mux_file_def)
  obtain f fs' where "pf_new (queue_file env (mx_name m)) (mu_now env) fs = (Inr f, fs')"
      "pf_holds (mu_bbdo env) (mu_zlib env) (queue_file env (mx_name m)) f []"
    using pf_new_empty [OF a(1,2), of "mu_now env" "mu_bbdo env"] by blast
  then show thesis by (intro that [of f]) (use Inl a in \<open>auto simp: mux_ensure_file_def\<close>)
qed

lemma mux_inv_stored:
  "mux_inv env (m\<lparr>mx_store := Inr f\<rparr>) es \<longleftrightarrow>
   zlib_contract (mu_zlib env) \<and> mx_events_size m = length (mx_events m) \<and>
   (\<forall>i. mx_pos m = Some i \<longrightarrow> i < length (mx_events m)) \<and>
   pf_holds (mu_bbdo env) (mu_zlib env) (queue_file env (mx_name m)) f es"
  by (simp add: mux_inv_def mux_file_def)

lemma write_phase_inv:
  assumes "mux_inv env m es" "list_all (mux_fits env) evs"
  shows "\<exists>st. mux_write_phase env evs m = Some (Inr (), m\<lparr>mx_store := st\<rparr>) \<and>
    mux_inv env (m\<lparr>mx_store := st\<rparr>) (es @ filter (mux_allows m) evs)"
  using assms
proof (induction evs arbitrary: m es)
  case Nil
  then show ?case by (intro exI [of _ "mx_store m"]) simp
next
  case (Cons e evs)
  have v: "allows (mx_write_filter m) (ev_type e) = Some (mux_allows m e)"
    and f: "pf_fits (mu_bbdo env) (mu_zlib env) e"
    using Cons.prems(2) by (auto simp: mux_fits_def allows_valid)
  have l: "list_all (mux_fits env) evs" using Cons.prems(2) by simp
  show ?case
  proof (cases "mux_allows m e")
    case False
    with v Cons.IH [OF Cons.prems(1) l] show ?thesis by simp
  next
    case True
    obtain q where q: "mux_ensure_file env m = (Inr q, m\<lparr>mx_store := Inr q\<rparr>)"
        "pf_holds (mu_bbdo env) (mu_zlib env) (queue_file env (mx_name m)) q es"
      by (rule ensure_file_inv [OF Cons.prems(1)])
    obtain n q' where w: "mux_file_write env e q = Some (Inr n, q')"
        "pf_holds (mu_bbdo env) (mu_zlib env) (queue_file env (mx_name m)) q' (es @ [e])"
      using pfq.write_last [OF q(2) f] by blast
    have "mux_inv env (m\<lparr>mx_store := Inr q'\<rparr>) (es @ [e])"
      using Cons.prems(1) w(2) by (simp add: mux_inv_stored) (simp add: mux_inv_def)
    from Cons.IH [OF this l] q(1) w(1) v True show ?thesis by simp
  qed
qed

lemma mux_after_push_view [simp]:
  "mx_events (mux_after_push env q m) = mx_events m" "mux_index (mux_after_push env q m) = mux_index m"
  "mux_same m (mux_after_push env q m)" "mux_inv env (mux_after_push env q m) es \<longleftrightarrow> mux_inv env m es"
  "mx_events_size (mux_after_push env q m) = mx_events_size m"
  by (auto simp: mux_after_push_def execute_reader_if_needed_def mux_index_def mux_same_def mux_inv_def
      split: option.splits)

text \<open>
  Memory holds the first events, as many as the limit allows, and the file the others.
\<close>

definition mux_windowed :: "'o mux_env \<Rightarrow> 'o muxer \<Rightarrow> 'o event list \<Rightarrow> bool" where
  "mux_windowed env m es \<longleftrightarrow>
     length (mx_events m) \<le> unat (mu_max env) \<and> (es \<noteq> [] \<longrightarrow> length (mx_events m) = unat (mu_max env))"

lemma mux_full_iff: "mux_inv env m es \<Longrightarrow> mux_full env m \<longleftrightarrow> unat (mu_max env) \<le> length (mx_events m)"
  by (simp only: mux_inv_def uint_nat of_nat_le_iff)

lemma mux_windowed_take: "mux_windowed env m es \<Longrightarrow> take (unat (mu_max env)) (mx_events m @ es) = mx_events m"
  by (cases "es = []") (auto simp: mux_windowed_def)

lemma push_phase_windowed:
  assumes "mux_push_phase env evs p m = (Inr (rest, q), m1)" "mux_inv env m es" "length (mx_events m) \<le> unat (mu_max env)"
  shows "length (mx_events m1) \<le> unat (mu_max env)"
  using assms
proof (induction evs arbitrary: m p)
  case (Cons e evs)
  show ?case
  proof (cases "mux_full env m")
    case False
    then have "length (mx_events m) < unat (mu_max env)" using mux_full_iff [OF Cons.prems(2)] by simp
    then have len: "length (mx_events (push_to_queue e m)) \<le> unat (mu_max env)" by (simp add: push_to_queue_view)
    consider "allows (mx_write_filter m) (ev_type e) = Some True" | "allows (mx_write_filter m) (ev_type e) = Some False"
      | "allows (mx_write_filter m) (ev_type e) = None"
      by (cases "allows (mx_write_filter m) (ev_type e)") auto
    then show ?thesis
    proof cases
      case 1
      with Cons.prems(1) False Cons.IH [OF _ push_to_queue_inv [OF Cons.prems(2)] len] show ?thesis by simp
    next
      case 2
      with Cons.prems(1) False Cons.IH [OF _ Cons.prems(2,3)] show ?thesis by simp
    qed (use Cons.prems False in simp)
  qed (use Cons.prems in auto)
qed auto

lemma push_phase_queue:
  assumes "mux_inv env m es" "mux_windowed env m es" "list_all (mux_fits env) evs"
  obtains pre rest q m1 m2 where "mux_push_phase env evs False m = (Inr (rest, q), m1)" "m2 = mux_after_push env q m1"
    "evs = pre @ rest" "mux_inv env m2 es" "mux_windowed env m2 es" "mux_index m2 = mux_index m" "mux_same m m2"
    "mx_events m2 @ es = mx_events m @ es @ filter (mux_allows m) pre"
    "rest \<noteq> [] \<longrightarrow> length (mx_events m2) = unat (mu_max env)"
proof -
  obtain pre rest q m1 where p: "mux_push_phase env evs False m = (Inr (rest, q), m1)" "evs = pre @ rest"
      "mux_inv env m1 es" "mx_events m1 = mx_events m @ filter (mux_allows m) pre" "mux_index m1 = mux_index m"
      "mux_same m m1" "rest \<noteq> [] \<longrightarrow> mux_full env m1" "mux_full env m \<longrightarrow> pre = []"
    by (rule push_phase_inv [OF assms(1,3), where p = False])
  define m2 where "m2 = mux_after_push env q m1"
  have es: "es = []" if "pre \<noteq> []"
    using that p(8) assms(2) mux_full_iff [OF assms(1)] by (auto simp: mux_windowed_def)
  have w1: "mux_windowed env m1 es"
  proof (cases "pre = []")
    case True
    then show ?thesis using p(4) assms(2) by (simp add: mux_windowed_def)
  next
    case False
    then show ?thesis using es push_phase_windowed [OF p(1)] assms(1,2) by (simp add: mux_windowed_def)
  qed
  show thesis
  proof (rule that [OF p(1) m2_def p(2)])
    show "mux_same m m2" using mux_same_trans [OF p(6)] by (simp add: m2_def)
    show "mx_events m2 @ es = mx_events m @ es @ filter (mux_allows m) pre"
      using p(4) es by (cases "pre = []") (simp_all add: m2_def)
    show "rest \<noteq> [] \<longrightarrow> length (mx_events m2) = unat (mu_max env)"
      using p(3,7) w1 mux_full_iff [OF p(3)] by (auto simp: m2_def mux_windowed_def)
  qed (use p(3,5) w1 in \<open>simp_all add: m2_def mux_windowed_def\<close>)
qed

lemma mux_publish_inv:
  assumes "mux_inv env m es" "mux_windowed env m es" "list_all (mux_fits env) evs"
  shows "\<exists>m' es'. mux_publish env evs m = Some (Inr (), m') \<and> mux_inv env m' es' \<and> mux_windowed env m' es' \<and>
    mx_events m' @ es' = mx_events m @ es @ filter (mux_allows m) evs \<and> mux_index m' = mux_index m \<and> mux_same m m'"
  using assms
proof (induction "length evs" arbitrary: evs m es rule: less_induct)
  case less
  obtain pre rest q m1 m2 where p: "mux_push_phase env evs False m = (Inr (rest, q), m1)"
      and m2: "m2 = mux_after_push env q m1" and evs: "evs = pre @ rest"
      and 2: "mux_inv env m2 es" "mux_windowed env m2 es" "mux_index m2 = mux_index m" and s: "mux_same m m2"
      and e: "mx_events m2 @ es = mx_events m @ es @ filter (mux_allows m) pre"
      and full: "rest \<noteq> [] \<longrightarrow> length (mx_events m2) = unat (mu_max env)"
    by (rule push_phase_queue [OF less.prems])
  have w: "mx_write_filter m2 = mx_write_filter m" using s by (simp add: mux_same_def)
  have all: "mx_events m2 @ es @ filter (mux_allows m2) rest = mx_events m @ es @ filter (mux_allows m) evs"
    using w evs arg_cong [OF e, of "\<lambda>l. l @ filter (mux_allows m) rest"] by simp
  have r: "list_all (mux_fits env) rest" using less.prems(3) evs by simp
  have u: "mux_publish env evs m = (if rest = [] then Some (Inr (), m2) else if q then mux_publish env rest m2
      else mux_write_phase env rest m2)" if "evs \<noteq> []"
    using that p by (simp add: mux_publish.simps [of env evs] m2)
  consider "evs = []" | "evs \<noteq> []" "rest = []" | "evs \<noteq> []" "rest \<noteq> []" q | "evs \<noteq> []" "rest \<noteq> []" "\<not> q" by auto
  then show ?case
  proof cases
    case 1
    with less.prems show ?thesis by (auto simp: mux_publish.simps [of env "[]"])
  next
    case c: 2
    with u 2 s all show ?thesis by (intro exI [of _ m2] exI [of _ es]) simp
  next
    case c: 3
    then have "length rest < length evs" using push_phase_length [OF p] by simp
    then obtain m' es' where n: "mux_publish env rest m2 = Some (Inr (), m')" "mux_inv env m' es'"
        "mux_windowed env m' es'" "mx_events m' @ es' = mx_events m2 @ es @ filter (mux_allows m2) rest"
        "mux_index m' = mux_index m2" "mux_same m2 m'"
      using less.hyps [OF _ 2(1,2) r] by blast
    with u c all 2(3) mux_same_trans [OF s n(6)] show ?thesis by (intro exI [of _ m'] exI [of _ es']) simp
  next
    case c: 4
    obtain st where t: "mux_write_phase env rest m2 = Some (Inr (), m2\<lparr>mx_store := st\<rparr>)"
        "mux_inv env (m2\<lparr>mx_store := st\<rparr>) (es @ filter (mux_allows m2) rest)"
      using write_phase_inv [OF 2(1) r] by blast
    moreover have "mux_same m (m2\<lparr>mx_store := st\<rparr>)" using s by (simp add: mux_same_def)
    ultimately show ?thesis
      using u c 2(3) all full
      by (intro exI [of _ "m2\<lparr>mx_store := st\<rparr>"] exI [of _ "es @ filter (mux_allows m2) rest"])
        (simp add: mux_windowed_def)
  qed
qed

subsection \<open>Acknowledgements\<close>

lemma get_event_from_file_inv:
  assumes "mux_inv env m es"
  shows "\<exists>st. get_event_from_file env m =
      Some (Inr (case es of [] \<Rightarrow> None | e # _ \<Rightarrow> Some e), m\<lparr>mx_store := st\<rparr>) \<and>
    mux_inv env (m\<lparr>mx_store := st\<rparr>) (tl es)"
proof (cases "mx_store m")
  case (Inl fs)
  then have "m\<lparr>mx_store := Inl fs\<rparr> = m" by simp
  with assms Inl show ?thesis
    by (intro exI [of _ "Inl fs"]) (auto simp: get_event_from_file_def mux_inv_def mux_file_def)
next
  case (Inr f)
  have h: "pf_holds (mu_bbdo env) (mu_zlib env) (queue_file env (mx_name m)) f es"
    using assms Inr by (simp add: mux_inv_def mux_file_def)
  show ?thesis
  proof (cases es)
    case Nil
    obtain f' fs where "mux_file_read env f = Some (Inl Shutdown, f')" "pf_close (mu_zlib env) f' = Some fs"
        "disk_empty (queue_file env (mx_name m)) fs"
      using pfq.read_empty [OF h [unfolded Nil], of "mu_now env"] by (auto simp: pf_ended_def)
    with assms Nil Inr show ?thesis
      by (intro exI [of _ "Inl fs"])
        (simp add: get_event_from_file_def file_next_event.simps [of env f] mux_inv_def mux_file_def)
  next
    case (Cons e es')
    obtain f' where "mux_file_read env f = Some (Inr (True, Some e), f')"
        "pf_holds (mu_bbdo env) (mu_zlib env) (queue_file env (mx_name m)) f' es'"
      using pfq.read_first [OF h [unfolded Cons], of "mu_now env"] by blast
    with assms Cons Inr show ?thesis
      by (intro exI [of _ "Inr f'"])
        (simp add: get_event_from_file_def file_next_event.simps [of env f] mux_inv_def mux_file_def)
  qed
qed

lemma mux_refill_inv:
  assumes "mux_inv env m es" "length (mx_events m) \<le> unat (mu_max env)"
  shows "\<exists>m' es'. mux_refill env m = Some (Inr (), m') \<and> mux_inv env m' es' \<and> mux_windowed env m' es' \<and>
    mx_events m' @ es' = mx_events m @ es \<and> mux_index m' = mux_index m \<and> mux_same m m'"
  using assms
proof (induction es arbitrary: m)
  case Nil
  obtain st where g: "get_event_from_file env m = Some (Inr None, m\<lparr>mx_store := st\<rparr>)"
      "mux_inv env (m\<lparr>mx_store := st\<rparr>) []"
    using get_event_from_file_inv [OF Nil.prems(1)] by auto
  show ?case
  proof (cases "mux_full env m")
    case True
    then show ?thesis using Nil by (intro exI [of _ m] exI [of _ "[]"]) (simp add: mux_refill.simps [of env m] mux_windowed_def)
  next
    case False
    then show ?thesis using Nil.prems g
      by (intro exI [of _ "m\<lparr>mx_store := st\<rparr>"] exI [of _ "[]"])
        (simp add: mux_refill.simps [of env m] mux_windowed_def mux_same_def)
  qed
next
  case (Cons e es)
  obtain st where g: "get_event_from_file env m = Some (Inr (Some e), m\<lparr>mx_store := st\<rparr>)"
      "mux_inv env (m\<lparr>mx_store := st\<rparr>) es"
    using get_event_from_file_inv [OF Cons.prems(1)] by auto
  let ?m = "push_to_queue e (m\<lparr>mx_store := st\<rparr>)"
  have v: "mx_events ?m = mx_events m @ [e]" "mux_index ?m = mux_index m" "mux_same m ?m"
    by (simp_all add: push_to_queue_view) (simp_all add: push_to_queue_def mux_same_def Let_def)
  show ?case
  proof (cases "mux_full env m")
    case True
    then show ?thesis using Cons.prems mux_full_iff [OF Cons.prems(1)]
      by (intro exI [of _ m] exI [of _ "e # es"]) (simp add: mux_refill.simps [of env m] mux_windowed_def)
  next
    case False
    then have "length (mx_events ?m) \<le> unat (mu_max env)" using mux_full_iff [OF Cons.prems(1)] v by simp
    from Cons.IH [OF push_to_queue_inv [OF g(2)] this] False g(1) v mux_same_trans [OF v(3)]
    show ?thesis by (fastforce simp: mux_refill.simps [of env m])
  qed
qed

lemma mux_pop_inv:
  "mux_inv env m es \<Longrightarrow>
   mux_inv env (mux_pop n m) es \<and> mx_events (mux_pop n m) = drop (min n (mux_index m)) (mx_events m) \<and>
   mux_index (mux_pop n m) = mux_index m - min n (mux_index m) \<and> mux_same m (mux_pop n m)"
proof (induction n arbitrary: m)
  case (Suc n)
  show ?case
  proof (cases "mx_events m = [] \<or> mx_pos m = Some 0")
    case True
    then have "mux_index m = 0" by (auto simp: mux_index_def Suc.prems mux_inv_def split: option.splits)
        (use Suc.prems in \<open>auto simp: mux_inv_def\<close>)
    with True Suc.prems show ?thesis by simp
  next
    case False
    let ?m = "m\<lparr>mx_events := tl (mx_events m), mx_events_size := mx_events_size m - 1,
                mx_pos := map_option (\<lambda>i. i - 1) (mx_pos m)\<rparr>"
    have i: "mux_inv env ?m es" "mux_index ?m = mux_index m - 1" "mux_index m > 0" "mux_same m ?m"
      using Suc.prems False by (auto simp: mux_inv_def mux_index_def mux_same_def split: option.splits)
    then obtain k where k: "mux_index m = Suc k" by (cases "mux_index m") auto
    from Suc.IH [OF i(1)] False i k mux_same_trans [OF i(4)] show ?thesis by (simp add: drop_Suc)
  qed
qed simp

lemma ack_events_inv:
  assumes "mux_inv env m es" "length (mx_events m) \<le> unat (mu_max env)"
  shows "\<exists>m' es'. ack_events env n m = Some (Inr (), m') \<and> mux_inv env m' es' \<and>
    length (mx_events m') \<le> unat (mu_max env) \<and> (mux_windowed env m es \<or> n \<noteq> 0 \<longrightarrow> mux_windowed env m' es') \<and>
    mx_events m' @ es' = drop (min (nat n) (mux_index m)) (mx_events m @ es) \<and>
    mux_index m' = mux_index m - min (nat n) (mux_index m) \<and> mux_same m m'"
proof (cases "n = 0")
  case True
  with assms show ?thesis by (auto simp: ack_events_def)
next
  case False
  define k where "k = min (nat n) (mux_index m)"
  have k: "k \<le> length (mx_events m)" using mux_index_le [OF assms(1)] by (simp add: k_def)
  have p: "mux_inv env (mux_pop (nat n) m) es" "mx_events (mux_pop (nat n) m) = drop k (mx_events m)"
      "mux_index (mux_pop (nat n) m) = mux_index m - k" "mux_same m (mux_pop (nat n) m)"
    using mux_pop_inv [OF assms(1), of "nat n"] by (simp_all add: k_def)
  have "length (mx_events (mux_pop (nat n) m)) \<le> unat (mu_max env)"
    using p(2) assms(2) by simp
  from mux_refill_inv [OF p(1) this] obtain m' es' where
    "mux_refill env (mux_pop (nat n) m) = Some (Inr (), m')" "mux_inv env m' es'" "mux_windowed env m' es'"
    "mx_events m' @ es' = drop k (mx_events m) @ es" "mux_index m' = mux_index m - k" "mux_same (mux_pop (nat n) m) m'"
    using p by auto
  with False k mux_same_trans [OF p(4)] show ?thesis
    unfolding k_def [symmetric] by (intro exI [of _ m'] exI [of _ es']) (simp add: ack_events_def mux_windowed_def)
qed

subsection \<open>Queues with a cursor\<close>

text \<open>
  What a subscriber promises to the engine that publishes to it and to the thread that empties it: a
  list of events, of which the first \<open>k\<close> are read and wait for their acknowledgement. Reading does
  not go past the first \<open>window\<close> events.
\<close>

datatype 'e queue_op = Publish "'e list" | Poll | Fetch nat | Ack int | Nack

fun spec_step :: "nat \<Rightarrow> ('e \<Rightarrow> bool) \<Rightarrow> 'e queue_op \<Rightarrow> 'e list \<times> nat \<Rightarrow> 'e list \<times> ('e list \<times> nat)" where
  "spec_step window admit (Publish es) (xs, k) = ([], (xs @ filter admit es, k))"
| "spec_step window admit Poll (xs, k) =
     (case drop k (take window xs) of [] \<Rightarrow> ([], (xs, k)) | e # _ \<Rightarrow> ([e], (xs, Suc k)))"
| "spec_step window admit (Fetch n) (xs, k) =
     (let es = take n (drop k (take window xs)) in (es, (xs, k + length es)))"
| "spec_step window admit (Ack n) (xs, k) = ([], (drop (min (nat n) k) xs, k - min (nat n) k))"
| "spec_step window admit Nack (xs, k) = ([], (xs, 0))"

fun spec_run :: "nat \<Rightarrow> ('e \<Rightarrow> bool) \<Rightarrow> 'e queue_op list \<Rightarrow> 'e list \<times> nat \<Rightarrow> 'e list \<times> ('e list \<times> nat)" where
  "spec_run window admit [] q = ([], q)"
| "spec_run window admit (p # ps) q =
     (let (es, q1) = spec_step window admit p q; (es', q2) = spec_run window admit ps q1 in (es @ es', q2))"

fun published :: "'e queue_op list \<Rightarrow> 'e list" where
  "published [] = []"
| "published (Publish es # ps) = es @ published ps"
| "published (_ # ps) = published ps"

text \<open>Without a negative acknowledgement, the events come out once each and in order.\<close>

lemma spec_step_in_order:
  assumes "spec_step window admit p (xs, k) = (es, (ys, j))" "p \<noteq> Nack" "k \<le> length xs"
  shows "es @ drop j ys = drop k (xs @ filter admit (published [p])) \<and> j \<le> length ys"
proof (cases p)
  case Poll
  have d: "drop k (take window xs) = [] \<or>
      k < length xs \<and> drop k (take window xs) = xs ! k # drop (Suc k) (take window xs)"
    by (cases "k < length (take window xs)") (auto simp: Cons_nth_drop_Suc [symmetric])
  with assms Poll show ?thesis by (auto simp: Cons_nth_drop_Suc split: list.splits)
next
  case (Fetch n)
  define c where "c = min n (min window (length xs) - k)"
  have "take n (drop k (take window xs)) = take c (drop k xs)" "k + c \<le> length xs"
    using assms(3) by (auto simp: c_def drop_take min_def)
  moreover have "take c (drop k xs) @ drop (k + c) xs = drop k xs"
    using append_take_drop_id [of c "drop k xs"] by (simp add: add.commute)
  moreover have "es = take n (drop k (take window xs))" "j = k + length es" "ys = xs"
    using assms(1) Fetch by (auto simp: Let_def)
  ultimately show ?thesis using Fetch by simp
qed (use assms in auto)

lemma spec_run_in_order:
  assumes "spec_run window admit ps (xs, k) = (es, (ys, j))" "Nack \<notin> set ps" "k \<le> length xs"
  shows "es @ drop j ys = drop k (xs @ filter admit (published ps))"
  using assms
proof (induction ps arbitrary: xs k es)
  case (Cons p ps)
  obtain es1 xs1 k1 where 1: "spec_step window admit p (xs, k) = (es1, (xs1, k1))"
    by (cases "spec_step window admit p (xs, k)") auto
  obtain es2 where 2: "spec_run window admit ps (xs1, k1) = (es2, (ys, j))" "es = es1 @ es2"
    using Cons.prems(1) 1 by (auto split: prod.splits)
  have s: "es1 @ drop k1 xs1 = drop k (xs @ filter admit (published [p]))" "k1 \<le> length xs1"
    using spec_step_in_order [OF 1] Cons.prems by auto
  have r: "es2 @ drop j ys = drop k1 (xs1 @ filter admit (published ps))"
    using Cons.IH [OF 2(1)] Cons.prems s(2) by simp
  have q: "published (p # ps) = published [p] @ published ps" by (cases p) auto
  have "es @ drop j ys = es1 @ drop k1 xs1 @ filter admit (published ps)" using 2(2) r s(2) by simp
  also have "\<dots> = drop k (xs @ filter admit (published [p])) @ filter admit (published ps)"
    using arg_cong [OF s(1), of "\<lambda>l. l @ filter admit (published ps)"] by simp
  finally show ?case using Cons.prems(3) by (simp add: q)
qed auto

fun run_ops :: "('e queue_op \<Rightarrow> 'm \<Rightarrow> ('m, 'e list) outcome option) \<Rightarrow> 'e queue_op list \<Rightarrow> 'm \<Rightarrow>
    ('m, 'e list) outcome option" where
  "run_ops step [] m = Some (Inr [], m)"
| "run_ops step (p # ps) m =
     (case step p m of
        None \<Rightarrow> None
      | Some (Inl x, m1) \<Rightarrow> Some (Inl x, m1)
      | Some (Inr es, m1) \<Rightarrow>
          (case run_ops step ps m1 of
             None \<Rightarrow> None
           | Some (Inl x, m2) \<Rightarrow> Some (Inl x, m2)
           | Some (Inr es', m2) \<Rightarrow> Some (Inr (es @ es'), m2)))"

locale cursor_queue =
  fixes rep :: "'m \<Rightarrow> 'e list \<times> nat \<Rightarrow> bool"
    and window :: nat
    and admit fits :: "'e \<Rightarrow> bool"
    and step :: "'e queue_op \<Rightarrow> 'm \<Rightarrow> ('m, 'e list) outcome option"
  assumes rep_cursor: "rep m (xs, k) \<Longrightarrow> k \<le> length xs"
    and step_law: "rep m q \<Longrightarrow> list_all fits (published [p]) \<Longrightarrow>
      \<exists>m'. step p m = Some (Inr (fst (spec_step window admit p q)), m') \<and> rep m' (snd (spec_step window admit p q))"
begin

lemma run_refines:
  assumes "rep m q" "list_all fits (published ps)"
  shows "\<exists>m'. run_ops step ps m = Some (Inr (fst (spec_run window admit ps q)), m') \<and>
    rep m' (snd (spec_run window admit ps q))"
  using assms
proof (induction ps arbitrary: m q)
  case (Cons p ps)
  have f: "list_all fits (published [p])" "list_all fits (published ps)"
    using Cons.prems(2) by (cases p; simp)+
  obtain m1 where 1: "step p m = Some (Inr (fst (spec_step window admit p q)), m1)"
      "rep m1 (snd (spec_step window admit p q))"
    using step_law [OF Cons.prems(1) f(1)] by blast
  obtain m2 where 2: "run_ops step ps m1 =
        Some (Inr (fst (spec_run window admit ps (snd (spec_step window admit p q)))), m2)"
      "rep m2 (snd (spec_run window admit ps (snd (spec_step window admit p q))))"
    using Cons.IH [OF 1(2) f(2)] by blast
  show ?case using 1(1) 2 by (intro exI [of _ m2]) (simp add: split_def Let_def)
qed auto

lemma run_in_order:
  assumes "rep m (xs, k)" "list_all fits (published ps)" "Nack \<notin> set ps"
  shows "\<exists>m' es ys j. run_ops step ps m = Some (Inr es, m') \<and> rep m' (ys, j) \<and>
    es @ drop j ys = drop k (xs @ filter admit (published ps))"
proof -
  obtain es ys j where s: "spec_run window admit ps (xs, k) = (es, (ys, j))"
    by (cases "spec_run window admit ps (xs, k)") auto
  with run_refines [OF assms(1,2)] spec_run_in_order [OF s assms(3) rep_cursor [OF assms(1)]]
  show ?thesis by auto
qed

end

subsection \<open>Muxers are such queues\<close>

definition mux_step :: "'o mux_env \<Rightarrow> 'o event queue_op \<Rightarrow> 'o muxer \<Rightarrow> ('o muxer, 'o event list) outcome option" where
  "mux_step env p m =
     (case p of
        Publish es \<Rightarrow> map_option (apfst (map_sum id (\<lambda>_. []))) (mux_publish env es m)
      | Poll \<Rightarrow> (let ((_, d), m1) = mux_read 0 id m in Some (Inr (case d of None \<Rightarrow> [] | Some e \<Rightarrow> [e]), m1))
      | Fetch n \<Rightarrow> (let (es, _, m1) = mux_read_many n m in Some (Inr es, m1))
      | Ack n \<Rightarrow> map_option (apfst (map_sum id (\<lambda>_. []))) (ack_events env n m)
      | Nack \<Rightarrow> Some (Inr [], nack_events m))"

definition mux_rep :: "'o mux_env \<Rightarrow> muxer_filter \<Rightarrow> 'o muxer \<Rightarrow> 'o event list \<times> nat \<Rightarrow> bool" where
  "mux_rep env flt m q \<longleftrightarrow>
     mx_write_filter m = flt \<and>
     (\<exists>es. mux_inv env m es \<and> mux_windowed env m es \<and> q = (mx_events m @ es, mux_index m))"

lemma mux_repI:
  assumes "mux_inv env m' es'" "mux_windowed env m' es'" "mux_same m m'" "mx_write_filter m = flt"
    "mx_events m' @ es' = xs" "mux_index m' = k"
  shows "mux_rep env flt m' (xs, k)"
  using assms by (auto simp: mux_rep_def mux_same_def)

lemma mux_read_many_inv:
  assumes "mux_inv env m es"
  shows "\<exists>m'. mux_read_many n m =
      (take n (drop (mux_index m) (mx_events m)), mux_index m + n < length (mx_events m), m') \<and>
    mux_inv env m' es \<and> mx_events m' = mx_events m \<and> mux_same m m' \<and>
    mux_index m' = mux_index m + length (take n (drop (mux_index m) (mx_events m)))"
  using assms
proof (induction n arbitrary: m)
  case 0
  then show ?case using mux_pos_index [OF 0] by simp
next
  case (Suc n)
  note p = mux_pos_index [OF Suc.prems] and le = mux_index_le [OF Suc.prems]
  show ?case
  proof (cases "mux_index m < length (mx_events m)")
    case True
    note a = mux_advance_inv [OF Suc.prems True]
    obtain m' where "mux_read_many n (mux_advance m) =
          (take n (drop (Suc (mux_index m)) (mx_events m)), Suc (mux_index m) + n < length (mx_events m), m')"
        "mux_inv env m' es" "mx_events m' = mx_events m" "mux_same m m'"
        "mux_index m' = Suc (mux_index m) + length (take n (drop (Suc (mux_index m)) (mx_events m)))"
      using Suc.IH [of "mux_advance m"] a mux_same_trans [of m "mux_advance m"] by auto
    with p True show ?thesis
      by (intro exI [of _ m']) (simp add: Cons_nth_drop_Suc [symmetric, OF True])
  next
    case False
    with p le Suc.prems show ?thesis by (intro exI [of _ m]) simp
  qed
qed

lemma mux_read_now:
  "mux_read 0 others m =
     (case mx_pos m of
        None \<Rightarrow> ((False, None), m)
      | Some i \<Rightarrow> ((True, Some (mx_events m ! i)), mux_advance m))"
  by (simp add: mux_read_def Let_def split: option.splits)

interpretation mq: cursor_queue "mux_rep env flt" "unat (mu_max env)" "\<lambda>e. ev_type e \<in> allowed flt" "mux_fits env"
    "mux_step env" for env flt
proof (unfold_locales, goal_cases)
  case (1 m xs k)
  then show ?case using mux_index_le by (fastforce simp: mux_rep_def)
next
  case (2 m q p)
  obtain es where r: "mux_inv env m es" "mux_windowed env m es" "q = (mx_events m @ es, mux_index m)"
      "mx_write_filter m = flt"
    using 2(1) by (auto simp: mux_rep_def)
  have w: "drop (mux_index m) (take (unat (mu_max env)) (mx_events m @ es)) = drop (mux_index m) (mx_events m)"
    by (simp only: mux_windowed_take [OF r(2)])
  show ?case
  proof (cases p)
    case (Publish evs)
    obtain m' es' where "mux_publish env evs m = Some (Inr (), m')" "mux_inv env m' es'" "mux_windowed env m' es'"
        "mx_events m' @ es' = mx_events m @ es @ filter (mux_allows m) evs" "mux_index m' = mux_index m" "mux_same m m'"
      using mux_publish_inv [OF r(1,2), of evs] 2(2) Publish by auto
    with r Publish show ?thesis
      by (intro exI [of _ m']) (auto simp: mux_step_def intro!: mux_repI [where m = m])
  next
    case Poll
    show ?thesis
    proof (cases "mux_index m < length (mx_events m)")
      case True
      then have "drop (mux_index m) (mx_events m) = mx_events m ! mux_index m # drop (Suc (mux_index m)) (mx_events m)"
        by (simp add: Cons_nth_drop_Suc)
      with Poll True r w mux_pos_index [OF r(1)] mux_advance_inv [OF r(1) True] show ?thesis
        by (intro exI [of _ "mux_advance m"])
          (auto simp: mux_step_def mux_read_now mux_windowed_def intro!: mux_repI [where m = m])
    next
      case False
      with Poll r w mux_pos_index [OF r(1)] show ?thesis
        by (intro exI [of _ m]) (auto simp: mux_step_def mux_read_now mux_rep_def)
    qed
  next
    case (Fetch n)
    obtain m' where "mux_read_many n m =
          (take n (drop (mux_index m) (mx_events m)), mux_index m + n < length (mx_events m), m')"
        "mux_inv env m' es" "mx_events m' = mx_events m" "mux_same m m'"
        "mux_index m' = mux_index m + length (take n (drop (mux_index m) (mx_events m)))"
      using mux_read_many_inv [OF r(1), of n] by blast
    with r w Fetch show ?thesis
      by (intro exI [of _ m']) (auto simp: mux_step_def Let_def mux_windowed_def intro!: mux_repI [where m = m])
  next
    case (Ack n)
    obtain m' es' where "ack_events env n m = Some (Inr (), m')" "mux_inv env m' es'" "mux_windowed env m' es'"
      "mx_events m' @ es' = drop (min (nat n) (mux_index m)) (mx_events m @ es)"
      "mux_index m' = mux_index m - min (nat n) (mux_index m)" "mux_same m m'"
      using ack_events_inv [OF r(1), of n] r(2) by (auto simp: mux_windowed_def)
    with r Ack show ?thesis
      by (intro exI [of _ m']) (simp add: mux_step_def, auto intro!: mux_repI [where m = m])
  next
    case Nack
    have "mux_inv env (nack_events m) es" using r(1) by (auto simp: mux_inv_def nack_events_def)
    with Nack r show ?thesis
      by (intro exI [of _ "nack_events m"])
        (auto simp: mux_step_def mux_index_def nack_events_def mux_windowed_def mux_same_def intro!: mux_repI [where m = m])
  qed
qed

subsection \<open>Start\<close>

lemma load_queue_file_inv:
  assumes "mux_inv env m es" "length (mx_events m) < unat (mu_max env)"
  shows "\<exists>m' es'. load_queue_file env m = Some (Inr (), m') \<and> mux_inv env m' es' \<and> mux_windowed env m' es' \<and>
    mx_events m' @ es' = mx_events m @ es \<and> mx_pos m' = mx_pos m \<and> mux_same m m'"
  using assms
proof (induction es arbitrary: m)
  case Nil
  obtain st where g: "get_event_from_file env m = Some (Inr None, m\<lparr>mx_store := st\<rparr>)"
      "mux_inv env (m\<lparr>mx_store := st\<rparr>) []"
    using get_event_from_file_inv [OF Nil.prems(1)] by auto
  then show ?case using Nil.prems
    by (intro exI [of _ "m\<lparr>mx_store := st\<rparr>"] exI [of _ "[]"])
      (simp add: load_queue_file.simps [of env m] mux_windowed_def mux_same_def)
next
  case (Cons e es)
  obtain st where g: "get_event_from_file env m = Some (Inr (Some e), m\<lparr>mx_store := st\<rparr>)"
      "mux_inv env (m\<lparr>mx_store := st\<rparr>) es"
    using get_event_from_file_inv [OF Cons.prems(1)] by auto
  define m1 where "m1 = m\<lparr>mx_store := st, mx_events := mx_events m @ [e], mx_events_size := Suc (mx_events_size m)\<rparr>"
  have 1: "mux_inv env m1 es" using g(2) by (auto simp: mux_inv_def m1_def less_SucI)
  have v: "mx_events m1 = mx_events m @ [e]" "mx_pos m1 = mx_pos m" "mux_same m m1"
    by (simp_all add: m1_def mux_same_def)
  have u: "load_queue_file env m = (if mux_full env m1 then Some (Inr (), m1) else load_queue_file env m1)"
    using g(1) by (simp add: load_queue_file.simps [of env m] m1_def Let_def)
  show ?case
  proof (cases "mux_full env m1")
    case True
    then show ?thesis using u 1 v Cons.prems(2) mux_full_iff [OF 1]
      by (intro exI [of _ m1] exI [of _ es]) (simp add: mux_windowed_def)
  next
    case False
    then have "length (mx_events m1) < unat (mu_max env)" using mux_full_iff [OF 1] by simp
    from Cons.IH [OF 1 this] obtain m' es' where
      "load_queue_file env m1 = Some (Inr (), m')" "mux_inv env m' es'" "mux_windowed env m' es'"
      "mx_events m' @ es' = mx_events m1 @ es" "mx_pos m' = mx_pos m1" "mux_same m1 m'" by blast
    with u False v mux_same_trans [OF v(3)] show ?thesis by (intro exI [of _ m'] exI [of _ es']) simp
  qed
qed

subsection \<open>Properties\<close>

text \<open>
  C3. Every sequence of publications, reads, acknowledgements and negative acknowledgements gives the
  events that a plain list with a cursor gives, although the events beyond the limit go through
  the retention file: the write filter decides what enters, an event leaves when it is
  acknowledged, never before it is read, and what is read goes no further than the limit.
\<close>

theorem muxer_refines:
  assumes "mux_rep env flt m q" "list_all (mux_fits env) (published ps)"
  shows "\<exists>m'. run_ops (mux_step env) ps m =
      Some (Inr (fst (spec_run (unat (mu_max env)) (\<lambda>e. ev_type e \<in> allowed flt) ps q)), m') \<and>
    mux_rep env flt m' (snd (spec_run (unat (mu_max env)) (\<lambda>e. ev_type e \<in> allowed flt) ps q))"
  using assms by (rule mq.run_refines)

text \<open>
  Without negative acknowledgements a muxer gives every event it holds and every allowed event
  published to it once, in order: what was read, followed by what is still to be read, is what the
  muxer held, followed by what was published.
\<close>

theorem muxer_fifo:
  assumes "mux_rep env flt m (xs, k)" "list_all (mux_fits env) (published ps)" "Nack \<notin> set ps"
  shows "\<exists>m' es ys j. run_ops (mux_step env) ps m = Some (Inr es, m') \<and> mux_rep env flt m' (ys, j) \<and>
    es @ drop j ys = drop k (xs @ filter (\<lambda>e. ev_type e \<in> allowed flt) (published ps))"
  using assms by (rule mq.run_in_order)

text \<open>
  A new muxer without memory file takes back every event of its retention file, but the ones
  it loads into memory count as read, because \<open>_pos\<close> is set before they are loaded: only
  a negative acknowledgement makes them readable.
\<close>

theorem muxer_starts:
  assumes "pf_new (queue_file env name) (mu_now env) fs = (Inr f, fs')"
    and "pf_holds (mu_bbdo env) (mu_zlib env) (queue_file env name) f es"
    and "zlib_contract (mu_zlib env)" "0 < mu_max env"
  shows "\<exists>m. mux_new env name r_filter w_filter False fs = Some (Inr (), m) \<and>
    mux_rep env w_filter m (es, min (length es) (unat (mu_max env))) \<and> mux_rep env w_filter (nack_events m) (es, 0)"
proof -
  define m0 where "m0 = (mux_blank name r_filter w_filter False fs)\<lparr>mx_store := Inr f\<rparr>"
  have 0: "mux_inv env m0 es" "length (mx_events m0) < unat (mu_max env)" "mx_write_filter m0 = w_filter" "mx_pos m0 = None"
    "mx_events m0 = []"
    using assms by (simp_all add: m0_def mux_inv_def mux_file_def mux_blank_def word_less_nat_alt)
  obtain m es' where l: "load_queue_file env m0 = Some (Inr (), m)" "mux_inv env m es'" "mux_windowed env m es'"
      "mx_events m @ es' = es" "mx_pos m = None" "mux_same m0 m"
    using load_queue_file_inv [OF 0(1,2)] 0(4,5) by auto
  have "mux_new env name r_filter w_filter False fs = Some (Inr (), m)"
    using l(1) assms(1) by (simp add: mux_new_def mux_ensure_file_def nack_events_def mux_blank_def m0_def)
  moreover have "mux_index m = min (length es) (unat (mu_max env))"
    using l(3,5) by (auto simp: mux_index_def mux_windowed_def l(4) [symmetric] min_def)
  then have "mux_rep env w_filter m (es, min (length es) (unat (mu_max env)))"
    using l(2-4) l(6) 0(3) by (intro mux_repI [where m = m0])
  moreover from mq.step_law [OF this, of Nack] have "mux_rep env w_filter (nack_events m) (es, 0)"
    by (simp add: mux_step_def)
  ultimately show ?thesis by blast
qed

text \<open>The tasks of the reader, when one is marked as running.\<close>

lemma push_phase_tasks:
  "mx_tasks (snd (mux_push_phase env es p m)) = mx_tasks m \<and>
   mx_reader_running (snd (mux_push_phase env es p m)) = mx_reader_running m"
proof (induction es arbitrary: p m)
  case (Cons e es)
  have "mx_tasks (push_to_queue e m) = mx_tasks m" "mx_reader_running (push_to_queue e m) = mx_reader_running m"
    by (simp_all add: push_to_queue_def Let_def)
  with Cons show ?case by (simp split: option.splits)
qed simp

lemma ensure_file_tasks:
  "mux_ensure_file env m = (r, m1) \<Longrightarrow> mx_tasks m1 = mx_tasks m"
  by (auto simp: mux_ensure_file_def split: sum.splits prod.splits)

lemma write_phase_tasks:
  "mux_write_phase env es m = Some (r, m1) \<Longrightarrow> mx_tasks m1 = mx_tasks m"
proof (induction es arbitrary: m)
  case (Cons e es)
  obtain x m2 where e: "mux_ensure_file env m = (x, m2)" by fastforce
  have k: "mx_tasks m2 = mx_tasks m" using ensure_file_tasks [OF e] .
  have i: "mx_tasks m1 = mx_tasks m" if "mux_write_phase env es (m2\<lparr>mx_store := st\<rparr>) = Some (r, m1)" for st
    using Cons.IH [OF that] k by simp
  from Cons.prems k show ?case
    by (auto simp: e split: option.splits if_splits prod.splits sum.splits dest: Cons.IH i)
qed simp

lemma publish_tasks:
  "mx_reader_running m \<Longrightarrow> mux_publish env es m = Some (r, m1) \<Longrightarrow> mx_tasks m1 = mx_tasks m"
proof (induction "length es" arbitrary: es m rule: less_induct)
  case less
  obtain x m2 where p: "mux_push_phase env es False m = (x, m2)" by fastforce
  have k: "mx_tasks m2 = mx_tasks m" "mx_reader_running m2" "mux_after_push env q m2 = m2" for q
    using push_phase_tasks [of env es False m] less.prems(1)
    by (simp_all add: p mux_after_push_def execute_reader_if_needed_def)
  show ?case
  proof (cases x)
    case (Inl y)
    with less.prems p k show ?thesis by (auto simp: mux_publish.simps [of env es] split: if_splits)
  next
    case (Inr y)
    then obtain rest q where x: "x = Inr (rest, q)" by (cases y) auto
    consider "es = []" | "es \<noteq> []" "rest = []" | "es \<noteq> []" "rest \<noteq> []" q | "es \<noteq> []" "rest \<noteq> []" "\<not> q" by auto
    then show ?thesis
    proof cases
      case 3
      then have "length rest < length es" using push_phase_length [of env es False m rest q m2] p x by simp
      from less.hyps [OF this k(2)] less.prems(2) 3 p x k show ?thesis by (simp add: mux_publish.simps [of env es])
    next
      case 4
      with less.prems(2) p x k show ?thesis
        by (auto simp: mux_publish.simps [of env es] dest: write_phase_tasks)
    qed (use less.prems(2) p x k in \<open>auto simp: mux_publish.simps [of env es] mux_publish.simps [of env "[]"]\<close>)
  qed
qed

text \<open>
  A muxer whose posted task found no handler never posts another one: \<open>_reader_running\<close> stays
  set, so that the handler installed afterwards is not called, whatever is published.
\<close>

theorem muxer_reader_stuck:
  assumes "\<not> mx_has_handler m" "mx_reader_running m" "mx_tasks m = 1"
    and "mux_run_task env handler m = Some (r, m1)"
    and "mux_publish env es (set_action_on_new_data m1) = Some (r', m2)"
  shows "mx_tasks m2 = 0"
proof -
  have "m1 = m\<lparr>mx_tasks := 0\<rparr>" using assms(1,3,4) by (simp add: mux_run_task_def)
  with publish_tasks [OF _ assms(5)] assms(2) show ?thesis by (simp add: set_action_on_new_data_def)
qed

text \<open>A muxer with room for one event, and the retention file of another.\<close>

definition sample_mux_env :: "u32 \<Rightarrow> (u32 \<times> bytes) mux_env" where
  "sample_mux_env n = \<lparr>mu_bbdo = sample_env, mu_zlib = stored_zlib, mu_now = 0, mu_max = n, mu_cache_dir = []\<rparr>"

definition sample_muxer :: "(u32 \<times> bytes) muxer" where
  "sample_muxer = mux_blank ''a'' filter_default filter_default False empty_fs"

lemma sample_mux_max: "mu_max (sample_mux_env n) = n"
  by (simp add: sample_mux_env_def)

lemma sample_muxer_rep: "mux_rep (sample_mux_env n) filter_default sample_muxer ([], 0)"
  by (simp add: mux_rep_def mux_inv_def mux_windowed_def sample_muxer_def sample_mux_env_def mux_blank_def mux_index_def
      mux_file_def disk_empty_def stored_zlib_contract healthy_def dir_wf_def part_names_def empty_fs_def)

lemma sample_event_type: "ev_type (sample_event w s) \<in> allowed filter_default" "valid_type (ev_type (sample_event w s))"
proof -
  have "allows filter_default 0x10001 = Some True" by code_simp
  then show "ev_type (sample_event w s) \<in> allowed filter_default" by (simp add: allowed_def sample_event_def)
  then show "valid_type (ev_type (sample_event w s))" by (rule allowed_valid)
qed

lemma sample_event_fits: "mux_fits (sample_mux_env n) (sample_event 1 [65])" "mux_fits (sample_mux_env n) (sample_event 2 [66])"
proof -
  have "compressible stored_zlib (event_packets sample_env (sample_event 1 [65]))"
    "compressible stored_zlib (event_packets sample_env (sample_event 2 [66]))" by code_simp+
  then show "mux_fits (sample_mux_env n) (sample_event 1 [65])" "mux_fits (sample_mux_env n) (sample_event 2 [66])"
    by (simp_all add: mux_fits_def pf_fits_def sample_mux_env_def sample_event_type sample_event_queueable)
qed

theorem muxer_refines_witness:
  "\<exists>m'. run_ops (mux_step (sample_mux_env 1))
       [Publish [sample_event 1 [65], sample_event 2 [66]], Poll, Poll, Ack 1, Nack, Fetch 5] sample_muxer =
     Some (Inr [sample_event 1 [65], sample_event 2 [66]], m') \<and>
     mux_rep (sample_mux_env 1) filter_default m' ([sample_event 2 [66]], 1)"
  using muxer_refines [OF sample_muxer_rep [of 1],
      of "[Publish [sample_event 1 [65], sample_event 2 [66]], Poll, Poll, Ack 1, Nack, Fetch 5]"]
  by (simp add: sample_event_fits sample_event_type sample_mux_max Let_def del: run_ops.simps)

theorem muxer_fifo_witness:
  "\<exists>m' es ys j. run_ops (mux_step (sample_mux_env 1)) [Publish [sample_event 1 [65], sample_event 2 [66]], Poll] sample_muxer =
       Some (Inr es, m') \<and>
     es @ drop j ys = [sample_event 1 [65], sample_event 2 [66]]"
  using muxer_fifo [OF sample_muxer_rep [of 1], of "[Publish [sample_event 1 [65], sample_event 2 [66]], Poll]"]
  by (auto simp: sample_event_fits sample_event_type)

definition sample_queue_file :: sfs where
  "sample_queue_file = snd (splitter_write sample_chunk (snd (splitter_new ''.queue.a'' 0 True empty_fs)))"

lemma sample_queue_file_inv: "sp_inv sample_queue_file" "pending sample_queue_file = sample_chunk"
proof -
  have "healthy empty_fs" "dir_wf empty_fs" "part_names ''.queue.a'' empty_fs = []"
    by (simp_all add: healthy_def dir_wf_def part_names_def empty_fs_def)
  then have i: "sp_inv (snd (splitter_new ''.queue.a'' 0 True empty_fs))"
      "pending (snd (splitter_new ''.queue.a'' 0 True empty_fs)) = []"
    using splitter_new_empty by (metis snd_conv)+
  have "fst (splitter_write sample_chunk (snd (splitter_new ''.queue.a'' 0 True empty_fs))) = Inr (length sample_chunk)"
    by code_simp
  then have "splitter_write sample_chunk (snd (splitter_new ''.queue.a'' 0 True empty_fs)) =
      (Inr (length sample_chunk), sample_queue_file)"
    by (simp add: sample_queue_file_def prod_eq_iff)
  from spq.put_ok [OF i(1) this] i(2)
  show "sp_inv sample_queue_file" "pending sample_queue_file = sample_chunk" by simp_all
qed

lemma sample_queue_file_fields:
  "sp_base_path (fst sample_queue_file) = ''.queue.a''" "sp_wid (fst sample_queue_file) = 0"
  "sp_rid (fst sample_queue_file) = 0" "part_names ''.queue.a'' (snd sample_queue_file) = [''.queue.a'']"
  "reread sample_queue_file = []" "da_limit_size (snd sample_queue_file) = 0"
  "\<not> fs_flush_error (snd sample_queue_file)" "sp_wfile (fst sample_queue_file) = Some \<lparr>h_fd = 0, h_ino = 0\<rparr>"
  by code_simp+

lemma sample_queue_file_starts:
  "\<exists>f fs'. pf_new ''.queue.a'' 0 (snd sample_queue_file) = (Inr f, fs') \<and>
     pf_holds sample_env stored_zlib ''.queue.a'' f [sample_event 1 [65]]"
proof (rule pf_new_restart)
  have "own_parts sample_queue_file" by (auto simp: own_parts_def sample_queue_file_fields get_file_path_def)
  then show "pf_holds sample_env stored_zlib ''.queue.a''
      (set_negotiate False (set_coarse True (bs_new True False 0)), cs_new (- 1) 0, sample_queue_file)
      [sample_event 1 [65]]"
    by (simp add: pf_holds_def bs_holds_def cs_inv_def cs_waiting_def cs_new_def bs_new_def
        set_negotiate_def set_coarse_def sa_data_def stored_zlib_contract file_inv_def sample_queue_file_inv
        sample_queue_file_fields sample_chunk_decodes sample_event_queueable)
qed (simp_all add: sample_queue_file_fields sample_queue_file_inv sample_chunk_decodes sample_event_queueable)

theorem muxer_starts_witness:
  "\<exists>m. mux_new (sample_mux_env 1) ''a'' filter_default filter_default False (snd sample_queue_file) = Some (Inr (), m) \<and>
     mux_rep (sample_mux_env 1) filter_default m ([sample_event 1 [65]], 1) \<and>
     mux_rep (sample_mux_env 1) filter_default (nack_events m) ([sample_event 1 [65]], 0)"
proof -
  obtain f fs' where f: "pf_new ''.queue.a'' 0 (snd sample_queue_file) = (Inr f, fs')"
      "pf_holds sample_env stored_zlib ''.queue.a'' f [sample_event 1 [65]]"
    using sample_queue_file_starts by blast
  show ?thesis
    using muxer_starts [of "sample_mux_env 1" "''a''" "snd sample_queue_file" f fs' "[sample_event 1 [65]]"
        filter_default filter_default] f
    by (simp add: sample_mux_env_def queue_file_def stored_zlib_contract)
qed

theorem muxer_reader_stuck_witness:
  "\<exists>m2. mux_publish (sample_mux_env 1) [sample_event 1 [65]]
       (set_action_on_new_data (sample_muxer\<lparr>mx_reader_running := True, mx_tasks := 0\<rparr>)) = Some (Inr (), m2) \<and>
     mx_tasks m2 = 0"
proof -
  let ?m = "sample_muxer\<lparr>mx_reader_running := True, mx_tasks := 1\<rparr>"
  let ?n = "set_action_on_new_data (sample_muxer\<lparr>mx_reader_running := True, mx_tasks := 0\<rparr>)"
  have "mux_inv (sample_mux_env 1) ?n []" "mux_windowed (sample_mux_env 1) ?n []"
    using sample_muxer_rep [of 1] by (auto simp: mux_rep_def mux_inv_def mux_windowed_def set_action_on_new_data_def)
  then obtain m2 where p: "mux_publish (sample_mux_env 1) [sample_event 1 [65]] ?n = Some (Inr (), m2)"
    using mux_publish_inv [of "sample_mux_env 1" ?n "[]" "[sample_event 1 [65]]"] sample_event_fits by auto
  have "mux_run_task (sample_mux_env 1) (\<lambda>_. 0) ?m = Some (Inr (), sample_muxer\<lparr>mx_reader_running := True, mx_tasks := 0\<rparr>)"
    by (simp add: mux_run_task_def sample_muxer_def mux_blank_def)
  from muxer_reader_stuck [OF _ _ _ this p] p show ?thesis by (simp add: sample_muxer_def mux_blank_def)
qed

end
