(* ===== verification/Muxer_Threads.thy ===== *)
theory Muxer_Threads
  imports Muxer_Queue "HOL-Library.Multiset"
begin

section \<open>Threads around a muxer\<close>

text \<open>
  \<open>muxer::publish\<close> (\<^verbatim>\<open>broker/core/multiplexing/src/muxer.cc\<close>) releases \<open>_events_m\<close> between the loop that
  fills the memory and the loop that writes to the retention file, so that the thread that empties
  the muxer may run in between. The step relation below interleaves the sections under the lock. The
  engine sends one list of events at a time, hence one publisher.
\<close>

subsection \<open>Schedules\<close>

datatype 'o publisher = Idle | Pushing "'o event list" | Filing "'o event list"

text \<open>The labels carry what is published, read and acknowledged.\<close>

datatype 'o action = Submit "'o event list" | Locked | Reads "'o event list" | Acks "'o event list" | Nacks

inductive mux_sched :: "'o mux_env \<Rightarrow> 'o muxer \<times> 'o publisher \<Rightarrow> 'o action \<Rightarrow> 'o muxer \<times> 'o publisher \<Rightarrow> bool"
  for env :: "'o mux_env" where
  submit: "mux_sched env (m, Idle) (Submit es) (m, if es = [] then Idle else Pushing es)"
| pushing: "mux_push_phase env es False m = (Inr (rest, pushed), m1) \<Longrightarrow>
    mux_sched env (m, Pushing es) Locked
      (mux_after_push env pushed m1, if rest = [] then Idle else if pushed then Pushing rest else Filing rest)"
| filing: "mux_write_phase env es m = Some (Inr (), m1) \<Longrightarrow> mux_sched env (m, Filing es) Locked (m1, Idle)"
| polling: "mux_read deadline id m = ((ok, d), m1) \<Longrightarrow>
    mux_sched env (m, ph) (Reads (case d of None \<Rightarrow> [] | Some e \<Rightarrow> [e])) (m1, ph)"
| fetching: "mux_read_many n m = (es, still, m1) \<Longrightarrow> mux_sched env (m, ph) (Reads es) (m1, ph)"
| acking: "ack_events env n m = Some (Inr (), m1) \<Longrightarrow>
    mux_sched env (m, ph) (Acks (take (min (nat n) (mux_index m)) (mx_events m))) (m1, ph)"
| nacking: "mux_sched env (m, ph) Nacks (nack_events m, ph)"

inductive_cases mux_sched_cases: "mux_sched env c a c'"

inductive mux_trace :: "'o mux_env \<Rightarrow> 'o muxer \<times> 'o publisher \<Rightarrow> 'o action list \<Rightarrow> 'o muxer \<times> 'o publisher \<Rightarrow> bool"
  for env :: "'o mux_env" where
  start: "mux_trace env c [] c"
| extend: "mux_trace env c as c1 \<Longrightarrow> mux_sched env c1 a c2 \<Longrightarrow> mux_trace env c (as @ [a]) c2"

fun submitted :: "'o action list \<Rightarrow> 'o event list" where
  "submitted [] = []"
| "submitted (Submit es # as) = es @ submitted as"
| "submitted (_ # as) = submitted as"

fun delivered :: "'o action list \<Rightarrow> 'o event list" where
  "delivered [] = []"
| "delivered (Reads es # as) = es @ delivered as"
| "delivered (_ # as) = delivered as"

fun acknowledged :: "'o action list \<Rightarrow> 'o event list" where
  "acknowledged [] = []"
| "acknowledged (Acks es # as) = es @ acknowledged as"
| "acknowledged (_ # as) = acknowledged as"

fun in_transit :: "'o publisher \<Rightarrow> 'o event list" where
  "in_transit Idle = []"
| "in_transit (Pushing es) = es"
| "in_transit (Filing es) = es"

lemma labels_append [simp]:
  "submitted (as @ bs) = submitted as @ submitted bs"
  "delivered (as @ bs) = delivered as @ delivered bs"
  "acknowledged (as @ bs) = acknowledged as @ acknowledged bs"
proof (induction as)
  case (Cons a as)
  { case 1 show ?case using Cons by (cases a) simp_all }
  { case 2 show ?case using Cons by (cases a) simp_all }
  { case 3 show ?case using Cons by (cases a) simp_all }
qed simp_all

subsection \<open>What every schedule keeps\<close>

definition sched_inv :: "'o mux_env \<Rightarrow> 'o muxer \<times> 'o publisher \<Rightarrow> 'o event list \<Rightarrow> bool" where
  "sched_inv env c es \<longleftrightarrow>
     mux_inv env (fst c) es \<and> length (mx_events (fst c)) \<le> unat (mu_max env) \<and>
     list_all (mux_fits env) (in_transit (snd c))"

text \<open>The events a configuration still answers for: in memory, on disk, and with the publisher.\<close>

definition outstanding :: "'o muxer \<times> 'o publisher \<Rightarrow> 'o event list \<Rightarrow> 'o event multiset" where
  "outstanding c es = mset (mx_events (fst c)) + mset es + mset (filter (mux_allows (fst c)) (in_transit (snd c)))"

lemma read_now_inv:
  assumes "mux_inv env m es" "mux_read deadline id m = ((ok, d), m1)"
  shows "mux_inv env m1 es \<and> mx_events m1 = mx_events m \<and> mux_same m m1 \<and>
    (case d of None \<Rightarrow> mux_index m1 = mux_index m
     | Some e \<Rightarrow> mux_index m < length (mx_events m) \<and> e = mx_events m ! mux_index m \<and> mux_index m1 = Suc (mux_index m))"
proof (cases "mux_index m < length (mx_events m)")
  case True
  with assms mux_pos_index [OF assms(1)] mux_advance_inv [OF assms(1) True] show ?thesis by (auto simp: mux_read_def)
next
  case False
  with assms mux_pos_index [OF assms(1)] show ?thesis by (cases "deadline = 0") (auto simp: mux_read_def)
qed

definition sched_keeps :: "'o mux_env \<Rightarrow> 'o muxer \<times> 'o publisher \<Rightarrow> 'o event list \<Rightarrow> 'o action \<Rightarrow>
    'o muxer \<times> 'o publisher \<Rightarrow> 'o event list \<Rightarrow> bool" where
  "sched_keeps env c es a c' es' \<longleftrightarrow>
     sched_inv env c' es' \<and> mux_same (fst c) (fst c') \<and>
     outstanding c' es' + mset (acknowledged [a]) =
       outstanding c es + mset (filter (mux_allows (fst c)) (submitted [a])) \<and>
     acknowledged [a] @ take (mux_index (fst c')) (mx_events (fst c')) =
       (if a = Nacks then [] else take (mux_index (fst c)) (mx_events (fst c)) @ delivered [a])"

lemma sched_publishes:
  assumes "sched_inv env (m, Pushing es) fs" "mux_push_phase env es False m = (Inr (rest, pushed), m1)"
  shows "sched_keeps env (m, Pushing es) fs Locked
    (mux_after_push env pushed m1, if rest = [] then Idle else if pushed then Pushing rest else Filing rest) fs"
proof -
  have i: "mux_inv env m fs" "length (mx_events m) \<le> unat (mu_max env)" "list_all (mux_fits env) es"
    using assms(1) by (auto simp: sched_inv_def)
  obtain pre where p: "es = pre @ rest" "mux_inv env m1 fs" "mx_events m1 = mx_events m @ filter (mux_allows m) pre"
      "mux_index m1 = mux_index m" "mux_same m m1"
    by (rule push_phase_inv [OF i(1,3), where p = False]) (use assms(2) in auto)
  let ?m = "mux_after_push env pushed m1"
  have s: "mux_same m ?m" using mux_same_trans [OF p(5)] by simp
  then have w: "mx_write_filter ?m = mx_write_filter m" by (simp add: mux_same_def)
  have "list_all (mux_fits env) rest" using i(3) p(1) by simp
  then show ?thesis
    using p s w push_phase_windowed [OF assms(2) i(1,2)] mux_index_le [OF i(1)]
    by (auto simp: sched_keeps_def sched_inv_def outstanding_def)
qed

lemma sched_files:
  assumes "sched_inv env (m, Filing es) fs" "mux_write_phase env es m = Some (Inr (), m1)"
  shows "sched_keeps env (m, Filing es) fs Locked (m1, Idle) (fs @ filter (mux_allows m) es)"
proof -
  have i: "mux_inv env m fs" "length (mx_events m) \<le> unat (mu_max env)" "list_all (mux_fits env) es"
    using assms(1) by (auto simp: sched_inv_def)
  obtain st where "m1 = m\<lparr>mx_store := st\<rparr>" "mux_inv env m1 (fs @ filter (mux_allows m) es)"
    using write_phase_inv [OF i(1,3)] assms(2) by auto
  with i(2) show ?thesis by (simp add: sched_keeps_def sched_inv_def outstanding_def mux_same_def)
qed

lemma sched_reads:
  assumes "sched_inv env (m, ph) fs" "mux_inv env m1 fs" "mx_events m1 = mx_events m" "mux_same m m1"
    and "es = take (length es) (drop (mux_index m) (mx_events m))" "mux_index m1 = mux_index m + length es"
  shows "sched_keeps env (m, ph) fs (Reads es) (m1, ph) fs"
proof -
  have "take (mux_index m1) (mx_events m1) = take (mux_index m) (mx_events m) @ es"
    using assms(3,5,6) by (metis take_add)
  with assms show ?thesis by (simp add: sched_keeps_def sched_inv_def outstanding_def mux_same_def)
qed

lemma sched_acks:
  assumes "sched_inv env (m, ph) fs" "ack_events env n m = Some (Inr (), m1)"
  shows "\<exists>fs'. sched_keeps env (m, ph) fs (Acks (take (min (nat n) (mux_index m)) (mx_events m))) (m1, ph) fs'"
proof -
  have i: "mux_inv env m fs" "length (mx_events m) \<le> unat (mu_max env)"
    using assms(1) by (auto simp: sched_inv_def)
  define k where "k = min (nat n) (mux_index m)"
  have k: "k \<le> mux_index m" "mux_index m \<le> length (mx_events m)"
    using mux_index_le [OF i(1)] by (simp_all add: k_def)
  obtain fs' where a: "mux_inv env m1 fs'" "length (mx_events m1) \<le> unat (mu_max env)"
      "mx_events m1 @ fs' = drop k (mx_events m @ fs)" "mux_index m1 = mux_index m - k" "mux_same m m1"
    using ack_events_inv [OF i, of n] assms(2) by (auto simp: k_def)
  have "take k (mx_events m @ fs) @ mx_events m1 @ fs' = mx_events m @ fs"
    unfolding a(3) by (rule append_take_drop_id)
  then have 1: "take k (mx_events m) @ mx_events m1 @ fs' = mx_events m @ fs" using k by simp
  have "take (mux_index m1) (mx_events m1 @ fs') = drop k (take (mux_index m) (mx_events m @ fs))"
    unfolding a(3) a(4) by (simp only: drop_take)
  then have "take k (mx_events m) @ take (mux_index m1) (mx_events m1) = take (mux_index m) (mx_events m)"
    using k mux_index_le [OF a(1)] append_take_drop_id [of k "take (mux_index m) (mx_events m)"]
    by (simp add: min_def del: append_take_drop_id)
  moreover have "mset (mx_events m1) + mset fs' + mset (take k (mx_events m)) = mset (mx_events m) + mset fs"
    using arg_cong [OF 1, of mset] by (simp add: ac_simps)
  ultimately show ?thesis
    using a assms(1) unfolding k_def [symmetric]
    by (intro exI [of _ fs']) (simp add: sched_keeps_def sched_inv_def outstanding_def mux_same_def ac_simps)
qed

lemma sched_step_keeps:
  assumes "sched_inv env c es" "mux_sched env c a c'" "list_all (mux_fits env) (submitted [a])"
  shows "\<exists>es'. sched_keeps env c es a c' es'"
  using assms(2)
proof (cases rule: mux_sched.cases)
  case (submit m evs)
  with assms(1,3) have "sched_keeps env c es a c' es"
    by (auto simp: sched_keeps_def sched_inv_def outstanding_def)
  then show ?thesis ..
next
  case (pushing evs m rest pushed m1)
  then have "sched_keeps env c es a c' es" using sched_publishes [of env m evs es rest pushed m1] assms(1) by simp
  then show ?thesis ..
next
  case (filing evs m m1)
  then have "sched_keeps env c es a c' (es @ filter (mux_allows m) evs)"
    using sched_files [of env m evs es m1] assms(1) by simp
  then show ?thesis ..
next
  case (polling deadline m ok d m1 ph)
  have i: "mux_inv env m es" using assms(1) polling(1) by (simp add: sched_inv_def)
  have "sched_keeps env c es a c' es" unfolding polling(1-3)
    by (rule sched_reads)
      (use read_now_inv [OF i polling(4)] assms(1) polling(1) in
        \<open>auto split: option.splits simp: take_Suc_conv_app_nth Cons_nth_drop_Suc [symmetric]\<close>)
  then show ?thesis ..
next
  case (fetching n m evs still m1 ph)
  have i: "mux_inv env m es" using assms(1) fetching(1) by (simp add: sched_inv_def)
  have "sched_keeps env c es a c' es" unfolding fetching(1-3)
    by (rule sched_reads) (use mux_read_many_inv [OF i, of n] assms(1) fetching in auto)
  then show ?thesis ..
next
  case (acking n m m1 ph)
  then show ?thesis using sched_acks [of env m ph es n m1] assms(1) by simp
next
  case (nacking m ph)
  have "mux_inv env (nack_events m) es" "mux_index (nack_events m) = 0"
    using assms(1) nacking(1) by (auto simp: sched_inv_def mux_inv_def nack_events_def mux_index_def)
  with assms(1) nacking have "sched_keeps env c es a c' es"
    by (auto simp: sched_keeps_def sched_inv_def outstanding_def nack_events_def mux_same_def)
  then show ?thesis ..
qed

lemma trace_keeps:
  assumes "mux_trace env c as c'" "sched_inv env c es" "list_all (mux_fits env) (submitted as)"
  shows "\<exists>es'. sched_inv env c' es' \<and> mux_same (fst c) (fst c') \<and>
    outstanding c' es' + mset (acknowledged as) =
      outstanding c es + mset (filter (mux_allows (fst c)) (submitted as)) \<and>
    set (acknowledged as) \<union> set (take (mux_index (fst c')) (mx_events (fst c'))) \<subseteq>
      set (take (mux_index (fst c)) (mx_events (fst c))) \<union> set (delivered as)"
  using assms
proof (induction rule: mux_trace.induct)
  case (start c)
  then show ?case by auto
next
  case (extend c as c1 a c2)
  then obtain es1 where 1: "sched_inv env c1 es1" "mux_same (fst c) (fst c1)"
      "outstanding c1 es1 + mset (acknowledged as) =
        outstanding c es + mset (filter (mux_allows (fst c)) (submitted as))"
      "set (acknowledged as) \<union> set (take (mux_index (fst c1)) (mx_events (fst c1))) \<subseteq>
        set (take (mux_index (fst c)) (mx_events (fst c))) \<union> set (delivered as)"
    by auto
  obtain es2 where 2: "sched_inv env c2 es2" "mux_same (fst c1) (fst c2)"
      "outstanding c2 es2 + mset (acknowledged [a]) =
        outstanding c1 es1 + mset (filter (mux_allows (fst c1)) (submitted [a]))"
      "acknowledged [a] @ take (mux_index (fst c2)) (mx_events (fst c2)) =
        (if a = Nacks then [] else take (mux_index (fst c1)) (mx_events (fst c1)) @ delivered [a])"
    using sched_step_keeps [OF 1(1) extend.hyps(2)] extend.prems(2) by (auto simp: sched_keeps_def)
  have "set (acknowledged [a]) \<union> set (take (mux_index (fst c2)) (mx_events (fst c2))) \<subseteq>
      set (take (mux_index (fst c1)) (mx_events (fst c1))) \<union> set (delivered [a])"
    using arg_cong [OF 2(4), of set] by (auto split: if_splits)
  with 1(4) have r: "set (acknowledged (as @ [a])) \<union> set (take (mux_index (fst c2)) (mx_events (fst c2))) \<subseteq>
      set (take (mux_index (fst c)) (mx_events (fst c))) \<union> set (delivered (as @ [a]))"
    by (auto simp del: delivered.simps acknowledged.simps)
  have "outstanding c2 es2 + mset (acknowledged (as @ [a])) =
      outstanding c es + mset (filter (mux_allows (fst c)) (submitted (as @ [a])))"
    using 1(2,3) 2(3) by (simp add: mux_same_def ac_simps)
  with r 2(1) mux_same_trans [OF 1(2) 2(2)] show ?case by blast
qed

subsection \<open>Properties\<close>

text \<open>
  C6. Under every interleaving of a publisher with readers, acknowledgements and negative
  acknowledgements, no event is lost or duplicated: what is acknowledged, in memory, in the
  retention file and still with the publisher is what the muxer held and what was allowed of the
  publications, and an event is acknowledged only after it was delivered. The number of events in
  memory never exceeds the limit.
\<close>

theorem muxer_conserves:
  assumes "mux_rep env flt m (xs, 0)" "mux_trace env (m, Idle) as (m', ph)" "list_all (mux_fits env) (submitted as)"
  shows "\<exists>es. mux_inv env m' es \<and> length (mx_events m') \<le> unat (mu_max env) \<and>
    mset (mx_events m') + mset es + mset (filter (\<lambda>e. ev_type e \<in> allowed flt) (in_transit ph)) + mset (acknowledged as) =
      mset xs + mset (filter (\<lambda>e. ev_type e \<in> allowed flt) (submitted as)) \<and>
    set (acknowledged as) \<subseteq> set (delivered as)"
proof -
  obtain es where r: "mux_inv env m es" "mux_windowed env m es" "xs = mx_events m @ es" "mux_index m = 0"
      "mx_write_filter m = flt"
    using assms(1) by (auto simp: mux_rep_def)
  then have "sched_inv env (m, Idle) es" by (simp add: sched_inv_def mux_windowed_def)
  from trace_keeps [OF assms(2) this assms(3)] r show ?thesis
    by (auto simp: sched_inv_def outstanding_def mux_same_def)
qed

text \<open>Single steps on a muxer with room for one event.\<close>

lemma trace_step: "mux_trace env c as c1 \<Longrightarrow> mux_sched env c1 a c2 \<Longrightarrow> bs = as @ [a] \<Longrightarrow> mux_trace env c bs c2"
  by (simp add: mux_trace.extend)

lemma push_one:
  assumes "mux_inv env m es" "mux_fits env e" "mux_allows m e"
  shows "mux_full env m \<Longrightarrow> mux_push_phase env [e] False m = (Inr ([e], False), m)"
    "\<not> mux_full env m \<Longrightarrow> mux_push_phase env [e] False m = (Inr ([], True), push_to_queue e m)"
  using assms by (simp_all add: mux_fits_def allows_valid)

lemma sched_push_one:
  assumes "mux_inv env m es" "mux_fits env e" "mux_allows m e" "length (mx_events m) < unat (mu_max env)"
  shows "\<exists>m'. mux_sched env (m, Pushing [e]) Locked (m', Idle) \<and> mux_inv env m' es \<and>
    mx_events m' = mx_events m @ [e] \<and> mux_index m' = mux_index m \<and> mux_same m m'"
proof -
  have "\<not> mux_full env m" using assms(4) mux_full_iff [OF assms(1)] by simp
  from push_one(2) [OF assms(1-3) this]
  have "mux_sched env (m, Pushing [e]) Locked (mux_after_push env True (push_to_queue e m), Idle)"
    using mux_sched.pushing [of env "[e]" m "[]" True] by simp
  moreover have "mux_same m (mux_after_push env True (push_to_queue e m))"
    by (rule mux_same_trans [OF push_to_queue_view(4) mux_after_push_view(3)])
  ultimately show ?thesis
    using push_to_queue_inv [OF assms(1)]
    by (intro exI [of _ "mux_after_push env True (push_to_queue e m)"]) (simp add: push_to_queue_view)
qed

lemma sched_fetch:
  assumes "mux_inv env m es"
  shows "\<exists>m'. mux_sched env (m, ph) (Reads (drop (mux_index m) (mx_events m))) (m', ph) \<and> mux_inv env m' es \<and>
    mx_events m' = mx_events m \<and> mux_index m' = length (mx_events m) \<and> mux_same m m'"
proof -
  obtain m' where "mux_read_many (length (mx_events m)) m =
        (drop (mux_index m) (mx_events m), mux_index m + length (mx_events m) < length (mx_events m), m')"
      "mux_inv env m' es" "mx_events m' = mx_events m" "mux_same m m'" "mux_index m' = length (mx_events m)"
    using mux_read_many_inv [OF assms, of "length (mx_events m)"] mux_index_le [OF assms] by auto
  then show ?thesis using mux_sched.fetching [of "length (mx_events m)" m] by blast
qed

lemma sched_ack_all:
  assumes "mux_inv env m es" "length (mx_events m) \<le> unat (mu_max env)" "mux_index m = length (mx_events m)"
    "mx_events m \<noteq> []"
  shows "\<exists>m' es'. mux_sched env (m, ph) (Acks (mx_events m)) (m', ph) \<and> mux_inv env m' es' \<and>
    mux_windowed env m' es' \<and> mx_events m' @ es' = es \<and> mux_index m' = 0 \<and> mux_same m m'"
proof -
  obtain m' es' where a: "ack_events env (int (length (mx_events m))) m = Some (Inr (), m')" "mux_inv env m' es'"
      "mux_windowed env m' es'" "mx_events m' @ es' = es" "mux_index m' = 0" "mux_same m m'"
    using ack_events_inv [OF assms(1,2), of "int (length (mx_events m))"] assms(3,4) by auto
  from mux_sched.acking [OF a(1), of ph] assms(3) have "mux_sched env (m, ph) (Acks (mx_events m)) (m', ph)" by simp
  with a show ?thesis by blast
qed

text \<open>
  C39. The order is not kept by every interleaving. With room for one event, a reader that acknowledges
  between the two loops of a publication lets the next publication into memory before the
  event that went to the file.
\<close>

theorem muxer_publish_race:
  assumes "mux_rep env flt m ([], 0)" "mu_max env = 1"
    and "list_all (mux_fits env) [e1, e2, e3]" "list_all (\<lambda>e. ev_type e \<in> allowed flt) [e1, e2, e3]"
  shows "\<exists>m'. mux_trace env (m, Idle)
    [Submit [e1], Locked, Reads [e1], Submit [e2], Locked, Acks [e1], Locked, Submit [e3], Locked, Reads [e3],
     Acks [e3], Reads [e2]] (m', Idle)"
proof -
  have r: "mux_inv env m []" "mx_events m = []" "mux_index m = 0" "mx_write_filter m = flt" and x: "unat (mu_max env) = 1"
    using assms(1,2) by (auto simp: mux_rep_def)
  have f: "mux_fits env e1" "mux_fits env e2" "mux_fits env e3" using assms(3) by simp_all
  have al: "mux_allows n e1" "mux_allows n e2" "mux_allows n e3" if "mux_same m n" for n
    using assms(4) that r(4) by (simp_all add: mux_same_def)
  obtain m1 where 1: "mux_sched env (m, Pushing [e1]) Locked (m1, Idle)" "mux_inv env m1 []" "mx_events m1 = [e1]"
      "mux_index m1 = 0" "mux_same m m1"
    using sched_push_one [OF r(1) f(1) al(1)] r x by auto
  obtain m2 where 2: "mux_sched env (m1, Idle) (Reads [e1]) (m2, Idle)" "mux_inv env m2 []" "mx_events m2 = [e1]"
      "mux_index m2 = 1" "mux_same m m2"
    using sched_fetch [OF 1(2), of Idle] 1 mux_same_trans [OF 1(5)] by auto
  have "mux_full env m2" using mux_full_iff [OF 2(2)] 2(3) x by simp
  then obtain m3 where 3: "mux_sched env (m2, Pushing [e2]) Locked (m3, Filing [e2])" "mux_inv env m3 []"
      "mx_events m3 = [e1]" "mux_index m3 = 1" "mux_same m m3"
    using mux_sched.pushing [OF push_one(1) [OF 2(2) f(2) al(2) [OF 2(5)]]] 2 mux_same_trans [OF 2(5)] by fastforce
  obtain m4 where 4: "mux_sched env (m3, Filing [e2]) (Acks [e1]) (m4, Filing [e2])" "mux_inv env m4 []"
      "mx_events m4 = []" "mux_index m4 = 0" "mux_same m m4"
    using sched_ack_all [OF 3(2), of "Filing [e2]"] 3 x mux_same_trans [OF 3(5)] by auto
  obtain m5 where 5: "mux_sched env (m4, Filing [e2]) Locked (m5, Idle)" "mux_inv env m5 [e2]" "mx_events m5 = []"
      "mux_index m5 = 0" "mux_same m m5"
  proof -
    obtain st where w: "mux_write_phase env [e2] m4 = Some (Inr (), m4\<lparr>mx_store := st\<rparr>)"
        "mux_inv env (m4\<lparr>mx_store := st\<rparr>) [e2]"
      using write_phase_inv [OF 4(2), of "[e2]"] f(2) al(2) [OF 4(5)] by auto
    show thesis by (rule that [OF mux_sched.filing [OF w(1)] w(2)]) (use 4 in \<open>simp_all add: mux_same_def\<close>)
  qed
  obtain m6 where 6: "mux_sched env (m5, Pushing [e3]) Locked (m6, Idle)" "mux_inv env m6 [e2]" "mx_events m6 = [e3]"
      "mux_index m6 = 0" "mux_same m m6"
    using sched_push_one [OF 5(2) f(3) al(3) [OF 5(5)]] 5 x mux_same_trans [OF 5(5)] by auto
  obtain m7 where 7: "mux_sched env (m6, Idle) (Reads [e3]) (m7, Idle)" "mux_inv env m7 [e2]" "mx_events m7 = [e3]"
      "mux_index m7 = 1"
    using sched_fetch [OF 6(2), of Idle] 6 by auto
  obtain m8 es where 8: "mux_sched env (m7, Idle) (Acks [e3]) (m8, Idle)" "mux_inv env m8 es" "mux_windowed env m8 es"
      "mx_events m8 @ es = [e2]" "mux_index m8 = 0"
    using sched_ack_all [OF 7(2), of Idle] 7 x by auto
  then have e: "mx_events m8 = [e2]" using mux_windowed_take [OF 8(3)] x by simp
  obtain m9 where 9: "mux_sched env (m8, Idle) (Reads [e2]) (m9, Idle)" using sched_fetch [OF 8(2), of Idle] 8 e by auto
  have s: "mux_sched env (n, Idle) (Submit [e]) (n, Pushing [e])" for n e
    using mux_sched.submit [of env n "[e]"] by simp
  show ?thesis
    by (rule exI [of _ m9], rule trace_step [OF trace_step [OF trace_step [OF trace_step [OF trace_step [OF trace_step
      [OF trace_step [OF trace_step [OF trace_step [OF trace_step [OF trace_step [OF trace_step [OF mux_trace.start
      s [of m e1] refl] 1(1) refl] 2(1) refl] s [of m2 e2] refl] 3(1) refl] 4(1) refl] 5(1) refl] s [of m5 e3] refl]
      6(1) refl] 7(1) refl] 8(1) refl] 9]) simp
qed

lemma sample_muxer_trace:
  "\<exists>m'. mux_trace (sample_mux_env 1) (sample_muxer, Idle)
     [Submit [sample_event 1 [65]], Locked, Reads [sample_event 1 [65]]] (m', Idle)"
proof -
  have i: "mux_inv (sample_mux_env 1) sample_muxer []" "mx_events sample_muxer = []" "mux_index sample_muxer = 0"
      "mx_write_filter sample_muxer = filter_default"
    using sample_muxer_rep [of 1] by (auto simp: mux_rep_def)
  obtain m1 where 1: "mux_sched (sample_mux_env 1) (sample_muxer, Pushing [sample_event 1 [65]]) Locked (m1, Idle)"
      "mux_inv (sample_mux_env 1) m1 []" "mx_events m1 = [sample_event 1 [65]]" "mux_index m1 = 0"
    using sched_push_one [OF i(1) sample_event_fits(1)] i by (auto simp: sample_event_type sample_mux_max)
  obtain m2 where 2: "mux_sched (sample_mux_env 1) (m1, Idle) (Reads [sample_event 1 [65]]) (m2, Idle)"
    using sched_fetch [OF 1(2), of Idle] 1 by auto
  have s: "mux_sched (sample_mux_env 1) (sample_muxer, Idle) (Submit [sample_event 1 [65]])
      (sample_muxer, Pushing [sample_event 1 [65]])"
    using mux_sched.submit [of "sample_mux_env 1" sample_muxer "[sample_event 1 [65]]"] by simp
  show ?thesis
    by (rule exI [of _ m2], rule trace_step [OF trace_step [OF trace_step [OF mux_trace.start s refl] 1(1) refl] 2]) simp
qed

theorem muxer_conserves_witness:
  "\<exists>m' es. mux_trace (sample_mux_env 1) (sample_muxer, Idle)
       [Submit [sample_event 1 [65]], Locked, Reads [sample_event 1 [65]]] (m', Idle) \<and>
     mset (mx_events m') + mset es = {#sample_event 1 [65]#}"
proof -
  obtain m' where t: "mux_trace (sample_mux_env 1) (sample_muxer, Idle)
      [Submit [sample_event 1 [65]], Locked, Reads [sample_event 1 [65]]] (m', Idle)"
    using sample_muxer_trace by blast
  show ?thesis using muxer_conserves [OF sample_muxer_rep t] t by (auto simp: sample_event_fits sample_event_type)
qed

theorem muxer_publish_race_witness:
  "\<exists>m'. mux_trace (sample_mux_env 1) (sample_muxer, Idle)
     [Submit [sample_event 1 [65]], Locked, Reads [sample_event 1 [65]], Submit [sample_event 2 [66]], Locked,
      Acks [sample_event 1 [65]], Locked, Submit [sample_event 1 [65]], Locked, Reads [sample_event 1 [65]],
      Acks [sample_event 1 [65]], Reads [sample_event 2 [66]]] (m', Idle)"
  using muxer_publish_race [OF sample_muxer_rep [of 1], of "sample_event 1 [65]" "sample_event 2 [66]" "sample_event 1 [65]"]
  by (simp add: sample_mux_max sample_event_fits sample_event_type)

end
