(* ===== verification/Persistent_Cache.thy ===== *)
theory Persistent_Cache
  imports Bbdo_Stream
begin

section \<open>Persistent caches\<close>

text \<open>
  Models \<^verbatim>\<open>broker/core/src/persistent_cache.cc\<close>: a file of events that is replaced as a whole. The
  multiplexing engine keeps there what is published while it is stopped. Both streams of a cache
  work on the directory that follows it in the state.
\<close>

subsection \<open>Model\<close>

record 'o pcache =
  pc_cache_file :: string
  pc_read_file :: "('o bstream \<times> splitter) option"
  pc_write_file :: "('o bstream \<times> splitter) option"

definition new_file :: "string \<Rightarrow> string" where
  "new_file path = path @ ''.new''"

definition old_file :: "string \<Rightarrow> string" where
  "old_file path = path @ ''.old''"

text \<open>\<open>rename\<close> and \<open>unlink\<close> of the C library, on files of one directory.\<close>

definition fs_rename :: "string \<Rightarrow> string \<Rightarrow> fs \<Rightarrow> bool \<times> fs" where
  "fs_rename a b fs =
     (case map_of (fs_dir fs) a of
        None \<Rightarrow> (False, fs\<lparr>fs_errno := ENOENT\<rparr>)
      | Some i \<Rightarrow>
          (True, fs\<lparr>fs_dir := (b, i) # filter (\<lambda>(n, _). n \<noteq> a \<and> n \<noteq> b) (fs_dir fs)\<rparr>))"

definition fs_unlink :: "string \<Rightarrow> fs \<Rightarrow> fs" where
  "fs_unlink a fs = fs\<lparr>fs_dir := filter (\<lambda>(n, _). n \<noteq> a) (fs_dir fs)\<rparr>"

definition fs_exists :: "string \<Rightarrow> fs \<Rightarrow> bool" where
  "fs_exists a fs \<longleftrightarrow> map_of (fs_dir fs) a \<noteq> None"

text \<open>\<open>file::opener::open\<close> without automatic deletion and without a limit, below a BBDO stream.\<close>

definition pc_stream :: "string \<Rightarrow> int \<Rightarrow> fs \<Rightarrow> (fs, 'o bstream \<times> splitter) outcome" where
  "pc_stream path now fs =
     (case splitter_new path 0 False fs of
        (Inl x, s) \<Rightarrow> (Inl x, snd s)
      | (Inr _, s) \<Rightarrow> (Inr (set_coarse True (bs_new True False now), fst s), snd s))"

definition pc_recover :: "string \<Rightarrow> fs \<Rightarrow> fs" where
  "pc_recover path fs =
     (if \<not> fs_exists path fs \<and> fs_exists (old_file path) fs then snd (fs_rename (old_file path) path fs) else fs)"

definition pc_open :: "int \<Rightarrow> 'o pcache \<times> fs \<Rightarrow> ('o pcache \<times> fs, unit) outcome" where
  "pc_open now c =
     (case pc_stream (pc_cache_file (fst c)) now (pc_recover (pc_cache_file (fst c)) (snd c)) of
        (Inl x, fs1) \<Rightarrow> (Inl x, (fst c, fs1))
      | (Inr f, fs1) \<Rightarrow> (Inr (), ((fst c)\<lparr>pc_read_file := Some f\<rparr>, fs1)))"

definition pc_new :: "string \<Rightarrow> int \<Rightarrow> fs \<Rightarrow> ('o pcache \<times> fs, unit) outcome" where
  "pc_new path now fs = pc_open now (\<lparr>pc_cache_file = path, pc_read_file = None, pc_write_file = None\<rparr>, fs)"

definition pc_transaction :: "int \<Rightarrow> 'o pcache \<times> fs \<Rightarrow> ('o pcache \<times> fs, unit) outcome" where
  "pc_transaction now c =
     (if pc_write_file (fst c) \<noteq> None then (Inl Msg_fmt, c)
      else
        (case pc_stream (new_file (pc_cache_file (fst c))) now (snd c) of
           (Inl x, fs1) \<Rightarrow> (Inl x, (fst c, fs1))
         | (Inr f, fs1) \<Rightarrow> (Inr (), ((fst c)\<lparr>pc_write_file := Some f\<rparr>, fs1))))"

definition pc_add :: "'o bbdo_env \<Rightarrow> 'o event \<Rightarrow> 'o pcache \<times> fs \<Rightarrow> ('o pcache \<times> fs, unit) outcome option" where
  "pc_add env d c =
     (case pc_write_file (fst c) of
        None \<Rightarrow> Some (Inl Msg_fmt, c)
      | Some (b, sp) \<Rightarrow>
          (case bs_write env file_write d (b, (sp, snd c)) of
             None \<Rightarrow> None
           | Some (r, (b1, (sp1, fs1))) \<Rightarrow>
               Some (map_sum id (\<lambda>_. ()) r, ((fst c)\<lparr>pc_write_file := Some (b1, sp1)\<rparr>, fs1))))"

definition pc_get :: "'o bbdo_env \<Rightarrow> int \<Rightarrow> 'o pcache \<times> fs \<Rightarrow> ('o pcache \<times> fs, 'o event option) outcome option" where
  "pc_get env now c =
     (case (if pc_read_file (fst c) = None then pc_open now c else (Inr (), c)) of
        (Inl x, c1) \<Rightarrow> Some (Inl x, c1)
      | (Inr _, c1) \<Rightarrow>
          (case pc_read_file (fst c1) of
             None \<Rightarrow> Some (Inl Undefined, c1)
           | Some (b, sp) \<Rightarrow>
               (case bs_read env file_read file_write now (b, (sp, snd c1)) of
                  None \<Rightarrow> None
                | Some (r, (b1, (sp1, fs1))) \<Rightarrow>
                    (let c2 = ((fst c1)\<lparr>pc_read_file := Some (b1, sp1)\<rparr>, fs1) in
                     case r of
                       Inl x \<Rightarrow> Some (if x = Shutdown then Inr None else Inl x, c2)
                     | Inr (_, d) \<Rightarrow> Some (Inr d, c2)))))"

text \<open>
  \<open>commit\<close>: the states the directory goes through, one system call after the other. The process may
  stop after each of them.
\<close>

definition pc_commit_steps :: "string \<Rightarrow> fs \<Rightarrow> fs list" where
  "pc_commit_steps path fs =
     (let (ok1, fs1) = fs_rename path (old_file path) fs in
      if \<not> ok1 then [fs, fs1]
      else
        (let (ok2, fs2) = fs_rename (new_file path) path fs1 in
         if \<not> ok2 then [fs, fs1, fs2] else [fs, fs1, fs2, fs_unlink (old_file path) fs2]))"

definition pc_commit :: "'o pcache \<times> fs \<Rightarrow> ('o pcache \<times> fs, unit) outcome" where
  "pc_commit c =
     (if pc_write_file (fst c) = None then (Inr (), c)
      else
        (let c1 = (fst c)\<lparr>pc_write_file := None, pc_read_file := None\<rparr>;
             path = pc_cache_file (fst c);
             (ok1, fs1) = fs_rename path (old_file path) (snd c) in
         if \<not> ok1 then (Inl Msg_fmt, (c1, fs1))
         else
           (let (ok2, fs2) = fs_rename (new_file path) path fs1 in
            if \<not> ok2 then (Inl Msg_fmt, (c1, fs2)) else (Inr (), (c1, fs_unlink (old_file path) fs2)))))"

definition file_at :: "string \<Rightarrow> fs \<Rightarrow> bytes option" where
  "file_at p fs = map_option (fs_data fs) (map_of (fs_dir fs) p)"

lemma file_names_distinct [simp]: "new_file p \<noteq> p" "old_file p \<noteq> p" "p \<noteq> new_file p" "p \<noteq> old_file p" "new_file p \<noteq> old_file p"
  by (simp_all add: new_file_def old_file_def)

lemma map_of_filter_names: "map_of (filter (\<lambda>(n, _). P n) d) x = (if P x then map_of d x else None)"
  by (induction d) auto

lemma file_at_rename:
  "fst (fs_rename a b fs) \<longleftrightarrow> file_at a fs \<noteq> None"
  "file_at a fs \<noteq> None \<Longrightarrow> a \<noteq> b \<Longrightarrow>
   file_at p (snd (fs_rename a b fs)) = (if p = b then file_at a fs else if p = a then None else file_at p fs)"
  "file_at a fs = None \<Longrightarrow> file_at p (snd (fs_rename a b fs)) = file_at p fs"
  by (auto simp: fs_rename_def file_at_def map_of_filter_names split: option.splits)

lemma file_at_unlink: "file_at p (fs_unlink a fs) = (if p = a then None else file_at p fs)"
  by (simp add: fs_unlink_def file_at_def map_of_filter_names)

lemma file_at_recover:
  "file_at path (pc_recover path fs) =
     (if file_at path fs = None then file_at (old_file path) fs else file_at path fs)"
proof -
  have "fs_exists p fs \<longleftrightarrow> file_at p fs \<noteq> None" for p by (simp add: fs_exists_def file_at_def)
  then show ?thesis
    using file_at_rename(2) [of "old_file path" fs path path] by (auto simp: pc_recover_def)
qed

subsection \<open>Properties\<close>

text \<open>
  C25. The commit of the cache is atomic: if the process stops after any of its system calls, the
  file that the next \<open>_open\<close> finds is the previous cache or the whole new one, and after the
  last call it is the new one.
\<close>

theorem cache_commit_atomic:
  assumes "file_at path fs = Some old" "file_at (new_file path) fs = Some new"
  shows "(\<forall>s \<in> set (pc_commit_steps path fs). file_at path (pc_recover path s) \<in> {Some old, Some new}) \<and>
    file_at path (pc_recover path (last (pc_commit_steps path fs))) = Some new \<and>
    file_at (new_file path) (last (pc_commit_steps path fs)) = None \<and>
    (pc_write_file c \<noteq> None \<longrightarrow> pc_cache_file c = path \<longrightarrow>
       pc_commit (c, fs) =
         (Inr (), (c\<lparr>pc_write_file := None, pc_read_file := None\<rparr>, last (pc_commit_steps path fs))))"
proof -
  obtain fs1 where 1: "fs_rename path (old_file path) fs = (True, fs1)"
    using file_at_rename(1) [of path "old_file path" fs] assms(1) by (cases "fs_rename path (old_file path) fs") auto
  have f1: "file_at p fs1 = (if p = old_file path then Some old else if p = path then None else file_at p fs)" for p
    using file_at_rename(2) [of path fs "old_file path" p] 1 assms(1) file_names_distinct(2) [of path] by auto
  obtain fs2 where 2: "fs_rename (new_file path) path fs1 = (True, fs2)"
    using file_at_rename(1) [of "new_file path" path fs1] assms(2) f1
    by (cases "fs_rename (new_file path) path fs1") auto
  have f2: "file_at p fs2 = (if p = path then Some new else if p = new_file path then None else file_at p fs1)" for p
    using file_at_rename(2) [of "new_file path" fs1 path p] 2 assms(2) f1 by auto
  have s: "pc_commit_steps path fs = [fs, fs1, fs2, fs_unlink (old_file path) fs2]"
    using 1 2 by (simp add: pc_commit_steps_def)
  have "pc_commit (c, fs) = (Inr (), (c\<lparr>pc_write_file := None, pc_read_file := None\<rparr>, fs_unlink (old_file path) fs2))"
    if "pc_write_file c \<noteq> None" "pc_cache_file c = path"
    using that 1 2 by (auto simp: pc_commit_def)
  with assms show ?thesis unfolding s by (simp add: file_at_recover file_at_unlink f1 f2)
qed

text \<open>A cache with one byte, about to be replaced.\<close>

definition sample_cache_disk :: fs where
  "sample_cache_disk = empty_fs\<lparr>fs_dir := [(''c'', 0), (''c.new'', 1)], fs_data := (\<lambda>i. if i = 0 then [1] else [2, 3])\<rparr>"

theorem cache_commit_atomic_witness:
  "list_all (\<lambda>s. file_at ''c'' (pc_recover ''c'' s) \<in> {Some [1], Some [2, 3]}) (pc_commit_steps ''c'' sample_cache_disk) \<and>
   file_at ''c'' (pc_recover ''c'' (last (pc_commit_steps ''c'' sample_cache_disk))) = Some [2, 3]"
proof -
  have a: "file_at ''c'' sample_cache_disk = Some [1]" "file_at (new_file ''c'') sample_cache_disk = Some [2, 3]"
    by (simp_all add: sample_cache_disk_def file_at_def new_file_def)
  from cache_commit_atomic [OF a, where c = "undefined :: nat pcache"] show ?thesis
    unfolding list_all_iff by blast
qed

end
