(* ===== verification/Mux_Engine.thy ===== *)
theory Mux_Engine
  imports Muxer_Queue Persistent_Cache
begin

section \<open>The multiplexing engine\<close>

text \<open>
  Models the class \<open>engine\<close> (\<^verbatim>\<open>broker/core/multiplexing/src/engine.cc\<close>), the class \<open>publisher\<close>
  (\<^verbatim>\<open>publisher.cc\<close>) and the registry of running muxers in \<open>muxer::create\<close> (\<^verbatim>\<open>muxer.cc\<close>).

  The engine knows its muxers through weak pointers: \<open>en_muxers\<close> lists their numbers, \<open>en_alive\<close> gives
  the object of a number, none once the pointer has expired. \<open>en_jobs\<close> are the calls of \<open>muxer::publish\<close>
  that \<open>_send_to_subscribers\<close> has posted or runs itself; \<open>_sending_to_subscribers\<close> is reset when the last
  one ends. A function that waits for that end is split there. Every muxer works on its own copy
  of the directory \<open>en_disk\<close>. Statistics are left out.
\<close>

subsection \<open>State\<close>

datatype en_mode = Not_started | Running | Stopped

record 'o engine =
  en_state :: en_mode
  en_kiew :: "'o event list"
  en_unprocessed_events :: u32
  en_muxers :: "nat list"
  en_alive :: "nat \<Rightarrow> 'o muxer option"
  en_running_muxers :: "(string \<times> nat) list"
  en_next :: nat
  en_sending :: bool
  en_jobs :: "(nat \<times> 'o event list) list"
  en_cache_file :: "'o pcache option"
  en_disk :: fs

definition engine_new :: "fs \<Rightarrow> 'o engine" where
  "engine_new fs =
     \<lparr>en_state = Not_started, en_kiew = [], en_unprocessed_events = 0, en_muxers = [], en_alive = (\<lambda>_. None),
      en_running_muxers = [], en_next = 0, en_sending = False, en_jobs = [], en_cache_file = None, en_disk = fs\<rparr>"

definition cache_file_path :: "'o mux_env \<Rightarrow> string" where
  "cache_file_path env = mu_cache_dir env @ ''.unprocessed''"

subsection \<open>Sending\<close>

text \<open>
  The result tells whether events are being sent. The completion object is destroyed at once when
  no muxer is left behind the weak pointers.
\<close>

definition send_to_subscribers :: "'o engine \<Rightarrow> bool \<times> 'o engine" where
  "send_to_subscribers e =
     (if en_sending e then (False, e)
      else if en_muxers e = [] \<or> en_kiew e = [] then (False, e)
      else
        (case filter (\<lambda>i. en_alive e i \<noteq> None) (en_muxers e) of
           [] \<Rightarrow> (False, e\<lparr>en_kiew := []\<rparr>)
         | live \<Rightarrow>
             (True, e\<lparr>en_kiew := [], en_sending := True, en_jobs := map (\<lambda>i. (i, en_kiew e)) live\<rparr>)))"

text \<open>The end of one call of \<open>muxer::publish\<close>, and of the completion object with the last one.\<close>

definition run_job :: "'o mux_env \<Rightarrow> nat \<Rightarrow> 'o engine \<Rightarrow> ('o engine, unit) outcome option" where
  "run_job env n e =
     (case (if n < length (en_jobs e) then Some (en_jobs e ! n) else None) of
        None \<Rightarrow> Some (Inr (), e)
      | Some (i, es) \<Rightarrow>
          (case en_alive e i of
             None \<Rightarrow> Some (Inl Undefined, e)
           | Some m \<Rightarrow>
               (case mux_publish env es m of
                  None \<Rightarrow> None
                | Some (r, m1) \<Rightarrow>
                    (let left = take n (en_jobs e) @ drop (Suc n) (en_jobs e) in
                     Some (r, e\<lparr>en_alive := (en_alive e)(i \<mapsto> m1), en_jobs := left, en_sending := (left \<noteq> [])\<rparr>)))))"

subsection \<open>Publishing\<close>

fun cache_add_all :: "'o mux_env \<Rightarrow> 'o event list \<Rightarrow> 'o engine \<Rightarrow> ('o engine, unit) outcome option" where
  "cache_add_all env [] e = Some (Inr (), e)"
| "cache_add_all env (d # ds) e =
     (case en_cache_file e of
        None \<Rightarrow> Some (Inl Undefined, e)
      | Some c \<Rightarrow>
          (case pc_add (mu_bbdo env) d (c, en_disk e) of
             None \<Rightarrow> None
           | Some (Inl x, (c1, fs1)) \<Rightarrow> Some (Inl x, e\<lparr>en_cache_file := Some c1, en_disk := fs1\<rparr>)
           | Some (Inr _, (c1, fs1)) \<Rightarrow>
               cache_add_all env ds
                 (e\<lparr>en_cache_file := Some c1, en_disk := fs1, en_unprocessed_events := en_unprocessed_events e + 1\<rparr>)))"

definition engine_publish :: "'o mux_env \<Rightarrow> 'o event list \<Rightarrow> 'o engine \<Rightarrow> ('o engine, unit) outcome option" where
  "engine_publish env es e =
     (case en_state e of
        Stopped \<Rightarrow> cache_add_all env es e
      | Not_started \<Rightarrow> Some (Inr (), e\<lparr>en_kiew := en_kiew e @ es\<rparr>)
      | Running \<Rightarrow> Some (Inr (), snd (send_to_subscribers (e\<lparr>en_kiew := en_kiew e @ es\<rparr>))))"

definition publisher_write :: "'o mux_env \<Rightarrow> 'o event list \<Rightarrow> 'o engine \<Rightarrow> ('o engine, int) outcome option" where
  "publisher_write env es e =
     map_option (apfst (map_sum id (\<lambda>_. int (length es)))) (engine_publish env es e)"

definition publisher_read :: "'o engine \<Rightarrow> ('o engine, bool \<times> 'o event option) outcome" where
  "publisher_read e = (Inl Shutdown, e)"

definition engine_clear :: "'o engine \<Rightarrow> 'o engine" where
  "engine_clear e = e\<lparr>en_kiew := []\<rparr>"

subsection \<open>Start and stop\<close>

partial_function (option) cache_get_all :: "'o mux_env \<Rightarrow> 'o event list \<Rightarrow> 'o pcache \<times> fs \<Rightarrow>
    ('o pcache \<times> fs, 'o event list) outcome option" where
  "cache_get_all env acc c =
     (case pc_get (mu_bbdo env) (mu_now env) c of
        None \<Rightarrow> None
      | Some (r, c1) \<Rightarrow>
          (case r of
             Inl x \<Rightarrow> (if x = Undefined then Some (Inl x, c1) else Some (Inr acc, c1))
           | Inr d \<Rightarrow> (case d of None \<Rightarrow> Some (Inr acc, c1) | Some e \<Rightarrow> cache_get_all env (acc @ [e]) c1)))"

definition engine_start :: "'o mux_env \<Rightarrow> 'o engine \<Rightarrow> ('o engine, unit) outcome option" where
  "engine_start env e =
     (if en_state e \<noteq> Not_started then Some (Inr (), e)
      else
        (let e1 = e\<lparr>en_state := Running\<rparr> in
         case pc_new (cache_file_path env) (mu_now env) (en_disk e1) of
           (Inl _, (_, fs1)) \<Rightarrow> Some (Inr (), snd (send_to_subscribers (e1\<lparr>en_disk := fs1\<rparr>)))
         | (Inr _, c) \<Rightarrow>
             (case cache_get_all env [] c of
                None \<Rightarrow> None
              | Some (Inl x, (_, fs1)) \<Rightarrow> Some (Inl x, e1\<lparr>en_disk := fs1\<rparr>)
              | Some (Inr kiew, (_, fs1)) \<Rightarrow>
                  Some (Inr (), snd (send_to_subscribers (e1\<lparr>en_disk := fs1, en_kiew := kiew @ en_kiew e1\<rparr>))))))"

text \<open>\<open>stop\<close> up to the wait for the end of the sending, and after it.\<close>

definition engine_stop :: "'o engine \<Rightarrow> bool \<times> 'o engine" where
  "engine_stop e =
     (if en_state e = Stopped then (False, e) else send_to_subscribers (e\<lparr>en_state := Stopped\<rparr>))"

definition engine_stop_cache :: "'o mux_env \<Rightarrow> 'o engine \<Rightarrow> 'o engine" where
  "engine_stop_cache env e =
     (case pc_new (cache_file_path env) (mu_now env) (en_disk e) of
        (Inl _, (_, fs1)) \<Rightarrow> e\<lparr>en_cache_file := None, en_disk := fs1\<rparr>
      | (Inr _, c) \<Rightarrow>
          (case pc_transaction (mu_now env) c of
             (Inl _, (_, fs1)) \<Rightarrow> e\<lparr>en_cache_file := None, en_disk := fs1\<rparr>
           | (Inr _, (c1, fs1)) \<Rightarrow> e\<lparr>en_cache_file := Some c1, en_disk := fs1\<rparr>))"

text \<open>The end of \<open>unload\<close>, when no muxer is left and the engine is stopped.\<close>

definition engine_unload :: "'o mux_env \<Rightarrow> 'o engine \<Rightarrow> ('o engine, unit) outcome option" where
  "engine_unload env e =
     (if en_cache_file e = None then Some (Inr (), e)
      else
        (case engine_publish env (en_kiew e) e of
           None \<Rightarrow> None
         | Some (Inl x, e1) \<Rightarrow> Some (Inl x, e1)
         | Some (Inr _, e1) \<Rightarrow>
             (case en_cache_file e1 of
                None \<Rightarrow> Some (Inl Undefined, e1)
              | Some c \<Rightarrow>
                  (case pc_commit (c, en_disk e1) of
                     (r, (c1, fs1)) \<Rightarrow> Some (r, e1\<lparr>en_cache_file := Some c1, en_disk := fs1\<rparr>)))))"

subsection \<open>Subscribers\<close>

definition engine_subscribe :: "nat \<Rightarrow> 'o engine \<Rightarrow> 'o engine" where
  "engine_subscribe i e =
     (if i \<in> set (filter (\<lambda>j. en_alive e j \<noteq> None) (en_muxers e)) then e else e\<lparr>en_muxers := en_muxers e @ [i]\<rparr>)"

text \<open>\<open>unsubscribe_muxer\<close> after the wait: the first pointer that has expired or that is the subscriber goes.\<close>

fun remove_first :: "('a \<Rightarrow> bool) \<Rightarrow> 'a list \<Rightarrow> 'a list" where
  "remove_first P [] = []"
| "remove_first P (x # xs) = (if P x then xs else x # remove_first P xs)"

definition unsubscribe_muxer :: "nat \<Rightarrow> 'o engine \<Rightarrow> 'o engine" where
  "unsubscribe_muxer i e =
     e\<lparr>en_muxers := remove_first (\<lambda>j. en_alive e j = None \<or> j = i) (en_muxers e)\<rparr>"

definition muxer_create :: "'o mux_env \<Rightarrow> string \<Rightarrow> muxer_filter \<Rightarrow> muxer_filter \<Rightarrow> bool \<Rightarrow> 'o engine \<Rightarrow>
    ('o engine, nat) outcome option" where
  "muxer_create env name r_filter w_filter persistent e =
     (let running = filter (\<lambda>(_, i). en_alive e i \<noteq> None) (en_running_muxers e);
          e1 = e\<lparr>en_running_muxers := running\<rparr> in
      case map_of running name of
        Some i \<Rightarrow>
          (case en_alive e i of
             None \<Rightarrow> Some (Inl Undefined, e1)
           | Some m \<Rightarrow>
               Some (Inr i, engine_subscribe i
                 (e1\<lparr>en_alive := (en_alive e)(i \<mapsto> set_write_filter w_filter (set_read_filter r_filter m))\<rparr>)))
      | None \<Rightarrow>
          (case mux_new env name r_filter w_filter persistent (en_disk e) of
             None \<Rightarrow> None
           | Some (Inl x, _) \<Rightarrow> Some (Inl x, e1)
           | Some (Inr _, m) \<Rightarrow>
               (let i = en_next e in
                Some (Inr i, engine_subscribe i
                  (e1\<lparr>en_alive := (en_alive e)(i \<mapsto> m), en_next := Suc i,
                      en_running_muxers := (name, i) # running\<rparr>)))))"

text \<open>
  The destructor of a muxer: its weak pointers have expired, \<open>_clean\<close> runs, and \<open>unsubscribe_muxer\<close> first
  sends what is left. It cannot run while a job holds the muxer.
\<close>

definition muxer_expire :: "'o mux_env \<Rightarrow> nat \<Rightarrow> 'o engine \<Rightarrow> (bool \<times> 'o engine) option" where
  "muxer_expire env i e =
     (case en_alive e i of
        None \<Rightarrow> Some (False, e)
      | Some m \<Rightarrow>
          (case mux_clean env m of
             None \<Rightarrow> None
           | Some _ \<Rightarrow> Some (send_to_subscribers (e\<lparr>en_alive := (en_alive e)(i := None)\<rparr>))))"

subsection \<open>Threads\<close>

text \<open>
  The sections of the engine that run under \<open>_kiew_m\<close>, and the jobs, in any order. The labels tell
  what is queued and what a muxer is fed with.
\<close>

datatype 'o en_act = Queued "'o event list" | Cached | Fed nat "'o event list" | Created | Expired nat | Unsubscribed | Halted

inductive en_step :: "'o mux_env \<Rightarrow> 'o engine \<Rightarrow> 'o en_act \<Rightarrow> 'o engine \<Rightarrow> bool" for env :: "'o mux_env" where
  queued: "en_state e \<noteq> Stopped \<Longrightarrow> engine_publish env es e = Some (Inr (), e') \<Longrightarrow> en_step env e (Queued es) e'"
| cached: "en_state e = Stopped \<Longrightarrow> engine_publish env es e = Some (r, e') \<Longrightarrow> en_step env e Cached e'"
| fed: "n < length (en_jobs e) \<Longrightarrow> en_jobs e ! n = (i, es) \<Longrightarrow> run_job env n e = Some (r, e') \<Longrightarrow> r \<noteq> Inl Undefined \<Longrightarrow>
    en_step env e (Fed i es) e'"
| created: "muxer_create env name r_filter w_filter persistent e = Some (r, e') \<Longrightarrow> en_step env e Created e'"
| expired: "i \<notin> fst ` set (en_jobs e) \<Longrightarrow> muxer_expire env i e = Some (sent, e') \<Longrightarrow> en_step env e (Expired i) e'"
| unsubscribed: "en_alive e i = None \<Longrightarrow> en_step env e Unsubscribed (unsubscribe_muxer i e)"
| halted: "engine_stop e = (sent, e') \<Longrightarrow> en_step env e Halted e'"

inductive en_trace :: "'o mux_env \<Rightarrow> 'o engine \<Rightarrow> 'o en_act list \<Rightarrow> 'o engine \<Rightarrow> bool" for env :: "'o mux_env" where
  en_start: "en_trace env e [] e"
| en_more: "en_trace env e as e1 \<Longrightarrow> en_step env e1 a e2 \<Longrightarrow> en_trace env e (as @ [a]) e2"

fun queued_events :: "'o en_act list \<Rightarrow> 'o event list" where
  "queued_events [] = []"
| "queued_events (Queued es # as) = es @ queued_events as"
| "queued_events (_ # as) = queued_events as"

fun fed_to :: "nat \<Rightarrow> 'o en_act list \<Rightarrow> 'o event list" where
  "fed_to i [] = []"
| "fed_to i (Fed j es # as) = (if i = j then es @ fed_to i as else fed_to i as)"
| "fed_to i (_ # as) = fed_to i as"

definition on_the_way :: "nat \<Rightarrow> 'o engine \<Rightarrow> 'o event list" where
  "on_the_way i e = concat (map snd (filter (\<lambda>j. fst j = i) (en_jobs e)))"

lemma en_labels_append [simp]:
  "queued_events (as @ bs) = queued_events as @ queued_events bs"
  "fed_to i (as @ bs) = fed_to i as @ fed_to i bs"
proof (induction as)
  case (Cons a as)
  { case 1 show ?case using Cons by (cases a) auto }
  { case 2 show ?case using Cons by (cases a) auto }
qed simp_all

text \<open>
  A muxer is subscribed once, at most one job per muxer is under way, and the flag tells whether there
  is any.
\<close>

definition en_inv :: "'o engine \<Rightarrow> bool" where
  "en_inv e \<longleftrightarrow>
     distinct (en_muxers e) \<and> distinct (map fst (en_jobs e)) \<and> (en_sending e \<longleftrightarrow> en_jobs e \<noteq> []) \<and>
     (\<forall>i \<in> set (en_muxers e). i < en_next e) \<and> (\<forall>i. en_alive e i \<noteq> None \<longrightarrow> i < en_next e)"

lemma engine_new_inv: "en_inv (engine_new fs)"
  by (simp add: en_inv_def engine_new_def)

definition en_keeps :: "'o engine \<Rightarrow> 'o en_act \<Rightarrow> 'o engine \<Rightarrow> bool" where
  "en_keeps e a e' \<longleftrightarrow>
     en_inv e' \<and> en_next e \<le> en_next e' \<and> (\<forall>i. i < en_next e \<and> en_alive e i = None \<longrightarrow> en_alive e' i = None) \<and>
     (\<forall>i. i \<in> set (en_muxers e) \<and> en_alive e' i \<noteq> None \<longrightarrow>
        i \<in> set (en_muxers e') \<and>
        fed_to i [a] @ on_the_way i e' @ en_kiew e' = on_the_way i e @ en_kiew e @ queued_events [a])"

lemma send_keeps:
  assumes "en_inv e"
  shows "en_inv (snd (send_to_subscribers e)) \<and> en_next (snd (send_to_subscribers e)) = en_next e \<and>
    en_alive (snd (send_to_subscribers e)) = en_alive e \<and> en_muxers (snd (send_to_subscribers e)) = en_muxers e \<and>
    (i \<in> set (en_muxers e) \<and> en_alive e i \<noteq> None \<longrightarrow>
       on_the_way i (snd (send_to_subscribers e)) @ en_kiew (snd (send_to_subscribers e)) = on_the_way i e @ en_kiew e)"
proof (cases "en_sending e \<or> en_muxers e = [] \<or> en_kiew e = [] \<or> filter (\<lambda>i. en_alive e i \<noteq> None) (en_muxers e) = []")
  case True
  with assms show ?thesis by (auto simp: send_to_subscribers_def en_inv_def on_the_way_def filter_empty_conv)
next
  case False
  define live where "live = filter (\<lambda>i. en_alive e i \<noteq> None) (en_muxers e)"
  have s: "snd (send_to_subscribers e) =
      e\<lparr>en_kiew := [], en_sending := True, en_jobs := map (\<lambda>i. (i, en_kiew e)) live\<rparr>"
    using False unfolding send_to_subscribers_def live_def by (auto split: list.splits)
  have j: "en_jobs e = []" "distinct live" "live \<noteq> []"
    using assms False by (auto simp: en_inv_def live_def)
  have "concat (map snd (filter (\<lambda>j. fst j = i) (map (\<lambda>i. (i, en_kiew e)) live))) = (if i \<in> set live then en_kiew e else [])"
    using j(2) by (induction live) auto
  with assms j show ?thesis unfolding s
    by (auto simp: en_inv_def on_the_way_def comp_def live_def)
qed

lemma cache_add_all_keeps:
  "cache_add_all env ds e = Some (r, e') \<Longrightarrow>
   en_kiew e' = en_kiew e \<and> en_muxers e' = en_muxers e \<and> en_alive e' = en_alive e \<and> en_jobs e' = en_jobs e \<and>
   en_sending e' = en_sending e \<and> en_next e' = en_next e"
proof (induction ds arbitrary: e)
  case (Cons d ds)
  show ?case
  proof (cases "en_cache_file e")
    case (Some c)
    obtain x c1 fs1 where a: "pc_add (mu_bbdo env) d (c, en_disk e) = Some (x, (c1, fs1))"
      using Cons.prems Some by (cases "pc_add (mu_bbdo env) d (c, en_disk e)") auto
    show ?thesis
    proof (cases x)
      case (Inr u)
      with Cons.IH [of "e\<lparr>en_cache_file := Some c1, en_disk := fs1, en_unprocessed_events := en_unprocessed_events e + 1\<rparr>"]
        Cons.prems Some a show ?thesis by simp
    qed (use Cons.prems Some a in auto)
  qed (use Cons.prems in auto)
qed auto

lemma publish_keeps:
  assumes "en_inv e" "engine_publish env es e = Some (r, e')"
  shows "en_keeps e (if en_state e = Stopped then Cached else Queued es) e'"
proof (cases "en_state e")
  case Stopped
  with assms(2) have "cache_add_all env es e = Some (r, e')" by (simp add: engine_publish_def)
  from cache_add_all_keeps [OF this] assms(1) Stopped show ?thesis
    by (simp add: en_keeps_def en_inv_def on_the_way_def)
next
  case Not_started
  with assms show ?thesis by (auto simp: engine_publish_def en_keeps_def en_inv_def on_the_way_def)
next
  case Running
  have i: "en_inv (e\<lparr>en_kiew := en_kiew e @ es\<rparr>)" using assms(1) by (simp add: en_inv_def)
  have "e' = snd (send_to_subscribers (e\<lparr>en_kiew := en_kiew e @ es\<rparr>))"
    using assms(2) Running by (simp add: engine_publish_def)
  with send_keeps [OF i] Running show ?thesis by (simp add: en_keeps_def) (simp add: on_the_way_def)
qed

lemma remove_first_alive:
  "set (remove_first P xs) \<subseteq> set xs" "distinct xs \<Longrightarrow> distinct (remove_first P xs)"
  "x \<in> set xs \<Longrightarrow> \<not> P x \<Longrightarrow> x \<in> set (remove_first P xs)"
proof -
  show s: "set (remove_first P xs) \<subseteq> set xs" for xs by (induction xs) auto
  show "distinct xs \<Longrightarrow> distinct (remove_first P xs)" using s by (induction xs) auto
  show "x \<in> set xs \<Longrightarrow> \<not> P x \<Longrightarrow> x \<in> set (remove_first P xs)" by (induction xs) auto
qed

lemma take_drop_job:
  assumes "n < length js" "js ! n = (i, es)" "distinct (map fst js)"
  shows "filter (\<lambda>j. fst j = k) (take n js @ drop (Suc n) js) = (if k = i then [] else filter (\<lambda>j. fst j = k) js)"
    "k = i \<Longrightarrow> concat (map snd (filter (\<lambda>j. fst j = k) js)) = es"
    "distinct (map fst (take n js @ drop (Suc n) js))"
proof -
  have s: "js = take n js @ (i, es) # drop (Suc n) js" using id_take_nth_drop [OF assms(1)] assms(2) by simp
  have d: "distinct (map fst (take n js) @ i # map fst (drop (Suc n) js))"
    using assms(3) by (subst (asm) s) simp
  have f: "filter (\<lambda>j. fst j = i) (take n js) = []" "filter (\<lambda>j. fst j = i) (drop (Suc n) js) = []"
    using d by (auto simp: filter_empty_conv)
  have js: "filter (\<lambda>j. fst j = k) js =
      filter (\<lambda>j. fst j = k) (take n js) @ (if k = i then [(i, es)] else []) @ filter (\<lambda>j. fst j = k) (drop (Suc n) js)"
    by (subst s) simp
  show "filter (\<lambda>j. fst j = k) (take n js @ drop (Suc n) js) = (if k = i then [] else filter (\<lambda>j. fst j = k) js)"
    using f js by simp
  show "k = i \<Longrightarrow> concat (map snd (filter (\<lambda>j. fst j = k) js)) = es" using f js by simp
  show "distinct (map fst (take n js @ drop (Suc n) js))" using d by simp
qed

lemma job_keeps:
  assumes "en_inv e" "n < length (en_jobs e)" "en_jobs e ! n = (i, es)" "run_job env n e = Some (r, e')" "r \<noteq> Inl Undefined"
  shows "en_keeps e (Fed i es) e'"
proof -
  obtain m m1 where m: "en_alive e i = Some m" "mux_publish env es m = Some (r, m1)" and
    e': "e' = e\<lparr>en_alive := (en_alive e)(i \<mapsto> m1), en_jobs := take n (en_jobs e) @ drop (Suc n) (en_jobs e),
      en_sending := (take n (en_jobs e) @ drop (Suc n) (en_jobs e) \<noteq> [])\<rparr>"
    using assms(2-5) by (auto simp: run_job_def Let_def split: option.splits)
  have d: "distinct (map fst (en_jobs e))" using assms(1) by (simp add: en_inv_def)
  note t = take_drop_job [OF assms(2,3) d]
  have w: "fed_to k [Fed i es] @ on_the_way k e' = on_the_way k e" for k
    using t(1,2) [of k] by (simp add: on_the_way_def e' del: filter_append map_append)
  have "en_inv e'" using assms(1) m(1) t(3) unfolding en_inv_def e' by (simp del: map_append)
  moreover have "en_kiew e' = en_kiew e" "en_muxers e' = en_muxers e" "en_next e' = en_next e" by (simp_all add: e')
  moreover have "en_alive e' k = None \<longleftrightarrow> en_alive e k = None" for k using m(1) by (simp add: e')
  ultimately show ?thesis using w by (simp add: en_keeps_def append_assoc [symmetric] del: fed_to.simps append_assoc)
qed

lemma subscribe_keeps:
  assumes "en_inv e" "i < en_next e" "en_alive e i \<noteq> None"
  shows "en_inv (engine_subscribe i e)" "set (en_muxers e) \<subseteq> set (en_muxers (engine_subscribe i e))"
  using assms by (auto simp: engine_subscribe_def en_inv_def)

lemma subscribe_frame [simp]:
  "en_kiew (engine_subscribe i e) = en_kiew e" "en_jobs (engine_subscribe i e) = en_jobs e"
  "en_alive (engine_subscribe i e) = en_alive e" "en_next (engine_subscribe i e) = en_next e"
  by (simp_all add: engine_subscribe_def)

lemma created_with:
  assumes "en_inv e" "en_alive e0 = (en_alive e)(i \<mapsto> m)" "en_next e0 = (if i = en_next e then Suc i else en_next e)"
    and "i = en_next e \<or> en_alive e i \<noteq> None" "en_muxers e0 = en_muxers e" "en_jobs e0 = en_jobs e"
    and "en_kiew e0 = en_kiew e" "en_sending e0 = en_sending e"
  shows "en_keeps e Created (engine_subscribe i e0)"
proof -
  have n: "i < en_next e0" "en_next e \<le> en_next e0" using assms(1,3,4) by (auto simp: en_inv_def)
  have "en_inv e0" using assms n by (auto simp: en_inv_def intro: less_le_trans)
  from subscribe_keeps [OF this, of i] n assms(2)
  have "en_inv (engine_subscribe i e0)" "set (en_muxers e0) \<subseteq> set (en_muxers (engine_subscribe i e0))" by simp_all
  moreover have "i < en_next e \<longrightarrow> en_alive e i \<noteq> None" using assms(4) by auto
  ultimately show ?thesis using n assms by (auto simp: en_keeps_def on_the_way_def)
qed

lemma create_keeps:
  assumes "en_inv e" "muxer_create env name r_filter w_filter persistent e = Some (r, e')"
  shows "en_keeps e Created e'"
proof -
  define rm where "rm = filter (\<lambda>(_, i). en_alive e i \<noteq> None) (en_running_muxers e)"
  have same: "en_keeps e Created (e\<lparr>en_running_muxers := rm\<rparr>)"
    using assms(1) by (simp add: en_keeps_def en_inv_def on_the_way_def)
  show ?thesis
  proof (cases "map_of rm name")
    case (Some i)
    show ?thesis
    proof (cases "en_alive e i")
      case None
      with Some assms(2) same show ?thesis by (simp add: muxer_create_def rm_def Let_def)
    next
      case a: (Some m)
      let ?m = "set_write_filter w_filter (set_read_filter r_filter m)"
      let ?e = "e\<lparr>en_running_muxers := rm, en_alive := (en_alive e)(i \<mapsto> ?m)\<rparr>"
      have "i \<noteq> en_next e" using assms(1) a by (auto simp: en_inv_def)
      then have "en_keeps e Created (engine_subscribe i ?e)"
        by (intro created_with [OF assms(1), where m = ?m]) (simp_all add: a)
      moreover have "e' = engine_subscribe i ?e"
        using assms(2) Some a by (simp add: muxer_create_def rm_def Let_def)
      ultimately show ?thesis by simp
    qed
  next
    case None
    show ?thesis
    proof (cases "mux_new env name r_filter w_filter persistent (en_disk e)")
      case (Some x)
      obtain y m where x: "x = (y, m)" by (cases x)
      show ?thesis
      proof (cases y)
        case (Inl z)
        with None Some x assms(2) same show ?thesis by (simp add: muxer_create_def rm_def Let_def)
      next
        case (Inr u)
        let ?e = "e\<lparr>en_alive := (en_alive e)(en_next e \<mapsto> m), en_next := Suc (en_next e),
            en_running_muxers := (name, en_next e) # rm\<rparr>"
        have "e' = engine_subscribe (en_next e) ?e"
          using None Some x Inr assms(2) by (simp add: muxer_create_def rm_def Let_def)
        moreover have "en_keeps e Created (engine_subscribe (en_next e) ?e)"
          by (intro created_with [OF assms(1), where m = m]) simp_all
        ultimately show ?thesis by simp
      qed
    qed (use None assms(2) in \<open>simp add: muxer_create_def rm_def Let_def\<close>)
  qed
qed

lemma expire_keeps:
  assumes "en_inv e" "muxer_expire env i e = Some (sent, e')"
  shows "en_keeps e (Expired i) e'"
proof (cases "en_alive e i")
  case None
  with assms show ?thesis by (simp add: muxer_expire_def en_keeps_def)
next
  case (Some m)
  let ?e = "e\<lparr>en_alive := (en_alive e)(i := None)\<rparr>"
  have s: "e' = snd (send_to_subscribers ?e)"
    using assms(2) Some by (auto simp: muxer_expire_def split: option.splits)
  have k: "en_inv ?e" using assms(1) by (simp add: en_inv_def)
  have "on_the_way j ?e = on_the_way j e" for j by (simp add: on_the_way_def)
  with send_keeps [OF k] s show ?thesis by (auto simp: en_keeps_def)
qed

lemma step_keeps:
  assumes "en_inv e" "en_step env e a e'"
  shows "en_keeps e a e'"
  using assms(2)
proof (cases rule: en_step.cases)
  case (queued es)
  with publish_keeps [OF assms(1) queued(3)] show ?thesis by simp
next
  case (cached es r)
  with publish_keeps [OF assms(1) cached(3)] show ?thesis by simp
next
  case (fed n i es r)
  with job_keeps [OF assms(1) fed(2-5)] show ?thesis by simp
next
  case (created name r_filter w_filter persistent r)
  with create_keeps [OF assms(1) created(2)] show ?thesis by simp
next
  case (expired i sent)
  with expire_keeps [OF assms(1) expired(3)] show ?thesis by simp
next
  case (unsubscribed i)
  have "x \<in> set (remove_first (\<lambda>j. en_alive e j = None \<or> j = i) (en_muxers e))"
    if "x \<in> set (en_muxers e)" "en_alive e x = Some y" for x y
    using that unsubscribed(3) by (intro remove_first_alive(3)) auto
  with unsubscribed(1,2) assms(1) show ?thesis
    using remove_first_alive(1,2) [where P = "\<lambda>j. en_alive e j = None \<or> j = i" and xs = "en_muxers e"]
    by (auto simp: en_keeps_def en_inv_def unsubscribe_muxer_def on_the_way_def)
next
  case (halted sent)
  show ?thesis
  proof (cases "en_state e = Stopped")
    case True
    with halted assms(1) show ?thesis by (simp add: engine_stop_def en_keeps_def)
  next
    case False
    then have s: "e' = snd (send_to_subscribers (e\<lparr>en_state := Stopped\<rparr>))"
      using halted(2) by (simp add: engine_stop_def)
    have i: "en_inv (e\<lparr>en_state := Stopped\<rparr>)" using assms(1) by (simp add: en_inv_def)
    have "on_the_way j (e\<lparr>en_state := Stopped\<rparr>) = on_the_way j e" for j by (simp add: on_the_way_def)
    with send_keeps [OF i] s halted(1) show ?thesis by (simp add: en_keeps_def)
  qed
qed

lemma trace_broadcast:
  assumes "en_trace env e as e'" "en_inv e" "i \<in> set (en_muxers e)" "en_alive e' i \<noteq> None"
  shows "en_inv e' \<and> i \<in> set (en_muxers e') \<and>
    fed_to i as @ on_the_way i e' @ en_kiew e' = on_the_way i e @ en_kiew e @ queued_events as"
  using assms
proof (induction rule: en_trace.induct)
  case (en_more e as e1 a e2)
  have i1: "en_inv e1 \<and> en_next e \<le> en_next e1"
    using en_more.hyps(1) en_more.prems(1)
  proof (induction rule: en_trace.induct)
    case (en_more e as e1 a e2)
    with step_keeps [OF _ en_more.hyps(2)] show ?case by (auto simp: en_keeps_def)
  qed simp
  have k: "en_keeps e1 a e2" using step_keeps [OF _ en_more.hyps(2)] i1 by simp
  have "i < en_next e1" using en_more.prems(1,2) i1 by (auto simp: en_inv_def intro: less_le_trans)
  then have a1: "en_alive e1 i \<noteq> None" using k en_more.prems(3) by (auto simp: en_keeps_def)
  have 1: "i \<in> set (en_muxers e1)"
      "fed_to i as @ on_the_way i e1 @ en_kiew e1 = on_the_way i e @ en_kiew e @ queued_events as"
    using en_more.IH [OF en_more.prems(1,2) a1] by simp_all
  have 2: "en_inv e2" "i \<in> set (en_muxers e2)"
      "fed_to i [a] @ on_the_way i e2 @ en_kiew e2 = on_the_way i e1 @ en_kiew e1 @ queued_events [a]"
    using k 1(1) en_more.prems(3) unfolding en_keeps_def by blast+
  have "fed_to i (as @ [a]) @ on_the_way i e2 @ en_kiew e2 =
      (fed_to i as @ on_the_way i e1 @ en_kiew e1) @ queued_events [a]"
    using 2(3) by (simp del: fed_to.simps queued_events.simps)
  also have "\<dots> = on_the_way i e @ en_kiew e @ queued_events (as @ [a])"
    unfolding 1(2) by (simp del: queued_events.simps)
  finally show ?case using 2 by blast
qed simp

subsection \<open>Properties\<close>

text \<open>
  C7. Whatever the threads do, a muxer that stays subscribed is fed with every event that is
  published, in the order of the publications and without gap or repetition: what it was fed with, what
  is on its way and what waits in the queue of the engine is what waited before followed by what was
  published.
\<close>

theorem engine_broadcasts:
  assumes "en_inv e" "en_trace env e as e'" "i \<in> set (en_muxers e)" "en_alive e' i \<noteq> None"
  shows "fed_to i as @ on_the_way i e' @ en_kiew e' = on_the_way i e @ en_kiew e @ queued_events as \<and> en_inv e'"
  using trace_broadcast [OF assms(2,1,3,4)] by simp

text \<open>
  C40. An event published while others are being sent waits in the queue until something else is published,
  since nothing is sent when the sending ends. If the only subscriber is destroyed meanwhile, the
  event is lost: the destructor sends the queue to nobody.
\<close>

theorem engine_leaves_events:
  assumes "en_inv e" "en_state e = Running" "\<not> en_sending e" "en_kiew e = []" "en_muxers e = [i]"
    and "en_alive e i = Some m" "mux_publish env [a] m = Some (Inr (), m1)" "mux_clean env m1 = Some m2"
  shows "\<exists>e1 e2 e3 e4. engine_publish env [a] e = Some (Inr (), e1) \<and> engine_publish env [b] e1 = Some (Inr (), e2) \<and>
    run_job env 0 e2 = Some (Inr (), e3) \<and> en_kiew e3 = [b] \<and> en_jobs e3 = [] \<and> \<not> en_sending e3 \<and>
    muxer_expire env i e3 = Some (False, e4) \<and> en_kiew e4 = [] \<and> en_jobs e4 = [] \<and> en_cache_file e4 = en_cache_file e"
proof -
  have j: "en_jobs e = []" using assms(1,3) by (simp add: en_inv_def)
  show ?thesis
    using assms(2-8) j
    by (simp add: engine_publish_def send_to_subscribers_def run_job_def muxer_expire_def)
qed

definition sample_engine :: "(u32 \<times> bytes) engine" where
  "sample_engine = (engine_new empty_fs)\<lparr>en_state := Running, en_muxers := [0], en_alive := [0 \<mapsto> sample_muxer], en_next := 1\<rparr>"

lemma sample_engine_inv: "en_inv sample_engine"
  by (simp add: en_inv_def sample_engine_def engine_new_def)

lemma sample_mux_publish:
  "\<exists>m1. mux_publish (sample_mux_env 1) [sample_event 1 [65]] sample_muxer = Some (Inr (), m1) \<and> \<not> mx_persistent m1 \<and>
     mx_store m1 = Inl empty_fs"
proof -
  have "allows filter_default 0x10001 = Some True" by code_simp
  then show ?thesis unfolding mux_publish.simps [of "sample_mux_env 1" "[sample_event 1 [65]]" sample_muxer]
    by (simp add: sample_muxer_def mux_blank_def sample_mux_env_def push_to_queue_def
        sample_event_def mux_after_push_def execute_reader_if_needed_def Let_def)
qed

theorem engine_leaves_events_witness:
  "\<exists>e1 e2 e3. engine_publish (sample_mux_env 1) [sample_event 1 [65]] sample_engine = Some (Inr (), e1) \<and>
     engine_publish (sample_mux_env 1) [sample_event 2 [66]] e1 = Some (Inr (), e2) \<and>
     run_job (sample_mux_env 1) 0 e2 = Some (Inr (), e3) \<and> en_kiew e3 = [sample_event 2 [66]] \<and> en_jobs e3 = []"
proof -
  obtain m1 where m: "mux_publish (sample_mux_env 1) [sample_event 1 [65]] sample_muxer = Some (Inr (), m1)"
      "\<not> mx_persistent m1" "mx_store m1 = Inl empty_fs"
    using sample_mux_publish by blast
  then obtain m2 where c: "mux_clean (sample_mux_env 1) m1 = Some m2" by (simp add: mux_clean_def mux_disk_def)
  show ?thesis
    using engine_leaves_events [OF sample_engine_inv _ _ _ _ _ m(1) c, of 0 "sample_event 2 [66]"]
    by (auto simp: sample_engine_def engine_new_def)
qed

theorem engine_broadcasts_witness:
  "\<exists>e1 e2. en_trace (sample_mux_env 1) sample_engine [Queued [sample_event 1 [65]], Fed 0 [sample_event 1 [65]]] e2 \<and>
     on_the_way 0 e2 @ en_kiew e2 = [] \<and> en_step (sample_mux_env 1) e1 (Fed 0 [sample_event 1 [65]]) e2"
proof -
  obtain m1 where m: "mux_publish (sample_mux_env 1) [sample_event 1 [65]] sample_muxer = Some (Inr (), m1)"
    using sample_mux_publish by blast
  let ?e1 = "sample_engine\<lparr>en_sending := True, en_jobs := [(0, [sample_event 1 [65]])]\<rparr>"
  let ?e2 = "sample_engine\<lparr>en_alive := (en_alive sample_engine)(0 \<mapsto> m1), en_sending := False, en_jobs := []\<rparr>"
  have q: "en_step (sample_mux_env 1) sample_engine (Queued [sample_event 1 [65]]) ?e1"
    by (rule en_step.queued) (simp_all add: sample_engine_def engine_new_def engine_publish_def send_to_subscribers_def)
  have f: "en_step (sample_mux_env 1) ?e1 (Fed 0 [sample_event 1 [65]]) ?e2"
    by (rule en_step.fed [of 0 _ _ _ _ "Inr ()"]) (use m in \<open>simp_all add: sample_engine_def engine_new_def run_job_def\<close>)
  have t: "en_trace (sample_mux_env 1) sample_engine [Queued [sample_event 1 [65]], Fed 0 [sample_event 1 [65]]] ?e2"
    using en_trace.en_more [OF en_trace.en_more [OF en_trace.en_start q] f] by simp
  from engine_broadcasts [OF sample_engine_inv t, of 0] have "on_the_way 0 ?e2 @ en_kiew ?e2 = []"
    by (simp add: sample_engine_def engine_new_def on_the_way_def)
  with t f show ?thesis by blast
qed

end
