(* ===== verification/Notifier.thy ===== *)
theory Notifier
  imports Collect_Prelude Complex_Main "HOL-Library.Char_ord" "HOL-Library.List_Lexorder"
    "HOL-Library.Monad_Syntax"
begin

section \<open>Notifications of the monitoring engine\<close>

text \<open>
  Models how \<^verbatim>\<open>engine/src/notifier.cc\<close> decides on a notification and sends it: the six tests of viability,
  the choice of the contacts with the escalations (\<^verbatim>\<open>escalation.cc\<close>, \<^verbatim>\<open>hostescalation.cc\<close>,
  \<^verbatim>\<open>serviceescalation.cc\<close>, \<^verbatim>\<open>contact.cc\<close>), the notifications that are kept (\<^verbatim>\<open>notification.cc\<close>), their text in
  the retention file, and the dependencies of \<^verbatim>\<open>host.cc\<close> and \<^verbatim>\<open>service.cc\<close>.

  The environment of a call has the clock, the configuration, the time periods, the answer of the
  event broker modules, and the commands that reach the contacts. Logs and macros are left out.
\<close>

subsection \<open>Enumerations\<close>

datatype category = Cat_normal | Cat_recovery | Cat_acknowledgement | Cat_flapping | Cat_downtime | Cat_custom

datatype notifier_type = Host_notification | Service_notification

datatype reason =
    Reason_normal | Reason_recovery | Reason_acknowledgement | Reason_flappingstart | Reason_flappingstop
  | Reason_flappingdisabled | Reason_downtimestart | Reason_downtimeend | Reason_downtimecancelled | Reason_custom

fun reason_code :: "reason \<Rightarrow> int" where
  "reason_code Reason_normal = 0"
| "reason_code Reason_recovery = 1"
| "reason_code Reason_acknowledgement = 2"
| "reason_code Reason_flappingstart = 3"
| "reason_code Reason_flappingstop = 4"
| "reason_code Reason_flappingdisabled = 5"
| "reason_code Reason_downtimestart = 6"
| "reason_code Reason_downtimeend = 7"
| "reason_code Reason_downtimecancelled = 8"
| "reason_code Reason_custom = 99"

fun get_category :: "reason \<Rightarrow> category" where
  "get_category Reason_custom = Cat_custom"
| "get_category Reason_normal = Cat_normal"
| "get_category Reason_recovery = Cat_recovery"
| "get_category Reason_acknowledgement = Cat_acknowledgement"
| "get_category Reason_flappingstart = Cat_flapping"
| "get_category Reason_flappingstop = Cat_flapping"
| "get_category Reason_flappingdisabled = Cat_flapping"
| "get_category Reason_downtimestart = Cat_downtime"
| "get_category Reason_downtimeend = Cat_downtime"
| "get_category Reason_downtimecancelled = Cat_downtime"

text \<open>The flags of \<open>notification_flag\<close> and the options of \<open>notification_option\<close> are bits.\<close>

definition nf_up :: u32 where "nf_up = 0x001"
definition nf_down :: u32 where "nf_down = 0x002"
definition nf_unreachable :: u32 where "nf_unreachable = 0x004"
definition nf_ok :: u32 where "nf_ok = 0x008"
definition nf_warning :: u32 where "nf_warning = 0x010"
definition nf_critical :: u32 where "nf_critical = 0x020"
definition nf_unknown :: u32 where "nf_unknown = 0x040"
definition nf_flappingstart :: u32 where "nf_flappingstart = 0x080"
definition nf_flappingstop :: u32 where "nf_flappingstop = 0x100"
definition nf_flappingdisabled :: u32 where "nf_flappingdisabled = 0x200"
definition nf_downtime :: u32 where "nf_downtime = 0x400"

definition option_forced :: u32 where "option_forced = 2"

definition has_flag :: "u32 \<Rightarrow> u32 \<Rightarrow> bool" where
  "has_flag w f \<longleftrightarrow> w AND f \<noteq> 0"

text \<open>The flag of a state; a host has the states 0 to 2, a service 0 to 3.\<close>

fun state_flags :: "notifier_type \<Rightarrow> u32 list" where
  "state_flags Host_notification = [nf_up, nf_down, nf_unreachable]"
| "state_flags Service_notification = [nf_ok, nf_warning, nf_critical, nf_unknown]"

fun flapping_flag :: "reason \<Rightarrow> u32" where
  "flapping_flag Reason_flappingstart = nf_flappingstart"
| "flapping_flag Reason_flappingstop = nf_flappingstop"
| "flapping_flag _ = nf_flappingdisabled"

subsection \<open>Data\<close>

record contact =
  ct_name :: string
  ct_host_notify_on :: u32
  ct_service_notify_on :: u32
  ct_host_notifications_enabled :: bool
  ct_service_notifications_enabled :: bool
  ct_host_notification_period :: "string option"
  ct_service_notification_period :: "string option"

record escalation =
  es_first_notification :: u32
  es_last_notification :: u32
  es_notification_interval :: rat
  es_period :: "string option"
  es_escalate_on :: u32
  es_contact_groups :: "contact list list"

text \<open>The reason is the integer of the enumeration, which a retention file may set to any value.\<close>

record notification =
  no_type :: int
  no_author :: string
  no_message :: string
  no_options :: u32
  no_id :: u64
  no_number :: u32
  no_escalated :: bool
  no_interval :: u32
  no_contacts :: "string list"

record host_view =
  hv_up :: bool
  hv_hard :: bool
  hv_downtime_depth :: int
  hv_notification_period :: "string option"

record notifier =
  nt_type :: notifier_type
  nt_id :: nat
  nt_host :: host_view
  nt_notify_on :: u32
  nt_notification_interval :: u32
  nt_first_notification_delay :: u32
  nt_recovery_notification_delay :: u32
  nt_notification_period :: "string option"
  nt_notifications_enabled :: bool
  nt_is_volatile :: bool
  nt_is_flapping :: bool
  nt_hard :: bool
  nt_state :: nat
  nt_last_hard_state_change :: int
  nt_acknowledged :: bool
  nt_downtime_depth :: int
  nt_contacts :: "contact list"
  nt_contact_groups :: "contact list list"
  nt_escalations :: "escalation list"
  nt_number :: int
  nt_notification :: "category \<Rightarrow> notification option"
  nt_last_notification :: int
  nt_current_notification_id :: u64

record dependency =
  dp_notification :: bool
  dp_master :: "nat option"
  dp_period :: "string option"
  dp_fail_on :: "bool list"
  dp_fail_on_pending :: bool
  dp_inherits_parent :: bool

record dep_node =
  dn_hard :: bool
  dn_last_hard_state :: nat
  dn_current_state :: nat
  dn_checked :: bool
  dn_dependencies :: "dependency list"

datatype neb_result = Neb_ok | Neb_cancel | Neb_override

record nenv =
  ne_now :: int
  ne_enable_notifications :: bool
  ne_interval_length :: u32
  ne_recovery_anyways :: bool
  ne_soft_state_dependencies :: bool
  ne_next_valid_time :: "string \<Rightarrow> int \<Rightarrow> bool \<Rightarrow> int"
  ne_graph :: "nat \<Rightarrow> dep_node"
  ne_neb :: neb_result
  ne_notify_contact :: "contact \<Rightarrow> bool"

subsection \<open>Time periods\<close>

text \<open>\<open>check_time_against_period_for_notif\<close> and \<open>check_time_against_period\<close>.\<close>

definition check_period :: "nenv \<Rightarrow> bool \<Rightarrow> string option \<Rightarrow> bool" where
  "check_period env notif tp =
     (case tp of None \<Rightarrow> True | Some p \<Rightarrow> ne_next_valid_time env p (ne_now env) notif = ne_now env)"

fun get_notification_timeperiod :: "notifier \<Rightarrow> string option" where
  "get_notification_timeperiod n =
     (case nt_type n of
        Host_notification \<Rightarrow> nt_notification_period n
      | Service_notification \<Rightarrow>
          (if nt_notification_period n \<noteq> None then nt_notification_period n else hv_notification_period (nt_host n)))"

subsection \<open>Dependencies\<close>

text \<open>\<open>authorized_by_dependencies\<close> of a host or a service; cyclic dependencies make it run forever.\<close>

partial_function (option) authorized_loop :: "nenv \<Rightarrow> bool \<Rightarrow> dependency list \<Rightarrow> bool option" where
  "authorized_loop env notif ds =
     (case ds of
        [] \<Rightarrow> Some True
      | d # ds' \<Rightarrow>
          (if dp_notification d \<noteq> notif then authorized_loop env notif ds'
           else
             (case dp_master d of
                None \<Rightarrow> authorized_loop env notif ds'
              | Some i \<Rightarrow>
                  (if \<not> check_period env False (dp_period d) then Some True
                   else
                     (let m = ne_graph env i;
                          state = (if \<not> dn_hard m \<and> \<not> ne_soft_state_dependencies env then dn_last_hard_state m
                                   else dn_current_state m) in
                      if dp_fail_on d ! state then Some False
                      else if state = 0 \<and> \<not> dn_checked m \<and> dp_fail_on_pending d then Some False
                      else if dp_inherits_parent d then
                        Option.bind (authorized_loop env notif (dn_dependencies m))
                          (\<lambda>b. if \<not> b then Some False else authorized_loop env notif ds')
                      else authorized_loop env notif ds')))))"

definition authorized_by_dependencies :: "nenv \<Rightarrow> bool \<Rightarrow> nat \<Rightarrow> bool option" where
  "authorized_by_dependencies env notif i = authorized_loop env notif (dn_dependencies (ne_graph env i))"

subsection \<open>Viability\<close>

definition is_in_downtime :: "notifier \<Rightarrow> bool" where
  "is_in_downtime n \<longleftrightarrow>
     nt_downtime_depth n > 0 \<or> (nt_type n = Service_notification \<and> hv_downtime_depth (nt_host n) > 0)"

definition get_notify_on_current_state :: "nenv \<Rightarrow> notifier \<Rightarrow> bool" where
  "get_notify_on_current_state env n =
     (if nt_type n = Service_notification \<and> \<not> hv_up (nt_host n) \<and>
         (hv_hard (nt_host n) \<or> ne_soft_state_dependencies env) then False
      else has_flag (nt_notify_on n) (state_flags (nt_type n) ! nt_state n))"

text \<open>A product of two 32-bit integers, which wraps around, in seconds.\<close>

definition delay :: "nenv \<Rightarrow> u32 \<Rightarrow> int" where
  "delay env d = uint (d * ne_interval_length env)"

definition is_notification_viable_normal :: "nenv \<Rightarrow> u32 \<Rightarrow> notifier \<Rightarrow> bool option" where
  "is_notification_viable_normal env options n =
     (let notification_interval =
            (case nt_notification n Cat_normal of None \<Rightarrow> nt_notification_interval n | Some o' \<Rightarrow> no_interval o') in
      if has_flag options option_forced then Some True
      else if \<not> ne_enable_notifications env then Some False
      else if \<not> nt_notifications_enabled n then Some False
      else if is_in_downtime n then Some False
      else if \<not> check_period env True (get_notification_timeperiod n) then Some False
      else if nt_is_flapping n then Some False
      else if nt_is_volatile n then Some True
      else if \<not> nt_hard n then Some False
      else if nt_acknowledged n then Some False
      else if nt_state n = 0 then Some False
      else if \<not> get_notify_on_current_state env n then Some False
      else if nt_first_notification_delay n > 0 \<and> nt_notification n Cat_normal = None \<and>
              nt_last_hard_state_change n + delay env (nt_first_notification_delay n) > ne_now env then Some False
      else
        (case authorized_by_dependencies env True (nt_id n) of
           None \<Rightarrow> None
         | Some False \<Rightarrow> Some False
         | Some True \<Rightarrow>
             Some (\<not> (nt_notification n Cat_normal \<noteq> None \<and>
                       nt_last_hard_state_change n \<le> nt_last_notification n \<and>
                       (notification_interval = 0 \<or>
                        nt_last_notification n + delay env notification_interval > ne_now env)))))"

text \<open>The recovery: whether it is viable, and otherwise whether it may be sent later.\<close>

datatype verdict = Send | Later | Never

definition recovery_verdict :: "nenv \<Rightarrow> notifier \<Rightarrow> verdict" where
  "recovery_verdict env n =
     (if \<not> ne_enable_notifications env then Never
      else if \<not> nt_notifications_enabled n then Never
      else if \<not> check_period env True (get_notification_timeperiod n) then
        (if ne_recovery_anyways env then Send else Later)
      else if is_in_downtime n then Later
      else if nt_is_flapping n then Later
      else if \<not> nt_hard n then Later
      else if nt_state n \<noteq> 0 then Later
      else if \<not> (has_flag (nt_notify_on n) nf_up \<or> has_flag (nt_notify_on n) nf_ok) then Never
      else if nt_last_hard_state_change n + delay env (nt_recovery_notification_delay n) > ne_now env then Later
      else if nt_number n = 0 then Never
      else if nt_notification n Cat_normal = None then Never
      else Send)"

definition is_notification_viable_recovery :: "nenv \<Rightarrow> notifier \<Rightarrow> bool \<times> notifier" where
  "is_notification_viable_recovery env n =
     (case recovery_verdict env n of
        Send \<Rightarrow> (True, n)
      | Later \<Rightarrow> (False, n)
      | Never \<Rightarrow> (False, n\<lparr>nt_notification := (nt_notification n)(Cat_normal := None), nt_number := 0\<rparr>))"

definition is_notification_viable_acknowledgement :: "nenv \<Rightarrow> u32 \<Rightarrow> notifier \<Rightarrow> bool" where
  "is_notification_viable_acknowledgement env options n =
     (if has_flag options option_forced then True
      else if \<not> ne_enable_notifications env then False
      else if \<not> nt_notifications_enabled n then False
      else if nt_state n = 0 then False
      else True)"

definition is_notification_viable_flapping :: "nenv \<Rightarrow> reason \<Rightarrow> u32 \<Rightarrow> notifier \<Rightarrow> bool" where
  "is_notification_viable_flapping env type options n =
     (let current = nt_notification n Cat_flapping in
      if has_flag options option_forced then True
      else if \<not> ne_enable_notifications env then False
      else if \<not> nt_notifications_enabled n then False
      else if \<not> has_flag (nt_notify_on n) (flapping_flag type) then False
      else if type = Reason_flappingstart \<and> current \<noteq> None then False
      else if (type = Reason_flappingstop \<or> type = Reason_flappingdisabled) \<and>
              (case current of None \<Rightarrow> True | Some o' \<Rightarrow> no_type o' \<noteq> reason_code Reason_flappingstart) then False
      else if (case current of None \<Rightarrow> False | Some o' \<Rightarrow> no_type o' = reason_code type) then False
      else if is_in_downtime n then False
      else True)"

definition is_notification_viable_downtime :: "nenv \<Rightarrow> u32 \<Rightarrow> notifier \<Rightarrow> bool" where
  "is_notification_viable_downtime env options n =
     (if has_flag options option_forced then True
      else if \<not> ne_enable_notifications env then False
      else if \<not> nt_notifications_enabled n then False
      else if \<not> has_flag (nt_notify_on n) nf_downtime then False
      else if nt_downtime_depth n > 0 then False
      else True)"

definition is_notification_viable_custom :: "nenv \<Rightarrow> u32 \<Rightarrow> notifier \<Rightarrow> bool" where
  "is_notification_viable_custom env options n =
     (if has_flag options option_forced then True
      else if \<not> ne_enable_notifications env then False
      else if \<not> nt_notifications_enabled n then False
      else if is_in_downtime n then False
      else True)"

definition is_notification_viable :: "nenv \<Rightarrow> category \<Rightarrow> reason \<Rightarrow> u32 \<Rightarrow> notifier \<Rightarrow> (bool \<times> notifier) option" where
  "is_notification_viable env cat type options n =
     (case cat of
        Cat_normal \<Rightarrow> map_option (\<lambda>b. (b, n)) (is_notification_viable_normal env options n)
      | Cat_recovery \<Rightarrow> Some (is_notification_viable_recovery env n)
      | Cat_acknowledgement \<Rightarrow> Some (is_notification_viable_acknowledgement env options n, n)
      | Cat_flapping \<Rightarrow> Some (is_notification_viable_flapping env type options n, n)
      | Cat_downtime \<Rightarrow> Some (is_notification_viable_downtime env options n, n)
      | Cat_custom \<Rightarrow> Some (is_notification_viable_custom env options n, n))"

subsection \<open>Contacts\<close>

definition notify_on :: "notifier_type \<Rightarrow> u32 \<Rightarrow> contact \<Rightarrow> bool" where
  "notify_on t f c =
     has_flag (case t of Host_notification \<Rightarrow> ct_host_notify_on c | Service_notification \<Rightarrow> ct_service_notify_on c) f"

definition sent_to :: "string \<Rightarrow> notification \<Rightarrow> bool" where
  "sent_to user o' \<longleftrightarrow> user \<in> set (no_contacts o')"

fun to_notify :: "category \<Rightarrow> reason \<Rightarrow> notifier \<Rightarrow> contact \<Rightarrow> bool" where
  "to_notify Cat_normal type n c = notify_on (nt_type n) (state_flags (nt_type n) ! nt_state n) c"
| "to_notify Cat_recovery type n c =
     (if \<not> notify_on (nt_type n) nf_ok c \<and> \<not> notify_on (nt_type n) nf_up c then False
      else (case nt_notification n Cat_normal of None \<Rightarrow> False | Some o' \<Rightarrow> sent_to (ct_name c) o'))"
| "to_notify Cat_acknowledgement type n c = True"
| "to_notify Cat_flapping type n c = notify_on (nt_type n) (flapping_flag type) c"
| "to_notify Cat_downtime type n c = notify_on (nt_type n) nf_downtime c"
| "to_notify Cat_custom type n c = True"

definition should_be_notified :: "nenv \<Rightarrow> category \<Rightarrow> reason \<Rightarrow> notifier \<Rightarrow> contact \<Rightarrow> bool" where
  "should_be_notified env cat type n c =
     (case nt_type n of
        Service_notification \<Rightarrow>
          ct_service_notifications_enabled c \<and> check_period env True (ct_service_notification_period c) \<and>
          to_notify cat type n c
      | Host_notification \<Rightarrow>
          ct_host_notifications_enabled c \<and> check_period env True (ct_host_notification_period c) \<and>
          to_notify cat type n c)"

definition escalation_new :: "u32 \<Rightarrow> u32 \<Rightarrow> rat \<Rightarrow> string option \<Rightarrow> u32 \<Rightarrow> escalation" where
  "escalation_new first_n last_n interval period on =
     \<lparr>es_first_notification = first_n, es_last_notification = last_n,
      es_notification_interval = (if interval < 0 then 0 else interval), es_period = period, es_escalate_on = on,
      es_contact_groups = []\<rparr>"

definition escalation_is_viable :: "nenv \<Rightarrow> notifier_type \<Rightarrow> nat \<Rightarrow> u32 \<Rightarrow> escalation \<Rightarrow> bool" where
  "escalation_is_viable env t state number e =
     (if \<not> check_period env False (es_period e) then False
      else if number < es_first_notification e \<or>
              (number > es_last_notification e \<and> es_last_notification e \<noteq> 0) then False
      else has_flag (es_escalate_on e) (state_flags t ! state))"

text \<open>The loop over the escalations: the set of contacts, the interval and whether one is viable.\<close>

definition u32_of_double :: "rat \<Rightarrow> u32" where
  "u32_of_double r = of_int \<lfloor>r\<rfloor>"

fun escalated_contacts :: "nenv \<Rightarrow> category \<Rightarrow> reason \<Rightarrow> notifier \<Rightarrow> escalation list \<Rightarrow> contact list \<times> u32 \<times> bool \<Rightarrow>
    contact list \<times> u32 \<times> bool" where
  "escalated_contacts env cat type n [] acc = acc"
| "escalated_contacts env cat type n (e # es) (cs, interv, escalated) =
     (if escalation_is_viable env (nt_type n) (nt_state n) (of_int (nt_number n)) e then
        (let interv1 = (if escalated then
                          (if es_notification_interval e < of_int (uint interv)
                           then u32_of_double (es_notification_interval e) else interv)
                        else u32_of_double (es_notification_interval e));
             more = filter (should_be_notified env cat type n) (concat (es_contact_groups e)) in
         escalated_contacts env cat type n es (cs @ more, interv1, True))
      else escalated_contacts env cat type n es (cs, interv, escalated))"

definition get_contacts_to_notify :: "nenv \<Rightarrow> category \<Rightarrow> reason \<Rightarrow> notifier \<Rightarrow> contact list \<times> u32 \<times> bool" where
  "get_contacts_to_notify env cat type n =
     (let (cs, interv, escalated) =
            escalated_contacts env cat type n (nt_escalations n) ([], nt_notification_interval n, False) in
      if escalated then (remdups cs, interv, True)
      else
        (remdups (filter (should_be_notified env cat type n) (nt_contacts n @ concat (nt_contact_groups n))),
         interv, False))"

subsection \<open>Sending\<close>

text \<open>
  \<open>execute\<close>: the result, and the notification with the names of the contacts that were reached, a sorted
  set.
\<close>

definition notification_execute :: "nenv \<Rightarrow> contact list \<Rightarrow> notification \<Rightarrow> bool \<times> notification" where
  "notification_execute env cs o' =
     (case ne_neb env of
        Neb_cancel \<Rightarrow> (False, o')
      | Neb_override \<Rightarrow> (True, o')
      | Neb_ok \<Rightarrow>
          (True, o'\<lparr>no_contacts :=
             fold insort_insert (map ct_name (filter (ne_notify_contact env) cs)) (no_contacts o')\<rparr>))"

definition add_contacts :: "string list \<Rightarrow> notification \<Rightarrow> notification" where
  "add_contacts names o' = o'\<lparr>no_contacts := fold insort_insert names (no_contacts o')\<rparr>"

text \<open>What is kept in \<open>_notification\<close> once a notification is sent.\<close>

definition keep_notification :: "category \<Rightarrow> reason \<Rightarrow> notification \<Rightarrow> notifier \<Rightarrow> notifier" where
  "keep_notification cat type o' n =
     (let ns = nt_notification n in
      case cat of
        Cat_normal \<Rightarrow>
          n\<lparr>nt_notification := ns(Cat_normal \<mapsto>
              (case ns Cat_normal of None \<Rightarrow> o' | Some p \<Rightarrow> add_contacts (no_contacts p) o'))\<rparr>
      | Cat_recovery \<Rightarrow> n\<lparr>nt_notification := ns(Cat_normal := None, Cat_recovery := None), nt_number := 0\<rparr>
      | Cat_flapping \<Rightarrow>
          n\<lparr>nt_notification := ns(Cat_flapping :=
              (if type = Reason_flappingstop \<or> type = Reason_flappingdisabled then None else Some o')), nt_number := 0\<rparr>
      | Cat_downtime \<Rightarrow>
          n\<lparr>nt_notification := ns(Cat_downtime :=
              (if type = Reason_downtimeend \<or> type = Reason_downtimecancelled then None else Some o'))\<rparr>
      | Cat_acknowledgement \<Rightarrow> n\<lparr>nt_notification := ns(Cat_acknowledgement := None)\<rparr>
      | Cat_custom \<Rightarrow> n\<lparr>nt_notification := ns(Cat_custom := None), nt_number := 0\<rparr>)"

text \<open>
  \<open>notify\<close>: the result, the names of the contacts that were reached, the notifier, and the next number of
  a notification, which all notifiers share.
\<close>

definition notify :: "nenv \<Rightarrow> reason \<Rightarrow> string \<Rightarrow> string \<Rightarrow> u32 \<Rightarrow> notifier \<times> u64 \<Rightarrow>
    (bool \<times> string list \<times> notifier \<times> u64) option" where
  "notify env type author message options s =
     (let cat = get_category type; (n, next_id) = s in
      case is_notification_viable env cat type options n of
        None \<Rightarrow> None
      | Some (viable, n1) \<Rightarrow>
          (if \<not> viable then Some (True, [], n1, next_id)
           else
             (let n2 = (if type \<noteq> Reason_recovery then n1\<lparr>nt_number := nt_number n1 + 1\<rparr> else n1);
                  (cs, interv, escalated) = get_contacts_to_notify env cat type n2;
                  n3 = n2\<lparr>nt_current_notification_id := next_id\<rparr>;
                  o' = \<lparr>no_type = reason_code type, no_author = author, no_message = message, no_options = options,
                        no_id = next_id, no_number = of_int (nt_number n3), no_escalated = escalated,
                        no_interval = interv, no_contacts = []\<rparr>;
                  (ok, o1) = notification_execute env cs o' in
              if \<not> ok then Some (False, [], n3, next_id + 1)
              else
                (let n4 = (if cs \<noteq> [] then n3\<lparr>nt_last_notification := ne_now env\<rparr> else n3) in
                 Some (True, no_contacts o1, keep_notification cat type o1 n4, next_id + 1)))))"

definition set_notification_number :: "int \<Rightarrow> notifier \<Rightarrow> notifier" where
  "set_notification_number num n = n\<lparr>nt_number := num\<rparr>"

subsection \<open>The retention file\<close>

definition print_notification :: "notification \<Rightarrow> string" where
  "print_notification o' =
     ''type: '' @ dec (nat (no_type o')) @ '', author: '' @ no_author o' @ '', options: '' @ dec (unat (no_options o')) @
     '', escalated: '' @ (if no_escalated o' then ''1'' else ''0'') @ '', id: '' @ dec (unat (no_id o')) @
     '', number: '' @ dec (unat (no_number o')) @ '', interval: '' @ dec (unat (no_interval o')) @ '', contacts: '' @
     concat (map (\<lambda>c. c @ '','') (no_contacts o')) @ [CHR 0x0A]"

text \<open>
  The steps of \<open>set_notification\<close>: a label, an integer followed by the separator, the text up to a comma. A
  pointer moved past the end of the string is undefined behaviour. \<open>None\<close> stands for the early return.
\<close>

definition expect :: "string \<Rightarrow> string \<Rightarrow> string option" where
  "expect label v = (if take (length label) v = label then Some (drop (length label) v) else None)"

definition int_field :: "string \<Rightarrow> (int \<times> string) option" where
  "int_field v =
     (let (x, next) = strtol v in
      if next = v \<or> take 2 next \<noteq> '', '' then None else Some (x, drop 2 next))"

definition skip_separator :: "string \<Rightarrow> (exn + string)" where
  "skip_separator next = (if length next < 2 then Inl Undefined else Inr (drop 2 next))"

fun split_contacts :: "string \<Rightarrow> string \<Rightarrow> string list" where
  "split_contacts word [] = []"
| "split_contacts word (c # s) =
     (if (c = CHR '','' \<or> c = CHR 0x0A) \<and> word \<noteq> [] then word # split_contacts [] s
      else split_contacts (word @ [c]) s)"

definition parse_fields :: "int \<Rightarrow> string \<Rightarrow> string \<Rightarrow> (notification \<times> string) option" where
  "parse_fields type author v1 =
     do {
       v2 \<leftarrow> expect ''options: '' v1;
       (options, v3) \<leftarrow> int_field v2;
       v4 \<leftarrow> expect ''escalated: '' v3;
       (escalated, v5) \<leftarrow> int_field v4;
       v6 \<leftarrow> expect ''id: '' v5;
       (id, v7) \<leftarrow> int_field v6;
       v8 \<leftarrow> expect ''number: '' v7;
       (number, v9) \<leftarrow> int_field v8;
       v10 \<leftarrow> expect ''interval: '' v9;
       (let (interval, next) = strtol v10 in
        if next = v10 then None
        else Some (\<lparr>no_type = type, no_author = author, no_message = [], no_options = of_int options,
                    no_id = of_int (sint (of_int id :: u32)), no_number = of_int number,
                    no_escalated = (escalated \<noteq> 0), no_interval = of_int interval, no_contacts = []\<rparr>, next))
     }"

definition parse_contacts :: "string \<Rightarrow> string list" where
  "parse_contacts v =
     (case expect ''contacts: '' v of None \<Rightarrow> [] | Some s \<Rightarrow> fold insort_insert (split_contacts [] s) [])"

definition set_notification :: "category \<Rightarrow> string \<Rightarrow> notifier \<Rightarrow> (exn + notifier)" where
  "set_notification cat value n =
     (case Option.bind (expect ''type: '' (takeWhile (\<lambda>c. c \<noteq> CHR 0x00) value)) int_field of
        None \<Rightarrow> Inr n
      | Some (type, v) \<Rightarrow>
          (case expect ''author: '' v of
             None \<Rightarrow> Inr n
           | Some v1 \<Rightarrow>
               (case skip_separator (dropWhile (\<lambda>c. c \<noteq> CHR '','') v1) of
                  Inl x \<Rightarrow> Inl x
                | Inr v2 \<Rightarrow>
                    (case parse_fields type (takeWhile (\<lambda>c. c \<noteq> CHR '','') v1) v2 of
                       None \<Rightarrow> Inr n
                     | Some (o', next) \<Rightarrow>
                         (case skip_separator next of
                            Inl x \<Rightarrow> Inl x
                          | Inr v3 \<Rightarrow>
                              Inr (n\<lparr>nt_notification := (nt_notification n)(cat \<mapsto>
                                      o'\<lparr>no_contacts := parse_contacts v3\<rparr>)\<rparr>))))))"

end
