(* ===== verification/Notifier_Props.thy ===== *)
theory Notifier_Props
  imports Notifier
begin

section \<open>What the notifications guarantee\<close>

text \<open>
  Lemmas on \<^verbatim>\<open>Notifier\<close>: who is told about a recovery, how often a problem is notified again, which interval
  and which contacts the escalations choose, what the dependencies decide, and that the text of a
  notification in the retention file is read back.
\<close>

subsection \<open>One notification\<close>

lemma set_fold_insort [simp]: "set (fold insort_insert xs ys) = set xs \<union> set ys"
  by (induction xs arbitrary: ys) (auto simp: set_insort_insert)

lemma viable_keeps_normal:
  assumes "is_notification_viable env cat type options n = Some (True, n1)"
  shows "n1 = n"
  using assms
  by (auto simp: is_notification_viable_def is_notification_viable_recovery_def split: category.splits verdict.splits)

lemma escalated_contacts_subset:
  "set (fst (escalated_contacts env cat type n es (cs, i, b))) \<subseteq>
     set cs \<union> {c. should_be_notified env cat type n c}"
proof (induction es arbitrary: cs i b)
  case (Cons e es)
  show ?case
  proof (cases "escalation_is_viable env (nt_type n) (nt_state n) (of_int (nt_number n)) e")
    case True
    let ?cs = "cs @ filter (should_be_notified env cat type n) (concat (es_contact_groups e))"
    have "set ?cs \<subseteq> set cs \<union> {c. should_be_notified env cat type n c}" by auto
    with True Cons.IH [of ?cs] show ?thesis by (fastforce simp: Let_def)
  next
    case False
    with Cons.IH [of cs i b] show ?thesis by simp
  qed
qed simp

lemma contacts_should_be_notified:
  assumes "get_contacts_to_notify env cat type n = (cs, i, b)" "c \<in> set cs"
  shows "should_be_notified env cat type n c"
  using assms escalated_contacts_subset [of env cat type n "nt_escalations n" "[]" "nt_notification_interval n" False]
  by (auto simp: get_contacts_to_notify_def split: prod.splits if_splits)

text \<open>The cases of a call: nothing happens, a module cancels, or the notification is made.\<close>

lemma notify_cases:
  assumes "notify env type author message options (n, nid) = Some (ok, names, n', nid')"
  obtains (rejected) "is_notification_viable env (get_category type) type options n = Some (False, n')" "names = []"
  | (cancelled) n2 where "names = []" "nt_notification n' = nt_notification n" "nt_number n' = nt_number n2"
      "n2 = (if type \<noteq> Reason_recovery then n\<lparr>nt_number := nt_number n + 1\<rparr> else n)"
  | (made) n2 cs interv escalated o1 where
      "is_notification_viable env (get_category type) type options n = Some (True, n)"
      "n2 = (if type \<noteq> Reason_recovery then n\<lparr>nt_number := nt_number n + 1\<rparr> else n)"
      "get_contacts_to_notify env (get_category type) type n2 = (cs, interv, escalated)"
      "names = no_contacts o1" "set names \<subseteq> ct_name ` set cs" "no_interval o1 = interv"
      "n' = keep_notification (get_category type) type o1
         (if cs \<noteq> [] then n2\<lparr>nt_current_notification_id := nid, nt_last_notification := ne_now env\<rparr>
          else n2\<lparr>nt_current_notification_id := nid\<rparr>)"
proof -
  obtain viable n1 where v: "is_notification_viable env (get_category type) type options n = Some (viable, n1)"
    using assms by (cases "is_notification_viable env (get_category type) type options n") (auto simp: notify_def)
  show thesis
  proof (cases viable)
    case False
    with v assms rejected show thesis by (simp add: notify_def)
  next
    case True
    have n1: "n1 = n" using viable_keeps_normal v True by simp
    define n2 where "n2 = (if type \<noteq> Reason_recovery then n\<lparr>nt_number := nt_number n + 1\<rparr> else n)"
    obtain cs interv escalated where c: "get_contacts_to_notify env (get_category type) type n2 = (cs, interv, escalated)"
      by (cases "get_contacts_to_notify env (get_category type) type n2")
    define o' where "o' = \<lparr>no_type = reason_code type, no_author = author, no_message = message, no_options = options,
        no_id = nid, no_number = of_int (nt_number n2), no_escalated = escalated, no_interval = interv, no_contacts = []\<rparr>"
    obtain sent o1 where e: "notification_execute env cs o' = (sent, o1)" by fastforce
    have o1: "set (no_contacts o1) \<subseteq> ct_name ` set cs" "no_interval o1 = interv"
      using e by (auto simp: notification_execute_def o'_def split: neb_result.splits)
    have r: "(ok, names, n', nid') = (if \<not> sent then (False, [], n2\<lparr>nt_current_notification_id := nid\<rparr>, nid + 1)
        else (True, no_contacts o1, keep_notification (get_category type) type o1
          (if cs \<noteq> [] then n2\<lparr>nt_current_notification_id := nid, nt_last_notification := ne_now env\<rparr>
           else n2\<lparr>nt_current_notification_id := nid\<rparr>), nid + 1))"
      using assms v True c e unfolding notify_def n1 by (auto simp: n2_def [symmetric] o'_def Let_def)
    show thesis
    proof (cases sent)
      case False
      then show thesis using cancelled [OF _ _ _ n2_def] r by (simp add: n2_def)
    next
      case s: True
      then show thesis using made [OF _ n2_def c _ _ o1(2)] r v True n1 o1(1) by simp
    qed
  qed
qed

subsection \<open>Histories\<close>

text \<open>
  The life of a notifier: calls of \<open>notify\<close> in any environment, and changes of everything but the
  notifications that are kept. The history lists the calls with the contacts that were reached.
\<close>

inductive nf_history :: "notifier \<Rightarrow> (reason \<times> string list) list \<Rightarrow> notifier \<Rightarrow> bool" for n0 :: notifier where
  nf_start: "nf_history n0 [] n0"
| nf_call: "nf_history n0 h n \<Longrightarrow> notify env type author message options (n, nid) = Some (ok, names, n', nid') \<Longrightarrow>
    nf_history n0 (h @ [(type, names)]) n'"
| nf_change: "nf_history n0 h n \<Longrightarrow> nt_notification n' = nt_notification n \<Longrightarrow> nf_history n0 h n'"

definition told_since_recovery :: "string \<Rightarrow> (reason \<times> string list) list \<Rightarrow> bool" where
  "told_since_recovery c h \<longleftrightarrow>
     (\<exists>h1 ds h2. h = h1 @ (Reason_normal, ds) # h2 \<and> c \<in> set ds \<and>
       (\<forall>x \<in> set h2. fst x \<noteq> Reason_recovery \<or> snd x = []))"

lemma told_extend:
  assumes "told_since_recovery c h" "r \<noteq> Reason_recovery \<or> ds = []"
  shows "told_since_recovery c (h @ [(r, ds)])"
proof -
  obtain h1 es h2 where "h = h1 @ (Reason_normal, es) # h2" "c \<in> set es"
      "\<forall>x \<in> set h2. fst x \<noteq> Reason_recovery \<or> snd x = []"
    using assms(1) by (auto simp: told_since_recovery_def)
  with assms(2) show ?thesis unfolding told_since_recovery_def
    by (intro exI [of _ h1] exI [of _ es] exI [of _ "h2 @ [(r, ds)]"]) auto
qed

lemma told_now: "c \<in> set ds \<Longrightarrow> told_since_recovery c (h @ [(Reason_normal, ds)])"
  unfolding told_since_recovery_def by (intro exI [of _ h] exI [of _ ds] exI [of _ "[]"]) simp

definition normal_contacts :: "notifier \<Rightarrow> string set" where
  "normal_contacts n = (case nt_notification n Cat_normal of None \<Rightarrow> {} | Some o' \<Rightarrow> set (no_contacts o'))"

lemma keep_normal_contacts:
  "normal_contacts (keep_notification cat type o1 n) =
     (if cat = Cat_normal then set (no_contacts o1) \<union> normal_contacts n
      else if cat = Cat_recovery then {} else normal_contacts n)"
  by (cases cat) (auto simp: keep_notification_def normal_contacts_def add_contacts_def split: option.splits)

lemma category_recovery [simp]:
  "get_category type = Cat_recovery \<longleftrightarrow> type = Reason_recovery"
  "get_category type = Cat_normal \<longleftrightarrow> type = Reason_normal"
  by (cases type; simp)+

lemma rejected_contacts:
  "is_notification_viable env cat type options n = Some (False, n') \<Longrightarrow> normal_contacts n' \<subseteq> normal_contacts n"
  by (auto simp: is_notification_viable_def is_notification_viable_recovery_def normal_contacts_def
      split: category.splits verdict.splits option.splits)

lemma call_contacts:
  assumes "notify env type author message options (n, nid) = Some (ok, names, n', nid')"
  shows "type = Reason_recovery \<longrightarrow> set names \<subseteq> normal_contacts n"
    "normal_contacts n' \<subseteq> normal_contacts n \<union> (if type = Reason_normal then set names else {})"
    "type = Reason_recovery \<and> names \<noteq> [] \<longrightarrow> normal_contacts n' = {}"
proof -
  have "(type = Reason_recovery \<longrightarrow> set names \<subseteq> normal_contacts n) \<and>
    normal_contacts n' \<subseteq> normal_contacts n \<union> (if type = Reason_normal then set names else {}) \<and>
    (type = Reason_recovery \<and> names \<noteq> [] \<longrightarrow> normal_contacts n' = {})"
    using assms
  proof (cases rule: notify_cases)
    case rejected
    with rejected_contacts show ?thesis by fastforce
  next
    case (cancelled n2)
    then show ?thesis by (simp add: normal_contacts_def)
  next
    case (made n2 cs interv escalated o1)
    let ?m = "if cs \<noteq> [] then n2\<lparr>nt_current_notification_id := nid, nt_last_notification := ne_now env\<rparr>
      else n2\<lparr>nt_current_notification_id := nid\<rparr>"
    have m: "normal_contacts ?m = normal_contacts n" "normal_contacts n2 = normal_contacts n"
      by (simp_all add: made(2) normal_contacts_def)
    have "set names \<subseteq> normal_contacts n" if "type = Reason_recovery"
    proof
      fix c assume "c \<in> set names"
      then obtain d where d: "d \<in> set cs" "c = ct_name d" using made(5) by auto
      from contacts_should_be_notified [OF made(3) d(1)] that have "to_notify Cat_recovery type n2 d"
        by (auto simp: should_be_notified_def simp del: to_notify.simps split: notifier_type.splits)
      then have "c \<in> normal_contacts n2"
        by (auto simp: normal_contacts_def sent_to_def d(2) split: if_splits option.splits)
      with m(2) show "c \<in> normal_contacts n" by simp
    qed
    moreover have "normal_contacts n' = (if type = Reason_normal then set names \<union> normal_contacts n
        else if type = Reason_recovery then {} else normal_contacts n)"
      unfolding made(7) keep_normal_contacts m(1) by (simp add: made(4))
    ultimately show ?thesis by auto
  qed
  then show "type = Reason_recovery \<longrightarrow> set names \<subseteq> normal_contacts n"
    "normal_contacts n' \<subseteq> normal_contacts n \<union> (if type = Reason_normal then set names else {})"
    "type = Reason_recovery \<and> names \<noteq> [] \<longrightarrow> normal_contacts n' = {}" by blast+
qed

lemma history_told:
  assumes "nf_history n0 h n" "nt_notification n0 Cat_normal = None" "c \<in> normal_contacts n"
  shows "told_since_recovery c h"
  using assms
proof (induction arbitrary: c rule: nf_history.induct)
  case nf_start
  then show ?case by (simp add: normal_contacts_def)
next
  case (nf_call h n env type author message options nid ok names n' nid')
  note k = call_contacts [OF nf_call.hyps(2)]
  have r: "type \<noteq> Reason_recovery \<or> names = []" using k(3) nf_call.prems(2) by auto
  show ?case
  proof (cases "c \<in> normal_contacts n")
    case True
    from told_extend [OF nf_call.IH [OF nf_call.prems(1) True] r] show ?thesis .
  next
    case False
    then have "type = Reason_normal" "c \<in> set names" using k(2) nf_call.prems(2) by (auto split: if_splits)
    then show ?thesis using told_now by blast
  qed
next
  case (nf_change h n n')
  then show ?case by (simp add: normal_contacts_def)
qed

subsection \<open>Escalations\<close>

definition viable_escalations :: "nenv \<Rightarrow> notifier \<Rightarrow> escalation list \<Rightarrow> escalation list" where
  "viable_escalations env n es =
     filter (escalation_is_viable env (nt_type n) (nt_state n) (of_int (nt_number n))) es"

lemma uint_double: "0 \<le> r \<Longrightarrow> r < 2 ^ 32 \<Longrightarrow> uint (u32_of_double r) = \<lfloor>r\<rfloor>"
proof -
  assume a: "0 \<le> r" "r < 2 ^ 32"
  have "\<lfloor>r\<rfloor> < 2 ^ 32" using a(2) by (simp add: floor_less_iff)
  then show ?thesis unfolding u32_of_double_def using a(1) by (simp add: uint_word_of_int take_bit_int_eq_self)
qed

lemma less_floor: "r < of_int \<lfloor>x\<rfloor> \<longleftrightarrow> \<lfloor>r\<rfloor> < \<lfloor>x\<rfloor>"
  by (simp add: floor_less_iff)

lemma min_double:
  "(if \<lfloor>x\<rfloor> < \<lfloor>r\<rfloor> then u32_of_double x else u32_of_double r) = u32_of_double (min x r)"
proof (cases "x \<le> r")
  case True
  then show ?thesis using floor_mono [OF True] by (auto simp: u32_of_double_def min_def)
next
  case False
  then have "\<lfloor>r\<rfloor> \<le> \<lfloor>x\<rfloor>" by (intro floor_mono) simp
  with False show ?thesis by (simp add: min_def)
qed

lemma escalated_contacts_fold:
  assumes "\<forall>e \<in> set es. 0 \<le> es_notification_interval e \<and> es_notification_interval e < 2 ^ 32" "0 \<le> r" "r < 2 ^ 32"
  shows "escalated_contacts env cat type n es (cs, u32_of_double r, True) =
    (cs @ concat (map (\<lambda>e. filter (should_be_notified env cat type n) (concat (es_contact_groups e)))
       (viable_escalations env n es)),
     u32_of_double (fold min (map es_notification_interval (viable_escalations env n es)) r), True)"
  using assms
proof (induction es arbitrary: cs r)
  case (Cons e es)
  show ?case
  proof (cases "escalation_is_viable env (nt_type n) (nt_state n) (of_int (nt_number n)) e")
    case True
    have e: "0 \<le> es_notification_interval e" "es_notification_interval e < 2 ^ 32" using Cons.prems(1) by auto
    have "(if es_notification_interval e < of_int (uint (u32_of_double r))
        then u32_of_double (es_notification_interval e) else u32_of_double r) =
      u32_of_double (min (es_notification_interval e) r)"
      unfolding uint_double [OF Cons.prems(2,3)] less_floor by (rule min_double)
    with True Cons.prems e Cons.IH [of "min (es_notification_interval e) r"] show ?thesis
      by (simp add: viable_escalations_def Let_def)
  next
    case False
    with Cons show ?thesis by (simp add: viable_escalations_def)
  qed
qed (simp add: viable_escalations_def)

lemma escalated_contacts_none:
  assumes "\<forall>e \<in> set es. 0 \<le> es_notification_interval e \<and> es_notification_interval e < 2 ^ 32"
  shows "escalated_contacts env cat type n es ([], i, False) =
    (case viable_escalations env n es of
       [] \<Rightarrow> ([], i, False)
     | e # vs \<Rightarrow>
         (concat (map (\<lambda>e. filter (should_be_notified env cat type n) (concat (es_contact_groups e))) (e # vs)),
          u32_of_double (fold min (map es_notification_interval vs) (es_notification_interval e)), True))"
  using assms
proof (induction es)
  case (Cons e es)
  then show ?case
    using escalated_contacts_fold [of es "es_notification_interval e"]
    by (simp add: viable_escalations_def Let_def)
qed (simp add: viable_escalations_def)

subsection \<open>Dependencies\<close>

text \<open>A dependency of the wanted kind that fails, or whose master is itself blocked and passes it on.\<close>

definition dep_state :: "nenv \<Rightarrow> nat \<Rightarrow> nat" where
  "dep_state env i =
     (if \<not> dn_hard (ne_graph env i) \<and> \<not> ne_soft_state_dependencies env then dn_last_hard_state (ne_graph env i)
      else dn_current_state (ne_graph env i))"

definition dep_fails :: "nenv \<Rightarrow> nat \<Rightarrow> dependency \<Rightarrow> bool" where
  "dep_fails env i d \<longleftrightarrow>
     dp_fail_on d ! dep_state env i \<or> (dep_state env i = 0 \<and> \<not> dn_checked (ne_graph env i) \<and> dp_fail_on_pending d)"

inductive dep_blocked :: "nenv \<Rightarrow> bool \<Rightarrow> dependency list \<Rightarrow> bool" for env :: nenv and notif :: bool where
  fails: "d \<in> set ds \<Longrightarrow> dp_notification d = notif \<Longrightarrow> dp_master d = Some i \<Longrightarrow> dep_fails env i d \<Longrightarrow>
    dep_blocked env notif ds"
| inherits: "d \<in> set ds \<Longrightarrow> dp_notification d = notif \<Longrightarrow> dp_master d = Some i \<Longrightarrow> dp_inherits_parent d \<Longrightarrow>
    dep_blocked env notif (dn_dependencies (ne_graph env i)) \<Longrightarrow> dep_blocked env notif ds"

inductive_simps dep_blocked_iff: "dep_blocked env notif ds"

lemma dep_blocked_Nil [simp]: "\<not> dep_blocked env notif []"
  by (auto elim: dep_blocked.cases)

lemma dep_blocked_Cons:
  "dep_blocked env notif (d # ds) \<longleftrightarrow>
     (\<exists>i. dp_notification d = notif \<and> dp_master d = Some i \<and>
        (dep_fails env i d \<or> (dp_inherits_parent d \<and> dep_blocked env notif (dn_dependencies (ne_graph env i))))) \<or>
     dep_blocked env notif ds"
  unfolding dep_blocked_iff [of env notif "d # ds"] dep_blocked_iff [of env notif ds] by auto

definition deps_active :: "nenv \<Rightarrow> bool \<Rightarrow> (nat \<Rightarrow> nat) \<Rightarrow> nat \<Rightarrow> dependency list \<Rightarrow> bool" where
  "deps_active env notif rank r ds \<longleftrightarrow>
     (\<forall>d \<in> set ds. dp_notification d = notif \<longrightarrow>
        check_period env False (dp_period d) \<and> (\<forall>i. dp_master d = Some i \<longrightarrow> rank i < r))"

lemma authorized_loop_decides:
  assumes "\<forall>i. deps_active env notif rank (rank i) (dn_dependencies (ne_graph env i))" "deps_active env notif rank r ds"
  shows "authorized_loop env notif ds = Some (\<not> dep_blocked env notif ds)"
  using assms(2)
proof (induction "(r, length ds)" arbitrary: r ds rule: wf_induct_rule [OF wf_lex_prod [OF wf_less wf_less]])
  case 1
  show ?case
  proof (cases ds)
    case (Cons d ds')
    have IH: "authorized_loop env notif ds' = Some (\<not> dep_blocked env notif ds')"
      using 1(1) [of r ds'] 1(2) Cons by (simp add: deps_active_def)
    have m: "authorized_loop env notif (dn_dependencies (ne_graph env i)) =
        Some (\<not> dep_blocked env notif (dn_dependencies (ne_graph env i)))"
      if "dp_notification d = notif" "dp_master d = Some i" for i
      using 1(1) [of "rank i" "dn_dependencies (ne_graph env i)"] assms(1) 1(2) that Cons
      by (simp add: deps_active_def)
    have p: "dp_notification d = notif \<longrightarrow> check_period env False (dp_period d)"
      using 1(2) Cons by (simp add: deps_active_def)
    show ?thesis
    proof (cases "dp_notification d = notif \<and> dp_master d \<noteq> None")
      case True
      then obtain i where i: "dp_master d = Some i" by auto
      show ?thesis
        using True i p IH m [of i] Cons
        by (simp add: authorized_loop.simps [of env notif "d # ds'"] dep_blocked_Cons Let_def dep_fails_def dep_state_def)
    next
      case False
      then show ?thesis
        using IH Cons by (auto simp: authorized_loop.simps [of env notif "d # ds'"] dep_blocked_Cons split: option.splits)
    qed
  qed (simp add: authorized_loop.simps)
qed

subsection \<open>The text of a notification\<close>

lemma expect_append [simp]: "expect label (label @ v) = Some v"
  by (simp add: expect_def)

lemma int_field_dec:
  assumes "int n < 2 ^ 63"
  shows "int_field (dec n @ CHR '','' # CHR '' '' # v) = Some (int n, v)"
  using strtol_dec [OF assms, of "CHR '','' # CHR '' '' # v"] by (simp add: int_field_def is_digit_def Let_def)

lemma split_contacts_word:
  "CHR '','' \<notin> set c \<Longrightarrow> CHR 0x0A \<notin> set c \<Longrightarrow> w @ c \<noteq> [] \<Longrightarrow>
   split_contacts w (c @ CHR '','' # s) = (w @ c) # split_contacts [] s"
  by (induction c arbitrary: w) auto

lemma split_contacts_print:
  "list_all (\<lambda>c. c \<noteq> [] \<and> CHR '','' \<notin> set c \<and> CHR 0x0A \<notin> set c) cs \<Longrightarrow>
   split_contacts [] (concat (map (\<lambda>c. c @ '','') cs) @ [CHR 0x0A]) = cs"
proof (induction cs)
  case (Cons c cs)
  then show ?case using split_contacts_word [of c "[]"] by simp
qed simp

lemma fold_insort_sorted:
  assumes "sorted_wrt (<) (cs :: string list)"
  shows "fold insort_insert cs [] = cs"
proof -
  have "fold insort_insert cs xs = xs @ cs" if "sorted_wrt (<) (xs @ cs)" for xs
    using that
  proof (induction cs arbitrary: xs)
    case (Cons c cs)
    have "\<forall>x \<in> set xs. x < c" "sorted xs"
      using Cons.prems by (auto simp: sorted_wrt_append strict_sorted_iff)
    then have "insort_insert c xs = xs @ [c]"
      by (auto simp: insort_insert_key_def intro!: sorted_insort_is_snoc)
    with Cons show ?case by simp
  qed simp
  from this [of "[]"] assms show ?thesis by simp
qed

lemma print_no_nul:
  assumes "CHR 0x00 \<notin> set (no_author o')" "list_all (\<lambda>c. CHR 0x00 \<notin> set c) (no_contacts o')"
  shows "CHR 0x00 \<notin> set (print_notification o')"
proof -
  have d: "CHR 0x00 \<notin> set (dec n)" for n using dec_digits by (fastforce simp: is_digit_def)
  have "CHR 0x00 \<notin> set (concat (map (\<lambda>c. c @ '','') (no_contacts o')))"
    using assms(2) by (auto simp: list_all_iff)
  with assms(1) d show ?thesis by (simp add: print_notification_def)
qed

lemma nat_small:
  assumes "n < (2 ^ 31 :: nat)"
  shows "int n < 2 ^ 63" "sint (of_int (int n) :: u32) = int n"
proof -
  show "int n < 2 ^ 63" using assms by simp
  have "signed_take_bit 31 (int n) = int n" using assms by (intro signed_take_bit_int_eq_self) simp_all
  then show "sint (of_int (int n) :: u32) = int n" unfolding sint_sbintrunc' by simp
qed

lemma narrow_id:
  assumes "unat (w :: u64) < 2 ^ 31"
  shows "of_int (sint (of_int (int (unat w)) :: u32)) = w"
  unfolding nat_small(2) [OF assms] by simp

lemma unat_small: "int (unat (w :: u32)) < 2 ^ 63"
  using uint_lt2p [of w] by simp

lemma dec_bool: "dec (if b then 1 else 0) = (if b then ''1'' else ''0'')"
  by (cases b) (simp only: if_True if_False, code_simp)+

lemma parse_printed_fields:
  assumes "unat (no_id o') < 2 ^ 31" "no_message o' = []"
  shows "parse_fields (no_type o') (no_author o')
      (''options: '' @ dec (unat (no_options o')) @ '', escalated: '' @ (if no_escalated o' then ''1'' else ''0'') @
       '', id: '' @ dec (unat (no_id o')) @ '', number: '' @ dec (unat (no_number o')) @ '', interval: '' @
       dec (unat (no_interval o')) @ '', contacts: '' @ s) =
    Some (o'\<lparr>no_contacts := []\<rparr>, '', contacts: '' @ s)"
proof -
  have i: "int_field (dec (unat (no_id o')) @ CHR '','' # CHR '' '' # v) = Some (int (unat (no_id o')), v)" for v
    by (rule int_field_dec [OF nat_small(1) [OF assms(1)]])
  have b: "int_field (dec (if no_escalated o' then 1 else 0) @ CHR '','' # CHR '' '' # v) =
      Some (if no_escalated o' then 1 else 0, v)" for v
    using int_field_dec [of "if no_escalated o' then 1 else 0" v] by simp
  have t: "strtol (dec (unat (no_interval o')) @ '', contacts: '' @ s) = (int (unat (no_interval o')), '', contacts: '' @ s)"
    by (rule strtol_dec [OF unat_small]) (simp add: is_digit_def)
  note f = int_field_dec [OF unat_small]
  show ?thesis
    unfolding parse_fields_def dec_bool [symmetric] expect_append Option.bind.bind_lunit
    using assms(2) i b f t narrow_id [OF assms(1)]
    by (simp add: expect_def)
qed

subsection \<open>A sample notifier\<close>

text \<open>A host in a hard problem state with one contact, in an installation without time periods.\<close>

definition sample_contact :: "string \<Rightarrow> contact" where
  "sample_contact name = \<lparr>ct_name = name, ct_host_notify_on = 7, ct_service_notify_on = 0,
     ct_host_notifications_enabled = True, ct_service_notifications_enabled = True,
     ct_host_notification_period = None, ct_service_notification_period = None\<rparr>"

definition sample_node :: "dependency list \<Rightarrow> nat \<Rightarrow> dep_node" where
  "sample_node ds state = \<lparr>dn_hard = True, dn_last_hard_state = state, dn_current_state = state, dn_checked = True,
     dn_dependencies = ds\<rparr>"

definition sample_nenv :: "int \<Rightarrow> nenv" where
  "sample_nenv now = \<lparr>ne_now = now, ne_enable_notifications = True, ne_interval_length = 60,
     ne_recovery_anyways = False, ne_soft_state_dependencies = False, ne_next_valid_time = (\<lambda>p t b. t),
     ne_graph = (\<lambda>i. sample_node [] 0), ne_neb = Neb_ok, ne_notify_contact = (\<lambda>c. True)\<rparr>"

definition sample_notifier :: notifier where
  "sample_notifier = \<lparr>nt_type = Host_notification, nt_id = 0,
     nt_host = \<lparr>hv_up = True, hv_hard = True, hv_downtime_depth = 0, hv_notification_period = None\<rparr>,
     nt_notify_on = 7, nt_notification_interval = 5, nt_first_notification_delay = 0,
     nt_recovery_notification_delay = 0, nt_notification_period = None, nt_notifications_enabled = True,
     nt_is_volatile = False, nt_is_flapping = False, nt_hard = True, nt_state = 1, nt_last_hard_state_change = 100,
     nt_acknowledged = False, nt_downtime_depth = 0, nt_contacts = [sample_contact ''bob''], nt_contact_groups = [],
     nt_escalations = [], nt_number = 0, nt_notification = Map.empty, nt_last_notification = 0,
     nt_current_notification_id = 0\<rparr>"

definition sample_notified :: "int \<Rightarrow> u64 \<Rightarrow> notifier \<Rightarrow> notifier" where
  "sample_notified now nid n = n\<lparr>nt_number := nt_number n + 1, nt_current_notification_id := nid, nt_last_notification := now,
     nt_notification := [Cat_normal \<mapsto> \<lparr>no_type = 0, no_author = [], no_message = [], no_options = 0, no_id = nid,
       no_number = of_int (nt_number n + 1), no_escalated = False, no_interval = 5, no_contacts = [''bob'']\<rparr>]\<rparr>"

lemmas notify_eval = notify_def is_notification_viable_def is_notification_viable_normal_def
  is_notification_viable_recovery_def recovery_verdict_def has_flag_def is_in_downtime_def check_period_def delay_def
  get_notify_on_current_state_def authorized_by_dependencies_def authorized_loop.simps [of _ _ "[]"]
  get_contacts_to_notify_def should_be_notified_def notify_on_def sent_to_def notification_execute_def
  keep_notification_def add_contacts_def insort_insert_key_def nf_up_def nf_down_def nf_ok_def
  sample_contact_def sample_node_def sample_nenv_def sample_notifier_def sample_notified_def option_forced_def

lemma sample_problem:
  "notify (sample_nenv 200) Reason_normal [] [] 0 (sample_notifier, 1) =
     Some (True, [''bob''], sample_notified 200 1 sample_notifier, 2)"
  by (simp add: notify_eval)

lemma sample_reminder:
  "notify (sample_nenv 500) Reason_normal [] [] 0 (sample_notified 200 1 sample_notifier, 2) =
     Some (True, [''bob''], sample_notified 500 2 (sample_notified 200 1 sample_notifier), 3)"
  by (simp add: notify_eval)

lemma sample_recovery:
  "\<exists>n. notify (sample_nenv 300) Reason_recovery [] [] 0 ((sample_notified 200 1 sample_notifier)\<lparr>nt_state := 0\<rparr>, 2) =
     Some (True, [''bob''], n, 3)"
  by (simp add: notify_eval)

definition sample_escalated :: notifier where
  "sample_escalated = sample_notifier\<lparr>nt_number := 3, nt_escalations :=
     [(escalation_new 2 0 (7 / 2) None 7)\<lparr>es_contact_groups := [[sample_contact ''eve'']]\<rparr>,
      (escalation_new 3 4 2 None 7)\<lparr>es_contact_groups := [[sample_contact ''joe'']]\<rparr>]\<rparr>"

lemma sample_escalation:
  "get_contacts_to_notify (sample_nenv 200) Cat_normal Reason_normal sample_escalated =
     ([sample_contact ''eve'', sample_contact ''joe''], 2, True)"
proof -
  have "\<lfloor>7 / 2 :: rat\<rfloor> = 3" by (rule floor_unique) simp_all
  then show ?thesis
    by (simp add: notify_eval sample_escalated_def escalation_new_def escalation_is_viable_def u32_of_double_def Let_def)
qed

definition sample_graph :: "nat \<Rightarrow> dep_node" where
  "sample_graph i =
     (let d = (\<lambda>j. \<lparr>dp_notification = True, dp_master = Some j, dp_period = None, dp_fail_on = [False, True, False],
                    dp_fail_on_pending = False, dp_inherits_parent = True\<rparr>) in
      if i = 0 then sample_node [d 1] 1 else if i = 1 then sample_node [d 2] 0 else sample_node [] 1)"

definition sample_text :: notification where
  "sample_text = \<lparr>no_type = 99, no_author = ''admin'', no_message = [], no_options = 2, no_id = 12, no_number = 3,
     no_escalated = True, no_interval = 5, no_contacts = [''bob'', ''eve'']\<rparr>"

subsection \<open>Properties\<close>

text \<open>
  C10. Whatever happens to a notifier, a contact is told about a recovery only if it was reached by a
  notification of the problem, and no recovery was announced in between.
\<close>

theorem recovery_only_to_notified:
  assumes "nf_history n0 h n" "nt_notification n0 Cat_normal = None"
    and "h = h1 @ (Reason_recovery, cs) # h2" "c \<in> set cs"
  shows "told_since_recovery c h1"
  using assms
proof (induction arbitrary: h2 rule: nf_history.induct)
  case (nf_call h n env type author message options nid ok names n' nid')
  show ?case
  proof (cases h2 rule: rev_cases)
    case Nil
    then have "h1 = h" "type = Reason_recovery" "names = cs" using nf_call.prems(2) by auto
    with call_contacts(1) [OF nf_call.hyps(2)] nf_call.prems(1,3) history_told [OF nf_call.hyps(1)] show ?thesis by blast
  next
    case (snoc h3 x)
    then have "h = h1 @ (Reason_recovery, cs) # h3" using nf_call.prems(2) by simp
    from nf_call.IH [OF nf_call.prems(1) this nf_call.prems(3)] show ?thesis .
  qed
qed auto

theorem recovery_only_to_notified_witness:
  "told_since_recovery ''bob'' [(Reason_normal, [''bob''])]"
proof -
  obtain n where n: "notify (sample_nenv 300) Reason_recovery [] [] 0
      ((sample_notified 200 1 sample_notifier)\<lparr>nt_state := 0\<rparr>, 2) = Some (True, [''bob''], n, 3)"
    using sample_recovery by blast
  have "nf_history sample_notifier ([] @ [(Reason_normal, [''bob''])]) (sample_notified 200 1 sample_notifier)"
    by (rule nf_call [OF nf_start sample_problem])
  then have "nf_history sample_notifier [(Reason_normal, [''bob''])] ((sample_notified 200 1 sample_notifier)\<lparr>nt_state := 0\<rparr>)"
    by (auto intro: nf_change)
  from nf_call [OF this n] show ?thesis
    by (rule recovery_only_to_notified [where cs = "[''bob'']" and ?h2.0 = "[]"]) (simp_all add: sample_notifier_def)
qed



text \<open>
  When escalations are viable, the interval of the notification is the smallest of theirs, rounded down,
  and exactly the contacts of their groups that accept the notification are told. Otherwise the
  interval and the contacts of the notifier are used.
\<close>

theorem escalation_choice:
  assumes "\<forall>e \<in> set (nt_escalations n). 0 \<le> es_notification_interval e \<and> es_notification_interval e < 2 ^ 32"
    and "get_contacts_to_notify env cat type n = (cs, interv, escalated)"
  defines "V \<equiv> set (viable_escalations env n (nt_escalations n))"
  shows "(escalated \<longleftrightarrow> V \<noteq> {}) \<and> distinct cs \<and>
    (V \<noteq> {} \<longrightarrow> interv = u32_of_double (Min (es_notification_interval ` V)) \<and>
       set cs = {c. \<exists>e \<in> V. \<exists>g \<in> set (es_contact_groups e). c \<in> set g \<and> should_be_notified env cat type n c}) \<and>
    (V = {} \<longrightarrow> interv = nt_notification_interval n \<and>
       set cs = {c. (c \<in> set (nt_contacts n) \<or> (\<exists>g \<in> set (nt_contact_groups n). c \<in> set g)) \<and>
                    should_be_notified env cat type n c})"
proof (cases "viable_escalations env n (nt_escalations n)")
  case Nil
  with assms(2) escalated_contacts_none [OF assms(1), of env cat type n "nt_notification_interval n"] show ?thesis
    by (auto simp: get_contacts_to_notify_def V_def)
next
  case (Cons e vs)
  have "Min (set (map es_notification_interval (e # vs))) = fold min (map es_notification_interval vs) (es_notification_interval e)"
    using Min.set_eq_fold [of "es_notification_interval e" "map es_notification_interval vs"] by simp
  with Cons assms(2) escalated_contacts_none [OF assms(1), of env cat type n "nt_notification_interval n"] show ?thesis
    by (auto simp: get_contacts_to_notify_def V_def)
qed

theorem escalation_choice_witness:
  "(2 :: u32) = u32_of_double (Min (es_notification_interval `
     set (viable_escalations (sample_nenv 200) sample_escalated (nt_escalations sample_escalated))))"
proof -
  have "\<forall>e \<in> set (nt_escalations sample_escalated). 0 \<le> es_notification_interval e \<and> es_notification_interval e < 2 ^ 32"
    by (simp add: sample_escalated_def escalation_new_def)
  from escalation_choice [OF this sample_escalation] show ?thesis by auto
qed

text \<open>
  C34. When the dependencies of the wanted kind have no cycle and are all within their time period, the search
  ends, and a host or service is authorized exactly if no dependency fails, its own or one inherited
  from a master. A dependency outside its period, however, ends the search with an authorization,
  whatever dependencies follow.
\<close>

theorem dependencies_decide:
  assumes "\<forall>i. deps_active env notif rank (rank i) (dn_dependencies (ne_graph env i))"
  shows "authorized_by_dependencies env notif j = Some (\<not> dep_blocked env notif (dn_dependencies (ne_graph env j))) \<and>
    (dp_notification d = notif \<and> dp_master d = Some i \<and> \<not> check_period env False (dp_period d) \<longrightarrow>
       authorized_loop env notif (d # ds) = Some True)"
  using authorized_loop_decides [OF assms assms [rule_format, of j]]
  by (simp add: authorized_by_dependencies_def authorized_loop.simps [of env notif "d # ds"])

theorem dependencies_decide_witness:
  "authorized_by_dependencies ((sample_nenv 200)\<lparr>ne_graph := sample_graph\<rparr>) True 0 =
     Some (\<not> dep_blocked ((sample_nenv 200)\<lparr>ne_graph := sample_graph\<rparr>) True (dn_dependencies (sample_graph 0)))"
  using dependencies_decide [of "(sample_nenv 200)\<lparr>ne_graph := sample_graph\<rparr>" True "\<lambda>i. 2 - i" 0]
  by (simp add: deps_active_def sample_graph_def sample_node_def check_period_def Let_def)

text \<open>
  C29. A notification written to the retention file is read back unchanged, except for its message, which is not
  written. Its reason must be in the range of the enumeration, its author and its contacts must have no comma, and
  its identifier must fit a signed 32-bit integer, which the reader narrows it to.
\<close>

theorem notification_text_roundtrip:
  assumes "no_message o' = []" "0 \<le> no_type o'" "no_type o' < 128" "unat (no_id o') < 2 ^ 31"
    and "list_all (\<lambda>s. CHR '','' \<notin> set s \<and> CHR 0x00 \<notin> set s) (no_author o' # no_contacts o')"
    and "list_all (\<lambda>s. s \<noteq> [] \<and> CHR 0x0A \<notin> set s) (no_contacts o')" "sorted_wrt (<) (no_contacts o')"
  shows "set_notification cat (print_notification o') n =
    Inr (n\<lparr>nt_notification := (nt_notification n)(cat \<mapsto> o')\<rparr>)"
proof -
  let ?p = "print_notification o'"
  define body where "body = ''options: '' @ dec (unat (no_options o')) @ '', escalated: '' @
    (if no_escalated o' then ''1'' else ''0'') @ '', id: '' @ dec (unat (no_id o')) @ '', number: '' @
    dec (unat (no_number o')) @ '', interval: '' @ dec (unat (no_interval o')) @ '', contacts: '' @
    concat (map (\<lambda>c. c @ '','') (no_contacts o')) @ [CHR 0x0A]"
  define v1 where "v1 = no_author o' @ '', '' @ body"
  have "takeWhile (\<lambda>c. c \<noteq> CHR 0x00) ?p = ?p"
    using print_no_nul [of o'] assms(5) by (auto simp: list_all_iff takeWhile_eq_all_conv)
  moreover have "?p = ''type: '' @ dec (nat (no_type o')) @ CHR '','' # CHR '' '' # ''author: '' @ v1"
    by (simp add: print_notification_def v1_def body_def)
  ultimately have v1: "Option.bind (expect ''type: '' (takeWhile (\<lambda>c. c \<noteq> CHR 0x00) ?p)) int_field =
      Some (no_type o', ''author: '' @ v1)"
    using int_field_dec [of "nat (no_type o')" "''author: '' @ v1"] assms(2,3)
    by (simp only: expect_append Option.bind.bind_lunit) simp
  have a: "takeWhile (\<lambda>c. c \<noteq> CHR '','') v1 = no_author o'" "dropWhile (\<lambda>c. c \<noteq> CHR '','') v1 = '', '' @ body"
    using assms(5) by (auto simp: v1_def takeWhile_tail dropWhile_append3 intro: takeWhile_append2 dropWhile_append2)
  have c: "parse_contacts (''contacts: '' @ concat (map (\<lambda>c. c @ '','') (no_contacts o')) @ [CHR 0x0A]) = no_contacts o'"
    unfolding parse_contacts_def expect_append
    using split_contacts_print [of "no_contacts o'"] fold_insort_sorted [OF assms(7)] assms(5,6)
    by (simp add: list_all_iff)
  have p: "parse_fields (no_type o') (no_author o') body =
      Some (o'\<lparr>no_contacts := []\<rparr>, '', contacts: '' @ concat (map (\<lambda>c. c @ '','') (no_contacts o')) @ [CHR 0x0A])"
    unfolding body_def by (rule parse_printed_fields [OF assms(4,1)])
  show ?thesis
    unfolding set_notification_def v1 option.case prod.case expect_append a
    using p c by (simp add: skip_separator_def)
qed

theorem notification_text_roundtrip_witness:
  "set_notification Cat_custom (print_notification sample_text) sample_notifier =
     Inr (sample_notifier\<lparr>nt_notification := [Cat_custom \<mapsto> sample_text]\<rparr>)"
  using notification_text_roundtrip [of sample_text Cat_custom sample_notifier]
  by (simp add: sample_text_def sample_notifier_def)

end
