(* ===== verification/Doubles.thy ===== *)
theory Doubles
  imports Collect_Prelude Complex_Main "HOL-Library.Log_Nat"
begin

section \<open>Floating point numbers\<close>

text \<open>
  The \<open>double\<close> and \<open>float\<close> of the language, as the levels and impacts of business activities use them. A finite
  value is the rational number it stands for; an operation is the exact one followed by the rounding of
  IEEE 754, to the nearest value with a significand of 53 or 24 bits, ties to the even one, with the least
  exponent of the format. A result beyond the largest finite value would be infinite; it is not modelled, as
  the levels stay far below. The lemmas show how far a rounding goes and which values it leaves alone.
\<close>

text \<open>The exponent of the power of two at or below a number.\<close>

definition binade :: "rat \<Rightarrow> int" where
  "binade x =
     (let (p, q) = quotient_of \<bar>x\<bar>; e = bitlen p - bitlen q in if 2 powi e \<le> \<bar>x\<bar> then e else e - 1)"

definition round_even :: "rat \<Rightarrow> int" where
  "round_even y =
     (let m = \<lfloor>y\<rfloor>; r = y - of_int m in
      if r < 1 / 2 then m else if r > 1 / 2 then m + 1 else if even m then m else m + 1)"

text \<open>The distance of neighbours around a number, and rounding to them.\<close>

definition fp_ulp :: "int \<Rightarrow> int \<Rightarrow> rat \<Rightarrow> rat" where
  "fp_ulp bits least x = 2 powi (max (binade x - (bits - 1)) least)"

definition fp_round :: "int \<Rightarrow> int \<Rightarrow> rat \<Rightarrow> rat" where
  "fp_round bits least x =
     (if x = 0 then 0 else let u = fp_ulp bits least x in of_int (round_even (x / u)) * u)"

definition double :: "rat \<Rightarrow> rat" where
  "double = fp_round 53 (- 1074)"

definition single :: "rat \<Rightarrow> rat" where
  "single = fp_round 24 (- 149)"

lemma binade_bounds:
  assumes "x \<noteq> 0"
  shows "2 powi (binade x) \<le> \<bar>x\<bar>" "\<bar>x\<bar> < 2 powi (binade x + 1)"
proof -
  obtain p q where pq: "quotient_of \<bar>x\<bar> = (p, q)" by (cases "quotient_of \<bar>x\<bar>")
  have q: "0 < q" using pq by (rule quotient_of_denom_pos)
  have x: "\<bar>x\<bar> = of_int p / of_int q" using pq by (rule quotient_of_div)
  have p: "0 < p" using x q assms by (simp add: zero_less_divide_iff flip: zero_less_abs_iff)
  have b: "(2 :: rat) powi (bitlen n - 1) \<le> of_int n" "of_int n < (2 :: rat) powi (bitlen n)" if "0 < n" for n
  proof -
    have l: "1 \<le> bitlen n" using that bitlen_bounds [of n] by (cases "bitlen n \<le> 0") (auto simp: bitlen_nonneg)
    have "(2 :: int) ^ nat (bitlen n - 1) \<le> n" "n < 2 ^ nat (bitlen n)" using bitlen_bounds [OF that] by simp_all
    then have "(of_int (2 ^ nat (bitlen n - 1)) :: rat) \<le> of_int n" "(of_int n :: rat) < of_int (2 ^ nat (bitlen n))"
      by (simp_all only: of_int_le_iff of_int_less_iff)
    then show "(2 :: rat) powi (bitlen n - 1) \<le> of_int n" "of_int n < (2 :: rat) powi (bitlen n)"
      using l by (simp_all add: power_int_def)
  qed
  define e where "e = bitlen p - bitlen q"
  have "\<bar>x\<bar> < 2 powi (bitlen p) / 2 powi (bitlen q - 1)"
    unfolding x by (rule frac_less) (use b [OF p] b [OF q] p q in auto)
  also have "\<dots> = 2 powi (e + 1)" by (simp add: e_def power_int_diff power_int_add field_simps)
  finally have 1: "\<bar>x\<bar> < 2 powi (e + 1)" .
  have "2 powi (e - 1) = 2 powi (bitlen p - 1) / (2 powi (bitlen q) :: rat)"
    by (simp add: e_def power_int_diff power_int_add field_simps)
  also have "\<dots> \<le> \<bar>x\<bar>"
    unfolding x by (rule frac_le) (use b [OF p] b [OF q] p q in auto)
  finally have 2: "2 powi (e - 1) \<le> \<bar>x\<bar>" .
  have e: "binade x = (if 2 powi e \<le> \<bar>x\<bar> then e else e - 1)"
    by (simp add: binade_def pq e_def Let_def)
  show "2 powi (binade x) \<le> \<bar>x\<bar>" "\<bar>x\<bar> < 2 powi (binade x + 1)"
    using 1 2 by (auto simp: e)
qed

lemma round_even_near: "\<bar>of_int (round_even y) - y\<bar> \<le> 1 / 2"
proof -
  have "of_int \<lfloor>y\<rfloor> \<le> y" "y < of_int \<lfloor>y\<rfloor> + 1" by linarith+
  then show ?thesis unfolding round_even_def Let_def abs_le_iff
    by (cases "y - of_int \<lfloor>y\<rfloor> < 1 / 2"; cases "y - of_int \<lfloor>y\<rfloor> > 1 / 2"; cases "even \<lfloor>y\<rfloor>"; simp; linarith)
qed

lemma round_even_int [simp]: "round_even (of_int m) = m"
  by (simp add: round_even_def)

text \<open>A rounding moves a number by half the distance of its neighbours at most.\<close>

lemma fp_round_error: "\<bar>fp_round bits least x - x\<bar> \<le> fp_ulp bits least x / 2"
proof (cases "x = 0")
  case False
  let ?u = "fp_ulp bits least x"
  have u: "0 < ?u" by (simp add: fp_ulp_def)
  have "fp_round bits least x - x = (of_int (round_even (x / ?u)) - x / ?u) * ?u"
    using False u by (simp add: fp_round_def Let_def field_simps)
  then have "\<bar>fp_round bits least x - x\<bar> = \<bar>of_int (round_even (x / ?u)) - x / ?u\<bar> * ?u"
    using u by (simp add: abs_mult)
  also have "\<dots> \<le> 1 / 2 * ?u" using u by (intro mult_right_mono round_even_near) simp
  finally show ?thesis by simp
qed (simp add: fp_round_def fp_ulp_def)

text \<open>A number that has a significand of the given length stays as it is.\<close>

lemma fp_round_exact:
  assumes "x = of_int m * 2 powi k" "\<bar>m\<bar> < 2 ^ nat bits" "0 \<le> bits" "least \<le> k"
  shows "fp_round bits least x = x"
proof (cases "x = 0")
  case False
  define e where "e = max (binade x - (bits - 1)) least"
  have "\<bar>x\<bar> = of_int \<bar>m\<bar> * 2 powi k" using assms(1) by (simp add: abs_mult)
  also have "\<dots> < of_int (2 ^ nat bits) * 2 powi k" using assms(2) by (simp only: mult_less_cancel_right_pos of_int_less_iff zero_less_power_int zero_less_numeral)
  also have "\<dots> = 2 powi (bits + k)" using assms(3) by (simp add: power_int_add power_int_def [of _ bits])
  finally have "(2 :: rat) powi (binade x) < 2 powi (bits + k)" using binade_bounds(1) [OF False] by linarith
  then have "binade x < bits + k"
    using power_int_increasing [of "bits + k" "binade x" "2 :: rat"] by (cases "bits + k \<le> binade x") auto
  then have e: "e \<le> k" using assms(4) by (simp add: e_def)
  have "x / 2 powi e = of_int m * 2 powi (k - e)" by (simp add: assms(1) power_int_diff)
  also have "\<dots> = of_int (m * 2 ^ nat (k - e))" using e by (simp add: power_int_def)
  finally have "of_int (round_even (x / 2 powi e)) = x / 2 powi e" by (simp only: round_even_int)
  then show ?thesis using False by (simp add: fp_round_def fp_ulp_def Let_def flip: e_def)
qed (simp add: fp_round_def)

subsection \<open>Numbers on a grid\<close>

text \<open>Multiples of \<open>1 / 1024\<close>: sums and differences of such doubles are exact as long as they stay small.\<close>

definition on_grid :: "rat \<Rightarrow> bool" where
  "on_grid x \<longleftrightarrow> of_int \<lfloor>x * 1024\<rfloor> = x * 1024"

lemma on_gridI: "x * 1024 = of_int m \<Longrightarrow> on_grid x"
  by (simp add: on_grid_def)

lemma on_gridE:
  assumes "on_grid x"
  obtains m where "x * 1024 = of_int m"
  using assms unfolding on_grid_def by metis

lemma on_grid_add: "on_grid x \<Longrightarrow> on_grid y \<Longrightarrow> on_grid (x + y)"
  by (elim on_gridE, rule on_gridI [of _ "_ + _"]) (simp add: algebra_simps)

lemma on_grid_minus: "on_grid x \<Longrightarrow> on_grid (- x)"
  by (elim on_gridE, rule on_gridI [of _ "- _"]) simp

lemma on_grid_diff: "on_grid x \<Longrightarrow> on_grid y \<Longrightarrow> on_grid (x - y)"
  using on_grid_add [of x "- y"] by (simp add: on_grid_minus)

lemma on_grid_of_int [simp]: "on_grid (of_int n)"
  by (rule on_gridI [of _ "n * 1024"]) simp

lemma on_grid_whole [simp]: "on_grid 0" "on_grid 1" "on_grid (numeral w)" "on_grid (of_nat n)"
  using on_grid_of_int [of 0] on_grid_of_int [of 1] on_grid_of_int [of "numeral w"] on_grid_of_int [of "int n"] by simp_all

lemma on_grid_sum_list: "list_all on_grid xs \<Longrightarrow> on_grid (sum_list xs)"
  by (induction xs) (simp_all add: on_grid_add)

lemma double_on_grid:
  assumes "on_grid x" "\<bar>x\<bar> < 2 ^ 43"
  shows "double x = x"
proof -
  obtain m where m: "x * 1024 = of_int m" using assms(1) by (rule on_gridE)
  have "of_int \<bar>m\<bar> < (2 ^ 53 :: rat)" using assms(2) m by (simp add: abs_mult flip: m)
  then have "\<bar>m\<bar> < 2 ^ 53" by (metis of_int_less_iff of_int_numeral of_int_power)
  moreover have "x = of_int m * 2 powi (- 10)" using m by (simp add: power_int_def field_simps)
  ultimately show ?thesis unfolding double_def by (intro fp_round_exact [of x m "- 10"]) simp_all
qed

end
