(* ===== verification/Bam_Ba.thy ===== *)
theory Bam_Ba
  imports Doubles "HOL-Library.Multiset"
begin

section \<open>Business activities\<close>

text \<open>
  Models \<^verbatim>\<open>broker/bam/src/ba.cc\<close> and the five kinds of business activities, \<^verbatim>\<open>ba_best.cc\<close>, \<^verbatim>\<open>ba_worst.cc\<close>,
  \<^verbatim>\<open>ba_impact.cc\<close>, \<^verbatim>\<open>ba_ratio_number.cc\<close> and \<^verbatim>\<open>ba_ratio_percent.cc\<close>, with \<^verbatim>\<open>impact_values.cc\<close>. A business activity
  (BA) keeps a copy of the impact of each of its key performance indicators (KPIs) and a summary of
  them: a level or a computed state, by its kind. KPIs notify it of changes; it then updates the
  summary, computes its inherited downtime, writes its events and tells whether its own parents are
  to be notified.

  What a BA reads of a KPI is a record \<open>kpi_view\<close>; a KPI is named by a number, which stands for the
  pointer. The hash table of impacts is a list in the order of its iteration. Levels, impacts and thresholds
  are doubles, and every operation on them is rounded as in \<open>Doubles\<close>. The texts of a status (output and
  performance data) are left out. \<open>now\<close> is what \<open>time(nullptr)\<close> returns in a call,
  and \<open>None\<close> as a visitor is a call without one.
\<close>

subsection \<open>Times\<close>

type_synonym time = int

definition time_null :: "time \<Rightarrow> bool" where
  "time_null t \<longleftrightarrow> t = - 1 \<or> t = 0"

definition time_less :: "time \<Rightarrow> time \<Rightarrow> bool" where
  "time_less a b =
     (if time_null a \<and> \<not> time_null b then False
      else if \<not> time_null a \<and> time_null b then True
      else a < b)"

text \<open>\<open>std::max\<close> with this order.\<close>

definition time_max :: "time \<Rightarrow> time \<Rightarrow> time" where
  "time_max a b = (if time_less a b then b else a)"

subsection \<open>Impacts\<close>

datatype bam_state = State_ok | State_warning | State_critical | State_unknown

record impact_values =
  iv_acknowledgement :: rat
  iv_downtime :: rat
  iv_nominal :: rat
  iv_state :: bam_state

record impact_info =
  ii_hard :: impact_values
  ii_soft :: impact_values
  ii_in_downtime :: bool

record kpi_view =
  kv_hard :: impact_values
  kv_soft :: impact_values
  kv_in_downtime :: bool
  kv_ok_state :: bool
  kv_last_state_change :: time

datatype ba_kind = Ba_best | Ba_worst | Ba_impact | Ba_ratio_number | Ba_ratio_percent

datatype downtime_behaviour = Dt_ignore | Dt_inherit | Dt_ignore_kpi

text \<open>The summary of the impacts; each kind uses some of the fields.\<close>

record summary =
  su_level_hard :: rat
  su_level_soft :: rat
  su_acknowledgement_hard :: rat
  su_acknowledgement_soft :: rat
  su_downtime_hard :: rat
  su_downtime_soft :: rat
  su_computed_hard :: bam_state
  su_computed_soft :: bam_state

record ba_event =
  be_first_level :: rat
  be_in_downtime :: bool
  be_status :: bam_state
  be_start_time :: time
  be_end_time :: time

record ba_status =
  st_in_downtime :: bool
  st_last_state_change :: time
  st_level_acknowledgement :: rat
  st_level_downtime :: rat
  st_level_nominal :: rat
  st_state :: bam_state
  st_state_changed :: bool

datatype ba_output =
    Out_event ba_event
  | Out_inherited_downtime bool
  | Out_status ba_status
  | Out_service_status bool time bam_state

record ba =
  ba_kind :: ba_kind
  ba_generate_virtual_status :: bool
  ba_in_downtime :: bool
  ba_last_kpi_update :: time
  ba_inherited_downtime :: bool
  ba_initial_events :: "ba_event list"
  ba_event :: "ba_event option"
  ba_level_critical :: rat
  ba_level_warning :: rat
  ba_summary :: summary
  ba_impacts :: "(nat \<times> impact_info) list"
  ba_valid :: bool
  ba_dt_behaviour :: downtime_behaviour
  ba_recompute_count :: nat

definition recompute_limit :: nat where
  "recompute_limit = 100"

text \<open>What the summary starts from, in the constructor of each kind and whenever it is recomputed.\<close>

fun reset :: "ba_kind \<Rightarrow> summary \<Rightarrow> summary" where
  "reset Ba_best a = a\<lparr>su_computed_hard := State_critical, su_computed_soft := State_critical\<rparr>"
| "reset Ba_worst a = a\<lparr>su_computed_hard := State_ok, su_computed_soft := State_ok\<rparr>"
| "reset Ba_impact a =
     a\<lparr>su_level_hard := 100, su_level_soft := 100, su_acknowledgement_hard := 0, su_acknowledgement_soft := 0,
       su_downtime_hard := 0, su_downtime_soft := 0\<rparr>"
| "reset Ba_ratio_number a = a\<lparr>su_level_hard := 0, su_level_soft := 0\<rparr>"
| "reset Ba_ratio_percent a = a\<lparr>su_level_hard := 0, su_level_soft := 0\<rparr>"

definition ba_new :: "ba_kind \<Rightarrow> bool \<Rightarrow> ba" where
  "ba_new k virtual =
     \<lparr>ba_kind = k, ba_generate_virtual_status = virtual, ba_in_downtime = False, ba_last_kpi_update = 0,
      ba_inherited_downtime = False, ba_initial_events = [], ba_event = None, ba_level_critical = 0,
      ba_level_warning = 0,
      ba_summary = reset k \<lparr>su_level_hard = 100, su_level_soft = 100, su_acknowledgement_hard = 0,
        su_acknowledgement_soft = 0, su_downtime_hard = 0, su_downtime_soft = 0, su_computed_hard = State_ok,
        su_computed_soft = State_ok\<rparr>,
      ba_impacts = [], ba_valid = True, ba_dt_behaviour = Dt_ignore, ba_recompute_count = 0\<rparr>"

subsection \<open>The summary\<close>

text \<open>The order of the states, and the better and the worse of two.\<close>

fun severity :: "bam_state \<Rightarrow> nat" where
  "severity State_ok = 0"
| "severity State_warning = 3"
| "severity State_critical = 4"
| "severity State_unknown = 2"

definition better :: "bam_state \<Rightarrow> bam_state \<Rightarrow> bam_state" where
  "better current new = (if severity new < severity current then new else current)"

definition worse :: "bam_state \<Rightarrow> bam_state \<Rightarrow> bam_state" where
  "worse current new = (if severity new > severity current then new else current)"

definition ignored :: "downtime_behaviour \<Rightarrow> impact_info \<Rightarrow> bool" where
  "ignored d i \<longleftrightarrow> d = Dt_ignore_kpi \<and> ii_in_downtime i"

definition count_critical :: "impact_info \<Rightarrow> summary \<Rightarrow> summary" where
  "count_critical i a =
     (let a1 = (if iv_state (ii_soft i) = State_critical then a\<lparr>su_level_soft := double (su_level_soft a + 1)\<rparr> else a)
      in if iv_state (ii_hard i) = State_critical then a1\<lparr>su_level_hard := double (su_level_hard a1 + 1)\<rparr> else a1)"

definition best_apply_impact :: "downtime_behaviour \<Rightarrow> impact_info \<Rightarrow> summary \<Rightarrow> summary" where
  "best_apply_impact d i a =
     (if ignored d i then a
      else a\<lparr>su_computed_soft := better (su_computed_soft a) (iv_state (ii_soft i)),
             su_computed_hard := better (su_computed_hard a) (iv_state (ii_hard i))\<rparr>)"

definition worst_apply_impact :: "downtime_behaviour \<Rightarrow> impact_info \<Rightarrow> summary \<Rightarrow> summary" where
  "worst_apply_impact d i a =
     (if ignored d i then a
      else a\<lparr>su_computed_soft := worse (su_computed_soft a) (iv_state (ii_soft i)),
             su_computed_hard := worse (su_computed_hard a) (iv_state (ii_hard i))\<rparr>)"

definition impact_apply_impact :: "downtime_behaviour \<Rightarrow> impact_info \<Rightarrow> summary \<Rightarrow> summary" where
  "impact_apply_impact d i a =
     (let a1 = a\<lparr>su_acknowledgement_hard := double (su_acknowledgement_hard a + iv_acknowledgement (ii_hard i)),
                 su_acknowledgement_soft := double (su_acknowledgement_soft a + iv_acknowledgement (ii_soft i)),
                 su_downtime_hard := double (su_downtime_hard a + iv_downtime (ii_hard i)),
                 su_downtime_soft := double (su_downtime_soft a + iv_downtime (ii_soft i))\<rparr>
      in if ignored d i then a1
         else a1\<lparr>su_level_hard := double (su_level_hard a1 - iv_nominal (ii_hard i)),
                 su_level_soft := double (su_level_soft a1 - iv_nominal (ii_soft i))\<rparr>)"

definition number_apply_impact :: "downtime_behaviour \<Rightarrow> impact_info \<Rightarrow> summary \<Rightarrow> summary" where
  "number_apply_impact d i a = (if ignored d i then a else count_critical i a)"

definition percent_apply_impact :: "downtime_behaviour \<Rightarrow> impact_info \<Rightarrow> summary \<Rightarrow> summary" where
  "percent_apply_impact d i a = (if ignored d i then a else count_critical i a)"

fun apply_impact :: "ba_kind \<Rightarrow> downtime_behaviour \<Rightarrow> impact_info \<Rightarrow> summary \<Rightarrow> summary" where
  "apply_impact Ba_best d i a = best_apply_impact d i a"
| "apply_impact Ba_worst d i a = worst_apply_impact d i a"
| "apply_impact Ba_impact d i a = impact_apply_impact d i a"
| "apply_impact Ba_ratio_number d i a = number_apply_impact d i a"
| "apply_impact Ba_ratio_percent d i a = percent_apply_impact d i a"

text \<open>The loop over impacts that starts from a reset summary.\<close>

definition recompute :: "ba_kind \<Rightarrow> downtime_behaviour \<Rightarrow> impact_info list \<Rightarrow> summary \<Rightarrow> summary" where
  "recompute k d is a = fold (apply_impact k d) is (reset k a)"

text \<open>The subtraction of a BA of kind impact.\<close>

definition subtract_impact :: "downtime_behaviour \<Rightarrow> impact_info \<Rightarrow> summary \<Rightarrow> summary" where
  "subtract_impact d i a =
     (let a1 = a\<lparr>su_acknowledgement_hard := double (su_acknowledgement_hard a - iv_acknowledgement (ii_hard i)),
                 su_acknowledgement_soft := double (su_acknowledgement_soft a - iv_acknowledgement (ii_soft i)),
                 su_downtime_hard := double (su_downtime_hard a - iv_downtime (ii_hard i)),
                 su_downtime_soft := double (su_downtime_soft a - iv_downtime (ii_soft i))\<rparr>
      in if ignored d i then a1
         else a1\<lparr>su_level_hard := double (su_level_hard a1 + iv_nominal (ii_hard i)),
                 su_level_soft := double (su_level_soft a1 + iv_nominal (ii_soft i))\<rparr>)"

definition impact_recompute :: "ba \<Rightarrow> ba" where
  "impact_recompute b =
     b\<lparr>ba_summary := recompute Ba_impact (ba_dt_behaviour b) (map snd (ba_impacts b)) (ba_summary b), ba_recompute_count := 0\<rparr>"

definition impact_unapply_impact :: "nat \<Rightarrow> impact_info \<Rightarrow> ba \<Rightarrow> ba" where
  "impact_unapply_impact k i b =
     (let b1 = b\<lparr>ba_recompute_count := Suc (ba_recompute_count b)\<rparr>;
          b2 = (if recompute_limit \<le> ba_recompute_count b1 then impact_recompute b1 else b1)
      in b2\<lparr>ba_summary := subtract_impact (ba_dt_behaviour b2) i (ba_summary b2)\<rparr>)"

text \<open>The other kinds recompute the summary of all impacts but one.\<close>

definition without :: "nat \<Rightarrow> ba \<Rightarrow> impact_info list" where
  "without k b = map snd (filter (\<lambda>(k', i'). k' \<noteq> k) (ba_impacts b))"

definition best_unapply_impact :: "nat \<Rightarrow> ba \<Rightarrow> ba" where
  "best_unapply_impact k b = b\<lparr>ba_summary := recompute Ba_best (ba_dt_behaviour b) (without k b) (ba_summary b)\<rparr>"

definition worst_unapply_impact :: "nat \<Rightarrow> ba \<Rightarrow> ba" where
  "worst_unapply_impact k b = b\<lparr>ba_summary := recompute Ba_worst (ba_dt_behaviour b) (without k b) (ba_summary b)\<rparr>"

definition number_unapply_impact :: "nat \<Rightarrow> ba \<Rightarrow> ba" where
  "number_unapply_impact k b =
     b\<lparr>ba_summary := recompute Ba_ratio_number (ba_dt_behaviour b) (without k b) (ba_summary b)\<rparr>"

definition percent_unapply_impact :: "nat \<Rightarrow> ba \<Rightarrow> ba" where
  "percent_unapply_impact k b =
     b\<lparr>ba_summary := recompute Ba_ratio_percent (ba_dt_behaviour b) (without k b) (ba_summary b)\<rparr>"

definition unapply_impact :: "nat \<Rightarrow> impact_info \<Rightarrow> ba \<Rightarrow> ba" where
  "unapply_impact k i b =
     (case ba_kind b of
        Ba_best \<Rightarrow> best_unapply_impact k b
      | Ba_worst \<Rightarrow> worst_unapply_impact k b
      | Ba_impact \<Rightarrow> impact_unapply_impact k i b
      | Ba_ratio_number \<Rightarrow> number_unapply_impact k b
      | Ba_ratio_percent \<Rightarrow> percent_unapply_impact k b)"

subsection \<open>States\<close>

text \<open>Whether there is a KPI and every KPI is in downtime now.\<close>

definition every_kpi_in_dt :: "(nat \<Rightarrow> kpi_view) \<Rightarrow> ba \<Rightarrow> bool" where
  "every_kpi_in_dt kpis b \<longleftrightarrow> ba_impacts b \<noteq> [] \<and> list_all (\<lambda>(k, i). kv_in_downtime (kpis k)) (ba_impacts b)"

definition best_state_hard :: "(nat \<Rightarrow> kpi_view) \<Rightarrow> ba \<Rightarrow> bam_state" where
  "best_state_hard kpis b =
     (if ba_dt_behaviour b = Dt_ignore_kpi \<and> every_kpi_in_dt kpis b then State_ok else su_computed_hard (ba_summary b))"

definition worst_state_hard :: "(nat \<Rightarrow> kpi_view) \<Rightarrow> ba \<Rightarrow> bam_state" where
  "worst_state_hard kpis b =
     (if ba_dt_behaviour b = Dt_ignore_kpi \<and> every_kpi_in_dt kpis b then State_ok else su_computed_hard (ba_summary b))"

text \<open>The comparison of a level that falls, of one that rises, and of a percentage: a division by zero is
  not a number, or infinite. The percentage is computed in doubles, and cut to a \<open>float\<close> for the soft state.\<close>

definition falling_state :: "ba \<Rightarrow> rat \<Rightarrow> bam_state" where
  "falling_state b level =
     (if \<not> ba_valid b then State_unknown
      else if level \<le> ba_level_critical b then State_critical
      else if level \<le> ba_level_warning b then State_warning
      else State_ok)"

definition rising_state :: "ba \<Rightarrow> rat \<Rightarrow> bam_state" where
  "rising_state b level =
     (if level \<ge> ba_level_critical b then State_critical
      else if level \<ge> ba_level_warning b then State_warning
      else State_ok)"

definition percentage :: "rat \<Rightarrow> nat \<Rightarrow> rat" where
  "percentage level n = double (double (level / of_nat n) * 100)"

definition percent_state :: "(rat \<Rightarrow> rat) \<Rightarrow> ba \<Rightarrow> rat \<Rightarrow> bam_state" where
  "percent_state conv b level =
     (if ba_impacts b = [] then (if level = 0 then State_ok else if level > 0 then State_critical else State_ok)
      else rising_state b (conv (percentage level (length (ba_impacts b)))))"

fun kind_state_hard :: "ba_kind \<Rightarrow> (nat \<Rightarrow> kpi_view) \<Rightarrow> ba \<Rightarrow> bam_state" where
  "kind_state_hard Ba_best kpis b = best_state_hard kpis b"
| "kind_state_hard Ba_worst kpis b = worst_state_hard kpis b"
| "kind_state_hard Ba_impact kpis b = falling_state b (su_level_hard (ba_summary b))"
| "kind_state_hard Ba_ratio_number kpis b = rising_state b (su_level_hard (ba_summary b))"
| "kind_state_hard Ba_ratio_percent kpis b = percent_state id b (su_level_hard (ba_summary b))"

definition get_state_hard :: "(nat \<Rightarrow> kpi_view) \<Rightarrow> ba \<Rightarrow> bam_state" where
  "get_state_hard kpis b = kind_state_hard (ba_kind b) kpis b"

definition get_state_soft :: "ba \<Rightarrow> bam_state" where
  "get_state_soft b =
     (case ba_kind b of
        Ba_best \<Rightarrow> su_computed_soft (ba_summary b)
      | Ba_worst \<Rightarrow> su_computed_soft (ba_summary b)
      | Ba_impact \<Rightarrow> falling_state b (su_level_soft (ba_summary b))
      | Ba_ratio_number \<Rightarrow> rising_state b (su_level_soft (ba_summary b))
      | Ba_ratio_percent \<Rightarrow> percent_state single b (su_level_soft (ba_summary b)))"

definition get_ack_impact_hard :: "ba \<Rightarrow> rat" where
  "get_ack_impact_hard b = (if ba_kind b = Ba_impact then su_acknowledgement_hard (ba_summary b) else 0)"

definition get_ack_impact_soft :: "ba \<Rightarrow> rat" where
  "get_ack_impact_soft b = (if ba_kind b = Ba_impact then su_acknowledgement_soft (ba_summary b) else 0)"

definition get_downtime_impact :: "ba \<Rightarrow> rat" where
  "get_downtime_impact b = 0"

subsection \<open>Changes of the impacts\<close>

definition impact_of :: "kpi_view \<Rightarrow> impact_info" where
  "impact_of v = \<lparr>ii_hard = kv_hard v, ii_soft = kv_soft v, ii_in_downtime = kv_in_downtime v\<rparr>"

definition note_kpi_update :: "kpi_view \<Rightarrow> ba \<Rightarrow> ba" where
  "note_kpi_update v b =
     (if time_null (kv_last_state_change v) then b
      else b\<lparr>ba_last_kpi_update := time_max (ba_last_kpi_update b) (kv_last_state_change v)\<rparr>)"

definition add_impact :: "nat \<Rightarrow> kpi_view \<Rightarrow> ba \<Rightarrow> ba" where
  "add_impact k v b =
     (case map_of (ba_impacts b) k of
        Some i \<Rightarrow> b
      | None \<Rightarrow>
          note_kpi_update v
            (b\<lparr>ba_impacts := ba_impacts b @ [(k, impact_of v)],
               ba_summary := apply_impact (ba_kind b) (ba_dt_behaviour b) (impact_of v) (ba_summary b)\<rparr>))"

definition remove_impact :: "nat \<Rightarrow> ba \<Rightarrow> ba" where
  "remove_impact k b =
     (case map_of (ba_impacts b) k of
        None \<Rightarrow> b
      | Some i \<Rightarrow>
          (let b1 = unapply_impact k i b in b1\<lparr>ba_impacts := filter (\<lambda>(k', i'). k' \<noteq> k) (ba_impacts b1)\<rparr>))"

definition set_impact :: "nat \<Rightarrow> impact_info \<Rightarrow> (nat \<times> impact_info) list \<Rightarrow> (nat \<times> impact_info) list" where
  "set_impact k i is = map (\<lambda>(k', i'). if k' = k then (k', i) else (k', i')) is"

definition level_eps :: rat where
  "level_eps = double (1 / 1000000)"

text \<open>The conversion of a level to \<open>int32_t\<close>, for levels in its range.\<close>

definition level_int :: "rat \<Rightarrow> rat" where
  "level_int x = (if 0 \<le> x then of_int \<lfloor>x\<rfloor> else of_int \<lceil>x\<rceil>)"

text \<open>
  \<open>_apply_changes\<close> of each kind: the new impact of a KPI, and whether the BA has changed. A KPI without an
  impact makes a BA of kind impact read behind its table.
\<close>

definition changed_all :: "nat \<Rightarrow> impact_info \<Rightarrow> ba \<Rightarrow> ba" where
  "changed_all k i b =
     (let impacts = set_impact k i (ba_impacts b) in
      b\<lparr>ba_impacts := impacts,
        ba_summary := recompute (ba_kind b) (ba_dt_behaviour b) (map snd impacts) (ba_summary b)\<rparr>)"

definition best_apply_changes :: "nat \<Rightarrow> impact_info \<Rightarrow> ba \<Rightarrow> ba \<times> bool" where
  "best_apply_changes k i b =
     (let b1 = changed_all k i b in (b1, su_computed_hard (ba_summary b1) \<noteq> su_computed_hard (ba_summary b)))"

definition worst_apply_changes :: "nat \<Rightarrow> impact_info \<Rightarrow> ba \<Rightarrow> ba \<times> bool" where
  "worst_apply_changes k i b =
     (let b1 = changed_all k i b in (b1, su_computed_hard (ba_summary b1) \<noteq> su_computed_hard (ba_summary b)))"

definition impact_apply_changes :: "nat \<Rightarrow> impact_info \<Rightarrow> ba \<Rightarrow> exn + ba \<times> bool" where
  "impact_apply_changes k i b =
     (case map_of (ba_impacts b) k of
        None \<Rightarrow> Inl Undefined
      | Some old \<Rightarrow>
          (let b1 = unapply_impact k old b;
               b2 = b1\<lparr>ba_impacts := set_impact k i (ba_impacts b1),
                       ba_summary := apply_impact Ba_impact (ba_dt_behaviour b1) i (ba_summary b1)\<rparr>
           in Inr (b2, level_int (su_level_hard (ba_summary b)) \<noteq> su_level_hard (ba_summary b2))))"

definition number_apply_changes :: "nat \<Rightarrow> impact_info \<Rightarrow> ba \<Rightarrow> ba \<times> bool" where
  "number_apply_changes k i b =
     (let b1 = changed_all k i b in (b1, \<bar>double (su_level_hard (ba_summary b) - su_level_hard (ba_summary b1))\<bar> > level_eps))"

definition percent_apply_changes :: "nat \<Rightarrow> impact_info \<Rightarrow> ba \<Rightarrow> ba \<times> bool" where
  "percent_apply_changes k i b =
     (let b1 = changed_all k i b in (b1, \<bar>double (su_level_hard (ba_summary b) - su_level_hard (ba_summary b1))\<bar> > level_eps))"

definition apply_changes :: "nat \<Rightarrow> impact_info \<Rightarrow> ba \<Rightarrow> exn + ba \<times> bool" where
  "apply_changes k i b =
     (case ba_kind b of
        Ba_best \<Rightarrow> Inr (best_apply_changes k i b)
      | Ba_worst \<Rightarrow> Inr (worst_apply_changes k i b)
      | Ba_impact \<Rightarrow> impact_apply_changes k i b
      | Ba_ratio_number \<Rightarrow> Inr (number_apply_changes k i b)
      | Ba_ratio_percent \<Rightarrow> Inr (percent_apply_changes k i b))"

subsection \<open>Events\<close>

definition normalize :: "rat \<Rightarrow> rat" where
  "normalize d = (if d > 100 then 100 else if d < 0 then 0 else d)"

definition last_change :: "ba \<Rightarrow> time" where
  "last_change b = (case ba_event b of Some e \<Rightarrow> be_start_time e | None \<Rightarrow> ba_last_kpi_update b)"

definition best_ba_status :: "(nat \<Rightarrow> kpi_view) \<Rightarrow> bool \<Rightarrow> ba \<Rightarrow> ba_status" where
  "best_ba_status kpis state_changed b =
     \<lparr>st_in_downtime = ba_in_downtime b, st_last_state_change = last_change b, st_level_acknowledgement = 0,
      st_level_downtime = 0, st_level_nominal = 0,
      st_state = get_state_hard kpis b, st_state_changed = state_changed\<rparr>"

definition worst_ba_status :: "(nat \<Rightarrow> kpi_view) \<Rightarrow> bool \<Rightarrow> ba \<Rightarrow> ba_status" where
  "worst_ba_status kpis state_changed b =
     \<lparr>st_in_downtime = ba_in_downtime b, st_last_state_change = last_change b, st_level_acknowledgement = 0,
      st_level_downtime = 0, st_level_nominal = 0,
      st_state = get_state_hard kpis b, st_state_changed = state_changed\<rparr>"

definition impact_ba_status :: "(nat \<Rightarrow> kpi_view) \<Rightarrow> bool \<Rightarrow> ba \<Rightarrow> ba_status" where
  "impact_ba_status kpis state_changed b =
     \<lparr>st_in_downtime = ba_in_downtime b, st_last_state_change = last_change b, st_level_acknowledgement = normalize (su_acknowledgement_hard (ba_summary b)),
      st_level_downtime = normalize (su_downtime_hard (ba_summary b)), st_level_nominal = normalize (su_level_hard (ba_summary b)),
      st_state = get_state_hard kpis b, st_state_changed = state_changed\<rparr>"

definition number_ba_status :: "(nat \<Rightarrow> kpi_view) \<Rightarrow> bool \<Rightarrow> ba \<Rightarrow> ba_status" where
  "number_ba_status kpis state_changed b =
     \<lparr>st_in_downtime = ba_in_downtime b, st_last_state_change = last_change b, st_level_acknowledgement = 0,
      st_level_downtime = 0, st_level_nominal = normalize (su_level_hard (ba_summary b)),
      st_state = get_state_hard kpis b, st_state_changed = state_changed\<rparr>"

definition percent_ba_status :: "(nat \<Rightarrow> kpi_view) \<Rightarrow> bool \<Rightarrow> ba \<Rightarrow> ba_status" where
  "percent_ba_status kpis state_changed b =
     \<lparr>st_in_downtime = ba_in_downtime b, st_last_state_change = last_change b, st_level_acknowledgement = 0,
      st_level_downtime = 0, st_level_nominal = normalize (su_level_hard (ba_summary b)),
      st_state = get_state_hard kpis b, st_state_changed = state_changed\<rparr>"

definition generate_ba_status :: "(nat \<Rightarrow> kpi_view) \<Rightarrow> bool \<Rightarrow> ba \<Rightarrow> ba_status" where
  "generate_ba_status kpis state_changed b =
     (case ba_kind b of
        Ba_best \<Rightarrow> best_ba_status kpis state_changed b
      | Ba_worst \<Rightarrow> worst_ba_status kpis state_changed b
      | Ba_impact \<Rightarrow> impact_ba_status kpis state_changed b
      | Ba_ratio_number \<Rightarrow> number_ba_status kpis state_changed b
      | Ba_ratio_percent \<Rightarrow> percent_ba_status kpis state_changed b)"

definition generate_virtual_service_status :: "(nat \<Rightarrow> kpi_view) \<Rightarrow> ba \<Rightarrow> ba_output" where
  "generate_virtual_service_status kpis b =
     Out_service_status (ba_in_downtime b) (last_change b) (get_state_hard kpis b)"

definition open_new_event :: "bam_state \<Rightarrow> ba \<Rightarrow> ba \<times> ba_output list" where
  "open_new_event s b =
     (let level = su_level_hard (ba_summary b);
          e = \<lparr>be_first_level = (if level < 0 then 0 else level), be_in_downtime = ba_in_downtime b, be_status = s,
               be_start_time = ba_last_kpi_update b, be_end_time = - 1\<rparr>
      in (b\<lparr>ba_event := Some e\<rparr>, [Out_event e]))"

text \<open>
  \<open>visit\<close> with a visitor. The initial events that are written first are the open event itself, not a
  copy, and the visitor keeps them until the call is over: closing the event in the same call shows
  in them too.
\<close>

definition visit :: "(nat \<Rightarrow> kpi_view) \<Rightarrow> time \<Rightarrow> ba \<Rightarrow> ba \<times> ba_output list" where
  "visit kpis now b =
     (let initial = ba_initial_events b;
          b1 = b\<lparr>ba_initial_events := []\<rparr>;
          hard_state = get_state_hard kpis b1;
          (b2, out, state_changed) =
            (case ba_event b1 of
               None \<Rightarrow>
                 (let (b3, o3) = open_new_event hard_state
                        (if time_null (ba_last_kpi_update b1) then b1\<lparr>ba_last_kpi_update := now\<rparr> else b1)
                  in (b3, map Out_event initial @ o3, False))
             | Some e \<Rightarrow>
                 if ba_in_downtime b1 \<noteq> be_in_downtime e \<or> hard_state \<noteq> be_status e then
                   (let closed = e\<lparr>be_end_time := ba_last_kpi_update b1\<rparr>;
                        (b3, o3) = open_new_event hard_state (b1\<lparr>ba_event := None\<rparr>)
                    in (b3, map (\<lambda>x. Out_event closed) initial @ Out_event closed # o3, True))
                 else (b1, map Out_event initial, False))
      in (b2, out @ Out_status (generate_ba_status kpis state_changed b2) #
            (if ba_generate_virtual_status b2 then [generate_virtual_service_status kpis b2] else [])))"

definition visit_opt :: "(nat \<Rightarrow> kpi_view) \<Rightarrow> time option \<Rightarrow> ba \<Rightarrow> ba \<times> ba_output list" where
  "visit_opt kpis visitor b = (case visitor of None \<Rightarrow> (b, []) | Some now \<Rightarrow> visit kpis now b)"

definition set_initial_event :: "ba_event \<Rightarrow> ba \<Rightarrow> ba" where
  "set_initial_event e b =
     (case ba_event b of
        None \<Rightarrow>
          b\<lparr>ba_event := Some e, ba_in_downtime := be_in_downtime e, ba_last_kpi_update := be_start_time e,
            ba_initial_events := ba_initial_events b @ [e]\<rparr>
      | Some _ \<Rightarrow> b)"

subsection \<open>Downtimes\<close>

text \<open>Every KPI that is not in an OK state is in downtime, and there is a KPI.\<close>

definition every_kpi_in_downtime :: "(nat \<Rightarrow> kpi_view) \<Rightarrow> ba \<Rightarrow> bool" where
  "every_kpi_in_downtime kpis b \<longleftrightarrow>
     ba_impacts b \<noteq> [] \<and> list_all (\<lambda>(k, i). kv_ok_state (kpis k) \<or> kv_in_downtime (kpis k)) (ba_impacts b)"

definition compute_inherited_downtime :: "(nat \<Rightarrow> kpi_view) \<Rightarrow> time option \<Rightarrow> ba \<Rightarrow> ba \<times> ba_output list" where
  "compute_inherited_downtime kpis visitor b =
     (if ba_dt_behaviour b \<noteq> Dt_inherit then (b, [])
      else
        (let every = every_kpi_in_downtime kpis b; s_ok = (get_state_hard kpis b = State_ok) in
         if \<not> s_ok \<and> every \<and> \<not> ba_inherited_downtime b then
           (b\<lparr>ba_inherited_downtime := True, ba_in_downtime := True\<rparr>,
            if visitor = None then [] else [Out_inherited_downtime True])
         else if (s_ok \<or> \<not> every) \<and> ba_inherited_downtime b then
           (b\<lparr>ba_inherited_downtime := False, ba_in_downtime := False\<rparr>,
            if visitor = None then [] else [Out_inherited_downtime False])
         else (b, [])))"

definition set_inherited_downtime :: "bool \<Rightarrow> ba \<Rightarrow> ba" where
  "set_inherited_downtime d b =
     (let b1 = b\<lparr>ba_inherited_downtime := True\<rparr> in if d then b1\<lparr>ba_in_downtime := True\<rparr> else b1)"

text \<open>
  A downtime of the service of the BA: started, and its actual end. The result says whether the
  parents are notified.
\<close>

definition service_downtime ::
  "(nat \<Rightarrow> kpi_view) \<Rightarrow> time option \<Rightarrow> bool \<Rightarrow> time \<Rightarrow> ba \<Rightarrow> ba \<times> ba_output list \<times> bool" where
  "service_downtime kpis visitor started actual_end b =
     (let d = (started \<and> time_null actual_end) in
      if ba_in_downtime b \<noteq> d then
        (let (b1, out) = visit_opt kpis visitor (b\<lparr>ba_in_downtime := d\<rparr>) in (b1, out, True))
      else (b, [], False))"

subsection \<open>Notification by a KPI\<close>

definition ba_update_from :: "(nat \<Rightarrow> kpi_view) \<Rightarrow> time option \<Rightarrow> nat \<Rightarrow> ba \<Rightarrow> exn + ba \<times> ba_output list \<times> bool" where
  "ba_update_from kpis visitor k b =
     (let v = kpis k; b1 = note_kpi_update v b in
      case apply_changes k (impact_of v) b1 of
        Inl e \<Rightarrow> Inl e
      | Inr (b2, changed) \<Rightarrow>
          (let (b3, o1) = compute_inherited_downtime kpis visitor b2;
               (b4, o2) = visit_opt kpis visitor b3
           in Inr (b4, o1 @ o2, changed \<or> ba_in_downtime b4 \<noteq> ba_in_downtime b)))"

end
