(* ===== verification/Bam_Bool.thy ===== *)
theory Bam_Bool
  imports Collect_Prelude Complex_Main
begin

section \<open>Boolean rules of business activities\<close>

text \<open>
  Models the nodes of a boolean rule of \<^verbatim>\<open>broker/bam/src\<close>: constants (\<^verbatim>\<open>bool_constant.cc\<close>), services
  (\<^verbatim>\<open>bool_service.cc\<close>), the negation (\<^verbatim>\<open>bool_not.cc\<close>) and the binary operators (\<^verbatim>\<open>bool_binary_operator.cc\<close>
  with \<^verbatim>\<open>bool_and.cc\<close>, \<^verbatim>\<open>bool_or.cc\<close>, \<^verbatim>\<open>bool_xor.cc\<close>, \<^verbatim>\<open>bool_equal.cc\<close>, \<^verbatim>\<open>bool_not_equal.cc\<close>, \<^verbatim>\<open>bool_more_than.cc\<close>,
  \<^verbatim>\<open>bool_less_than.cc\<close>, \<^verbatim>\<open>bool_operation.cc\<close>). A binary operator caches the values of its operands; when a
  service changes, the change climbs to the root as long as the caches change (\<^verbatim>\<open>computable.cc\<close>). The
  lemmas compare the caches with an evaluation from scratch, where an unknown operand matters only
  if the other one does not decide the result.

  A \<open>double\<close> is a rational number or, as \<open>None\<close>, not a number; rounding is left out. The exact results
  below are about rules on whole numbers, which a \<open>double\<close> represents exactly.
\<close>

subsection \<open>Floating-point numbers\<close>

type_synonym dbl = "rat option"

definition dbl_eps :: rat where
  "dbl_eps = 1 / 1000000"

definition compare_epsilon :: rat where
  "compare_epsilon = 1 / 10000"

definition lift2 :: "(rat \<Rightarrow> rat \<Rightarrow> rat) \<Rightarrow> dbl \<Rightarrow> dbl \<Rightarrow> dbl" where
  "lift2 f x y = (case (x, y) of (Some a, Some b) \<Rightarrow> Some (f a b) | _ \<Rightarrow> None)"

definition dcmp :: "(rat \<Rightarrow> rat \<Rightarrow> bool) \<Rightarrow> dbl \<Rightarrow> dbl \<Rightarrow> bool" where
  "dcmp p x y = (case (x, y) of (Some a, Some b) \<Rightarrow> p a b | _ \<Rightarrow> False)"

definition dist_gt :: "dbl \<Rightarrow> dbl \<Rightarrow> rat \<Rightarrow> bool" where
  "dist_gt x y e = dcmp (\<lambda>a b. \<bar>a - b\<bar> > e) x y"

text \<open>The conversions between \<open>bool\<close> and \<open>double\<close>.\<close>

definition d_of_bool :: "bool \<Rightarrow> dbl" where
  "d_of_bool b = Some (of_bool b)"

definition bool_of_d :: "dbl \<Rightarrow> bool" where
  "bool_of_d x \<longleftrightarrow> x \<noteq> Some 0"

text \<open>The conversion to \<open>long long\<close> and the remainder of C.\<close>

definition trunc :: "rat \<Rightarrow> int" where
  "trunc x = (if 0 \<le> x then \<lfloor>x\<rfloor> else \<lceil>x\<rceil>)"

definition c_rem :: "int \<Rightarrow> int \<Rightarrow> int" where
  "c_rem a b = sgn a * (\<bar>a\<bar> mod \<bar>b\<bar>)"

subsection \<open>Nodes\<close>

datatype operation_type = Addition | Substraction | Multiplication | Division | Modulo

datatype bool_op =
    Bool_and
  | Bool_or
  | Bool_xor
  | Bool_equal
  | Bool_not_equal
  | Bool_more_than bool
  | Bool_less_than bool
  | Bool_operation operation_type

record bool_cache =
  bc_left_hard :: dbl
  bc_right_hard :: dbl
  bc_in_downtime :: bool
  bc_state_known :: bool
  bc_boolean_value :: bool

definition bool_cache_new :: bool_cache where
  "bool_cache_new = \<lparr>bc_left_hard = Some 0, bc_right_hard = Some 0, bc_in_downtime = False, bc_state_known = False,
     bc_boolean_value = False\<rparr>"

record bool_service =
  bs_host_id :: u32
  bs_service_id :: u32
  bs_state_hard :: int
  bs_state_known :: bool
  bs_in_downtime :: bool

definition bool_service_new :: "u32 \<Rightarrow> u32 \<Rightarrow> bool_service" where
  "bool_service_new host_id service_id =
     \<lparr>bs_host_id = host_id, bs_service_id = service_id, bs_state_hard = 0, bs_state_known = False,
      bs_in_downtime = False\<rparr>"

datatype bool_value =
    Constant rat
  | Service bool_service
  | Bool_not bool_value
  | Binary_op bool_op bool_value bool_value bool_cache

fun operation_value :: "operation_type \<Rightarrow> dbl \<Rightarrow> dbl \<Rightarrow> dbl" where
  "operation_value Addition l r = lift2 (+) l r"
| "operation_value Substraction l r = lift2 (-) l r"
| "operation_value Multiplication l r = lift2 (*) l r"
| "operation_value Division l r =
     (if dcmp (\<lambda>a b. \<bar>a\<bar> < b) r (Some compare_epsilon) then None else lift2 (/) l r)"
| "operation_value Modulo l r =
     (case (l, r) of
        (Some a, Some b) \<Rightarrow> if trunc b = 0 then None else Some (of_int (c_rem (trunc a) (trunc b)))
      | _ \<Rightarrow> None)"

fun operation_boolean :: "operation_type \<Rightarrow> dbl \<Rightarrow> dbl \<Rightarrow> bool" where
  "operation_boolean Addition l r = bool_of_d (lift2 (+) l r)"
| "operation_boolean Substraction l r = bool_of_d (lift2 (-) l r)"
| "operation_boolean Multiplication l r = dcmp (\<lambda>a b. \<bar>a\<bar> > b) (lift2 (*) l r) (Some compare_epsilon)"
| "operation_boolean Division l r =
     (if dcmp (\<lambda>a b. \<bar>a\<bar> < b) r (Some compare_epsilon) then False else bool_of_d (lift2 (/) l r))"
| "operation_boolean Modulo l r =
     (case (l, r) of
        (Some a, Some b) \<Rightarrow> if trunc b = 0 then False else c_rem (trunc a) (trunc b) \<noteq> 0
      | _ \<Rightarrow> False)"

text \<open>The values of the comparisons, which are numbers and truth values at once.\<close>

definition xor_value :: "bool_cache \<Rightarrow> bool" where
  "xor_value c =
     (let l = dist_gt (bc_left_hard c) (Some 0) dbl_eps; r = dist_gt (bc_right_hard c) (Some 0) dbl_eps in l \<noteq> r)"

definition equal_value :: "bool_cache \<Rightarrow> bool" where
  "equal_value c \<longleftrightarrow>
     bc_state_known c \<and> dcmp (\<lambda>a b. \<bar>a - b\<bar> < compare_epsilon) (bc_left_hard c) (bc_right_hard c)"

definition not_equal_value :: "bool_cache \<Rightarrow> bool" where
  "not_equal_value c = dcmp (\<lambda>a b. \<bar>a - b\<bar> \<ge> compare_epsilon) (bc_left_hard c) (bc_right_hard c)"

definition more_than_value :: "bool \<Rightarrow> bool_cache \<Rightarrow> bool" where
  "more_than_value strict c =
     (if strict then dcmp (>) (bc_left_hard c) (bc_right_hard c) else dcmp (\<ge>) (bc_left_hard c) (bc_right_hard c))"

definition less_than_value :: "bool \<Rightarrow> bool_cache \<Rightarrow> bool" where
  "less_than_value strict c =
     (if strict then dcmp (<) (bc_left_hard c) (bc_right_hard c) else dcmp (\<le>) (bc_left_hard c) (bc_right_hard c))"

definition and_value :: "bool_cache \<Rightarrow> bool" where
  "and_value c = bc_boolean_value c"

definition or_value :: "bool_cache \<Rightarrow> bool" where
  "or_value c = bc_boolean_value c"

fun comparison :: "bool_op \<Rightarrow> bool_cache \<Rightarrow> bool" where
  "comparison Bool_and c = and_value c"
| "comparison Bool_or c = or_value c"
| "comparison Bool_xor c = xor_value c"
| "comparison Bool_equal c = equal_value c"
| "comparison Bool_not_equal c = not_equal_value c"
| "comparison (Bool_more_than strict) c = more_than_value strict c"
| "comparison (Bool_less_than strict) c = less_than_value strict c"
| "comparison (Bool_operation t) c = bc_boolean_value c"

text \<open>A constant is true when it is not small.\<close>

definition constant_boolean :: "rat \<Rightarrow> bool" where
  "constant_boolean v \<longleftrightarrow> \<bar>v\<bar> > dbl_eps"

definition not_value :: "dbl \<Rightarrow> bool" where
  "not_value x = dcmp (\<lambda>a b. \<bar>a\<bar> < b) x (Some dbl_eps)"

fun value_hard :: "bool_value \<Rightarrow> dbl" where
  "value_hard (Constant v) = Some v"
| "value_hard (Service s) = Some (of_int (bs_state_hard s))"
| "value_hard (Bool_not n) = d_of_bool (not_value (value_hard n))"
| "value_hard (Binary_op op l r c) =
     (case op of
        Bool_operation t \<Rightarrow> operation_value t (bc_left_hard c) (bc_right_hard c)
      | _ \<Rightarrow> d_of_bool (comparison op c))"

fun boolean_value :: "bool_value \<Rightarrow> bool" where
  "boolean_value (Constant v) = constant_boolean v"
| "boolean_value (Service s) = (bs_state_hard s \<noteq> 0)"
| "boolean_value (Bool_not n) = not_value (value_hard n)"
| "boolean_value (Binary_op op l r c) =
     (case op of
        Bool_operation t \<Rightarrow> operation_boolean t (bc_left_hard c) (bc_right_hard c)
      | _ \<Rightarrow> comparison op c)"

definition operation_known :: "operation_type \<Rightarrow> bool_cache \<Rightarrow> bool" where
  "operation_known t c =
     (if bc_state_known c \<and> (t = Division \<or> t = Modulo) \<and> dcmp (\<lambda>a b. \<bar>a\<bar> < b) (bc_right_hard c) (Some compare_epsilon)
      then False else bc_state_known c)"

fun state_known :: "bool_value \<Rightarrow> bool" where
  "state_known (Constant v) = True"
| "state_known (Service s) = bs_state_known s"
| "state_known (Bool_not n) = state_known n"
| "state_known (Binary_op op l r c) =
     (case op of Bool_operation t \<Rightarrow> operation_known t c | _ \<Rightarrow> bc_state_known c)"

fun in_downtime :: "bool_value \<Rightarrow> bool" where
  "in_downtime (Constant v) = False"
| "in_downtime (Service s) = bs_in_downtime s"
| "in_downtime (Bool_not n) = in_downtime n"
| "in_downtime (Binary_op op l r c) = bc_in_downtime c"

subsection \<open>Updates\<close>

text \<open>\<open>_update_state\<close> of a binary operator; \<open>None\<close> is an operand that is not set yet.\<close>

definition update_state_base :: "bool_value option \<Rightarrow> bool_value option \<Rightarrow> bool_cache \<Rightarrow> bool_cache" where
  "update_state_base left right c =
     (case (left, right) of
        (Some l, Some r) \<Rightarrow>
          (if state_known l \<and> state_known r then
             c\<lparr>bc_state_known := True, bc_left_hard := value_hard l, bc_right_hard := value_hard r,
               bc_in_downtime := in_downtime l \<or> in_downtime r\<rparr>
           else c\<lparr>bc_state_known := False\<rparr>)
      | _ \<Rightarrow> c\<lparr>bc_state_known := False\<rparr>)"

definition decides :: "bool \<Rightarrow> bool_value option \<Rightarrow> bool" where
  "decides b n = (case n of None \<Rightarrow> False | Some v \<Rightarrow> state_known v \<and> boolean_value v = b)"

definition update_state_and :: "bool_value option \<Rightarrow> bool_value option \<Rightarrow> bool_cache \<Rightarrow> bool_cache" where
  "update_state_and left right c =
     (if decides False left then c\<lparr>bc_left_hard := d_of_bool False, bc_boolean_value := False, bc_state_known := True\<rparr>
      else if decides False right then
        c\<lparr>bc_right_hard := d_of_bool False, bc_boolean_value := False, bc_state_known := True\<rparr>
      else
        (let c1 = update_state_base left right c in
         c1\<lparr>bc_boolean_value :=
              (bc_state_known c1 \<and> dist_gt (bc_left_hard c1) (Some 0) dbl_eps \<and>
               dist_gt (bc_right_hard c1) (Some 0) dbl_eps)\<rparr>))"

definition update_state_or :: "bool_value option \<Rightarrow> bool_value option \<Rightarrow> bool_cache \<Rightarrow> bool_cache" where
  "update_state_or left right c =
     (if decides True left then c\<lparr>bc_left_hard := d_of_bool True, bc_boolean_value := True, bc_state_known := True\<rparr>
      else if decides True right then
        c\<lparr>bc_right_hard := d_of_bool True, bc_boolean_value := True, bc_state_known := True\<rparr>
      else update_state_base left right (c\<lparr>bc_boolean_value := False\<rparr>))"

definition update_state :: "bool_op \<Rightarrow> bool_value option \<Rightarrow> bool_value option \<Rightarrow> bool_cache \<Rightarrow> bool_cache" where
  "update_state op left right c =
     (case op of
        Bool_and \<Rightarrow> update_state_and left right c
      | Bool_or \<Rightarrow> update_state_or left right c
      | _ \<Rightarrow> update_state_base left right c)"

text \<open>A new operator: \<open>set_left\<close>, then \<open>set_right\<close>.\<close>

definition binary_new :: "bool_op \<Rightarrow> bool_value \<Rightarrow> bool_value \<Rightarrow> bool_value" where
  "binary_new op l r =
     Binary_op op l r (update_state op (Some l) (Some r) (update_state op (Some l) None bool_cache_new))"

text \<open>
  \<open>update_from\<close> of a binary operator, for the operand that changed: the cache, and whether the parents are
  notified.
\<close>

definition update_from :: "bool_op \<Rightarrow> bool \<Rightarrow> bool_value \<Rightarrow> bool_value \<Rightarrow> bool_cache \<Rightarrow> bool_cache \<times> bool" where
  "update_from op from_left l r c =
     (let child = (if from_left then l else r);
          hard = (if from_left then bc_left_hard c else bc_right_hard c) in
      if state_known child \<noteq> bc_state_known c \<or> dist_gt hard (value_hard child) dbl_eps
      then (update_state op (Some l) (Some r) c, True)
      else (c, False))"

text \<open>
  The updates of a service: its state restored from the cache, a status, which all kinds of status
  messages share, and a message about its downtime.
\<close>

datatype service_event =
    Restored int
  | Status int bool
  | Adaptive "bool option"

fun service_update :: "service_event \<Rightarrow> bool_service \<Rightarrow> bool_service \<times> bool" where
  "service_update (Restored hard) s =
     (s\<lparr>bs_state_hard := hard, bs_state_known := (bs_state_known s \<or> hard \<noteq> 3)\<rparr>,
      bs_state_hard s \<noteq> hard \<or> \<not> bs_state_known s)"
| "service_update (Status hard downtime) s =
     (if bs_state_hard s \<noteq> hard \<or> \<not> bs_state_known s \<or> bs_in_downtime s \<noteq> downtime
      then (s\<lparr>bs_state_hard := hard, bs_state_known := True, bs_in_downtime := downtime\<rparr>, True)
      else (s, False))"
| "service_update (Adaptive downtime) s =
     (case downtime of
        None \<Rightarrow> (s, False)
      | Some d \<Rightarrow> if bs_in_downtime s \<noteq> d then (s\<lparr>bs_in_downtime := d\<rparr>, True) else (s, False))"

fun services :: "bool_value \<Rightarrow> bool_service list" where
  "services (Constant v) = []"
| "services (Service s) = [s]"
| "services (Bool_not n) = services n"
| "services (Binary_op op l r c) = services l @ services r"

text \<open>
  The update of one service of a rule, the one at the given position, and its way up to the root: the
  rule, and whether the root notifies its parents.
\<close>

fun update_service :: "nat \<Rightarrow> service_event \<Rightarrow> bool_value \<Rightarrow> bool_value \<times> bool" where
  "update_service k ev (Constant v) = (Constant v, False)"
| "update_service k ev (Service s) = (let (s1, b) = service_update ev s in (Service s1, b))"
| "update_service k ev (Bool_not n) = (let (n1, b) = update_service k ev n in (Bool_not n1, b))"
| "update_service k ev (Binary_op op l r c) =
     (if k < length (services l) then
        (let (l1, b) = update_service k ev l;
             (c1, b1) = (if b then update_from op True l1 r c else (c, False)) in (Binary_op op l1 r c1, b1))
      else
        (let (r1, b) = update_service (k - length (services l)) ev r;
             (c1, b1) = (if b then update_from op False l r1 c else (c, False)) in (Binary_op op l r1 c1, b1)))"

text \<open>\<open>service_book::update\<close>: every listener of the service, in the order of registration.\<close>

definition book_update :: "u32 \<times> u32 \<Rightarrow> service_event \<Rightarrow> bool_value \<Rightarrow> bool_value" where
  "book_update ids ev n =
     foldl (\<lambda>m k. fst (update_service k ev m)) n
       (filter (\<lambda>k. (bs_host_id (services n ! k), bs_service_id (services n ! k)) = ids) [0..<length (services n)])"

lemmas comparison_defs = and_value_def or_value_def xor_value_def equal_value_def not_equal_value_def more_than_value_def
  less_than_value_def constant_boolean_def not_value_def operation_known_def

end
