(* ===== verification/Bam_Kpi.thy ===== *)
theory Bam_Kpi
  imports Bam_Ba Bam_Bool
begin

section \<open>Key performance indicators\<close>

text \<open>
  Models \<^verbatim>\<open>broker/bam/src/kpi.cc\<close> and the kinds of KPIs: a service (\<^verbatim>\<open>kpi_service.cc\<close>), a boolean rule
  (\<^verbatim>\<open>kpi_boolexp.cc\<close> with \<^verbatim>\<open>bool_expression.cc\<close>) and another BA (\<^verbatim>\<open>kpi_ba.cc\<close>). An update gives the new state of the
  KPI, what it writes to the visitor and whether its parents are notified. The texts of the events
  are left out.
\<close>

subsection \<open>Events\<close>

text \<open>The level of an event is an \<open>int32\<close>: an impact is cut to its whole part.\<close>

record kpi_event =
  ke_start_time :: time
  ke_end_time :: time
  ke_impact_level :: int
  ke_in_downtime :: bool
  ke_status :: bam_state

record kpi_status =
  ks_in_downtime :: bool
  ks_hard :: impact_values
  ks_soft :: impact_values
  ks_last_state_change :: time
  ks_last_impact :: rat

datatype kpi_output = Out_kpi_event kpi_event | Out_kpi_status kpi_status

definition get_last_state_change :: "time \<Rightarrow> kpi_event option \<Rightarrow> time" where
  "get_last_state_change now ev = (case ev of Some e \<Rightarrow> ke_start_time e | None \<Rightarrow> now)"

text \<open>\<open>kpi::set_initial_event\<close>: the open event and the events to write, given the present hard impact.\<close>

definition kpi_set_initial_event ::
  "time \<Rightarrow> impact_values \<Rightarrow> kpi_event \<Rightarrow> kpi_event option \<times> kpi_event list \<Rightarrow> kpi_event option \<times> kpi_event list" where
  "kpi_set_initial_event now hard e p =
     (let (ev, initial) = p in
      if ev \<noteq> None then p
      else
        (let level = (if ke_in_downtime e then iv_downtime hard else iv_nominal hard) in
         if \<bar>double (level - of_int (ke_impact_level e))\<bar> \<ge> level_eps \<and> ke_impact_level e \<noteq> - 1 then
           (let closed = e\<lparr>ke_end_time := now\<rparr>; opened = e\<lparr>ke_start_time := now\<rparr>
            in (Some (opened\<lparr>ke_impact_level := trunc level\<rparr>), initial @ [closed, opened]))
         else (Some (e\<lparr>ke_impact_level := trunc level\<rparr>), initial @ [e])))"

subsection \<open>A service\<close>

record kpi_service =
  sv_acknowledged :: bool
  sv_downtimed :: bool
  sv_downtime_ids :: "nat set"
  sv_impact_warning :: rat
  sv_impact_critical :: rat
  sv_impact_unknown :: rat
  sv_last_check :: time
  sv_state_hard :: bam_state
  sv_state_soft :: bam_state
  sv_state_type :: nat
  sv_event :: "kpi_event option"
  sv_initial_events :: "kpi_event list"

definition kpi_service_new :: "rat \<Rightarrow> rat \<Rightarrow> rat \<Rightarrow> kpi_service" where
  "kpi_service_new warning critical unknown =
     \<lparr>sv_acknowledged = False, sv_downtimed = False, sv_downtime_ids = {}, sv_impact_warning = warning,
      sv_impact_critical = critical, sv_impact_unknown = unknown, sv_last_check = 0, sv_state_hard = State_ok,
      sv_state_soft = State_ok, sv_state_type = 0, sv_event = None, sv_initial_events = []\<rparr>"

fun sv_impact :: "kpi_service \<Rightarrow> bam_state \<Rightarrow> rat" where
  "sv_impact s State_ok = 0"
| "sv_impact s State_warning = sv_impact_warning s"
| "sv_impact s State_critical = sv_impact_critical s"
| "sv_impact s State_unknown = sv_impact_unknown s"

definition sv_fill_impact :: "kpi_service \<Rightarrow> bam_state \<Rightarrow> impact_values" where
  "sv_fill_impact s st =
     (let nominal = sv_impact s st in
      \<lparr>iv_acknowledgement = (if sv_acknowledged s then nominal else 0),
       iv_downtime = (if sv_downtimed s then nominal else 0), iv_nominal = nominal, iv_state = st\<rparr>)"

definition sv_view :: "time \<Rightarrow> kpi_service \<Rightarrow> kpi_view" where
  "sv_view now s =
     \<lparr>kv_hard = sv_fill_impact s (sv_state_hard s), kv_soft = sv_fill_impact s (sv_state_soft s),
      kv_in_downtime = sv_downtimed s, kv_ok_state = (sv_state_hard s = State_ok),
      kv_last_state_change = get_last_state_change now (sv_event s)\<rparr>"

definition sv_open_new_event :: "kpi_service \<Rightarrow> kpi_service \<times> kpi_output list" where
  "sv_open_new_event s =
     (let hard = sv_fill_impact s (sv_state_hard s);
          e = \<lparr>ke_start_time = sv_last_check s, ke_end_time = - 1,
               ke_impact_level = trunc (if sv_downtimed s then iv_downtime hard else iv_nominal hard),
               ke_in_downtime = sv_downtimed s, ke_status = sv_state_hard s\<rparr>
      in (s\<lparr>sv_event := Some e\<rparr>, [Out_kpi_event e]))"

definition sv_visit :: "time \<Rightarrow> kpi_service \<Rightarrow> kpi_service \<times> kpi_output list" where
  "sv_visit now s =
     (let o1 = map Out_kpi_event (sv_initial_events s);
          s1 = s\<lparr>sv_initial_events := []\<rparr>;
          (s2, o2) =
            (case sv_event s1 of
               None \<Rightarrow> if time_null (sv_last_check s1) then (s1, []) else sv_open_new_event s1
             | Some e \<Rightarrow>
                 if sv_last_check s1 \<ge> ke_start_time e \<and>
                    (sv_downtimed s1 \<noteq> ke_in_downtime e \<or> sv_state_hard s1 \<noteq> ke_status e) then
                   (let (s3, o3) = sv_open_new_event s1
                    in (s3, Out_kpi_event (e\<lparr>ke_end_time := sv_last_check s1\<rparr>) # o3))
                 else (s1, []));
          hard = sv_fill_impact s2 (sv_state_hard s2)
      in (s2, o1 @ o2 @
            [Out_kpi_status \<lparr>ks_in_downtime = sv_downtimed s2, ks_hard = hard,
               ks_soft = sv_fill_impact s2 (sv_state_soft s2),
               ks_last_state_change = get_last_state_change now (sv_event s2),
               ks_last_impact = (if sv_downtimed s2 then iv_downtime hard else iv_nominal hard)\<rparr>]))"

definition sv_visit_opt :: "time option \<Rightarrow> kpi_service \<Rightarrow> kpi_service \<times> kpi_output list" where
  "sv_visit_opt visitor s = (case visitor of None \<Rightarrow> (s, []) | Some now \<Rightarrow> sv_visit now s)"

text \<open>
  The messages: the state restored from the cache; a status of the service, of the old or the new
  protocol, with the time that replaces an unknown time of the last check; an acknowledgement, with its
  deletion time; a downtime of the old or the new protocol.
\<close>

record downtime_message =
  dm_id :: nat
  dm_started :: bool
  dm_actual_start :: time
  dm_actual_end :: time
  dm_deletion :: time

datatype kpi_message =
    Restored_state time bam_state bam_state nat bool
  | Service_status time time bam_state bam_state nat
  | Acknowledgement time
  | Downtime_message downtime_message
  | Pb_downtime_message downtime_message

fun sv_restored :: "time \<Rightarrow> bam_state \<Rightarrow> bam_state \<Rightarrow> nat \<Rightarrow> bool \<Rightarrow> kpi_service \<Rightarrow> kpi_service \<times> bool" where
  "sv_restored last_check hard soft ty ack s =
     (let s1 = (if time_null last_check then s else s\<lparr>sv_last_check := last_check\<rparr>) in
      (s1\<lparr>sv_state_hard := hard, sv_state_soft := soft, sv_state_type := ty, sv_acknowledged := ack\<rparr>,
       sv_state_hard s \<noteq> hard \<or> sv_state_soft s \<noteq> soft \<or> sv_state_type s \<noteq> ty \<or> sv_acknowledged s \<noteq> ack))"

definition sv_status :: "time \<Rightarrow> time \<Rightarrow> bam_state \<Rightarrow> bam_state \<Rightarrow> nat \<Rightarrow> kpi_service \<Rightarrow> kpi_service \<times> bool" where
  "sv_status last_check fallback hard soft ty s =
     (let s1 = (if \<not> time_null last_check then s\<lparr>sv_last_check := last_check\<rparr>
                else if time_null (sv_last_check s) then s\<lparr>sv_last_check := fallback\<rparr> else s)
      in (s1\<lparr>sv_state_hard := hard, sv_state_soft := soft, sv_state_type := ty\<rparr>,
          sv_state_hard s \<noteq> hard \<or> sv_state_soft s \<noteq> soft \<or> sv_state_type s \<noteq> ty))"

definition sv_acknowledge :: "time \<Rightarrow> kpi_service \<Rightarrow> kpi_service \<times> bool" where
  "sv_acknowledge deletion s =
     (s\<lparr>sv_acknowledged := time_null deletion\<rparr>, sv_acknowledged s \<noteq> time_null deletion)"

text \<open>The end of both updates for a downtime: the time of the last check, when the open event differs.\<close>

definition sv_downtime_check :: "downtime_message \<Rightarrow> kpi_service \<Rightarrow> kpi_service" where
  "sv_downtime_check d s =
     (if (case sv_event s of None \<Rightarrow> True | Some e \<Rightarrow> ke_in_downtime e \<noteq> sv_downtimed s)
      then s\<lparr>sv_last_check := (if sv_downtimed s then dm_actual_start d else dm_actual_end d)\<rparr> else s)"

text \<open>\<open>None\<close>: the downtime is already handled.\<close>

definition sv_downtime :: "downtime_message \<Rightarrow> kpi_service \<Rightarrow> (kpi_service \<times> bool) option" where
  "sv_downtime d s =
     (let downtimed = (dm_started d \<and> time_null (dm_actual_end d)) in
      if dm_id d \<in> sv_downtime_ids s \<and> time_null (dm_deletion d) then None
      else
        (let s1 = (if downtimed then s\<lparr>sv_downtime_ids := insert (dm_id d) (sv_downtime_ids s), sv_downtimed := True\<rparr>
                   else (let ids = sv_downtime_ids s - {dm_id d} in s\<lparr>sv_downtime_ids := ids, sv_downtimed := (ids \<noteq> {})\<rparr>))
         in Some (sv_downtime_check d s1, sv_downtimed s1 \<noteq> sv_downtimed s)))"

text \<open>The update for the new protocol: the state and the flag even when the downtime is already handled.\<close>

definition sv_pb_downtime :: "downtime_message \<Rightarrow> kpi_service \<Rightarrow> kpi_service \<times> bool \<times> bool" where
  "sv_pb_downtime d s =
     (let downtimed = (dm_started d \<and> time_null (dm_actual_end d));
          s0 = (if \<not> sv_downtimed s \<and> downtimed then s\<lparr>sv_downtimed := True\<rparr> else s);
          changed = (\<not> sv_downtimed s \<and> downtimed) in
      if dm_id d \<in> sv_downtime_ids s0 \<and> time_null (dm_deletion d) then (s0, changed, False)
      else if downtimed then
        (sv_downtime_check d (s0\<lparr>sv_downtime_ids := insert (dm_id d) (sv_downtime_ids s0)\<rparr>), changed, True)
      else
        (let ids = sv_downtime_ids s0 - {dm_id d}; new = (ids \<noteq> {}) in
         (sv_downtime_check d (s0\<lparr>sv_downtime_ids := ids, sv_downtimed := new\<rparr>), changed \<or> new \<noteq> sv_downtimed s0, True)))"

definition visited :: "time option \<Rightarrow> kpi_service \<times> bool \<Rightarrow> kpi_service \<times> kpi_output list \<times> bool" where
  "visited visitor p = (let (s1, out) = sv_visit_opt visitor (fst p) in (s1, out, snd p))"

fun sv_update :: "time option \<Rightarrow> kpi_message \<Rightarrow> kpi_service \<Rightarrow> kpi_service \<times> kpi_output list \<times> bool" where
  "sv_update visitor (Restored_state last_check hard soft ty ack) s =
     (let (s1, changed) = sv_restored last_check hard soft ty ack s in (s1, [], changed))"
| "sv_update visitor (Service_status last_check fallback hard soft ty) s =
     visited visitor (sv_status last_check fallback hard soft ty s)"
| "sv_update visitor (Acknowledgement deletion) s = visited visitor (sv_acknowledge deletion s)"
| "sv_update visitor (Downtime_message d) s =
     (case sv_downtime d s of None \<Rightarrow> (s, [], False) | Some p \<Rightarrow> visited visitor p)"
| "sv_update visitor (Pb_downtime_message d) s =
     (let (s1, changed, goes_on) = sv_pb_downtime d s in
      if goes_on then visited visitor (s1, changed) else (s1, [], False))"

definition sv_set_initial_event :: "time \<Rightarrow> kpi_event \<Rightarrow> kpi_service \<Rightarrow> kpi_service" where
  "sv_set_initial_event now e s =
     (let (ev, initial) = kpi_set_initial_event now (sv_fill_impact s (sv_state_hard s)) e (sv_event s, sv_initial_events s) in
      case ev of
        None \<Rightarrow> s
      | Some f \<Rightarrow>
          s\<lparr>sv_event := Some f, sv_initial_events := initial, sv_last_check := ke_start_time f,
            sv_downtimed := ke_in_downtime f\<rparr>)"

subsection \<open>A boolean rule\<close>

record bool_expression =
  bx_expression :: bool_value
  bx_impact_if :: bool

definition bx_get_state :: "bool_expression \<Rightarrow> bam_state" where
  "bx_get_state x = (if boolean_value (bx_expression x) = bx_impact_if x then State_critical else State_ok)"

record kpi_boolexp =
  kb_boolexp :: bool_expression
  kb_impact :: rat
  kb_current_state :: bam_state
  kb_event :: "kpi_event option"
  kb_initial_events :: "kpi_event list"

definition kpi_boolexp_new :: "bool_expression \<Rightarrow> rat \<Rightarrow> kpi_boolexp" where
  "kpi_boolexp_new x impact =
     \<lparr>kb_boolexp = x, kb_impact = impact, kb_current_state = State_unknown, kb_event = None, kb_initial_events = []\<rparr>"

definition kb_fill_impact :: "kpi_boolexp \<Rightarrow> impact_values" where
  "kb_fill_impact s =
     \<lparr>iv_acknowledgement = 0, iv_downtime = 0,
      iv_nominal = (if kb_current_state s = State_ok then 0 else kb_impact s), iv_state = kb_current_state s\<rparr>"

definition kb_view :: "time \<Rightarrow> kpi_boolexp \<Rightarrow> kpi_view" where
  "kb_view now s =
     \<lparr>kv_hard = kb_fill_impact s, kv_soft = kb_fill_impact s, kv_in_downtime = in_downtime (bx_expression (kb_boolexp s)),
      kv_ok_state = (kb_current_state s = State_ok \<or> kb_current_state s = State_unknown),
      kv_last_state_change = get_last_state_change now (kb_event s)\<rparr>"

definition kb_update_state :: "kpi_boolexp \<Rightarrow> kpi_boolexp" where
  "kb_update_state s =
     s\<lparr>kb_current_state :=
         (if state_known (bx_expression (kb_boolexp s)) then bx_get_state (kb_boolexp s)
          else case kb_event s of Some e \<Rightarrow> ke_status e | None \<Rightarrow> bx_get_state (kb_boolexp s))\<rparr>"

definition kb_visit :: "time \<Rightarrow> kpi_boolexp \<Rightarrow> kpi_boolexp \<times> kpi_output list" where
  "kb_visit now s =
     (let o1 = map Out_kpi_event (kb_initial_events s);
          s1 = s\<lparr>kb_initial_events := []\<rparr>;
          values = kb_fill_impact s1;
          new = \<lparr>ke_start_time = now, ke_end_time = - 1, ke_impact_level = trunc (iv_nominal values), ke_in_downtime = False,
                 ke_status = kb_current_state s1\<rparr>;
          (s2, o2) =
            (case kb_event s1 of
               None \<Rightarrow> (s1\<lparr>kb_event := Some new\<rparr>, [Out_kpi_event new])
             | Some e \<Rightarrow>
                 if kb_current_state s1 \<noteq> ke_status e
                 then (s1\<lparr>kb_event := Some new\<rparr>, [Out_kpi_event (e\<lparr>ke_end_time := now\<rparr>), Out_kpi_event new])
                 else (s1, []))
      in (s2, o1 @ o2 @
            [Out_kpi_status \<lparr>ks_in_downtime = in_downtime (bx_expression (kb_boolexp s2)), ks_hard = values, ks_soft = values,
               ks_last_state_change = get_last_state_change now (kb_event s2), ks_last_impact = iv_nominal values\<rparr>]))"

definition kb_visit_opt :: "time option \<Rightarrow> kpi_boolexp \<Rightarrow> kpi_boolexp \<times> kpi_output list" where
  "kb_visit_opt visitor s = (case visitor of None \<Rightarrow> (s, []) | Some now \<Rightarrow> kb_visit now s)"

text \<open>\<open>update_from\<close>, when the boolean rule has notified a change.\<close>

definition kb_update_from :: "time option \<Rightarrow> kpi_boolexp \<Rightarrow> kpi_boolexp \<times> kpi_output list \<times> bool" where
  "kb_update_from visitor s =
     (let (s1, out) = kb_visit_opt visitor (kb_update_state s) in
      (s1, out, kb_current_state s1 \<noteq> kb_current_state s))"

text \<open>A message for the service at a position of the rule, and its way up to the KPI.\<close>

definition kb_update :: "time option \<Rightarrow> nat \<times> service_event \<Rightarrow> kpi_boolexp \<Rightarrow> kpi_boolexp \<times> kpi_output list \<times> bool" where
  "kb_update visitor m s =
     (let (n, notify) = update_service (fst m) (snd m) (bx_expression (kb_boolexp s));
          s1 = s\<lparr>kb_boolexp := (kb_boolexp s)\<lparr>bx_expression := n\<rparr>\<rparr>
      in if notify then kb_update_from visitor s1 else (s1, [], False))"

subsection \<open>Another business activity\<close>

record kpi_ba =
  kp_impact_warning :: rat
  kp_impact_critical :: rat
  kp_impact_unknown :: rat
  kp_event :: "kpi_event option"
  kp_initial_events :: "kpi_event list"

fun kp_impact :: "kpi_ba \<Rightarrow> bam_state \<Rightarrow> rat" where
  "kp_impact s State_ok = 0"
| "kp_impact s State_warning = kp_impact_warning s"
| "kp_impact s State_critical = kp_impact_critical s"
| "kp_impact s State_unknown = kp_impact_unknown s"

definition kp_fill_impact :: "kpi_ba \<Rightarrow> bam_state \<Rightarrow> rat \<Rightarrow> rat \<Rightarrow> impact_values" where
  "kp_fill_impact s st ack downtime =
     (let nominal = kp_impact s st in
      \<lparr>iv_acknowledgement = double (double (normalize ack * nominal) / 100),
       iv_downtime = double (double (normalize downtime * nominal) / 100),
       iv_nominal = nominal, iv_state = st\<rparr>)"

definition kp_view :: "time \<Rightarrow> (nat \<Rightarrow> kpi_view) \<Rightarrow> ba \<Rightarrow> kpi_ba \<Rightarrow> kpi_view" where
  "kp_view now kpis b s =
     \<lparr>kv_hard = kp_fill_impact s (get_state_hard kpis b) (get_ack_impact_hard b) (get_downtime_impact b),
      kv_soft = kp_fill_impact s (get_state_soft b) (get_ack_impact_soft b) (get_downtime_impact b),
      kv_in_downtime = ba_in_downtime b, kv_ok_state = (get_state_hard kpis b = State_ok),
      kv_last_state_change = get_last_state_change now (kp_event s)\<rparr>"

definition kp_visit :: "time \<Rightarrow> (nat \<Rightarrow> kpi_view) \<Rightarrow> ba \<Rightarrow> kpi_ba \<Rightarrow> kpi_ba \<times> kpi_output list" where
  "kp_visit now kpis b s =
     (let o1 = map Out_kpi_event (kp_initial_events s);
          s1 = s\<lparr>kp_initial_events := []\<rparr>;
          v = kp_view now kpis b s1;
          ba_state = (case ba_event b of Some e \<Rightarrow> be_status e | None \<Rightarrow> State_ok);
          last = (case ba_event b of Some e \<Rightarrow> be_start_time e | None \<Rightarrow> now);
          new = \<lparr>ke_start_time = last, ke_end_time = - 1, ke_impact_level = trunc (iv_nominal (kv_hard v)),
                 ke_in_downtime = ba_in_downtime b, ke_status = ba_state\<rparr>;
          (s2, o2) =
            (case kp_event s1 of
               None \<Rightarrow> if time_null last then (s1, []) else (s1\<lparr>kp_event := Some new\<rparr>, [Out_kpi_event new])
             | Some e \<Rightarrow>
                 if ba_in_downtime b \<noteq> ke_in_downtime e \<or> ba_state \<noteq> ke_status e
                 then (s1\<lparr>kp_event := Some new\<rparr>, [Out_kpi_event (e\<lparr>ke_end_time := last\<rparr>), Out_kpi_event new])
                 else (s1, []))
      in (s2, o1 @ o2 @
            [Out_kpi_status \<lparr>ks_in_downtime = ba_in_downtime b, ks_hard = kv_hard v, ks_soft = kv_soft v,
               ks_last_state_change = get_last_state_change now (kp_event s2), ks_last_impact = iv_nominal (kv_hard v)\<rparr>]))"

text \<open>\<open>update_from\<close>, when the BA has notified a change: the parents are always notified.\<close>

definition kp_update_from ::
  "time option \<Rightarrow> (nat \<Rightarrow> kpi_view) \<Rightarrow> ba \<Rightarrow> kpi_ba \<Rightarrow> kpi_ba \<times> kpi_output list \<times> bool" where
  "kp_update_from visitor kpis b s =
     (case visitor of
        None \<Rightarrow> (s, [], True)
      | Some now \<Rightarrow> (let (s1, out) = kp_visit now kpis b s in (s1, out, True)))"

end
