(* ===== verification/Bam_Ba_Props.thy ===== *)
theory Bam_Ba_Props
  imports Bam_Ba
begin

section \<open>The summary of a business activity is the one of its KPIs\<close>

text \<open>
  Lemmas on \<^verbatim>\<open>Bam_Ba\<close>: the contract between a BA and the arithmetic of its kind is a locale, which all five kinds
  satisfy; whatever is added, removed and changed, the summary is the one of the last impacts. A BA of kind
  impact adds and subtracts doubles, which is exact on multiples of \<open>1 / 1024\<close>: for other impacts the level
  drifts, as \<open>impact_level_drifts\<close> shows. The events that a BA writes follow each other without a gap.
\<close>

subsection \<open>The operations of all kinds at once\<close>

lemmas kind_apply_defs [simp] = best_apply_impact_def worst_apply_impact_def impact_apply_impact_def number_apply_impact_def
  percent_apply_impact_def

lemma get_state_hard_eq:
  "get_state_hard kpis b =
     (case ba_kind b of
        Ba_best \<Rightarrow>
          (if ba_dt_behaviour b = Dt_ignore_kpi \<and> every_kpi_in_dt kpis b then State_ok else su_computed_hard (ba_summary b))
      | Ba_worst \<Rightarrow>
          (if ba_dt_behaviour b = Dt_ignore_kpi \<and> every_kpi_in_dt kpis b then State_ok else su_computed_hard (ba_summary b))
      | Ba_impact \<Rightarrow> falling_state b (su_level_hard (ba_summary b))
      | Ba_ratio_number \<Rightarrow> rising_state b (su_level_hard (ba_summary b))
      | Ba_ratio_percent \<Rightarrow> percent_state id b (su_level_hard (ba_summary b)))"
  by (cases "ba_kind b") (simp_all add: get_state_hard_def best_state_hard_def worst_state_hard_def)

lemma unapply_impact_eq:
  "unapply_impact k i b =
     (if ba_kind b = Ba_impact then
        (let b1 = b\<lparr>ba_recompute_count := Suc (ba_recompute_count b)\<rparr>;
             b2 = (if recompute_limit \<le> ba_recompute_count b1
                   then b1\<lparr>ba_summary := recompute Ba_impact (ba_dt_behaviour b1) (map snd (ba_impacts b1)) (ba_summary b1),
                           ba_recompute_count := 0\<rparr>
                   else b1)
         in b2\<lparr>ba_summary := subtract_impact (ba_dt_behaviour b2) i (ba_summary b2)\<rparr>)
      else
        b\<lparr>ba_summary :=
            recompute (ba_kind b) (ba_dt_behaviour b) (map snd (filter (\<lambda>(k', i'). k' \<noteq> k) (ba_impacts b))) (ba_summary b)\<rparr>)"
  by (cases "ba_kind b")
    (simp_all add: unapply_impact_def best_unapply_impact_def worst_unapply_impact_def impact_unapply_impact_def
      number_unapply_impact_def percent_unapply_impact_def impact_recompute_def without_def Let_def)

lemma apply_changes_eq:
  "apply_changes k i b =
     (if ba_kind b = Ba_impact then
        (case map_of (ba_impacts b) k of
           None \<Rightarrow> Inl Undefined
         | Some old \<Rightarrow>
             (let b1 = unapply_impact k old b;
                  b2 = b1\<lparr>ba_impacts := set_impact k i (ba_impacts b1),
                          ba_summary := apply_impact Ba_impact (ba_dt_behaviour b1) i (ba_summary b1)\<rparr>
              in Inr (b2, level_int (su_level_hard (ba_summary b)) \<noteq> su_level_hard (ba_summary b2))))
      else
        (let impacts = set_impact k i (ba_impacts b);
             b1 = b\<lparr>ba_impacts := impacts,
                    ba_summary := recompute (ba_kind b) (ba_dt_behaviour b) (map snd impacts) (ba_summary b)\<rparr>
         in Inr (b1,
              if ba_kind b = Ba_best \<or> ba_kind b = Ba_worst
              then su_computed_hard (ba_summary b1) \<noteq> su_computed_hard (ba_summary b)
              else \<bar>double (su_level_hard (ba_summary b) - su_level_hard (ba_summary b1))\<bar> > level_eps)))"
  by (cases "ba_kind b")
    (simp_all add: apply_changes_def best_apply_changes_def worst_apply_changes_def impact_apply_changes_def
      number_apply_changes_def percent_apply_changes_def changed_all_def Let_def)

subsection \<open>What a summary says\<close>

text \<open>The impacts that count, and the states by which a BA of each kind is judged.\<close>

definition counted :: "downtime_behaviour \<Rightarrow> impact_info list \<Rightarrow> impact_info list" where
  "counted d is = filter (\<lambda>i. \<not> ignored d i) is"

definition worst_of :: "bam_state list \<Rightarrow> bam_state" where
  "worst_of ss =
     (if State_critical \<in> set ss then State_critical
      else if State_warning \<in> set ss then State_warning
      else if State_unknown \<in> set ss then State_unknown
      else State_ok)"

definition best_of :: "bam_state list \<Rightarrow> bam_state" where
  "best_of ss =
     (if State_ok \<in> set ss then State_ok
      else if State_unknown \<in> set ss then State_unknown
      else if State_warning \<in> set ss then State_warning
      else State_critical)"

definition hard_states :: "downtime_behaviour \<Rightarrow> impact_info list \<Rightarrow> bam_state list" where
  "hard_states d is = map (\<lambda>i. iv_state (ii_hard i)) (counted d is)"

definition criticals :: "downtime_behaviour \<Rightarrow> impact_info list \<Rightarrow> rat" where
  "criticals d is = of_nat (count_list (hard_states d is) State_critical)"

definition points :: "downtime_behaviour \<Rightarrow> impact_info list \<Rightarrow> rat" where
  "points d is = 100 - sum_list (map (\<lambda>i. iv_nominal (ii_hard i)) (counted d is))"

lemma mset_counted: "mset xs = mset ys \<Longrightarrow> mset (counted d xs) = mset (counted d ys)"
  by (simp add: counted_def)

lemma mset_hard_states: "mset xs = mset ys \<Longrightarrow> mset (hard_states d xs) = mset (hard_states d ys)"
  using mset_counted [of xs ys d] by (simp add: hard_states_def)

lemma hard_states_order:
  assumes "mset xs = mset ys"
  shows "best_of (hard_states d xs) = best_of (hard_states d ys)" "worst_of (hard_states d xs) = worst_of (hard_states d ys)"
    "criticals d xs = criticals d ys"
proof -
  have "set (hard_states d xs) = set (hard_states d ys)" by (rule mset_eq_setD [OF mset_hard_states [OF assms]])
  then show "best_of (hard_states d xs) = best_of (hard_states d ys)" "worst_of (hard_states d xs) = worst_of (hard_states d ys)"
    by (simp_all add: best_of_def worst_of_def)
  show "criticals d xs = criticals d ys"
    using mset_hard_states [OF assms] unfolding criticals_def by (simp flip: count_mset)
qed

lemma points_order:
  assumes "mset xs = mset ys"
  shows "points d xs = points d ys"
proof -
  have "mset (map (\<lambda>i. iv_nominal (ii_hard i)) (counted d xs)) = mset (map (\<lambda>i. iv_nominal (ii_hard i)) (counted d ys))"
    using mset_counted [OF assms] by simp
  from arg_cong [OF this, of sum_mset] show ?thesis by (simp only: points_def sum_mset_sum_list)
qed

subsection \<open>Impacts without rounding\<close>

text \<open>As many KPIs as are taken into account, and the nominal impacts that are added without rounding.\<close>

definition max_kpis :: nat where
  "max_kpis = 2 ^ 20"

definition tame_number :: "rat \<Rightarrow> bool" where
  "tame_number x \<longleftrightarrow> on_grid x \<and> \<bar>x\<bar> \<le> 2 ^ 20"

definition tame :: "impact_info \<Rightarrow> bool" where
  "tame i \<longleftrightarrow> tame_number (iv_nominal (ii_hard i))"

definition fits :: "ba_kind \<Rightarrow> impact_info list \<Rightarrow> bool" where
  "fits k is \<longleftrightarrow> length is \<le> max_kpis \<and> (k = Ba_impact \<longrightarrow> list_all tame is)"

lemma fits_subset: "fits k xs \<Longrightarrow> mset ys \<subseteq># mset xs \<Longrightarrow> fits k ys"
  using size_mset_mono [of "mset ys" "mset xs"] set_mset_mono [of "mset ys" "mset xs"]
  by (auto simp: fits_def list_all_iff)

lemma sum_bound: "\<forall>x \<in> set xs. \<bar>x\<bar> \<le> c \<Longrightarrow> \<bar>sum_list xs\<bar> \<le> of_nat (length xs) * (c :: rat)"
proof (induction xs)
  case (Cons x xs)
  then have "\<bar>x + sum_list xs\<bar> \<le> c + of_nat (length xs) * c" by (intro order.trans [OF abs_triangle_ineq] add_mono) simp_all
  then show ?case by (simp add: algebra_simps)
qed simp

lemma points_tame:
  assumes "fits Ba_impact is"
  shows "on_grid (points d is)" "\<bar>points d is\<bar> \<le> 2 ^ 41"
proof -
  let ?xs = "map (\<lambda>i. iv_nominal (ii_hard i)) (counted d is)"
  have t: "\<forall>x \<in> set ?xs. on_grid x \<and> \<bar>x\<bar> \<le> 2 ^ 20"
    using assms by (auto simp: fits_def counted_def list_all_iff tame_def tame_number_def)
  then show "on_grid (points d is)"
    unfolding points_def by (intro on_grid_diff on_grid_sum_list) (simp_all add: list_all_iff)
  have "length ?xs \<le> 2 ^ 20"
    using assms length_filter_le [of "\<lambda>i. \<not> ignored d i" "is"] unfolding fits_def max_kpis_def counted_def length_map
    by (blast intro: order.trans)
  then have "of_nat (length ?xs) * (2 ^ 20 :: rat) \<le> of_nat (2 ^ 20) * 2 ^ 20"
    by (intro mult_right_mono) (simp_all only: of_nat_le_iff zero_le_power zero_le_numeral)
  with sum_bound [of ?xs "2 ^ 20"] t have "\<bar>sum_list ?xs\<bar> \<le> 2 ^ 40" by simp
  then show "\<bar>points d is\<bar> \<le> 2 ^ 41" by (simp add: points_def abs_le_iff)
qed

lemma double_points: "fits Ba_impact is \<Longrightarrow> double (points d is) = points d is"
  using points_tame [of "is" d] by (intro double_on_grid) auto

lemma double_criticals: "fits k is \<Longrightarrow> double (criticals d is) = criticals d is"
proof (rule double_on_grid)
  assume "fits k is"
  then have "length is \<le> 2 ^ 20" by (simp add: fits_def max_kpis_def)
  moreover have "count_list (hard_states d is) State_critical \<le> length is"
    using count_le_length [of "hard_states d is" State_critical] length_filter_le [of "\<lambda>i. \<not> ignored d i" "is"]
    unfolding hard_states_def counted_def length_map by (rule order.trans)
  ultimately have "count_list (hard_states d is) State_critical < 2 ^ 43" by simp
  then have "of_nat (count_list (hard_states d is) State_critical) < (of_nat (2 ^ 43) :: rat)" by (simp only: of_nat_less_iff)
  then show "\<bar>criticals d is\<bar> < 2 ^ 43" by (simp add: criticals_def)
qed (simp add: criticals_def)

subsection \<open>The contract of a kind\<close>

text \<open>
  A summary that starts empty and takes up impacts one by one has the meaning of all of them, in whatever
  order, as long as they fit; the subtraction of a BA of kind impact takes one away.
\<close>

locale ba_aggregate =
  fixes start :: "'a \<Rightarrow> 'a"
    and app :: "'i \<Rightarrow> 'a \<Rightarrow> 'a"
    and ok :: "'i list \<Rightarrow> bool"
    and means :: "'i list \<Rightarrow> 'a \<Rightarrow> bool"
  assumes start_means: "means [] (start a)"
    and app_means: "ok (xs @ [i]) \<Longrightarrow> means xs a \<Longrightarrow> means (xs @ [i]) (app i a)"
    and means_order: "mset xs = mset ys \<Longrightarrow> means xs a \<Longrightarrow> means ys a"
    and ok_subset: "ok xs \<Longrightarrow> mset ys \<subseteq># mset xs \<Longrightarrow> ok ys"
begin

lemma fold_means: "ok xs \<Longrightarrow> means xs (fold app xs (start a))"
proof (induction xs rule: rev_induct)
  case (snoc i xs)
  then show ?case using ok_subset [of "xs @ [i]" xs] by (simp add: app_means)
qed (simp add: start_means)

lemma ok_order: "ok xs \<Longrightarrow> mset xs = mset ys \<Longrightarrow> ok ys"
  by (rule ok_subset) (assumption, metis subset_mset.order_refl)

end

locale ba_undo = ba_aggregate +
  fixes undo :: "'b \<Rightarrow> 'a \<Rightarrow> 'a"
  assumes undo_means: "ok (xs @ [i]) \<Longrightarrow> means (xs @ [i]) a \<Longrightarrow> means xs (undo i a)"
begin

lemma undo_removes:
  assumes "ok xs" "means xs a" "mset xs = add_mset i (mset ys)"
  shows "means ys (undo i a)"
proof (rule undo_means)
  have "mset xs = mset (ys @ [i])" using assms(3) by simp
  then show "ok (ys @ [i])" "means (ys @ [i]) a" using ok_order [OF assms(1)] means_order assms(2) by blast+
qed

end

fun summarizes :: "ba_kind \<Rightarrow> downtime_behaviour \<Rightarrow> impact_info list \<Rightarrow> summary \<Rightarrow> bool" where
  "summarizes Ba_best d is a = (su_computed_hard a = best_of (hard_states d is))"
| "summarizes Ba_worst d is a = (su_computed_hard a = worst_of (hard_states d is))"
| "summarizes Ba_impact d is a = (su_level_hard a = points d is)"
| "summarizes Ba_ratio_number d is a = (su_level_hard a = criticals d is)"
| "summarizes Ba_ratio_percent d is a = (su_level_hard a = criticals d is)"

lemma hard_states_snoc:
  "hard_states d (is @ [i]) = (if ignored d i then hard_states d is else hard_states d is @ [iv_state (ii_hard i)])"
  by (simp add: hard_states_def counted_def)

lemma points_snoc:
  "points d (is @ [i]) = (if ignored d i then points d is else points d is - iv_nominal (ii_hard i))"
  by (simp add: points_def counted_def)

lemma criticals_snoc:
  "criticals d (is @ [i]) =
     (if \<not> ignored d i \<and> iv_state (ii_hard i) = State_critical then criticals d is + 1 else criticals d is)"
  by (simp add: criticals_def hard_states_snoc)

lemma count_critical_level:
  "su_level_hard (count_critical i a) =
     (if iv_state (ii_hard i) = State_critical then double (su_level_hard a + 1) else su_level_hard a)"
  by (simp add: count_critical_def Let_def)

lemma apply_summarizes:
  assumes "fits k (is @ [i])" "summarizes k d is a"
  shows "summarizes k d (is @ [i]) (apply_impact k d i a)"
proof (cases k)
  case Ba_best
  with assms(2) show ?thesis
    by (cases "iv_state (ii_hard i)") (auto simp: hard_states_snoc best_of_def better_def)
next
  case Ba_worst
  with assms(2) show ?thesis
    by (cases "iv_state (ii_hard i)") (auto simp: hard_states_snoc worst_of_def worse_def)
next
  case Ba_impact
  with assms double_points [of "is @ [i]" d] show ?thesis by (auto simp: points_snoc Let_def)
next
  case Ba_ratio_number
  with assms double_criticals [OF assms(1), of d] show ?thesis by (auto simp: criticals_snoc count_critical_level)
next
  case Ba_ratio_percent
  with assms double_criticals [OF assms(1), of d] show ?thesis by (auto simp: criticals_snoc count_critical_level)
qed

interpretation kind_summary: ba_aggregate "reset k" "apply_impact k d" "fits k" "summarizes k d" for k d
proof
  show "summarizes k d [] (reset k a)" for a
    by (cases k) (simp_all add: best_of_def worst_of_def hard_states_def counted_def points_def criticals_def)
  show "summarizes k d ys a" if "mset xs = mset ys" "summarizes k d xs a" for xs ys a
    using that hard_states_order [OF that(1), of d] points_order [OF that(1), of d] by (cases k) simp_all
qed (auto intro: apply_summarizes fits_subset)

interpretation impact_summary: ba_undo "reset Ba_impact" "apply_impact Ba_impact d" "fits Ba_impact" "summarizes Ba_impact d"
    "subtract_impact d" for d
proof
  fix xs i a
  assume f: "fits Ba_impact (xs @ [i])" and s: "summarizes Ba_impact d (xs @ [i]) a"
  have "fits Ba_impact xs" by (rule fits_subset [OF f]) simp
  with s double_points [of xs d] show "summarizes Ba_impact d xs (subtract_impact d i a)"
    by (auto simp: points_snoc subtract_impact_def Let_def)
qed

text \<open>
  Impacts that are not on the grid: with impacts of 0.1 and 50, a BA that has seen the first KPI turn
  critical, then the second, then the first OK again is left above the level computed from scratch.
\<close>

definition nominal_impact :: "bam_state \<Rightarrow> rat \<Rightarrow> impact_info" where
  "nominal_impact st x =
     (let v = \<lparr>iv_acknowledgement = 0, iv_downtime = 0, iv_nominal = x, iv_state = st\<rparr>
      in \<lparr>ii_hard = v, ii_soft = v, ii_in_downtime = False\<rparr>)"

lemma impact_level_drifts:
  fixes d a
  defines "x \<equiv> nominal_impact State_critical (double (1 / 10))" and "y \<equiv> nominal_impact State_critical 50"
  shows "su_level_hard (subtract_impact d x (apply_impact Ba_impact d y (apply_impact Ba_impact d x (reset Ba_impact a)))) > 50"
    and "su_level_hard (recompute Ba_impact d [y] a) = 50"
proof -
  have "double (double (double (100 - double (1 / 10)) - 50) + double (1 / 10)) > 50" by code_simp
  moreover have "double 50 = 50" by (rule double_on_grid) simp_all
  ultimately show "su_level_hard (subtract_impact d x (apply_impact Ba_impact d y (apply_impact Ba_impact d x (reset Ba_impact a)))) > 50"
    "su_level_hard (recompute Ba_impact d [y] a) = 50"
    by (simp_all add: x_def y_def nominal_impact_def subtract_impact_def recompute_def ignored_def Let_def)
qed

text \<open>29 of 100 critical KPIs are a little less than 29 percent.\<close>

lemma percentage_below: "percentage 29 100 < 29"
  by code_simp

subsection \<open>The summary\<close>

definition ba_ok :: "ba \<Rightarrow> bool" where
  "ba_ok b \<longleftrightarrow>
     distinct (map fst (ba_impacts b)) \<and> (\<forall>k \<in> set (map fst (ba_impacts b)). k < max_kpis) \<and>
     (ba_kind b = Ba_impact \<longrightarrow> list_all tame (map snd (ba_impacts b))) \<and>
     summarizes (ba_kind b) (ba_dt_behaviour b) (map snd (ba_impacts b)) (ba_summary b)"

lemma note_kpi_update_fields [simp]:
  "ba_impacts (note_kpi_update v b) = ba_impacts b" "ba_summary (note_kpi_update v b) = ba_summary b"
  "ba_kind (note_kpi_update v b) = ba_kind b" "ba_dt_behaviour (note_kpi_update v b) = ba_dt_behaviour b"
  "ba_event (note_kpi_update v b) = ba_event b" "ba_in_downtime (note_kpi_update v b) = ba_in_downtime b"
  "ba_initial_events (note_kpi_update v b) = ba_initial_events b"
  by (simp_all add: note_kpi_update_def)

lemma recompute_summarizes: "fits k is \<Longrightarrow> summarizes k d is (recompute k d is a)"
  unfolding recompute_def by (rule kind_summary.fold_means)

lemma distinct_bounded_length:
  assumes "distinct xs" "\<forall>x \<in> set xs. x < (n :: nat)"
  shows "length xs \<le> n"
proof -
  have "card (set xs) \<le> card {..<n}" using assms(2) by (intro card_mono) auto
  with assms(1) show ?thesis by (simp add: distinct_card)
qed

lemma fits_keys:
  assumes "distinct (map fst ps)" "\<forall>k \<in> set (map fst ps). k < max_kpis" "kind = Ba_impact \<longrightarrow> list_all tame (map snd ps)"
  shows "fits kind (map snd ps)"
  using assms distinct_bounded_length [OF assms(1,2)] by (simp add: fits_def)

lemma ba_ok_fits: "ba_ok b \<Longrightarrow> fits (ba_kind b) (map snd (ba_impacts b))"
  unfolding ba_ok_def by (intro fits_keys) auto

lemma ba_ok_add:
  assumes "ba_ok b" "k < max_kpis" "ba_kind b = Ba_impact \<longrightarrow> tame (impact_of v)"
  shows "ba_ok (add_impact k v b)"
proof (cases "map_of (ba_impacts b) k")
  case None
  let ?ps = "ba_impacts b @ [(k, impact_of v)]"
  have k: "k \<notin> set (map fst (ba_impacts b))" using None by (simp add: map_of_eq_None_iff)
  have o: "distinct (map fst ?ps)" "\<forall>j \<in> set (map fst ?ps). j < max_kpis" "ba_kind b = Ba_impact \<longrightarrow> list_all tame (map snd ?ps)"
    using assms k by (auto simp: ba_ok_def)
  have "summarizes (ba_kind b) (ba_dt_behaviour b) (map snd (ba_impacts b) @ [impact_of v])
      (apply_impact (ba_kind b) (ba_dt_behaviour b) (impact_of v) (ba_summary b))"
    by (rule kind_summary.app_means) (use fits_keys [OF o] assms(1) in \<open>simp_all add: ba_ok_def\<close>)
  with o None show ?thesis by (simp add: add_impact_def ba_ok_def)
qed (use assms(1) in \<open>simp add: add_impact_def\<close>)

lemma unapply_impact_fields [simp]:
  "ba_impacts (unapply_impact k i b) = ba_impacts b" "ba_kind (unapply_impact k i b) = ba_kind b"
  "ba_dt_behaviour (unapply_impact k i b) = ba_dt_behaviour b" "ba_event (unapply_impact k i b) = ba_event b"
  "ba_in_downtime (unapply_impact k i b) = ba_in_downtime b"
  "ba_initial_events (unapply_impact k i b) = ba_initial_events b"
  "ba_last_kpi_update (unapply_impact k i b) = ba_last_kpi_update b"
  by (simp_all add: unapply_impact_eq Let_def)

lemma filter_key_notin: "k \<notin> set (map fst ps) \<Longrightarrow> filter (\<lambda>(k', i'). k' \<noteq> k) ps = ps"
  by (induction ps) auto

lemma impacts_remove:
  assumes "distinct (map fst ps)" "map_of ps k = Some i"
  shows "mset (map snd ps) = add_mset i (mset (map snd (filter (\<lambda>(k', i'). k' \<noteq> k) ps)))"
  using assms
proof (induction ps)
  case (Cons p ps)
  then show ?case
    using filter_key_notin [of "fst p" ps] by (cases p; cases "fst p = k") (simp_all del: mset_filter mset_map)
qed simp

lemma others_fit:
  assumes "ba_ok b"
  shows "fits (ba_kind b) (map snd (filter P (ba_impacts b)))"
proof (rule fits_subset [OF ba_ok_fits [OF assms]])
  show "mset (map snd (filter P (ba_impacts b))) \<subseteq># mset (map snd (ba_impacts b))"
    by (simp add: image_mset_subseteq_mono)
qed

lemma unapply_summary:
  assumes "ba_ok b" "map_of (ba_impacts b) k = Some i"
  shows "summarizes (ba_kind b) (ba_dt_behaviour b) (map snd (filter (\<lambda>(k', i'). k' \<noteq> k) (ba_impacts b)))
    (ba_summary (unapply_impact k i b))"
proof (cases "ba_kind b = Ba_impact")
  case True
  let ?d = "ba_dt_behaviour b" and ?is = "map snd (ba_impacts b)"
  have f: "fits Ba_impact ?is" using ba_ok_fits [OF assms(1)] True by simp
  obtain a where a: "summarizes Ba_impact ?d ?is a" "ba_summary (unapply_impact k i b) = subtract_impact ?d i a"
  proof (cases "recompute_limit \<le> Suc (ba_recompute_count b)")
    case r: True
    then show thesis
      using True recompute_summarizes [OF f] by (intro that) (auto simp: unapply_impact_eq Let_def)
  next
    case False
    then show thesis
      using True assms(1) by (intro that) (auto simp: unapply_impact_eq Let_def ba_ok_def)
  qed
  have "mset ?is = add_mset i (mset (map snd (filter (\<lambda>(k', i'). k' \<noteq> k) (ba_impacts b))))"
    by (rule impacts_remove) (use assms in \<open>auto simp: ba_ok_def\<close>)
  from impact_summary.undo_removes [OF f a(1) this] show ?thesis using True a(2) by simp
next
  case False
  then show ?thesis using recompute_summarizes [OF others_fit [OF assms(1)]] by (simp add: unapply_impact_eq)
qed

lemma distinct_filter_keys: "distinct (map fst ps) \<Longrightarrow> distinct (map fst (filter P ps))"
  by (induction ps) auto

lemma ba_ok_remove:
  assumes "ba_ok b"
  shows "ba_ok (remove_impact k b)"
proof (cases "map_of (ba_impacts b) k")
  case (Some i)
  then show ?thesis
    using assms unapply_summary [OF assms Some]
    by (auto simp: remove_impact_def ba_ok_def distinct_filter_keys Let_def list_all_iff)
qed (use assms in \<open>simp add: remove_impact_def\<close>)

lemma set_impact_keys [simp]: "map fst (set_impact k i ps) = map fst ps"
  by (induction ps) (auto simp: set_impact_def)

lemma set_impact_others: "filter (\<lambda>(k', i'). k' \<noteq> k) (set_impact k i ps) = filter (\<lambda>(k', i'). k' \<noteq> k) ps"
  by (induction ps) (auto simp: set_impact_def)

lemma map_of_set_impact: "map_of (set_impact k i ps) k' = (if k' = k \<and> map_of ps k \<noteq> None then Some i else map_of ps k')"
  by (induction ps) (auto simp: set_impact_def)

lemma set_impact_tame: "list_all tame (map snd ps) \<Longrightarrow> tame i \<Longrightarrow> list_all tame (map snd (set_impact k i ps))"
  by (induction ps) (auto simp: set_impact_def)

lemma ba_ok_changes:
  assumes "ba_ok b" "ba_kind b = Ba_impact \<longrightarrow> tame i" "apply_changes k i b = Inr (b', changed)"
  shows "ba_ok b' \<and> ba_impacts b' = set_impact k i (ba_impacts b) \<and> ba_kind b' = ba_kind b \<and> ba_dt_behaviour b' = ba_dt_behaviour b"
proof -
  let ?d = "ba_dt_behaviour b" and ?is = "set_impact k i (ba_impacts b)"
  have o: "distinct (map fst ?is)" "\<forall>j \<in> set (map fst ?is). j < max_kpis" "ba_kind b = Ba_impact \<longrightarrow> list_all tame (map snd ?is)"
    using assms(1,2) set_impact_tame by (simp_all add: ba_ok_def)
  note f = fits_keys [OF o]
  show ?thesis
  proof (cases "ba_kind b = Ba_impact")
    case True
    then obtain old where old: "map_of (ba_impacts b) k = Some old"
      using assms(3) by (auto simp: apply_changes_eq split: option.splits)
    let ?b1 = "unapply_impact k old b" and ?others = "map snd (filter (\<lambda>(k', i'). k' \<noteq> k) (ba_impacts b))"
    have b': "b' = ?b1\<lparr>ba_impacts := ?is, ba_summary := apply_impact Ba_impact ?d i (ba_summary ?b1)\<rparr>"
      using assms(3) True old by (simp add: apply_changes_eq Let_def)
    have "map_of ?is k = Some i" using old by (simp add: map_of_set_impact)
    then have m: "mset (map snd ?is) = mset (?others @ [i])" using impacts_remove [OF o(1), of k i] by (simp add: set_impact_others del: mset_filter mset_map)
    have fo: "fits Ba_impact (?others @ [i])" using kind_summary.ok_order [OF f m] True by simp
    have "summarizes Ba_impact ?d (?others @ [i]) (apply_impact Ba_impact ?d i (ba_summary ?b1))"
      by (rule kind_summary.app_means [OF fo]) (use unapply_summary [OF assms(1) old] True in simp)
    then have "summarizes Ba_impact ?d (map snd ?is) (apply_impact Ba_impact ?d i (ba_summary ?b1))"
      by (rule kind_summary.means_order [OF m [symmetric]])
    with b' True o show ?thesis by (simp add: ba_ok_def)
  next
    case False
    then have "b' = b\<lparr>ba_impacts := ?is, ba_summary := recompute (ba_kind b) ?d (map snd ?is) (ba_summary b)\<rparr>"
      using assms(3) by (simp add: apply_changes_eq Let_def)
    then show ?thesis using False o recompute_summarizes [OF f] by (simp add: ba_ok_def)
  qed
qed

text \<open>The hard state of a BA, from the last impacts of its KPIs alone.\<close>

definition state_spec :: "(nat \<Rightarrow> kpi_view) \<Rightarrow> ba \<Rightarrow> bam_state" where
  "state_spec kpis b =
     (let d = ba_dt_behaviour b; is = map snd (ba_impacts b) in
      case ba_kind b of
        Ba_best \<Rightarrow> if d = Dt_ignore_kpi \<and> every_kpi_in_dt kpis b then State_ok else best_of (hard_states d is)
      | Ba_worst \<Rightarrow> if d = Dt_ignore_kpi \<and> every_kpi_in_dt kpis b then State_ok else worst_of (hard_states d is)
      | Ba_impact \<Rightarrow> falling_state b (points d is)
      | Ba_ratio_number \<Rightarrow> rising_state b (criticals d is)
      | Ba_ratio_percent \<Rightarrow> if is = [] then State_ok else rising_state b (percentage (criticals d is) (length is)))"

lemma ba_ok_state:
  assumes "ba_ok b"
  shows "get_state_hard kpis b = state_spec kpis b"
proof -
  have "criticals d [] = 0" for d by (simp add: criticals_def hard_states_def counted_def)
  with assms show ?thesis
    by (cases "ba_kind b") (simp_all add: get_state_hard_eq state_spec_def Let_def percent_state_def ba_ok_def)
qed

subsection \<open>Runs\<close>

text \<open>
  What may happen to a BA: KPIs are added and removed, a KPI notifies a change, its own service enters
  or leaves a downtime. Each step sees the KPIs as they are, and has a visitor or not.
\<close>

datatype ba_input = Add nat | Remove nat | Changed nat | Downtime bool time

type_synonym ba_stimulus = "(nat \<Rightarrow> kpi_view) \<times> time option \<times> ba_input"

fun ba_step :: "ba_stimulus \<Rightarrow> ba \<Rightarrow> exn + ba \<times> ba_output list" where
  "ba_step (kpis, visitor, Add k) b = Inr (add_impact k (kpis k) b, [])"
| "ba_step (kpis, visitor, Remove k) b = Inr (remove_impact k b, [])"
| "ba_step (kpis, visitor, Changed k) b =
     (case ba_update_from kpis visitor k b of Inl e \<Rightarrow> Inl e | Inr (b1, out, notify) \<Rightarrow> Inr (b1, out))"
| "ba_step (kpis, visitor, Downtime started end) b =
     (let (b1, out, notify) = service_downtime kpis visitor started end b in Inr (b1, out))"

fun ba_run :: "ba_stimulus list \<Rightarrow> ba \<Rightarrow> exn + ba \<times> ba_output list" where
  "ba_run [] b = Inr (b, [])"
| "ba_run (s # ss) b =
     (case ba_step s b of
        Inl e \<Rightarrow> Inl e
      | Inr (b1, out) \<Rightarrow> (case ba_run ss b1 of Inl e \<Rightarrow> Inl e | Inr (b2, out2) \<Rightarrow> Inr (b2, out @ out2)))"

text \<open>The impacts after a run: the last ones of the KPIs that have been added and not removed.\<close>

fun impacts_after :: "ba_stimulus list \<Rightarrow> (nat \<rightharpoonup> impact_info) \<Rightarrow> nat \<rightharpoonup> impact_info" where
  "impacts_after [] m = m"
| "impacts_after ((kpis, visitor, Add k) # ss) m =
     impacts_after ss (if m k = None then m(k \<mapsto> impact_of (kpis k)) else m)"
| "impacts_after ((kpis, visitor, Remove k) # ss) m = impacts_after ss (m(k := None))"
| "impacts_after ((kpis, visitor, Changed k) # ss) m =
     impacts_after ss (if m k = None then m else m(k \<mapsto> impact_of (kpis k)))"
| "impacts_after ((kpis, visitor, Downtime started end) # ss) m = impacts_after ss m"

text \<open>Only KPIs that are there notify.\<close>

fun known_kpis :: "ba_stimulus list \<Rightarrow> nat set \<Rightarrow> bool" where
  "known_kpis [] ks = True"
| "known_kpis ((kpis, visitor, Add k) # ss) ks = known_kpis ss (insert k ks)"
| "known_kpis ((kpis, visitor, Remove k) # ss) ks = known_kpis ss (ks - {k})"
| "known_kpis ((kpis, visitor, Changed k) # ss) ks = (k \<in> ks \<and> known_kpis ss ks)"
| "known_kpis ((kpis, visitor, Downtime started end) # ss) ks = known_kpis ss ks"

text \<open>
  The KPIs are few, and for a BA of kind impact their nominal impacts are multiples of \<open>1 / 1024\<close> of a
  reasonable size.
\<close>

fun fair_step :: "ba_kind \<Rightarrow> ba_stimulus \<Rightarrow> bool" where
  "fair_step kind (kpis, visitor, Add k) = (k < max_kpis \<and> (kind = Ba_impact \<longrightarrow> tame (impact_of (kpis k))))"
| "fair_step kind (kpis, visitor, Changed k) = (kind = Ba_impact \<longrightarrow> tame (impact_of (kpis k)))"
| "fair_step kind (kpis, visitor, i) = True"

lemma visit_fields:
  "visit kpis now b = (b', out) \<Longrightarrow>
     ba_impacts b' = ba_impacts b \<and> ba_summary b' = ba_summary b \<and> ba_kind b' = ba_kind b \<and>
     ba_dt_behaviour b' = ba_dt_behaviour b \<and> ba_in_downtime b' = ba_in_downtime b \<and> ba_initial_events b' = [] \<and>
     ba_level_critical b' = ba_level_critical b \<and> ba_level_warning b' = ba_level_warning b \<and> ba_valid b' = ba_valid b"
  by (auto simp: visit_def Let_def open_new_event_def split: option.splits if_splits)

lemma visit_opt_fields:
  "visit_opt kpis visitor b = (b', out) \<Longrightarrow>
     ba_impacts b' = ba_impacts b \<and> ba_summary b' = ba_summary b \<and> ba_kind b' = ba_kind b \<and>
     ba_dt_behaviour b' = ba_dt_behaviour b \<and> ba_in_downtime b' = ba_in_downtime b"
  by (auto simp: visit_opt_def dest: visit_fields split: option.splits)

lemma inherited_fields:
  "compute_inherited_downtime kpis visitor b = (b', out) \<Longrightarrow>
     ba_impacts b' = ba_impacts b \<and> ba_summary b' = ba_summary b \<and> ba_kind b' = ba_kind b \<and>
     ba_dt_behaviour b' = ba_dt_behaviour b \<and> ba_event b' = ba_event b \<and> ba_initial_events b' = ba_initial_events b \<and>
     ba_last_kpi_update b' = ba_last_kpi_update b"
  by (auto simp: compute_inherited_downtime_def Let_def split: if_splits)

lemma ba_ok_cong:
  "ba_ok b \<Longrightarrow> ba_impacts b' = ba_impacts b \<Longrightarrow> ba_summary b' = ba_summary b \<Longrightarrow> ba_kind b' = ba_kind b \<Longrightarrow>
     ba_dt_behaviour b' = ba_dt_behaviour b \<Longrightarrow> ba_ok b'"
  by (simp add: ba_ok_def)

lemma ba_update_from_ok:
  assumes "ba_ok b" "ba_kind b = Ba_impact \<longrightarrow> tame (impact_of (kpis k))" "ba_update_from kpis visitor k b = Inr (b', out, notify)"
  shows "ba_ok b'" "ba_impacts b' = set_impact k (impact_of (kpis k)) (ba_impacts b)"
proof -
  obtain b2 ch b3 o1 o2 where
    u: "apply_changes k (impact_of (kpis k)) (note_kpi_update (kpis k) b) = Inr (b2, ch)"
      "compute_inherited_downtime kpis visitor b2 = (b3, o1)" "visit_opt kpis visitor b3 = (b', o2)"
    using assms(3) by (auto simp: ba_update_from_def Let_def split: sum.splits prod.splits)
  have "ba_ok (note_kpi_update (kpis k) b)" using assms(1) by (simp add: ba_ok_def)
  from ba_ok_changes [OF this _ u(1)] assms(2)
  have c: "ba_ok b2" "ba_impacts b2 = set_impact k (impact_of (kpis k)) (ba_impacts b)" by simp_all
  from inherited_fields [OF u(2)] visit_opt_fields [OF u(3)]
  have f: "ba_impacts b' = ba_impacts b2" "ba_summary b' = ba_summary b2" "ba_kind b' = ba_kind b2"
    "ba_dt_behaviour b' = ba_dt_behaviour b2" by simp_all
  show "ba_ok b'" by (rule ba_ok_cong [OF c(1) f])
  show "ba_impacts b' = set_impact k (impact_of (kpis k)) (ba_impacts b)" by (simp only: f c)
qed

lemma apply_changes_dt:
  "apply_changes k i b = Inr (b', ch) \<Longrightarrow> ba_dt_behaviour b' = ba_dt_behaviour b \<and> ba_kind b' = ba_kind b"
  by (auto simp: apply_changes_eq Let_def split: if_splits option.splits)

lemma ba_update_from_dt:
  "ba_update_from kpis visitor k b = Inr (b', out, notify) \<Longrightarrow>
     ba_dt_behaviour b' = ba_dt_behaviour b \<and> ba_kind b' = ba_kind b"
  by (auto simp: ba_update_from_def Let_def dest!: apply_changes_dt inherited_fields visit_opt_fields
      split: sum.splits prod.splits)

lemma ba_update_from_total:
  "ba_kind b \<noteq> Ba_impact \<or> map_of (ba_impacts b) k \<noteq> None \<Longrightarrow> \<exists>r. ba_update_from kpis visitor k b = Inr r"
  by (auto simp: ba_update_from_def apply_changes_eq Let_def split: sum.splits prod.splits option.splits)

lemma map_of_filter_key: "map_of (filter (\<lambda>(k', i'). k' \<noteq> k) ps) = (map_of ps)(k := None)"
  by (induction ps) (auto simp: fun_eq_iff)

lemma ba_step_ok:
  assumes "ba_ok b" "fair_step (ba_kind b) s" "ba_step s b = Inr (b', out)"
  shows "ba_ok b' \<and> ba_kind b' = ba_kind b \<and> map_of (ba_impacts b') = impacts_after [s] (map_of (ba_impacts b))"
proof -
  obtain kpis visitor i where s: "s = (kpis, visitor, i)" using prod_cases3 by blast
  show ?thesis
  proof (cases i)
    case (Add k)
    have "ba_ok (add_impact k (kpis k) b)" using assms(1,2) s Add by (intro ba_ok_add) simp_all
    moreover have "map_of (ba_impacts (add_impact k (kpis k) b)) = impacts_after [s] (map_of (ba_impacts b))"
      using s Add by (auto simp: add_impact_def fun_eq_iff map_add_def split: option.splits)
    ultimately show ?thesis using s Add assms(3) by (auto simp: add_impact_def split: option.splits)
  next
    case (Remove k)
    have "ba_ok (remove_impact k b)" using assms(1) by (rule ba_ok_remove)
    moreover have "map_of (ba_impacts (remove_impact k b)) = impacts_after [s] (map_of (ba_impacts b))"
      using s Remove by (auto simp: remove_impact_def Let_def map_of_filter_key fun_eq_iff split: option.splits)
    ultimately show ?thesis using s Remove assms(3) by (auto simp: remove_impact_def Let_def split: option.splits)
  next
    case (Changed k)
    then obtain notify where "ba_update_from kpis visitor k b = Inr (b', out, notify)"
      using assms(3) s by (auto split: sum.splits)
    with ba_update_from_ok [OF assms(1) _ this] ba_update_from_dt [OF this] assms(2) s Changed
    show ?thesis by (auto simp: map_of_set_impact fun_eq_iff)
  next
    case (Downtime started "end")
    have "ba_impacts b' = ba_impacts b \<and> ba_summary b' = ba_summary b \<and> ba_kind b' = ba_kind b \<and> ba_dt_behaviour b' = ba_dt_behaviour b"
      using assms(3) s Downtime
      by (auto simp: service_downtime_def Let_def dest: visit_opt_fields split: prod.splits if_splits)
    then show ?thesis using assms(1) s Downtime by (auto simp: ba_ok_def)
  qed
qed

lemma impacts_after_Cons: "impacts_after (s # ss) m = impacts_after ss (impacts_after [s] m)"
proof -
  obtain kpis visitor i where "s = (kpis, visitor, i)" using prod_cases3 by blast
  then show ?thesis by (cases i) simp_all
qed

lemma ba_run_ok:
  "ba_ok b \<Longrightarrow> list_all (fair_step (ba_kind b)) ss \<Longrightarrow> ba_run ss b = Inr (b', out) \<Longrightarrow>
     ba_ok b' \<and> map_of (ba_impacts b') = impacts_after ss (map_of (ba_impacts b))"
proof (induction ss arbitrary: b out)
  case (Cons s ss)
  then obtain b1 o1 o2 where r: "ba_step s b = Inr (b1, o1)" "ba_run ss b1 = Inr (b', o2)"
    by (auto split: sum.splits prod.splits)
  with Cons.IH [OF _ _ r(2)] ba_step_ok [OF Cons.prems(1) _ r(1)] Cons.prems(2) show ?case
    by (simp add: impacts_after_Cons [of s ss] del: impacts_after.simps)
qed simp

lemma ba_run_total:
  "ba_ok b \<Longrightarrow> list_all (fair_step (ba_kind b)) ss \<Longrightarrow> known_kpis ss (dom (map_of (ba_impacts b))) \<Longrightarrow>
     \<exists>b' out. ba_run ss b = Inr (b', out)"
proof (induction ss arbitrary: b)
  case (Cons s ss)
  obtain kpis visitor i where s: "s = (kpis, visitor, i)" using prod_cases3 by blast
  have "\<exists>b1 o1. ba_step s b = Inr (b1, o1)"
    using Cons.prems(3) s ba_update_from_total [of b _ kpis visitor]
    by (cases i) (fastforce simp: Let_def case_prod_beta dom_def split: sum.splits)+
  then obtain b1 o1 where st: "ba_step s b = Inr (b1, o1)" by blast
  have ok: "ba_ok b1 \<and> ba_kind b1 = ba_kind b \<and> map_of (ba_impacts b1) = impacts_after [s] (map_of (ba_impacts b))"
    using ba_step_ok [OF Cons.prems(1) _ st] Cons.prems(2) by simp
  have "known_kpis ss (dom (map_of (ba_impacts b1)))"
    using Cons.prems(3) ok s
    by (cases i) (auto simp: dom_if insert_absorb domI split: if_splits)
  with Cons.IH [of b1] ok Cons.prems(2) st show ?case by fastforce
qed simp

subsection \<open>The events of a BA\<close>

fun events_of :: "ba_output list \<Rightarrow> ba_event list" where
  "events_of [] = []"
| "events_of (Out_event e # os) = e # events_of os"
| "events_of (x # os) = events_of os"

text \<open>
  The event that is open after reading a list of events: the first one opens, and from then on events
  come in pairs, one that closes the open event, and a different one that starts when the other ends.
\<close>

fun follow :: "ba_event option \<Rightarrow> ba_event list \<Rightarrow> ba_event option option" where
  "follow cur [] = Some cur"
| "follow None (e # es) = (if be_end_time e = - 1 then follow (Some e) es else None)"
| "follow (Some e) [c] = None"
| "follow (Some e) (c # n # es) =
     (if c = e\<lparr>be_end_time := be_start_time n\<rparr> \<and> be_start_time e \<le> be_start_time n \<and> be_end_time n = - 1 \<and>
         (be_status n \<noteq> be_status e \<or> be_in_downtime n \<noteq> be_in_downtime e)
      then follow (Some n) es else None)"

definition event_ok :: "ba \<Rightarrow> bool" where
  "event_ok b \<longleftrightarrow>
     ba_initial_events b = [] \<and>
     (case ba_event b of
        None \<Rightarrow> True
      | Some e \<Rightarrow> \<not> time_null (ba_last_kpi_update b) \<and> be_start_time e \<le> ba_last_kpi_update b)"

definition shows_state :: "(nat \<Rightarrow> kpi_view) \<Rightarrow> ba \<Rightarrow> bool" where
  "shows_state kpis b \<longleftrightarrow>
     (case ba_event b of
        None \<Rightarrow> False
      | Some e \<Rightarrow> be_status e = get_state_hard kpis b \<and> be_in_downtime e = ba_in_downtime b \<and> be_end_time e = - 1)"

definition open_end :: "ba \<Rightarrow> bool" where
  "open_end b \<longleftrightarrow> (case ba_event b of None \<Rightarrow> True | Some e \<Rightarrow> be_end_time e = - 1)"

lemma events_of_append [simp]: "events_of (xs @ ys) = events_of xs @ events_of ys"
  by (induction xs rule: events_of.induct) simp_all

lemma time_max_grows: "\<not> time_null a \<Longrightarrow> \<not> time_null b \<Longrightarrow> \<not> time_null (time_max a b) \<and> a \<le> time_max a b"
  by (simp add: time_max_def time_less_def)

lemma event_ok_note: "event_ok b \<Longrightarrow> event_ok (note_kpi_update v b)"
  using time_max_grows [of "ba_last_kpi_update b" "kv_last_state_change v"]
  by (auto simp: event_ok_def note_kpi_update_def split: option.splits)

lemma get_state_hard_cong [simp]:
  "get_state_hard kpis (b\<lparr>ba_event := e\<rparr>) = get_state_hard kpis b"
  "get_state_hard kpis (b\<lparr>ba_initial_events := es\<rparr>) = get_state_hard kpis b"
  "get_state_hard kpis (b\<lparr>ba_last_kpi_update := t\<rparr>) = get_state_hard kpis b"
  by (cases "ba_kind b"; simp add: get_state_hard_eq every_kpi_in_dt_def falling_state_def rising_state_def percent_state_def)+

lemma visit_follow:
  assumes "event_ok b" "open_end b" "\<not> time_null now" "visit kpis now b = (b', out)"
  shows "event_ok b' \<and> open_end b' \<and> shows_state kpis b' \<and> follow (ba_event b) (events_of out) = Some (ba_event b')"
proof (cases "ba_event b")
  case None
  then show ?thesis
    using assms by (auto simp: visit_def Let_def open_new_event_def event_ok_def open_end_def shows_state_def
        generate_virtual_service_status_def)
next
  case (Some e)
  then show ?thesis
    using assms by (auto simp: visit_def Let_def open_new_event_def event_ok_def open_end_def shows_state_def
        generate_virtual_service_status_def split: if_splits)
qed

lemma apply_changes_event:
  "apply_changes k i b = Inr (b', ch) \<Longrightarrow>
     ba_event b' = ba_event b \<and> ba_initial_events b' = ba_initial_events b \<and> ba_last_kpi_update b' = ba_last_kpi_update b"
  by (auto simp: apply_changes_eq Let_def split: if_splits option.splits)

lemma inherited_events: "compute_inherited_downtime kpis visitor b = (b', out) \<Longrightarrow> events_of out = []"
  by (auto simp: compute_inherited_downtime_def Let_def split: if_splits)

lemma event_cong:
  "ba_event b' = ba_event b \<Longrightarrow> ba_initial_events b' = ba_initial_events b \<Longrightarrow> ba_last_kpi_update b' = ba_last_kpi_update b \<Longrightarrow>
     event_ok b' = event_ok b \<and> open_end b' = open_end b"
  by (auto simp: event_ok_def open_end_def split: option.splits)

definition visitor_ok :: "time option \<Rightarrow> bool" where
  "visitor_ok visitor \<longleftrightarrow> (case visitor of None \<Rightarrow> True | Some now \<Rightarrow> \<not> time_null now)"

lemma visit_opt_follow:
  assumes "event_ok b" "open_end b" "visitor_ok visitor" "visit_opt kpis visitor b = (b', out)"
  shows "event_ok b' \<and> open_end b' \<and> (visitor \<noteq> None \<longrightarrow> shows_state kpis b') \<and>
    follow (ba_event b) (events_of out) = Some (ba_event b')"
  using assms visit_follow [of b _ kpis b' out] by (auto simp: visit_opt_def visitor_ok_def split: option.splits)

lemma ba_update_from_follow:
  assumes "event_ok b" "open_end b" "visitor_ok visitor" "ba_update_from kpis visitor k b = Inr (b', out, notify)"
  shows "event_ok b' \<and> open_end b' \<and> (visitor \<noteq> None \<longrightarrow> shows_state kpis b') \<and>
    follow (ba_event b) (events_of out) = Some (ba_event b')"
proof -
  let ?b1 = "note_kpi_update (kpis k) b"
  obtain b2 ch b3 o1 o2 where
    u: "apply_changes k (impact_of (kpis k)) ?b1 = Inr (b2, ch)" "compute_inherited_downtime kpis visitor b2 = (b3, o1)"
      "visit_opt kpis visitor b3 = (b', o2)" "out = o1 @ o2"
    using assms(4) by (auto simp: ba_update_from_def Let_def split: sum.splits prod.splits)
  have e: "event_ok b3 \<and> open_end b3 \<and> ba_event b3 = ba_event b"
    using event_ok_note [OF assms(1)] assms(2) apply_changes_event [OF u(1)] inherited_fields [OF u(2)]
      event_cong [of b3 ?b1] by (simp add: open_end_def)
  with visit_opt_follow [OF _ _ assms(3) u(3)] show ?thesis by (simp add: u(4) inherited_events [OF u(2)])
qed

lemma service_downtime_cases:
  "(fst (service_downtime kpis visitor started end b) = b \<and> fst (snd (service_downtime kpis visitor started end b)) = []) \<or>
   visit_opt kpis visitor (b\<lparr>ba_in_downtime := started \<and> time_null end\<rparr>) =
     (fst (service_downtime kpis visitor started end b), fst (snd (service_downtime kpis visitor started end b)))"
  unfolding service_downtime_def Let_def
  by (cases "ba_in_downtime b = (started \<and> time_null end)") (simp_all only: if_True if_False simp_thms fst_conv snd_conv case_prod_beta prod.collapse)

lemma ba_step_follow:
  assumes "event_ok b" "open_end b" "visitor_ok (fst (snd s))" "ba_step s b = Inr (b', out)"
  shows "event_ok b' \<and> open_end b' \<and> follow (ba_event b) (events_of out) = Some (ba_event b')"
proof -
  obtain kpis visitor i where s: "s = (kpis, visitor, i)" using prod_cases3 by blast
  show ?thesis
  proof (cases i)
    case (Add k)
    have n: "event_ok (note_kpi_update v (b\<lparr>ba_impacts := is, ba_summary := a\<rparr>))" for v "is" a
      by (rule event_ok_note) (use assms(1) event_cong [of "b\<lparr>ba_impacts := is, ba_summary := a\<rparr>" b] in simp)
    have "b' = add_impact k (kpis k) b" "out = []" using assms(4) s Add by simp_all
    then show ?thesis
      using assms(1,2) n by (cases "map_of (ba_impacts b) k") (simp_all add: add_impact_def open_end_def)
  next
    case (Remove k)
    then have "ba_event b' = ba_event b \<and> ba_initial_events b' = ba_initial_events b \<and> ba_last_kpi_update b' = ba_last_kpi_update b \<and> out = []"
      using s assms(4) by (auto simp: remove_impact_def Let_def split: option.splits)
    then show ?thesis using assms(1,2) event_cong [of b' b] by simp
  next
    case (Changed k)
    then obtain notify where u: "ba_update_from kpis visitor k b = Inr (b', out, notify)"
      using assms(4) s by (auto split: sum.splits)
    have "visitor_ok visitor" using assms(3) s by simp
    from ba_update_from_follow [OF assms(1,2) this u] show ?thesis by blast
  next
    case (Downtime started "end")
    let ?d = "started \<and> time_null end"
    have e: "event_ok (b\<lparr>ba_in_downtime := ?d\<rparr>)" "open_end (b\<lparr>ba_in_downtime := ?d\<rparr>)"
      using assms(1,2) event_cong [of "b\<lparr>ba_in_downtime := ?d\<rparr>" b] by simp_all
    let ?r = "service_downtime kpis visitor started end b"
    have "b' = fst ?r" "out = fst (snd ?r)" using assms(4) s Downtime by (simp_all add: case_prod_beta)
    with service_downtime_cases [of kpis visitor started "end" b]
    have "(b' = b \<and> out = []) \<or> visit_opt kpis visitor (b\<lparr>ba_in_downtime := ?d\<rparr>) = (b', out)" by metis
    then show ?thesis
    proof
      assume v: "visit_opt kpis visitor (b\<lparr>ba_in_downtime := ?d\<rparr>) = (b', out)"
      have "visitor_ok visitor" using assms(3) s by simp
      from visit_opt_follow [OF e this v] show ?thesis by simp
    qed (use assms(1,2) in simp)
  qed
qed

lemma follow_append: "follow cur es = Some c \<Longrightarrow> follow cur (es @ fs) = follow c fs"
  by (induction cur es rule: follow.induct) (auto split: if_splits)

lemma ba_run_follow:
  "event_ok b \<Longrightarrow> open_end b \<Longrightarrow> list_all (\<lambda>s. visitor_ok (fst (snd s))) ss \<Longrightarrow> ba_run ss b = Inr (b', out) \<Longrightarrow>
     event_ok b' \<and> open_end b' \<and> follow (ba_event b) (events_of out) = Some (ba_event b')"
proof (induction ss arbitrary: b out)
  case (Cons s ss)
  then obtain b1 o1 o2 where r: "ba_step s b = Inr (b1, o1)" "ba_run ss b1 = Inr (b', o2)" "out = o1 @ o2"
    by (auto split: sum.splits prod.splits)
  have f: "event_ok b1 \<and> open_end b1 \<and> follow (ba_event b) (events_of o1) = Some (ba_event b1)"
    using ba_step_follow [OF Cons.prems(1,2) _ r(1)] Cons.prems(3) by simp
  then have "follow (ba_event b) (events_of out) = follow (ba_event b1) (events_of o2)"
    using follow_append [of "ba_event b" "events_of o1"] by (simp add: r(3))
  with f Cons.IH [OF _ _ _ r(2)] Cons.prems(3) show ?case by simp
qed simp

end
