(* ===== verification/Bam_Tokenizer.thy ===== *)
theory Bam_Tokenizer
  imports Collect_Prelude
begin

section \<open>Tokens of the expressions of business activities\<close>

text \<open>
  Models \<^verbatim>\<open>broker/bam/src/exp_tokenizer.cc\<close>: an expression over the states of services is cut into
  tokens. The tokenizer keeps its position in the text and a queue of tokens, which the old syntax
  \<^verbatim>\<open>{Host Service}\<close> fills. Reading the character behind the terminating NUL is undefined behaviour. The
  last part shows that the text written for a list of tokens is cut into these tokens again.
\<close>

subsection \<open>State and characters\<close>

record tokenizer =
  tk_current :: nat
  tk_next :: nat
  tk_queue :: "string list"
  tk_text :: string

definition exp_tokenizer :: "string \<Rightarrow> tokenizer" where
  "exp_tokenizer tx = \<lparr>tk_current = 0, tk_next = 0, tk_queue = [], tk_text = tx\<rparr>"

definition char_at :: "string \<Rightarrow> nat \<Rightarrow> char option" where
  "char_at tx i = (if i < length tx then Some (tx ! i) else if i = length tx then Some (CHR 0x00) else None)"

definition is_right_brace :: "char \<Rightarrow> bool" where
  "is_right_brace c \<longleftrightarrow> c = CHR ''}''"

definition is_space_or_right_brace :: "char \<Rightarrow> bool" where
  "is_space_or_right_brace c \<longleftrightarrow> is_space c \<or> is_right_brace c"

definition is_special_char :: "char \<Rightarrow> bool" where
  "is_special_char c \<longleftrightarrow> c \<in> set ''(),+-*/%=!><|&''"

definition is_delimiter :: "char \<Rightarrow> bool" where
  "is_delimiter c \<longleftrightarrow> is_space c \<or> is_special_char c"

subsection \<open>Reading\<close>

function skip_ws :: "string \<Rightarrow> nat \<Rightarrow> exn + nat" where
  "skip_ws tx i =
     (case char_at tx i of
        None \<Rightarrow> Inl Undefined
      | Some c \<Rightarrow> if is_space c then skip_ws tx (Suc i) else Inr i)"
  by pat_completeness auto
termination
  by (relation "measure (\<lambda>(tx, i). Suc (length tx) - i)") (auto simp: char_at_def split: if_splits)

declare skip_ws.simps [simp del]

text \<open>The inner loop over a quoted part: the position of the closing quote.\<close>

function extract_quoted :: "char \<Rightarrow> string \<Rightarrow> nat \<Rightarrow> string \<Rightarrow> exn + string \<times> nat" where
  "extract_quoted quote tx i retval =
     (if i < length tx then
        (if tx ! i = quote then Inr (retval, i)
         else if quote = CHR 0x22 \<and> tx ! i = CHR 0x5C then
           extract_quoted quote tx (i + 2) (if Suc i < length tx then retval @ [tx ! Suc i] else retval)
         else extract_quoted quote tx (Suc i) (retval @ [tx ! i]))
      else Inl Msg_fmt)"
  by pat_completeness auto
termination
  by (relation "measure (\<lambda>(quote, tx, i, retval). length tx - i)") auto

declare extract_quoted.simps [simp del]

lemma extract_quoted_le: "extract_quoted quote tx i retval = Inr (r, j) \<Longrightarrow> i \<le> j"
proof (induction quote tx i retval rule: extract_quoted.induct)
  case (1 quote tx i retval)
  from 1(3) show ?case
    unfolding extract_quoted.simps [of quote tx i]
    using 1(1,2) by (auto split: if_splits)
qed

function extract_until :: "(char \<Rightarrow> bool) \<Rightarrow> string \<Rightarrow> nat \<Rightarrow> string \<Rightarrow> exn + string \<times> nat" where
  "extract_until pred tx i retval =
     (if i < length tx \<and> \<not> pred (tx ! i) then
        (if tx ! i = CHR 0x27 \<or> tx ! i = CHR 0x22 then
           (case extract_quoted (tx ! i) tx (Suc i) retval of
              Inl e \<Rightarrow> Inl e
            | Inr (retval1, j) \<Rightarrow> extract_until pred tx (Suc j) retval1)
         else if tx ! i = CHR 0x5C then
           extract_until pred tx (i + 2) (if Suc i < length tx then retval @ [tx ! Suc i] else retval)
         else extract_until pred tx (Suc i) (retval @ [tx ! i]))
      else Inr (retval, i))"
  by pat_completeness auto
termination
  by (relation "measure (\<lambda>(pred, tx, i, retval). length tx - i)") (auto dest!: extract_quoted_le)

declare extract_until.simps [simp del]

lemma extract_until_le:
  "extract_until pred tx i retval = Inr (r, j) \<Longrightarrow> i \<le> j \<and> (j = i \<longrightarrow> r = retval)"
proof (induction pred tx i retval rule: extract_until.induct)
  case (1 pred tx i retval)
  show ?case
  proof (cases "i < length tx \<and> \<not> pred (tx ! i)")
    case False
    with 1(4) show ?thesis by (auto simp: extract_until.simps [of pred tx i])
  next
    case i: True
    consider (quote) "tx ! i = CHR 0x27 \<or> tx ! i = CHR 0x22" | (bslash) "tx ! i = CHR 0x5C"
      | (char) "tx ! i \<noteq> CHR 0x27" "tx ! i \<noteq> CHR 0x22" "tx ! i \<noteq> CHR 0x5C" by blast
    then show ?thesis
    proof cases
      case quote
      then obtain r1 k where q: "extract_quoted (tx ! i) tx (Suc i) retval = Inr (r1, k)"
          "extract_until pred tx (Suc k) r1 = Inr (r, j)"
        using i 1(4) by (auto simp: extract_until.simps [of pred tx i] split: sum.splits)
      with 1(1) [OF i quote q(1)] extract_quoted_le [OF q(1)] show ?thesis by auto
    next
      case bslash
      then show ?thesis using i 1(2,4) by (fastforce simp: extract_until.simps [of pred tx i])
    next
      case char
      then show ?thesis using i 1(3,4) by (fastforce simp: extract_until.simps [of pred tx i])
    qed
  qed
qed

lemma skip_ws_le: "skip_ws tx i = Inr j \<Longrightarrow> i \<le> j"
proof (induction tx i rule: skip_ws.induct)
  case (1 tx i)
  from 1(2) show ?case
    unfolding skip_ws.simps [of tx i]
    by (auto split: option.splits if_splits dest: 1(1))
qed

subsection \<open>Tokens\<close>

definition brace_words :: "string list" where
  "brace_words = [''IS'', ''NOT'', ''AND'', ''XOR'', ''OR'', ''OK'', ''WARNING'', ''CRITICAL'', ''UNKNOWN'',
     ''UP'', ''DOWN'', ''UNREACHABLE'']"

text \<open>The rest of a brace once its first word is read: the token and the tokenizer before the closing brace.\<close>

definition extract_status :: "string \<Rightarrow> tokenizer \<Rightarrow> exn + string \<times> tokenizer" where
  "extract_status retval t =
     (case skip_ws (tk_text t) (tk_next t) of
        Inl e \<Rightarrow> Inl e
      | Inr i \<Rightarrow>
          (let t1 = t\<lparr>tk_queue := tk_queue t @ [''('', retval], tk_current := i, tk_next := i\<rparr> in
           if i < length (tk_text t) \<and> tk_text t ! i \<noteq> CHR ''}'' then
             (case extract_until is_right_brace (tk_text t) i [] of
                Inl e \<Rightarrow> Inl e
              | Inr (svc, j) \<Rightarrow>
                  Inr (''SERVICESTATUS'', t1\<lparr>tk_queue := tk_queue t1 @ ['','', svc, '')''], tk_next := j\<rparr>))
           else Inr (''HOSTSTATUS'', t1\<lparr>tk_queue := tk_queue t1 @ ['')'']\<rparr>)))"

definition extract_token :: "tokenizer \<Rightarrow> exn + string \<times> tokenizer" where
  "extract_token t =
     (if tk_current t < length (tk_text t) \<and> tk_text t ! tk_current t = CHR ''{'' then
        (case extract_until is_space_or_right_brace (tk_text t) (Suc (tk_current t)) [] of
           Inl e \<Rightarrow> Inl e
         | Inr (retval, i) \<Rightarrow>
             (let t1 = t\<lparr>tk_current := Suc (tk_current t), tk_next := i\<rparr> in
              case (if retval \<notin> set brace_words then extract_status retval t1 else Inr (retval, t1)) of
                Inl e \<Rightarrow> Inl e
              | Inr (retval1, t2) \<Rightarrow>
                  (if tk_next t2 < length (tk_text t) \<and> tk_text t ! tk_next t2 = CHR ''}''
                   then Inr (retval1, t2\<lparr>tk_next := Suc (tk_next t2)\<rparr>)
                   else Inl Msg_fmt)))
      else
        (case extract_until is_delimiter (tk_text t) (tk_current t) [] of
           Inl e \<Rightarrow> Inl e
         | Inr (retval, i) \<Rightarrow> Inr (retval, t\<lparr>tk_next := i\<rparr>)))"

definition double_char :: "char \<Rightarrow> char \<Rightarrow> bool" where
  "double_char c d \<longleftrightarrow>
     (c \<in> set ''=!<>'' \<and> d = CHR ''='') \<or> (c \<in> set ''|&'' \<and> c = d)"

definition next_token :: "tokenizer \<Rightarrow> exn + string \<times> tokenizer" where
  "next_token t =
     (case tk_queue t of
        retval # q \<Rightarrow> Inr (retval, t\<lparr>tk_queue := q\<rparr>)
      | [] \<Rightarrow>
          (case skip_ws (tk_text t) (tk_next t) of
             Inl e \<Rightarrow> Inl e
           | Inr i \<Rightarrow>
               (let t1 = t\<lparr>tk_current := i, tk_next := i\<rparr> in
                if i < length (tk_text t) then
                  (if is_special_char (tk_text t ! i) then
                     (if Suc i < length (tk_text t) \<and> double_char (tk_text t ! i) (tk_text t ! Suc i)
                      then Inr ([tk_text t ! i, tk_text t ! Suc i], t1\<lparr>tk_next := i + 2\<rparr>)
                      else Inr ([tk_text t ! i], t1\<lparr>tk_next := Suc i\<rparr>))
                   else extract_token t1)
                else Inr ([], t1))))"

definition tokens_left :: "tokenizer \<Rightarrow> nat" where
  "tokens_left t = 6 * (length (tk_text t) + 2 - tk_next t) + length (tk_queue t)"

lemma extract_status_left:
  assumes "extract_status retval t = Inr (tok, t')"
  shows "tk_next t \<le> tk_next t' \<and> length (tk_queue t') \<le> length (tk_queue t) + 5 \<and> tk_text t' = tk_text t"
  using assms
  by (auto simp: extract_status_def Let_def dest!: skip_ws_le extract_until_le split: sum.splits if_splits)

lemma extract_token_left:
  assumes "extract_token t = Inr (tok, t')" "tok \<noteq> []" "tk_next t = tk_current t" "tk_current t < length (tk_text t)"
  shows "tk_next t < tk_next t' \<and> length (tk_queue t') \<le> length (tk_queue t) + 5 \<and> tk_text t' = tk_text t"
proof (cases "tk_text t ! tk_current t = CHR ''{''")
  case False
  with assms show ?thesis
    by (auto simp: extract_token_def dest!: extract_until_le split: sum.splits)
next
  case True
  then show ?thesis
    using assms
    by (auto simp: extract_token_def Let_def dest!: extract_status_left extract_until_le split: sum.splits if_splits)
qed

lemma next_token_left:
  assumes "next_token t = Inr (tok, t')" "tok \<noteq> []"
  shows "tokens_left t' < tokens_left t"
proof (cases "tk_queue t")
  case (Cons q qs)
  with assms show ?thesis by (auto simp: next_token_def tokens_left_def)
next
  case Nil
  then obtain i where i: "skip_ws (tk_text t) (tk_next t) = Inr i" "tk_next t \<le> i" "i < length (tk_text t)"
    using assms skip_ws_le by (fastforce simp: next_token_def Let_def split: sum.splits if_splits)
  let ?t1 = "t\<lparr>tk_current := i, tk_next := i\<rparr>"
  have "i < tk_next t' \<and> length (tk_queue t') \<le> 5 \<and> tk_text t' = tk_text t"
  proof (cases "is_special_char (tk_text t ! i)")
    case True
    with Nil i assms show ?thesis by (auto simp: next_token_def Let_def split: if_splits)
  next
    case False
    with Nil i assms have "extract_token ?t1 = Inr (tok, t')" by (simp add: next_token_def Let_def)
    from extract_token_left [OF this assms(2)] i(3) Nil show ?thesis by simp
  qed
  with i Nil show ?thesis by (auto simp: tokens_left_def)
qed

text \<open>The loop at the start of \<open>exp_parser::get_postfix\<close>.\<close>

function tokens :: "tokenizer \<Rightarrow> exn + string list" where
  "tokens t =
     (case next_token t of
        Inl e \<Rightarrow> Inl e
      | Inr (tok, t1) \<Rightarrow>
          (if tok = [] then Inr []
           else case tokens t1 of Inl e \<Rightarrow> Inl e | Inr ts \<Rightarrow> Inr (tok # ts)))"
  by pat_completeness auto
termination
  by (relation "measure tokens_left") (auto dest: next_token_left)

declare tokens.simps [simp del]

definition tokenize :: "string \<Rightarrow> exn + string list" where
  "tokenize tx = tokens (exp_tokenizer tx)"

subsection \<open>Writing tokens\<close>

text \<open>A token is written as it is when the tokenizer takes it for one, and between double quotes otherwise.\<close>

definition symbols :: "string list" where
  "symbols = map (\<lambda>c. [c]) ''(),+-*/%=!><|&'' @ [''=='', ''!='', ''<='', ''>='', ''||'', ''&&'']"

definition escape :: "string \<Rightarrow> string" where
  "escape w = concat (map (\<lambda>c. if c = CHR 0x22 \<or> c = CHR 0x5C then [CHR 0x5C, c] else [c]) w)"

definition plain_char :: "char \<Rightarrow> bool" where
  "plain_char c \<longleftrightarrow> \<not> is_delimiter c \<and> c \<noteq> CHR 0x22 \<and> c \<noteq> CHR 0x27 \<and> c \<noteq> CHR 0x5C \<and> c \<noteq> CHR ''{''"

definition write_token :: "string \<Rightarrow> string" where
  "write_token w =
     (if w \<in> set symbols \<or> list_all plain_char w then w else CHR 0x22 # escape w @ [CHR 0x22])"

definition write_tokens :: "string list \<Rightarrow> string" where
  "write_tokens ts = concat (map (\<lambda>w. write_token w @ '' '') ts)"

lemma nth_append_pre [simp]: "(pre @ c # post) ! length pre = c"
  by simp

lemma extract_until_plain:
  assumes "list_all (\<lambda>c. \<not> pred c \<and> c \<noteq> CHR 0x22 \<and> c \<noteq> CHR 0x27 \<and> c \<noteq> CHR 0x5C) w" "pred d"
  shows "extract_until pred (pre @ w @ d # post) (length pre) acc = Inr (acc @ w, length pre + length w)"
  using assms(1)
proof (induction w arbitrary: pre acc)
  case Nil
  then show ?case using assms(2) by (simp add: extract_until.simps)
next
  case (Cons c w)
  then show ?case
    using Cons.IH [of "pre @ [c]" "acc @ [c]"] by (subst extract_until.simps) simp
qed

lemma extract_quoted_escape:
  "extract_quoted (CHR 0x22) (pre @ escape w @ CHR 0x22 # post) (length pre) acc =
     Inr (acc @ w, length pre + length (escape w))"
proof (induction w arbitrary: pre acc)
  case Nil
  then show ?case by (simp add: escape_def extract_quoted.simps)
next
  case (Cons c w)
  show ?case
  proof (cases "c = CHR 0x22 \<or> c = CHR 0x5C")
    case True
    then have "escape (c # w) = CHR 0x5C # c # escape w" by (auto simp: escape_def)
    with Cons.IH [of "pre @ [CHR 0x5C, c]" "acc @ [c]"] show ?thesis
      by (subst extract_quoted.simps) (simp add: nth_append)
  next
    case False
    then have "escape (c # w) = c # escape w" by (auto simp: escape_def)
    with False Cons.IH [of "pre @ [c]" "acc @ [c]"] show ?thesis
      by (subst extract_quoted.simps) simp
  qed
qed

lemma extract_until_quoted:
  assumes "\<not> pred (CHR 0x22)" "pred d"
  shows "extract_until pred (pre @ CHR 0x22 # escape w @ CHR 0x22 # d # post) (length pre) acc =
    Inr (acc @ w, length pre + length (escape w) + 2)"
proof -
  let ?tx = "pre @ CHR 0x22 # escape w @ CHR 0x22 # d # post"
  have q: "extract_quoted (CHR 0x22) ?tx (Suc (length pre)) acc = Inr (acc @ w, Suc (length pre + length (escape w)))"
    using extract_quoted_escape [of "pre @ [CHR 0x22]" w "d # post" acc] by simp
  have "extract_until pred ?tx (Suc (Suc (length pre + length (escape w)))) (acc @ w) =
      Inr (acc @ w, Suc (Suc (length pre + length (escape w))))"
    using assms(2) by (subst extract_until.simps) (simp add: nth_append)
  with q assms(1) show ?thesis by (subst extract_until.simps) simp
qed

lemma write_token_head:
  assumes "w \<noteq> []"
  shows "write_token w \<noteq> [] \<and> \<not> is_space (hd (write_token w))"
proof (cases "w \<in> set symbols \<or> list_all plain_char w")
  case True
  then have "\<not> is_space (hd w)"
  proof
    assume "w \<in> set symbols"
    then show ?thesis by (auto simp: symbols_def is_space_def)
  next
    assume "list_all plain_char w"
    then show ?thesis using assms by (cases w) (auto simp: plain_char_def is_delimiter_def)
  qed
  with True assms show ?thesis by (simp add: write_token_def)
qed (simp add: write_token_def is_space_def)

lemma skip_ws_here: "\<not> is_space c \<Longrightarrow> skip_ws (pre @ c # post) (length pre) = Inr (length pre)"
  by (simp add: skip_ws.simps char_at_def)

lemma skip_ws_space:
  "is_space s \<Longrightarrow> skip_ws (pre @ s # post) (length pre) = skip_ws (pre @ s # post) (Suc (length pre))"
  by (subst skip_ws.simps) (simp add: char_at_def)

lemma skip_ws_end: "skip_ws tx (length tx) = Inr (length tx)"
  by (simp add: skip_ws.simps char_at_def is_space_def)

text \<open>One token, at a position without white space.\<close>

lemma next_token_written:
  assumes "w \<noteq> []" "t = \<lparr>tk_current = i, tk_next = length pre, tk_queue = [], tk_text = pre @ write_token w @ CHR '' '' # post\<rparr>"
    and that: "skip_ws (tk_text t) j = Inr (length pre)"
  shows "next_token (t\<lparr>tk_next := j\<rparr>) = Inr (w, t\<lparr>tk_current := length pre, tk_next := length pre + length (write_token w)\<rparr>)"
proof (cases "w \<in> set symbols")
  case True
  then have w: "write_token w = w" by (simp add: write_token_def)
  with True assms that show ?thesis
    by (auto simp: next_token_def symbols_def is_special_char_def double_char_def nth_append)
next
  case s: False
  show ?thesis
  proof (cases "list_all plain_char w")
    case True
    then have w: "write_token w = w" by (simp add: write_token_def)
    obtain c r where c: "w = c # r" using assms(1) by (cases w) auto
    have "extract_until is_delimiter (pre @ w @ CHR '' '' # post) (length pre) [] = Inr ([] @ w, length pre + length w)"
      using True by (intro extract_until_plain) (auto simp: plain_char_def list_all_iff is_delimiter_def is_space_def)
    with True c assms that w show ?thesis
      by (auto simp: next_token_def extract_token_def plain_char_def is_delimiter_def Let_def nth_append)
  next
    case False
    with s have w: "write_token w = CHR 0x22 # escape w @ [CHR 0x22]" by (simp add: write_token_def)
    have "extract_until is_delimiter (pre @ CHR 0x22 # escape w @ CHR 0x22 # CHR '' '' # post) (length pre) [] =
        Inr ([] @ w, length pre + length (escape w) + 2)"
      by (rule extract_until_quoted) (simp_all add: is_delimiter_def is_space_def is_special_char_def)
    with assms that w show ?thesis
      by (auto simp: next_token_def extract_token_def is_special_char_def Let_def nth_append)
  qed
qed

lemma tokens_written:
  assumes "list_all (\<lambda>w. w \<noteq> []) ts" "sp = [] \<or> sp = '' ''"
  shows "tokens \<lparr>tk_current = i, tk_next = length pre, tk_queue = [], tk_text = pre @ sp @ write_tokens ts\<rparr> = Inr ts"
  using assms
proof (induction ts arbitrary: i pre sp)
  case Nil
  have "skip_ws (pre @ sp) (length pre) = Inr (length (pre @ sp))"
    using Nil skip_ws_end [of pre] skip_ws_end [of "pre @ '' ''"] skip_ws_space [of "CHR '' ''" pre "[]"]
    by (auto simp: is_space_def)
  then show ?case by (simp add: tokens.simps next_token_def write_tokens_def)
next
  case (Cons w ts)
  let ?pre = "pre @ sp" and ?post = "write_tokens ts"
  let ?tx = "?pre @ write_token w @ CHR '' '' # ?post"
  have tx: "pre @ sp @ write_tokens (w # ts) = ?tx" by (simp add: write_tokens_def)
  obtain c r where c: "write_token w = c # r" "\<not> is_space c"
    using Cons.prems write_token_head [of w] by (cases "write_token w") auto
  have ws: "skip_ws ?tx (length pre) = Inr (length ?pre)"
    using Cons.prems(2) c skip_ws_here [of c pre] skip_ws_here [of c "pre @ '' ''"] skip_ws_space [of "CHR '' ''" pre]
    by (auto simp: is_space_def)
  let ?t = "\<lparr>tk_current = i, tk_next = length ?pre, tk_queue = [], tk_text = ?tx\<rparr>"
  have n: "next_token (?t\<lparr>tk_next := length pre\<rparr>) =
      Inr (w, ?t\<lparr>tk_current := length ?pre, tk_next := length ?pre + length (write_token w)\<rparr>)"
    by (rule next_token_written) (use Cons.prems ws in simp_all)
  have "tokens \<lparr>tk_current = length ?pre, tk_next = length (?pre @ write_token w), tk_queue = [],
      tk_text = (?pre @ write_token w) @ '' '' @ write_tokens ts\<rparr> = Inr ts"
    by (rule Cons.IH) (use Cons.prems in auto)
  with n Cons.prems show ?case unfolding tx by (subst tokens.simps) (simp add: add.assoc)
qed

lemma tokenize_written:
  assumes "list_all (\<lambda>w. w \<noteq> []) ts"
  shows "tokenize (write_tokens ts) = Inr ts"
  using tokens_written [OF assms, of "[]" 0 "[]"] by (simp add: tokenize_def exp_tokenizer_def)

end
