(* ===== verification/Bam_Parser.thy ===== *)
theory Bam_Parser
  imports Bam_Tokenizer
begin

section \<open>From the text of an expression to postfix notation\<close>

text \<open>
  Models \<^verbatim>\<open>broker/bam/src/exp_parser.cc\<close>: the shunting-yard algorithm. Its state is the stack of operators,
  functions and parentheses, the stack of the numbers of arguments, the output and the flag that
  says whether an operator may be unary. The reference is the syntax tree of an expression with its
  text and its postfix notation.
\<close>

subsection \<open>The parser\<close>

definition precedences :: "(string \<times> nat) list" where
  "precedences = [(''&&'', 2), (''AND'', 2), (''||'', 2), (''OR'', 2), (''IS'', 3), (''^'', 2), (''XOR'', 2),
     (''NOT'', 3), (''>'', 3), (''>='', 3), (''<'', 3), (''<='', 3), (''=='', 3), (''!='', 3), (''+'', 4),
     (''-'', 4), (''*'', 5), (''/'', 5), (''%'', 5), (''-u'', 6), (''!'', 6)]"

text \<open>The access to the hash map makes a missing entry zero.\<close>

definition precedence :: "string \<Rightarrow> nat" where
  "precedence tok = (case map_of precedences tok of None \<Rightarrow> 0 | Some p \<Rightarrow> p)"

definition is_function :: "string \<Rightarrow> bool" where
  "is_function tok \<longleftrightarrow> tok \<in> set [''HOSTSTATUS'', ''SERVICESTATUS'', ''METRICS'', ''METRIC'', ''AVERAGE'',
     ''COUNT'', ''MAX'', ''MIN'', ''SUM'', ''CALL'']"

definition is_operator :: "string \<Rightarrow> bool" where
  "is_operator tok \<longleftrightarrow> tok \<in> set [''+'', ''-'', ''-u'', ''*'', ''/'', ''%'', ''>'', ''>='', ''<'', ''<='',
     ''=='', ''IS'', ''NOT'', ''!='', ''!'', ''AND'', ''^'', ''XOR'', ''&&'', ''OR'', ''||'']"

record parser =
  ps_stack :: "string list"
  ps_arity :: "nat list"
  ps_postfix :: "string list"
  ps_can_be_unary :: bool

definition parser_new :: parser where
  "parser_new = \<lparr>ps_stack = [], ps_arity = [], ps_postfix = [], ps_can_be_unary = True\<rparr>"

text \<open>The loop that pops to the output until a left parenthesis, which stays on the stack.\<close>

definition pop_to_paren :: "parser \<Rightarrow> parser" where
  "pop_to_paren s =
     s\<lparr>ps_postfix := ps_postfix s @ takeWhile (\<lambda>x. x \<noteq> ''('') (ps_stack s),
       ps_stack := dropWhile (\<lambda>x. x \<noteq> ''('') (ps_stack s)\<rparr>"

text \<open>The loop that pops the operators that bind at least as strongly.\<close>

definition pop_stronger :: "string \<Rightarrow> parser \<Rightarrow> parser" where
  "pop_stronger tok s =
     (let p = (\<lambda>x. is_operator x \<and> precedence tok \<le> precedence x) in
      s\<lparr>ps_postfix := ps_postfix s @ takeWhile p (ps_stack s), ps_stack := dropWhile p (ps_stack s)\<rparr>)"

definition parse_comma :: "parser \<Rightarrow> exn + parser" where
  "parse_comma s =
     (let s1 = pop_to_paren s in
      if ps_stack s1 = [] then Inl Msg_fmt
      else case ps_arity s1 of
             [] \<Rightarrow> Inl Msg_fmt
           | n # ar \<Rightarrow> Inr (s1\<lparr>ps_arity := Suc n # ar, ps_can_be_unary := False\<rparr>))"

definition parse_operator :: "string \<Rightarrow> parser \<Rightarrow> parser" where
  "parse_operator tok s =
     (let s1 = (if ps_can_be_unary s \<and> tok = ''-'' then s\<lparr>ps_stack := ''-u'' # ps_stack s\<rparr>
                else if ps_can_be_unary s \<and> (tok = ''NOT'' \<or> tok = ''!'') then s\<lparr>ps_stack := ''!'' # ps_stack s\<rparr>
                else let s2 = pop_stronger tok s in s2\<lparr>ps_stack := tok # ps_stack s2\<rparr>)
      in s1\<lparr>ps_can_be_unary := True\<rparr>)"

definition parse_right :: "parser \<Rightarrow> exn + parser" where
  "parse_right s =
     (let s1 = pop_to_paren s in
      if ps_stack s1 = [] then Inl Msg_fmt
      else
        (let s2 = s1\<lparr>ps_stack := tl (ps_stack s1)\<rparr> in
         if ps_stack s2 \<noteq> [] \<and> is_function (hd (ps_stack s2)) then
           (case ps_arity s2 of
              [] \<Rightarrow> Inl Undefined
            | n # ar \<Rightarrow>
                Inr (s2\<lparr>ps_postfix := ps_postfix s2 @ [hd (ps_stack s2), dec n], ps_stack := tl (ps_stack s2),
                        ps_arity := ar, ps_can_be_unary := False\<rparr>))
         else Inr (s2\<lparr>ps_can_be_unary := False\<rparr>)))"

definition parse_token :: "string \<Rightarrow> parser \<Rightarrow> exn + parser" where
  "parse_token tok s =
     (if is_function tok then
        Inr (s\<lparr>ps_stack := tok # ps_stack s, ps_arity := 1 # ps_arity s, ps_can_be_unary := False\<rparr>)
      else if tok = '','' then parse_comma s
      else if is_operator tok then Inr (parse_operator tok s)
      else if tok = ''('' then Inr (s\<lparr>ps_stack := tok # ps_stack s, ps_can_be_unary := True\<rparr>)
      else if tok = '')'' then parse_right s
      else Inr (s\<lparr>ps_postfix := ps_postfix s @ [tok], ps_can_be_unary := False\<rparr>))"

fun parse_tokens :: "string list \<Rightarrow> parser \<Rightarrow> exn + parser" where
  "parse_tokens [] s = Inr s"
| "parse_tokens (tok # ts) s = (case parse_token tok s of Inl e \<Rightarrow> Inl e | Inr s1 \<Rightarrow> parse_tokens ts s1)"

definition parse_end :: "parser \<Rightarrow> exn + string list" where
  "parse_end s = (if ''('' \<in> set (ps_stack s) then Inl Msg_fmt else Inr (ps_postfix s @ ps_stack s))"

definition get_postfix :: "string \<Rightarrow> exn + string list" where
  "get_postfix tx =
     (case tokenize tx of
        Inl e \<Rightarrow> Inl e
      | Inr ts \<Rightarrow> (case parse_tokens ts parser_new of Inl e \<Rightarrow> Inl e | Inr s \<Rightarrow> parse_end s))"

subsection \<open>The reference\<close>

text \<open>
  Expressions: an operand, a call of a function on words, a unary and a binary operator. A unary
  operator is written \<open>-\<close>, \<open>!\<close> or \<open>NOT\<close>.
\<close>

datatype exp =
    Word string
  | Call string "string list"
  | Unary string exp
  | Binary string exp exp

definition unary_ops :: "string list" where
  "unary_ops = [''-'', ''NOT'', ''!'']"

definition unary_code :: "string \<Rightarrow> string" where
  "unary_code op = (if op = ''-'' then ''-u'' else ''!'')"

text \<open>A binary operator is any operator but the two that only occur on the stack; \<open>NOT\<close> is one.\<close>

definition is_binary :: "string \<Rightarrow> bool" where
  "is_binary op \<longleftrightarrow> is_operator op \<and> op \<noteq> ''-u'' \<and> op \<noteq> ''!''"

definition is_word :: "string \<Rightarrow> bool" where
  "is_word w \<longleftrightarrow> w \<noteq> [] \<and> \<not> is_operator w \<and> \<not> is_function w \<and> w \<notin> set [''('', '')'', '','']"

fun wf_exp :: "exp \<Rightarrow> bool" where
  "wf_exp (Word w) = is_word w"
| "wf_exp (Call f ws) = (is_function f \<and> ws \<noteq> [] \<and> list_all is_word ws)"
| "wf_exp (Unary op e) = (op \<in> set unary_ops \<and> wf_exp e)"
| "wf_exp (Binary op l r) = (is_binary op \<and> wf_exp l \<and> wf_exp r)"

fun separated :: "string list \<Rightarrow> string list" where
  "separated [] = []"
| "separated [w] = [w]"
| "separated (w # ws) = w # '','' # separated ws"

text \<open>The tokens of an expression where the context needs one of at least the given strength.\<close>

fun infix_tokens :: "nat \<Rightarrow> exp \<Rightarrow> string list" where
  "infix_tokens p (Word w) = [w]"
| "infix_tokens p (Call f ws) = f # ''('' # separated ws @ ['')'']"
| "infix_tokens p (Unary op e) = op # infix_tokens 6 e"
| "infix_tokens p (Binary op l r) =
     (let q = precedence op; ts = infix_tokens q l @ op # infix_tokens (Suc q) r in
      if q < p then ''('' # ts @ ['')''] else ts)"

fun postfix_tokens :: "exp \<Rightarrow> string list" where
  "postfix_tokens (Word w) = [w]"
| "postfix_tokens (Call f ws) = ws @ [f, dec (length ws)]"
| "postfix_tokens (Unary op e) = postfix_tokens e @ [unary_code op]"
| "postfix_tokens (Binary op l r) = postfix_tokens l @ postfix_tokens r @ [op]"

subsection \<open>Parsing the text of an expression\<close>

lemma parse_tokens_append:
  "parse_tokens (ts @ us) s = (case parse_tokens ts s of Inl e \<Rightarrow> Inl e | Inr s1 \<Rightarrow> parse_tokens us s1)"
  by (induction ts arbitrary: s) (auto split: sum.splits)

lemma operator_facts [simp]:
  "is_operator op \<Longrightarrow> \<not> is_function op" "is_operator op \<Longrightarrow> op \<noteq> ''('' \<and> op \<noteq> '')'' \<and> op \<noteq> '',''"
  "\<not> is_operator ''(''" "\<not> is_function ''(''" "\<not> is_operator '')''" "\<not> is_function '')''"
  "\<not> is_operator '',''" "\<not> is_function '',''"
  by (auto simp: is_operator_def is_function_def)

lemma binary_precedence: "is_binary op \<Longrightarrow> 2 \<le> precedence op \<and> precedence op \<le> 5"
  by (auto simp: is_binary_def is_operator_def precedence_def precedences_def)

lemma unary_precedence [simp]: "precedence ''-u'' = 6" "precedence ''!'' = 6" "is_operator ''-u''" "is_operator ''!''"
  by (simp_all add: precedence_def precedences_def is_operator_def)

text \<open>The stack where an operand may start: nothing on it is popped by an operator of strength \<open>p\<close>.\<close>

definition weaker :: "nat \<Rightarrow> string list \<Rightarrow> bool" where
  "weaker p st \<longleftrightarrow> st = [] \<or> hd st = ''('' \<or> (is_operator (hd st) \<and> precedence (hd st) < p)"

definition stronger :: "nat \<Rightarrow> string list \<Rightarrow> bool" where
  "stronger p st \<longleftrightarrow> list_all (\<lambda>x. is_operator x \<and> p \<le> precedence x) st"

abbreviation pst :: "string list \<Rightarrow> nat list \<Rightarrow> string list \<Rightarrow> bool \<Rightarrow> parser" where
  "pst st ar out u \<equiv> \<lparr>ps_stack = st, ps_arity = ar, ps_postfix = out, ps_can_be_unary = u\<rparr>"

lemma pop_stronger_stack:
  assumes "stronger p tops" "weaker p st" "precedence tok = p"
  shows "pop_stronger tok (pst (tops @ st) ar out u) = pst st ar (out @ tops) u"
proof -
  let ?p = "\<lambda>x. is_operator x \<and> precedence tok \<le> precedence x"
  have "takeWhile ?p (tops @ st) = tops" "dropWhile ?p (tops @ st) = st"
    using assms by (auto simp: stronger_def weaker_def list_all_iff takeWhile_append dropWhile_append neq_Nil_conv
        takeWhile_eq_Nil_iff dropWhile_eq_self_iff)
  then show ?thesis by (simp add: pop_stronger_def Let_def)
qed

lemma pop_to_paren_stack:
  assumes "stronger p tops"
  shows "pop_to_paren (pst (tops @ ''('' # st) ar out u) = pst (''('' # st) ar (out @ tops) u"
proof -
  have "\<forall>x \<in> set tops. x \<noteq> ''(''" using assms by (auto simp: stronger_def list_all_iff)
  then have "takeWhile (\<lambda>x. x \<noteq> ''('') (tops @ ''('' # st) = tops" "dropWhile (\<lambda>x. x \<noteq> ''('') (tops @ ''('' # st) = ''('' # st"
    by (auto simp: takeWhile_append2 dropWhile_append2)
  then show ?thesis by (simp add: pop_to_paren_def)
qed

text \<open>A stack where an operand that needs strength \<open>p\<close> may start; below a unary operator it is in parentheses.\<close>

definition operand_start :: "nat \<Rightarrow> string list \<Rightarrow> bool" where
  "operand_start p st \<longleftrightarrow> st = [] \<or> hd st = ''('' \<or> (is_operator (hd st) \<and> (precedence (hd st) < p \<or> p = 6))"

lemma operand_start_paren [simp]: "operand_start p (''('' # st)"
  by (simp add: operand_start_def)

lemma operand_start_no_function: "operand_start p st \<Longrightarrow> st = [] \<or> \<not> is_function (hd st)"
  by (auto simp: operand_start_def)

text \<open>What parsing an operand does: a part of its postfix notation is output, the rest is on the stack.\<close>

definition parses_to :: "nat \<Rightarrow> exp \<Rightarrow> string list \<Rightarrow> nat list \<Rightarrow> string list \<Rightarrow> exn + parser \<Rightarrow> bool" where
  "parses_to p e st ar out r \<longleftrightarrow>
     (\<exists>now tops. now @ tops = postfix_tokens e \<and> stronger p tops \<and> r = Inr (pst (tops @ st) ar (out @ now) False))"

lemma parses_to_now: "r = Inr (pst st ar (out @ postfix_tokens e) False) \<Longrightarrow> parses_to p e st ar out r"
  unfolding parses_to_def by (intro exI [of _ "postfix_tokens e"] exI [of _ "[]"]) (simp add: stronger_def)

lemma parse_words:
  assumes "list_all is_word ws" "ws \<noteq> []"
  shows "parse_tokens (separated ws) (pst (''('' # st) (n # ar) out u) =
    Inr (pst (''('' # st) ((n + length ws - 1) # ar) (out @ ws) False)"
  using assms
proof (induction ws arbitrary: n out u rule: separated.induct)
  case (3 w v ws)
  have "parse_tokens (separated (w # v # ws)) (pst (''('' # st) (n # ar) out u) =
      parse_tokens (separated (v # ws)) (pst (''('' # st) (Suc n # ar) (out @ [w]) False)"
    using 3(2) by (simp add: parse_token_def is_word_def parse_comma_def pop_to_paren_def)
  also have "\<dots> = Inr (pst (''('' # st) ((Suc n + length (v # ws) - 1) # ar) ((out @ [w]) @ v # ws) False)"
    using 3(2) by (intro "3.IH") auto
  finally show ?case by simp
qed (simp_all add: parse_token_def is_word_def)

lemma parse_right_paren:
  assumes "stronger p tops" "operand_start q st"
  shows "parse_token '')'' (pst (tops @ ''('' # st) ar out u) = Inr (pst st ar (out @ tops) False)"
  using operand_start_no_function [OF assms(2)]
  by (auto simp: parse_token_def parse_right_def pop_to_paren_stack [OF assms(1)])

lemma parse_call:
  assumes "is_function f" "list_all is_word ws" "ws \<noteq> []"
  shows "parse_tokens (infix_tokens p (Call f ws)) (pst st ar out u) =
    Inr (pst st ar (out @ ws @ [f, dec (length ws)]) False)"
proof -
  have "parse_tokens (infix_tokens p (Call f ws)) (pst st ar out u) =
      parse_tokens (separated ws @ ['')'']) (pst (''('' # f # st) (1 # ar) out True)"
    using assms(1) by (simp add: parse_token_def)
  also have "\<dots> = parse_tokens ['')''] (pst (''('' # f # st) (length ws # ar) (out @ ws) False)"
    using parse_words [OF assms(2,3), of "f # st" 1 ar out True] assms(3) by (simp add: parse_tokens_append)
  finally show ?thesis
    using assms(1) by (simp add: parse_token_def parse_right_def pop_to_paren_def)
qed

lemma parse_binary:
  assumes "is_binary op" "operand_start (precedence op) st"
    and "parses_to (precedence op) l st ar out (parse_tokens tsl (pst st ar out True))"
    and "\<And>out. parses_to (Suc (precedence op)) r (op # st) ar out (parse_tokens tsr (pst (op # st) ar out True))"
  shows "parses_to (precedence op) (Binary op l r) st ar out (parse_tokens (tsl @ op # tsr) (pst st ar out True))"
proof -
  let ?q = "precedence op"
  have op: "is_operator op" "?q \<le> 5" using assms(1) binary_precedence by (auto simp: is_binary_def)
  obtain now tops where l: "now @ tops = postfix_tokens l" "stronger ?q tops"
      "parse_tokens tsl (pst st ar out True) = Inr (pst (tops @ st) ar (out @ now) False)"
    using assms(3) by (auto simp: parses_to_def)
  have "weaker ?q st" using assms(2) op(2) by (auto simp: operand_start_def weaker_def)
  then have t: "parse_token op (pst (tops @ st) ar (out @ now) False) = Inr (pst (op # st) ar (out @ postfix_tokens l) True)"
    using op(1) l(1) by (auto simp: parse_token_def parse_operator_def pop_stronger_stack [OF l(2)])
  obtain now' tops' where r: "now' @ tops' = postfix_tokens r" "stronger (Suc ?q) tops'"
      "parse_tokens tsr (pst (op # st) ar (out @ postfix_tokens l) True) =
        Inr (pst (tops' @ op # st) ar (out @ postfix_tokens l @ now') False)"
    using assms(4) [of "out @ postfix_tokens l"] by (auto simp: parses_to_def)
  have "stronger ?q (tops' @ [op])" using r(2) op(1) by (auto simp: stronger_def list_all_iff)
  with l r t show ?thesis
    unfolding parses_to_def
    by (intro exI [of _ "postfix_tokens l @ now'"] exI [of _ "tops' @ [op]"]) (simp add: parse_tokens_append)
qed

lemma parse_unary:
  assumes "op \<in> set unary_ops" "p \<le> 6" "parses_to 6 e (unary_code op # st) ar out (parse_tokens ts (pst (unary_code op # st) ar out True))"
  shows "parses_to p (Unary op e) st ar out (parse_tokens (op # ts) (pst st ar out True))"
proof -
  have t: "parse_token op (pst st ar out True) = Inr (pst (unary_code op # st) ar out True)"
    using assms(1) by (auto simp: unary_ops_def unary_code_def parse_token_def parse_operator_def is_operator_def is_function_def)
  obtain now tops where o: "now @ tops = postfix_tokens e" "stronger 6 tops"
      "parse_tokens ts (pst (unary_code op # st) ar out True) = Inr (pst (tops @ unary_code op # st) ar (out @ now) False)"
    using assms(3) by (auto simp: parses_to_def)
  have "stronger p (tops @ [unary_code op])" using o(2) assms(2) by (auto simp: stronger_def list_all_iff unary_code_def)
  with o t show ?thesis
    unfolding parses_to_def by (intro exI [of _ now] exI [of _ "tops @ [unary_code op]"]) simp
qed

lemma parse_parens:
  assumes "parses_to q e (''('' # st) ar out (parse_tokens ts (pst (''('' # st) ar out True))" "operand_start p st"
  shows "parses_to p' e st ar out (parse_tokens (''('' # ts @ ['')'']) (pst st ar out True))"
proof -
  obtain now tops where o: "now @ tops = postfix_tokens e" "stronger q tops"
      "parse_tokens ts (pst (''('' # st) ar out True) = Inr (pst (tops @ ''('' # st) ar (out @ now) False)"
    using assms(1) by (auto simp: parses_to_def)
  have "parse_token ''('' (pst st ar out True) = Inr (pst (''('' # st) ar out True)" by (simp add: parse_token_def)
  with o parse_right_paren [OF o(2) assms(2)] show ?thesis
    by (intro parses_to_now) (simp add: parse_tokens_append)
qed

lemma parse_exp:
  assumes "wf_exp e" "p \<le> 6" "operand_start p st"
  shows "parses_to p e st ar out (parse_tokens (infix_tokens p e) (pst st ar out True))"
  using assms
proof (induction e arbitrary: p st ar out)
  case (Word w)
  then show ?case by (intro parses_to_now) (simp add: parse_token_def is_word_def)
next
  case (Call f ws)
  then show ?case using parse_call [of f ws p st ar out True] by (intro parses_to_now) simp
next
  case (Unary op e)
  have "operand_start 6 (unary_code op # st)" by (simp add: operand_start_def unary_code_def)
  with Unary show ?case using parse_unary [of op p e st ar out "infix_tokens 6 e"] by simp
next
  case (Binary op l r)
  let ?q = "precedence op"
  have op: "is_binary op" "is_operator op" "wf_exp l" "wf_exp r" "?q \<le> 5"
    using Binary.prems(1) binary_precedence by (auto simp: is_binary_def)
  have body: "parses_to ?q (Binary op l r) st' ar out
      (parse_tokens (infix_tokens ?q l @ op # infix_tokens (Suc ?q) r) (pst st' ar out True))"
    if "operand_start ?q st'" for st'
    using op that by (intro parse_binary Binary.IH) (auto simp: operand_start_def)
  show ?case
  proof (cases "?q < p")
    case False
    then have "operand_start ?q st" using Binary.prems(3) op(5) by (auto simp: operand_start_def)
    from body [OF this] False show ?thesis
      by (fastforce simp: parses_to_def stronger_def list_all_iff Let_def)
  next
    case True
    from parse_parens [OF body Binary.prems(3), of p] True show ?thesis by (simp add: Let_def)
  qed
qed

text \<open>The text of an expression, with parentheses only where the strength of the operators needs them.\<close>

definition write_exp :: "exp \<Rightarrow> string" where
  "write_exp e = write_tokens (infix_tokens 0 e)"

lemma separated_nonempty: "list_all is_word ws \<Longrightarrow> list_all (\<lambda>w. w \<noteq> []) (separated ws)"
  by (induction ws rule: separated.induct) (auto simp: is_word_def)

lemma infix_tokens_nonempty: "wf_exp e \<Longrightarrow> list_all (\<lambda>w. w \<noteq> []) (infix_tokens p e)"
proof (induction e arbitrary: p)
  case (Call f ws)
  then show ?case using separated_nonempty [of ws] by (auto simp: is_function_def)
next
  case (Unary op e)
  then show ?case by (auto simp: unary_ops_def)
next
  case (Binary op l r)
  then have "op \<noteq> []" by (auto simp: is_binary_def is_operator_def)
  with Binary show ?case by (simp add: Let_def)
qed (auto simp: is_word_def)

lemma get_postfix_written:
  assumes "wf_exp e"
  shows "get_postfix (write_exp e) = Inr (postfix_tokens e)"
proof -
  obtain now tops where p: "now @ tops = postfix_tokens e" "stronger 0 tops"
      "parse_tokens (infix_tokens 0 e) parser_new = Inr (pst tops [] now False)"
    using parse_exp [OF assms, of 0 "[]" "[]" "[]"] by (auto simp: parses_to_def parser_new_def operand_start_def)
  have "''('' \<notin> set tops" using p(2) by (auto simp: stronger_def list_all_iff)
  with p show ?thesis
    by (simp add: get_postfix_def write_exp_def tokenize_written [OF infix_tokens_nonempty [OF assms]] parse_end_def)
qed

end
