(* ===== verification/Bam_Bool_Props.thy ===== *)
theory Bam_Bool_Props
  imports Bam_Bool
begin

section \<open>The caches of a rule agree with an evaluation from scratch\<close>

text \<open>
  Lemmas on \<^verbatim>\<open>Bam_Bool\<close>: the reference evaluates a rule from the states of its services alone; every update of a
  service keeps the caches of all operators in agreement with it, although an update stops climbing
  at the first operator that does not notice a change.
\<close>

subsection \<open>Evaluation from scratch\<close>

text \<open>The value of an operator on known whole numbers, \<open>None\<close> for a remainder by zero.\<close>

fun op_meaning :: "bool_op \<Rightarrow> rat \<Rightarrow> rat \<Rightarrow> rat option" where
  "op_meaning Bool_and a b = Some (of_bool (a \<noteq> 0 \<and> b \<noteq> 0))"
| "op_meaning Bool_or a b = Some (of_bool (a \<noteq> 0 \<or> b \<noteq> 0))"
| "op_meaning Bool_xor a b = Some (of_bool ((a \<noteq> 0) \<noteq> (b \<noteq> 0)))"
| "op_meaning Bool_equal a b = Some (of_bool (a = b))"
| "op_meaning Bool_not_equal a b = Some (of_bool (a \<noteq> b))"
| "op_meaning (Bool_more_than strict) a b = Some (of_bool (if strict then a > b else a \<ge> b))"
| "op_meaning (Bool_less_than strict) a b = Some (of_bool (if strict then a < b else a \<le> b))"
| "op_meaning (Bool_operation Addition) a b = Some (a + b)"
| "op_meaning (Bool_operation Substraction) a b = Some (a - b)"
| "op_meaning (Bool_operation Multiplication) a b = Some (a * b)"
| "op_meaning (Bool_operation Division) a b = (if b = 0 then None else Some (a / b))"
| "op_meaning (Bool_operation Modulo) a b = (if b = 0 then None else Some (of_int (c_rem (trunc a) (trunc b))))"

text \<open>An operand may be unknown when the other one decides a conjunction or a disjunction.\<close>

definition op_eval :: "bool_op \<Rightarrow> rat option \<Rightarrow> rat option \<Rightarrow> rat option" where
  "op_eval op x y =
     (if op = Bool_and \<and> (x = Some 0 \<or> y = Some 0) then Some 0
      else if op = Bool_or \<and> ((x \<noteq> None \<and> x \<noteq> Some 0) \<or> (y \<noteq> None \<and> y \<noteq> Some 0)) then Some 1
      else Option.bind x (\<lambda>a. Option.bind y (op_meaning op a)))"

fun rule_value :: "bool_value \<Rightarrow> rat option" where
  "rule_value (Constant v) = Some v"
| "rule_value (Service s) = (if bs_state_known s then Some (of_int (bs_state_hard s)) else None)"
| "rule_value (Bool_not n) = map_option (\<lambda>v. of_bool (v = 0)) (rule_value n)"
| "rule_value (Binary_op op l r c) = op_eval op (rule_value l) (rule_value r)"

fun whole_rule :: "bool_value \<Rightarrow> bool" where
  "whole_rule (Constant v) = (v \<in> \<int>)"
| "whole_rule (Service s) = True"
| "whole_rule (Bool_not n) = whole_rule n"
| "whole_rule (Binary_op op l r c) = (op \<noteq> Bool_operation Division \<and> whole_rule l \<and> whole_rule r)"

subsection \<open>What a cache holds\<close>

definition whole :: "dbl \<Rightarrow> bool" where
  "whole x \<longleftrightarrow> (\<exists>i. x = Some (of_int i))"

text \<open>
  The invariant of one operator. A conjunction or disjunction that an operand decides holds the value of
  one that does; otherwise the operator is known when both operands are, and holds their values.
\<close>

definition holds_both :: "bool_value \<Rightarrow> bool_value \<Rightarrow> bool_cache \<Rightarrow> bool" where
  "holds_both l r c \<longleftrightarrow>
     bc_state_known c = (state_known l \<and> state_known r) \<and>
     (bc_state_known c \<longrightarrow> bc_left_hard c = value_hard l \<and> bc_right_hard c = value_hard r)"

definition holds_decider :: "bool \<Rightarrow> bool_value \<Rightarrow> bool_value \<Rightarrow> bool_cache \<Rightarrow> bool" where
  "holds_decider b l r c \<longleftrightarrow>
     (if decides b (Some l) \<or> decides b (Some r) then
        bc_state_known c \<and> bc_boolean_value c = b \<and>
        ((decides b (Some l) \<and> bc_left_hard c = d_of_bool b) \<or> (decides b (Some r) \<and> bc_right_hard c = d_of_bool b))
      else holds_both l r c \<and> bc_boolean_value c = (bc_state_known c \<and> \<not> b))"

definition cache_ok :: "bool_op \<Rightarrow> bool_value \<Rightarrow> bool_value \<Rightarrow> bool_cache \<Rightarrow> bool" where
  "cache_ok op l r c \<longleftrightarrow>
     whole (bc_left_hard c) \<and> whole (bc_right_hard c) \<and>
     (case op of Bool_and \<Rightarrow> holds_decider False l r c | Bool_or \<Rightarrow> holds_decider True l r c | _ \<Rightarrow> holds_both l r c)"

fun rule_ok :: "bool_value \<Rightarrow> bool" where
  "rule_ok (Constant v) = True"
| "rule_ok (Service s) = True"
| "rule_ok (Bool_not n) = rule_ok n"
| "rule_ok (Binary_op op l r c) = (rule_ok l \<and> rule_ok r \<and> cache_ok op l r c)"

text \<open>What an operator relies on: a known operand has a whole value, which is zero if it is false.\<close>

definition operand_ok :: "bool_value \<Rightarrow> bool" where
  "operand_ok n \<longleftrightarrow> (state_known n \<longrightarrow> whole (value_hard n) \<and> boolean_value n = (value_hard n \<noteq> Some 0))"

lemma whole_simps [simp]:
  "whole (Some (of_int i))" "whole (d_of_bool b)" "\<not> whole None" "whole (Some 0)" "whole (Some 1)"
  by (auto simp: whole_def d_of_bool_def of_bool_def intro: exI [of _ 0] exI [of _ 1])

lemma whole_close:
  assumes "whole x" "whole y" "\<not> dist_gt x y dbl_eps"
  shows "x = y"
proof -
  obtain i j where "x = Some (of_int i)" "y = Some (of_int j)" using assms by (auto simp: whole_def)
  then have "\<bar>of_int (i - j) :: rat\<bar> \<le> 1 / 1000000" using assms(3) by (simp add: dist_gt_def dcmp_def dbl_eps_def)
  then have "of_int \<bar>i - j\<bar> < (1 :: rat)" by simp
  then have "i = j" by linarith
  with \<open>x = _\<close> \<open>y = _\<close> show ?thesis by simp
qed

lemma whole_nonzero: "whole x \<Longrightarrow> dist_gt x (Some 0) dbl_eps \<longleftrightarrow> x \<noteq> Some 0"
  using whole_close [of x "Some 0"] by (auto simp: dist_gt_def dcmp_def dbl_eps_def)

lemma update_state_base_holds:
  "holds_both l r (update_state_base (Some l) (Some r) c)"
  by (auto simp: holds_both_def update_state_base_def)

lemma update_state_base_whole:
  assumes "operand_ok l" "operand_ok r" "whole (bc_left_hard c)" "whole (bc_right_hard c)"
  shows "whole (bc_left_hard (update_state_base (Some l) (Some r) c)) \<and>
    whole (bc_right_hard (update_state_base (Some l) (Some r) c))"
  using assms by (auto simp: operand_ok_def update_state_base_def)

lemma update_state_base_boolean [simp]: "bc_boolean_value (update_state_base l r c) = bc_boolean_value c"
  by (auto simp: update_state_base_def split: option.splits)

lemma decides_iff: "operand_ok n \<Longrightarrow> decides b (Some n) \<longleftrightarrow> state_known n \<and> (value_hard n \<noteq> Some 0) = b"
  by (auto simp: decides_def operand_ok_def)

lemma update_state_ok:
  assumes "operand_ok l" "operand_ok r" "whole (bc_left_hard c)" "whole (bc_right_hard c)"
  shows "cache_ok op l r (update_state op (Some l) (Some r) c)"
proof -
  let ?c = "update_state_base (Some l) (Some r) c" and ?d = "update_state_base (Some l) (Some r) (c\<lparr>bc_boolean_value := False\<rparr>)"
  have w: "whole (bc_left_hard ?c)" "whole (bc_right_hard ?c)" "whole (bc_left_hard ?d)" "whole (bc_right_hard ?d)"
    using update_state_base_whole [OF assms] update_state_base_whole [OF assms(1,2), of "c\<lparr>bc_boolean_value := False\<rparr>"] assms(3,4)
    by auto
  have h: "holds_both l r ?c" "holds_both l r ?d" by (rule update_state_base_holds)+
  have a: "cache_ok Bool_and l r (update_state_and (Some l) (Some r) c)"
  proof (cases "decides False (Some l) \<or> decides False (Some r)")
    case True
    then show ?thesis using assms(3,4) by (auto simp: cache_ok_def holds_decider_def update_state_and_def)
  next
    case False
    then have "bc_state_known ?c \<longrightarrow> bc_left_hard ?c \<noteq> Some 0 \<and> bc_right_hard ?c \<noteq> Some 0"
      using h(1) decides_iff [OF assms(1)] decides_iff [OF assms(2)] by (auto simp: holds_both_def)
    with False w h(1) show ?thesis
      by (auto simp: cache_ok_def holds_decider_def update_state_and_def whole_nonzero holds_both_def Let_def)
  qed
  have o: "cache_ok Bool_or l r (update_state_or (Some l) (Some r) c)"
    using w h(2) assms(3,4) by (auto simp: cache_ok_def holds_decider_def update_state_or_def)
  show ?thesis
    using a o w(1,2) h(1) by (cases op) (simp_all add: update_state_def cache_ok_def)
qed

text \<open>An operator that is notified and does not notice a change.\<close>

lemma decides_value:
  assumes "operand_ok n"
  shows "decides True (Some n) \<longleftrightarrow> state_known n \<and> value_hard n \<noteq> Some 0"
    and "decides False (Some n) \<longleftrightarrow> state_known n \<and> value_hard n = Some 0"
  using decides_iff [OF assms] by auto

lemma d_of_bool_simps [simp]: "d_of_bool True = Some 1" "d_of_bool False = Some 0"
  by (simp_all add: d_of_bool_def)

lemma unnoticed_decider_left:
  assumes "holds_decider b l r c" "operand_ok l" "operand_ok l'" "operand_ok r"
    and "bc_left_hard c = value_hard l'" "state_known l'" "bc_state_known c"
  shows "holds_decider b l' r c"
proof (cases "decides b (Some l) \<or> decides b (Some r)")
  case True
  then have h: "bc_boolean_value c = b" "bc_left_hard c = d_of_bool b \<or> (decides b (Some r) \<and> bc_right_hard c = d_of_bool b)"
    using assms(1) by (auto simp: holds_decider_def)
  have "decides b (Some l')" if "bc_left_hard c = d_of_bool b"
    using that assms(3,5,6) by (cases b) (simp_all add: decides_value)
  with h assms(7) show ?thesis by (auto simp: holds_decider_def)
next
  case False
  then have h: "holds_both l r c" "bc_boolean_value c = (\<not> b)" using assms(1,7) by (simp_all add: holds_decider_def)
  then have "state_known l" "value_hard l = value_hard l'" "state_known r" "bc_right_hard c = value_hard r"
    using assms(5,7) by (simp_all add: holds_both_def)
  moreover from this False have "\<not> decides b (Some l')"
    using assms(2,3,6) by (cases b) (simp_all add: decides_value)
  ultimately show ?thesis using False h assms(5-7) by (simp add: holds_decider_def holds_both_def)
qed

lemma unnoticed_decider_right:
  assumes "holds_decider b l r c" "operand_ok r" "operand_ok r'" "operand_ok l"
    and "bc_right_hard c = value_hard r'" "state_known r'" "bc_state_known c"
  shows "holds_decider b l r' c"
proof (cases "decides b (Some l) \<or> decides b (Some r)")
  case True
  then have h: "bc_boolean_value c = b" "bc_right_hard c = d_of_bool b \<or> (decides b (Some l) \<and> bc_left_hard c = d_of_bool b)"
    using assms(1) by (auto simp: holds_decider_def)
  have "decides b (Some r')" if "bc_right_hard c = d_of_bool b"
    using that assms(3,5,6) by (cases b) (simp_all add: decides_value)
  with h assms(7) show ?thesis by (auto simp: holds_decider_def)
next
  case False
  then have h: "holds_both l r c" "bc_boolean_value c = (\<not> b)" using assms(1,7) by (simp_all add: holds_decider_def)
  then have "state_known r" "value_hard r = value_hard r'" "state_known l" "bc_left_hard c = value_hard l"
    using assms(5,7) by (simp_all add: holds_both_def)
  moreover from this False have "\<not> decides b (Some r')"
    using assms(2,3,6) by (cases b) (simp_all add: decides_value)
  ultimately show ?thesis using False h assms(5-7) by (simp add: holds_decider_def holds_both_def)
qed

lemma unnoticed_unknown:
  assumes "cache_ok op l r c" "\<not> bc_state_known c"
  shows "\<not> state_known l' \<Longrightarrow> cache_ok op l' r c" and "\<not> state_known r' \<Longrightarrow> cache_ok op l r' c"
  using assms by (cases op; simp add: cache_ok_def holds_both_def holds_decider_def decides_def split: if_splits)+

lemma unnoticed_left:
  assumes "cache_ok op l r c" "operand_ok l" "operand_ok l'" "operand_ok r"
    and "state_known l' = bc_state_known c" "\<not> dist_gt (bc_left_hard c) (value_hard l') dbl_eps"
  shows "cache_ok op l' r c"
proof (cases "bc_state_known c")
  case True
  then have k: "state_known l'" using assms(5) by simp
  have v: "bc_left_hard c = value_hard l'"
    using assms(1,3) k by (intro whole_close assms(6)) (simp_all add: cache_ok_def operand_ok_def)
  have "holds_both l' r c" if "holds_both l r c" using that v k True by (simp add: holds_both_def)
  with assms(1) unnoticed_decider_left [OF _ assms(2-4) v k True] show ?thesis
    by (cases op) (simp_all add: cache_ok_def)
next
  case False
  then show ?thesis using unnoticed_unknown(1) [OF assms(1) False] assms(5) by simp
qed

lemma unnoticed_right:
  assumes "cache_ok op l r c" "operand_ok r" "operand_ok r'" "operand_ok l"
    and "state_known r' = bc_state_known c" "\<not> dist_gt (bc_right_hard c) (value_hard r') dbl_eps"
  shows "cache_ok op l r' c"
proof (cases "bc_state_known c")
  case True
  then have k: "state_known r'" using assms(5) by simp
  have v: "bc_right_hard c = value_hard r'"
    using assms(1,3) k by (intro whole_close assms(6)) (simp_all add: cache_ok_def operand_ok_def)
  have "holds_both l r' c" if "holds_both l r c" using that v k True by (simp add: holds_both_def)
  with assms(1) unnoticed_decider_right [OF _ assms(2-4) v k True] show ?thesis
    by (cases op) (simp_all add: cache_ok_def)
next
  case False
  then show ?thesis using unnoticed_unknown(2) [OF assms(1) False] assms(5) by simp
qed

text \<open>Two states of a node that look the same to the parent.\<close>

definition same_view :: "bool_value \<Rightarrow> bool_value \<Rightarrow> bool" where
  "same_view m n \<longleftrightarrow>
     state_known m = state_known n \<and> value_hard m = value_hard n \<and> boolean_value m = boolean_value n"

lemma cache_ok_view: "same_view l l' \<Longrightarrow> same_view r r' \<Longrightarrow> cache_ok op l r c \<Longrightarrow> cache_ok op l' r' c"
  by (cases op) (auto simp: same_view_def cache_ok_def holds_both_def holds_decider_def decides_def)

lemma update_service_silent: "update_service k ev n = (n', False) \<Longrightarrow> same_view n n'"
proof (induction n arbitrary: k n')
  case (Service s)
  then show ?case
    by (cases ev) (auto simp: same_view_def split: prod.splits option.splits if_splits)
next
  case (Bool_not n)
  then show ?case by (fastforce simp: same_view_def split: prod.splits)
next
  case (Binary_op op l r c)
  then show ?case
    by (auto simp: same_view_def update_from_def Let_def split: prod.splits if_splits)
qed (simp add: same_view_def)

subsection \<open>The value of a rule\<close>

definition agrees :: "bool_value \<Rightarrow> bool" where
  "agrees n \<longleftrightarrow>
     operand_ok n \<and> state_known n = (rule_value n \<noteq> None) \<and> (state_known n \<longrightarrow> value_hard n = rule_value n)"

lemma trunc_of_int [simp]: "trunc (of_int i) = i"
  by (simp add: trunc_def)

lemma whole_small:
  "\<bar>of_int i :: rat\<bar> < compare_epsilon \<longleftrightarrow> i = 0"
  "\<bar>of_int i - of_int j :: rat\<bar> < compare_epsilon \<longleftrightarrow> i = j"
  "compare_epsilon < \<bar>of_int i :: rat\<bar> \<longleftrightarrow> i \<noteq> 0"
  "compare_epsilon \<le> \<bar>of_int i - of_int j :: rat\<bar> \<longleftrightarrow> i \<noteq> j"
  "\<bar>of_int i :: rat\<bar> < dbl_eps \<longleftrightarrow> i = 0"
  "dbl_eps < \<bar>of_int i :: rat\<bar> \<longleftrightarrow> i \<noteq> 0"
proof -
  have big: "1 \<le> \<bar>of_int k :: rat\<bar>" if "k \<noteq> 0" for k :: int
  proof -
    have "1 \<le> \<bar>k\<bar>" using that by simp
    then have "(of_int 1 :: rat) \<le> of_int \<bar>k\<bar>" unfolding of_int_le_iff .
    then show ?thesis by simp
  qed
  have e: "compare_epsilon < 1" "0 < compare_epsilon" "dbl_eps < 1" "0 < dbl_eps"
    by (simp_all add: compare_epsilon_def dbl_eps_def)
  show "\<bar>of_int i :: rat\<bar> < compare_epsilon \<longleftrightarrow> i = 0" "compare_epsilon < \<bar>of_int i :: rat\<bar> \<longleftrightarrow> i \<noteq> 0"
    "\<bar>of_int i :: rat\<bar> < dbl_eps \<longleftrightarrow> i = 0" "dbl_eps < \<bar>of_int i :: rat\<bar> \<longleftrightarrow> i \<noteq> 0"
    using big [of i] e by (cases "i = 0"; simp)+
  show "\<bar>of_int i - of_int j :: rat\<bar> < compare_epsilon \<longleftrightarrow> i = j" "compare_epsilon \<le> \<bar>of_int i - of_int j :: rat\<bar> \<longleftrightarrow> i \<noteq> j"
    using big [of "i - j"] e by (cases "i = j"; simp)+
qed

lemma eps_pos [simp]: "0 < dbl_eps" "0 < compare_epsilon"
  by (simp_all add: dbl_eps_def compare_epsilon_def)

text \<open>Operators that need both operands, on whole numbers.\<close>

lemma strict_op_value:
  fixes l r
  defines "n \<equiv> \<lambda>op c. Binary_op op l r c"
  assumes "bc_state_known c" "bc_left_hard c = Some (of_int i)" "bc_right_hard c = Some (of_int j)"
    and "op \<notin> {Bool_and, Bool_or, Bool_operation Division}"
  shows "state_known (n op c) = (op_meaning op (of_int i) (of_int j) \<noteq> None)"
    and "state_known (n op c) \<Longrightarrow> value_hard (n op c) = op_meaning op (of_int i) (of_int j)"
    and "operand_ok (n op c)"
proof -
  note defs = n_def dcmp_def dist_gt_def lift2_def comparison_defs d_of_bool_def bool_of_d_def operand_ok_def whole_small
  have "state_known (n op c) = (op_meaning op (of_int i) (of_int j) \<noteq> None) \<and>
    (state_known (n op c) \<longrightarrow> value_hard (n op c) = op_meaning op (of_int i) (of_int j)) \<and> operand_ok (n op c)"
  proof (cases op)
    case (Bool_operation t)
    have "whole (Some (of_int i + of_int j))" "whole (Some (of_int i - of_int j))" "whole (Some (of_int i * of_int j))"
      unfolding of_int_add [symmetric] of_int_diff [symmetric] of_int_mult [symmetric] by (rule whole_simps)+
    moreover have "compare_epsilon < \<bar>of_int i * of_int j\<bar> \<longleftrightarrow> i \<noteq> 0 \<and> j \<noteq> 0"
      using whole_small(3) [of "i * j"] by simp
    ultimately show ?thesis
      using assms(2-5) Bool_operation by (cases t) (auto simp: defs)
  next
    case (Bool_more_than s)
    then show ?thesis using assms(2-4) by (simp add: defs of_bool_def)
  next
    case (Bool_less_than s)
    then show ?thesis using assms(2-4) by (simp add: defs of_bool_def)
  qed (use assms(2-5) in \<open>simp_all add: defs of_bool_def\<close>)
  then show "state_known (n op c) = (op_meaning op (of_int i) (of_int j) \<noteq> None)"
    "state_known (n op c) \<Longrightarrow> value_hard (n op c) = op_meaning op (of_int i) (of_int j)" "operand_ok (n op c)" by simp_all
qed

lemma agrees_wholeD:
  "agrees n \<Longrightarrow> state_known n \<Longrightarrow> \<exists>i. value_hard n = Some (of_int i) \<and> rule_value n = Some (of_int i) \<and> boolean_value n = (i \<noteq> 0)"
  by (auto simp: agrees_def operand_ok_def whole_def)

lemma agrees_known: "agrees n \<Longrightarrow> rule_value n = (if state_known n then value_hard n else None)"
  by (auto simp: agrees_def)

lemma agrees_decides:
  assumes "agrees n"
  shows "decides False (Some n) \<longleftrightarrow> rule_value n = Some 0"
    and "decides True (Some n) \<longleftrightarrow> rule_value n \<noteq> None \<and> rule_value n \<noteq> Some 0"
proof -
  have o: "operand_ok n" using assms by (simp add: agrees_def)
  show "decides False (Some n) \<longleftrightarrow> rule_value n = Some 0"
    "decides True (Some n) \<longleftrightarrow> rule_value n \<noteq> None \<and> rule_value n \<noteq> Some 0"
    unfolding decides_value [OF o] agrees_known [OF assms] using o by (auto simp: operand_ok_def whole_def)
qed

lemma strict_agrees:
  assumes "agrees l" "agrees r" "holds_both l r c" "op \<notin> {Bool_and, Bool_or, Bool_operation Division}"
  shows "agrees (Binary_op op l r c)"
proof (cases "bc_state_known c")
  case True
  then have k: "state_known l" "state_known r" "bc_left_hard c = value_hard l" "bc_right_hard c = value_hard r"
    using assms(3) by (auto simp: holds_both_def)
  obtain i j where v: "value_hard l = Some (of_int i)" "rule_value l = Some (of_int i)"
    "value_hard r = Some (of_int j)" "rule_value r = Some (of_int j)"
    using agrees_wholeD [OF assms(1) k(1)] agrees_wholeD [OF assms(2) k(2)] by auto
  have "rule_value (Binary_op op l r c) = op_meaning op (of_int i) (of_int j)"
    using v assms(4) by (simp add: op_eval_def)
  then show ?thesis
    using strict_op_value [OF True _ _ assms(4), of i j l r] k v by (simp add: agrees_def del: state_known.simps value_hard.simps)
next
  case False
  then have "rule_value l = None \<or> rule_value r = None"
    using assms by (auto simp: holds_both_def agrees_def)
  then have "rule_value (Binary_op op l r c) = None"
    using assms(4) by (auto simp: op_eval_def split: Option.bind_split)
  moreover have "\<not> state_known (Binary_op op l r c)" using False by (cases op) (simp_all add: operation_known_def)
  ultimately show ?thesis by (simp add: agrees_def operand_ok_def del: state_known.simps rule_value.simps)
qed

lemma decider_agrees:
  assumes "agrees l" "agrees r" "holds_decider b l r c" "op = (if b then Bool_or else Bool_and)"
  shows "agrees (Binary_op op l r c)"
proof -
  let ?n = "Binary_op op l r c"
  have v: "state_known ?n = bc_state_known c" "value_hard ?n = d_of_bool (bc_boolean_value c)"
    "boolean_value ?n = bc_boolean_value c"
    using assms(4) by (simp_all add: comparison_defs split: if_splits)
  have o: "operand_ok ?n"
    unfolding operand_ok_def v by (cases "bc_boolean_value c") simp_all
  note d = agrees_decides [OF assms(1)] agrees_decides [OF assms(2)]
  have k: "state_known l = (rule_value l \<noteq> None)" "state_known r = (rule_value r \<noteq> None)"
    using assms(1,2) by (simp_all add: agrees_def)
  show ?thesis
  proof (cases "decides b (Some l) \<or> decides b (Some r)")
    case True
    then have "rule_value ?n = d_of_bool b"
      using d assms(4) by (cases b) (auto simp: op_eval_def)
    with True v o assms(3) show ?thesis by (simp add: agrees_def holds_decider_def d_of_bool_def del: state_known.simps rule_value.simps)
  next
    case False
    then have h: "bc_state_known c = (state_known l \<and> state_known r)" "bc_boolean_value c = (bc_state_known c \<and> \<not> b)"
      using assms(3) by (simp_all add: holds_decider_def holds_both_def)
    have "rule_value ?n = (if bc_state_known c then d_of_bool (\<not> b) else None)"
      using False h(1) k d assms(4) by (cases b; cases "rule_value l"; cases "rule_value r") (simp_all add: op_eval_def)
    with v o h show ?thesis by (simp add: agrees_def d_of_bool_def del: state_known.simps rule_value.simps)
  qed
qed

lemma rule_agrees: "rule_ok n \<Longrightarrow> whole_rule n \<Longrightarrow> agrees n"
proof (induction n)
  case (Constant v)
  then obtain i where "v = of_int i" by (auto elim: Ints_cases)
  then show ?case by (simp add: agrees_def operand_ok_def whole_small(6) constant_boolean_def)
next
  case (Service s)
  then show ?case by (simp add: agrees_def operand_ok_def)
next
  case (Bool_not n)
  then have "agrees n" by simp
  then show ?case
    using agrees_wholeD [of n]
    by (cases "state_known n") (auto simp: agrees_def operand_ok_def dcmp_def whole_small d_of_bool_def not_value_def)
next
  case (Binary_op op l r c)
  then show ?case
    using strict_agrees [of l r c op] decider_agrees [of l r False c op] decider_agrees [of l r True c op]
    by (cases op) (simp_all add: cache_ok_def)
qed

lemma operand_okI: "rule_ok n \<Longrightarrow> whole_rule n \<Longrightarrow> operand_ok n"
  using rule_agrees by (simp add: agrees_def)

subsection \<open>Updates keep the agreement\<close>

lemma services_update [simp]: "length (services (fst (update_service k ev n))) = length (services n)"
  by (induction n arbitrary: k) (simp_all add: Let_def case_prod_beta)

lemma whole_rule_update [simp]: "whole_rule (fst (update_service k ev n)) = whole_rule n"
  by (induction n arbitrary: k) (simp_all add: Let_def case_prod_beta)

lemma update_from_ok:
  assumes "operand_ok l" "operand_ok r" "operand_ok l'" "operand_ok r'" "cache_ok op l r c"
    and "from_left \<Longrightarrow> r' = r" "\<not> from_left \<Longrightarrow> l' = l"
  shows "cache_ok op l' r' (fst (update_from op from_left l' r' c))"
  using assms update_state_ok [of l' r' c op] unnoticed_left [of op l r c l'] unnoticed_right [of op l r c r']
  by (auto simp: update_from_def Let_def cache_ok_def [of op l r])

lemma update_service_ok: "rule_ok n \<Longrightarrow> whole_rule n \<Longrightarrow> rule_ok (fst (update_service k ev n))"
proof (induction n arbitrary: k)
  case (Bool_not n)
  then show ?case by (simp add: case_prod_beta)
next
  case (Binary_op op l r c)
  show ?case
  proof (cases "k < length (services l)")
    case True
    obtain l1 b where u: "update_service k ev l = (l1, b)" by fastforce
    then have "rule_ok l1" "whole_rule l1" using Binary_op.IH(1) [of k] Binary_op.prems whole_rule_update [of k ev l] by auto
    moreover have "\<not> b \<Longrightarrow> cache_ok op l1 r c"
      using u update_service_silent [of k ev l l1] cache_ok_view [of l l1 r r] Binary_op.prems by (simp add: same_view_def)
    moreover have "b \<Longrightarrow> cache_ok op l1 r (fst (update_from op True l1 r c))"
      using calculation(1,2) Binary_op.prems update_from_ok [of l r l1 r op c True] operand_okI by simp
    ultimately show ?thesis using True u Binary_op.prems by (auto split: prod.splits)
  next
    case False
    obtain r1 b where u: "update_service (k - length (services l)) ev r = (r1, b)" by fastforce
    then have "rule_ok r1" "whole_rule r1"
      using Binary_op.IH(2) [of "k - length (services l)"] Binary_op.prems whole_rule_update [of "k - length (services l)" ev r] by auto
    moreover have "\<not> b \<Longrightarrow> cache_ok op l r1 c"
      using u update_service_silent [of _ ev r r1] cache_ok_view [of l l r r1] Binary_op.prems by (simp add: same_view_def)
    moreover have "b \<Longrightarrow> cache_ok op l r1 (fst (update_from op False l r1 c))"
      using calculation(1,2) Binary_op.prems update_from_ok [of l r l r1 op c False] operand_okI by simp
    ultimately show ?thesis using False u Binary_op.prems by (auto split: prod.splits)
  qed
qed (auto split: prod.splits)

lemma binary_new_ok: "rule_ok l \<Longrightarrow> rule_ok r \<Longrightarrow> whole_rule l \<Longrightarrow> whole_rule r \<Longrightarrow> rule_ok (binary_new op l r)"
proof -
  assume a: "rule_ok l" "rule_ok r" "whole_rule l" "whole_rule r"
  have "whole (bc_left_hard (update_state op (Some l) None bool_cache_new)) \<and>
    whole (bc_right_hard (update_state op (Some l) None bool_cache_new))"
    by (cases op) (auto simp: update_state_def update_state_and_def update_state_or_def update_state_base_def
        bool_cache_new_def Let_def decides_def)
  then show ?thesis using a by (simp add: binary_new_def update_state_ok operand_okI)
qed

subsection \<open>The services of a rule\<close>

text \<open>A rule without its caches and the states of its services.\<close>

fun shape :: "bool_value \<Rightarrow> bool_value" where
  "shape (Constant v) = Constant v"
| "shape (Service s) = Service (bool_service_new 0 0)"
| "shape (Bool_not n) = Bool_not (shape n)"
| "shape (Binary_op op l r c) = Binary_op op (shape l) (shape r) bool_cache_new"

lemma update_service_shape [simp]: "shape (fst (update_service k ev n)) = shape n"
  by (induction n arbitrary: k) (simp_all add: Let_def case_prod_beta)

lemma update_service_services:
  "k < length (services n) \<Longrightarrow>
     services (fst (update_service k ev n)) = (services n)[k := fst (service_update ev (services n ! k))]"
proof (induction n arbitrary: k)
  case (Binary_op op l r c)
  then show ?case
    by (simp add: Let_def case_prod_beta nth_append list_update_append)
qed (simp_all add: Let_def case_prod_beta)

lemma updates_at_nth:
  assumes "distinct ks" "\<forall>k \<in> set ks. k < length xs"
  shows "length (foldl (\<lambda>xs k. xs[k := g (xs ! k)]) xs ks) = length xs \<and>
    (\<forall>i < length xs. foldl (\<lambda>xs k. xs[k := g (xs ! k)]) xs ks ! i = (if i \<in> set ks then g (xs ! i) else xs ! i))"
  using assms
proof (induction ks arbitrary: xs)
  case (Cons k ks)
  then show ?case using Cons.IH [of "xs[k := g (xs ! k)]"] by (auto simp: nth_list_update)
qed simp

lemma updates_at_filter:
  "foldl (\<lambda>xs k. xs[k := g (xs ! k)]) xs (filter (\<lambda>k. P (xs ! k)) [0..<length xs]) = map (\<lambda>x. if P x then g x else x) xs"
proof -
  let ?ks = "filter (\<lambda>k. P (xs ! k)) [0..<length xs]"
  have "distinct ?ks" "\<forall>k \<in> set ?ks. k < length xs" by simp_all
  from updates_at_nth [OF this, of g] show ?thesis by (intro nth_equalityI) simp_all
qed

definition service_ids :: "bool_service \<Rightarrow> u32 \<times> u32" where
  "service_ids s = (bs_host_id s, bs_service_id s)"

lemma update_services_fold:
  assumes "\<forall>k \<in> set ks. k < length (services n)"
  shows "services (foldl (\<lambda>m k. fst (update_service k ev m)) n ks) =
      foldl (\<lambda>xs k. xs[k := fst (service_update ev (xs ! k))]) (services n) ks"
    and "shape (foldl (\<lambda>m k. fst (update_service k ev m)) n ks) = shape n"
    and "rule_ok n \<Longrightarrow> whole_rule n \<Longrightarrow>
      rule_ok (foldl (\<lambda>m k. fst (update_service k ev m)) n ks) \<and> whole_rule (foldl (\<lambda>m k. fst (update_service k ev m)) n ks)"
  using assms by (induction ks arbitrary: n) (simp_all add: update_service_services update_service_ok)

lemma book_update_services:
  "services (book_update ids ev n) =
     map (\<lambda>s. if service_ids s = ids then fst (service_update ev s) else s) (services n)"
  unfolding book_update_def service_ids_def
  by (subst update_services_fold(1))
    (auto intro: updates_at_filter [where g = "\<lambda>s. fst (service_update ev s)" and P = "\<lambda>s. (bs_host_id s, bs_service_id s) = ids"])

lemma book_update_shape [simp]: "shape (book_update ids ev n) = shape n"
  unfolding book_update_def by (subst update_services_fold(2)) auto

lemma book_update_ok: "rule_ok n \<Longrightarrow> whole_rule n \<Longrightarrow> rule_ok (book_update ids ev n) \<and> whole_rule (book_update ids ev n)"
  unfolding book_update_def by (rule update_services_fold(3)) auto

text \<open>A sequence of messages for the services of a rule.\<close>

definition book_updates :: "((u32 \<times> u32) \<times> service_event) list \<Rightarrow> bool_value \<Rightarrow> bool_value" where
  "book_updates evs n = foldl (\<lambda>m (ids, ev). book_update ids ev m) n evs"

definition service_updates :: "((u32 \<times> u32) \<times> service_event) list \<Rightarrow> bool_service \<Rightarrow> bool_service" where
  "service_updates evs s = foldl (\<lambda>s (ids, ev). if service_ids s = ids then fst (service_update ev s) else s) s evs"

lemma book_updates_services: "services (book_updates evs n) = map (service_updates evs) (services n)"
proof (induction evs arbitrary: n)
  case (Cons e evs)
  show ?case
    using Cons.IH [of "book_update (fst e) (snd e) n"]
    by (simp add: book_updates_def service_updates_def case_prod_beta book_update_services)
qed (simp add: book_updates_def service_updates_def [abs_def])

lemma book_updates_shape [simp]: "shape (book_updates evs n) = shape n"
  by (induction evs arbitrary: n) (simp_all add: book_updates_def case_prod_beta)

lemma book_updates_ok: "rule_ok n \<Longrightarrow> whole_rule n \<Longrightarrow> rule_ok (book_updates evs n) \<and> whole_rule (book_updates evs n)"
  by (induction evs arbitrary: n) (simp_all add: book_updates_def case_prod_beta book_update_ok)

end
