(* ===== verification/Bam_Builder.thy ===== *)
theory Bam_Builder
  imports Bam_Parser Bam_Bool_Props
begin

section \<open>From postfix notation to the tree of a rule\<close>

text \<open>
  Models \<^verbatim>\<open>broker/bam/src/exp_builder.cc\<close> and \<^verbatim>\<open>broker/bam/src/hst_svc_mapping.cc\<close>: the tokens in postfix
  notation become a tree over an operand stack; a call of \<open>SERVICESTATUS\<close> becomes a node for the service
  that the mapping knows by these names. The text of an expression goes through the tokenizer, the
  parser and the builder when its boolean rule is created.

  The numbers of the C library are exact; a word that reads as an infinite number or as not a number
  is outside the model and gives \<open>Undefined\<close>.
\<close>

subsection \<open>Numbers\<close>

definition digit_value :: "nat \<Rightarrow> char \<Rightarrow> nat option" where
  "digit_value base c =
     (let n = of_char c;
          v = (if 48 \<le> n \<and> n \<le> 57 then n - 48 else if 65 \<le> n \<and> n \<le> 90 then n - 55
               else if 97 \<le> n \<and> n \<le> 122 then n - 87 else 36 :: nat)
      in if v < base then Some v else None)"

definition is_digit_of :: "nat \<Rightarrow> char \<Rightarrow> bool" where
  "is_digit_of base c \<longleftrightarrow> digit_value base c \<noteq> None"

definition digits_value :: "nat \<Rightarrow> string \<Rightarrow> nat" where
  "digits_value base ds = foldl (\<lambda>acc c. acc * base + (case digit_value base c of None \<Rightarrow> 0 | Some v \<Rightarrow> v)) 0 ds"

definition read_sign :: "string \<Rightarrow> bool \<times> string" where
  "read_sign s = (case s of CHR ''-'' # t \<Rightarrow> (True, t) | CHR ''+'' # t \<Rightarrow> (False, t) | _ \<Rightarrow> (False, s))"

text \<open>The exponent behind a mantissa: nothing unless there is the mark and a digit.\<close>

definition read_exponent :: "char \<Rightarrow> string \<Rightarrow> int" where
  "read_exponent mark s =
     (case s of
        [] \<Rightarrow> 0
      | c # t \<Rightarrow>
          if digit_value 36 c = digit_value 36 mark then
            (let (neg, u) = read_sign t; v = int (digits_value 10 (takeWhile (is_digit_of 10) u)) in if neg then - v else v)
          else 0)"

definition read_number :: "nat \<Rightarrow> char \<Rightarrow> nat \<Rightarrow> string \<Rightarrow> rat" where
  "read_number base mark ebase s =
     (let ip = takeWhile (is_digit_of base) s;
          s1 = dropWhile (is_digit_of base) s;
          s2 = (case s1 of CHR ''.'' # t \<Rightarrow> t | _ \<Rightarrow> []);
          fp = takeWhile (is_digit_of base) s2;
          rest = (case s1 of CHR ''.'' # t \<Rightarrow> dropWhile (is_digit_of base) t | _ \<Rightarrow> s1);
          e = read_exponent mark rest;
          m = of_nat (digits_value base (ip @ fp)) / of_nat base ^ length fp
      in if ip = [] \<and> fp = [] then 0
         else if 0 \<le> e then m * of_nat ebase ^ nat e else m / of_nat ebase ^ nat (- e))"

definition lower :: "string \<Rightarrow> string" where
  "lower s = map (\<lambda>c. if 65 \<le> (of_char c :: nat) \<and> (of_char c :: nat) \<le> 90 then char_of (of_char c + 32 :: nat) else c) s"

definition hex_follows :: "string \<Rightarrow> bool" where
  "hex_follows s \<longleftrightarrow>
     lower (take 2 s) = ''0x'' \<and>
     (case drop 2 s of
        [] \<Rightarrow> False
      | c # t \<Rightarrow> is_digit_of 16 c \<or> (c = CHR ''.'' \<and> (case t of [] \<Rightarrow> False | d # _ \<Rightarrow> is_digit_of 16 d)))"

definition strtod :: "string \<Rightarrow> exn + rat" where
  "strtod s =
     (let (neg, t) = read_sign (dropWhile is_space s) in
      if lower (take 3 t) = ''inf'' \<or> lower (take 3 t) = ''nan'' then Inl Undefined
      else
        (let v = (if hex_follows t then read_number 16 (CHR ''p'') 2 (drop 2 t) else read_number 10 (CHR ''e'') 10 t)
         in Inr (if neg then - v else v)))"

text \<open>\<open>strtol\<close> with base zero, and the conversion of its result to \<open>int\<close>.\<close>

definition strtol_any :: "string \<Rightarrow> int" where
  "strtol_any s =
     (let (neg, t) = read_sign (dropWhile is_space s);
          v = (if lower (take 2 t) = ''0x'' \<and> drop 2 t \<noteq> [] \<and> is_digit_of 16 (hd (drop 2 t))
               then int (digits_value 16 (takeWhile (is_digit_of 16) (drop 2 t)))
               else if take 1 t = ''0'' then int (digits_value 8 (takeWhile (is_digit_of 8) t))
               else int (digits_value 10 (takeWhile (is_digit_of 10) t)));
          w = (if neg then - v else v)
      in clamp_long w)"

definition int_of_long :: "int \<Rightarrow> int" where
  "int_of_long v = sint (word_of_int v :: 32 word)"

subsection \<open>Names of hosts and services\<close>

record hst_svc_mapping =
  hs_mapping :: "string \<times> string \<rightharpoonup> u32 \<times> u32"
  hs_activated :: "u32 \<times> u32 \<rightharpoonup> bool"

definition get_service_id :: "hst_svc_mapping \<Rightarrow> string \<Rightarrow> string \<Rightarrow> u32 \<times> u32" where
  "get_service_id m hst svc = (case hs_mapping m (hst, svc) of None \<Rightarrow> (0, 0) | Some ids \<Rightarrow> ids)"

definition get_host_id :: "hst_svc_mapping \<Rightarrow> string \<Rightarrow> u32" where
  "get_host_id m hst = fst (get_service_id m hst '''')"

definition set_service :: "string \<Rightarrow> string \<Rightarrow> u32 \<Rightarrow> u32 \<Rightarrow> bool \<Rightarrow> hst_svc_mapping \<Rightarrow> hst_svc_mapping" where
  "set_service hst svc host_id service_id activated m =
     m\<lparr>hs_mapping := (hs_mapping m)((hst, svc) \<mapsto> (host_id, service_id)),
       hs_activated := (hs_activated m)((host_id, service_id) \<mapsto> activated)\<rparr>"

definition set_host :: "string \<Rightarrow> u32 \<Rightarrow> hst_svc_mapping \<Rightarrow> hst_svc_mapping" where
  "set_host hst host_id m = set_service hst '''' host_id 0 True m"

definition get_activated :: "hst_svc_mapping \<Rightarrow> u32 \<Rightarrow> u32 \<Rightarrow> bool" where
  "get_activated m host_id service_id =
     (case hs_activated m (host_id, service_id) of None \<Rightarrow> True | Some b \<Rightarrow> b)"

subsection \<open>The builder\<close>

text \<open>An operand is a node or a word that has not been evaluated.\<close>

datatype any_operand = Node bool_value | Text string

record builder =
  eb_operands :: "any_operand list"
  eb_services :: "bool_service list"

definition word_value :: "string \<Rightarrow> exn + rat" where
  "word_value s =
     (if s = ''OK'' then Inr 0
      else if s = ''WARNING'' then Inr 1
      else if s = ''CRITICAL'' then Inr 2
      else if s = ''UNKNOWN'' then Inr 3
      else if s = ''UP'' then Inr 0
      else if s = ''DOWN'' then Inr 1
      else if s = ''UNREACHABLE'' then Inr 2
      else strtod s)"

fun pop_operand :: "builder \<Rightarrow> exn + bool_value \<times> builder" where
  "pop_operand b =
     (case eb_operands b of
        [] \<Rightarrow> Inl Msg_fmt
      | Node n # os \<Rightarrow> Inr (n, b\<lparr>eb_operands := os\<rparr>)
      | Text s # os \<Rightarrow>
          (case word_value s of Inl e \<Rightarrow> Inl e | Inr v \<Rightarrow> Inr (Constant v, b\<lparr>eb_operands := os\<rparr>)))"

fun pop_string :: "builder \<Rightarrow> exn + string \<times> builder" where
  "pop_string b =
     (case eb_operands b of
        [] \<Rightarrow> Inl Msg_fmt
      | Node n # os \<Rightarrow> Inl Msg_fmt
      | Text s # os \<Rightarrow> if s = [] then Inl Msg_fmt else Inr (s, b\<lparr>eb_operands := os\<rparr>))"

fun pop_strings :: "nat \<Rightarrow> builder \<Rightarrow> exn + builder" where
  "pop_strings 0 b = Inr b"
| "pop_strings (Suc n) b = (case pop_string b of Inl e \<Rightarrow> Inl e | Inr (s, b1) \<Rightarrow> pop_strings n b1)"

definition is_static_function :: "string \<Rightarrow> bool" where
  "is_static_function s \<longleftrightarrow> s \<in> set [''HOSTSTATUS'', ''SERVICESTATUS'', ''METRICS'', ''METRIC'', ''CALL'']"

definition binary_operator :: "string \<Rightarrow> bool_op option" where
  "binary_operator tok =
     (if tok = ''&&'' \<or> tok = ''AND'' then Some Bool_and
      else if tok = ''||'' \<or> tok = ''OR'' then Some Bool_or
      else if tok = ''^'' \<or> tok = ''XOR'' then Some Bool_xor
      else if tok = ''=='' \<or> tok = ''IS'' then Some Bool_equal
      else if tok = ''!='' \<or> tok = ''NOT'' then Some Bool_not_equal
      else if tok = ''>'' then Some (Bool_more_than True)
      else if tok = ''>='' then Some (Bool_more_than False)
      else if tok = ''<'' then Some (Bool_less_than True)
      else if tok = ''<='' then Some (Bool_less_than False)
      else if tok = ''+'' then Some (Bool_operation Addition)
      else if tok = ''-'' then Some (Bool_operation Substraction)
      else if tok = ''*'' then Some (Bool_operation Multiplication)
      else if tok = ''/'' then Some (Bool_operation Division)
      else if tok = ''%'' then Some (Bool_operation Modulo)
      else None)"

definition build_operator :: "string \<Rightarrow> builder \<Rightarrow> exn + builder" where
  "build_operator tok b =
     (if tok = ''-u'' then Inr b
      else if tok = ''!'' then
        (case pop_operand b of
           Inl e \<Rightarrow> Inl e
         | Inr (n, b1) \<Rightarrow> Inr (b1\<lparr>eb_operands := Node (Bool_not n) # eb_operands b1\<rparr>))
      else
        (case binary_operator tok of
           None \<Rightarrow> Inl Msg_fmt
         | Some op \<Rightarrow>
             (case pop_operand b of
                Inl e \<Rightarrow> Inl e
              | Inr (r, b1) \<Rightarrow>
                  (case pop_operand b1 of
                     Inl e \<Rightarrow> Inl e
                   | Inr (l, b2) \<Rightarrow> Inr (b2\<lparr>eb_operands := Node (binary_new op l r) # eb_operands b2\<rparr>)))))"

definition build_service :: "hst_svc_mapping \<Rightarrow> builder \<Rightarrow> exn + builder" where
  "build_service m b =
     (case pop_string b of
        Inl e \<Rightarrow> Inl e
      | Inr (svc, b1) \<Rightarrow>
          (case pop_string b1 of
             Inl e \<Rightarrow> Inl e
           | Inr (hst, b2) \<Rightarrow>
               (let ids = get_service_id m hst svc in
                if fst ids = 0 \<or> snd ids = 0 then Inl Msg_fmt
                else
                  (let obj = bool_service_new (fst ids) (snd ids) in
                   Inr (b2\<lparr>eb_operands := Node (Service obj) # eb_operands b2,
                           eb_services := eb_services b2 @ [obj]\<rparr>)))))"

definition build_static :: "hst_svc_mapping \<Rightarrow> string \<Rightarrow> int \<Rightarrow> builder \<Rightarrow> exn + builder" where
  "build_static m func arity b =
     (if func = ''HOSTSTATUS'' then (if arity = 1 then pop_strings 1 b else Inl Msg_fmt)
      else if func = ''SERVICESTATUS'' then (if arity = 2 then build_service m b else Inl Msg_fmt)
      else if func = ''METRIC'' then (if arity = 3 then pop_strings 3 b else Inl Msg_fmt)
      else if func = ''METRICS'' then (if arity = 1 then pop_strings 1 b else Inl Msg_fmt)
      else if func = ''CALL'' then (if arity = 1 then pop_strings 1 b else Inl Msg_fmt)
      else Inl Msg_fmt)"

fun build_tokens :: "hst_svc_mapping \<Rightarrow> string list \<Rightarrow> builder \<Rightarrow> exn + builder" where
  "build_tokens m [] b = Inr b"
| "build_tokens m (tok # ts) b =
     (if is_operator tok then (case build_operator tok b of Inl e \<Rightarrow> Inl e | Inr b1 \<Rightarrow> build_tokens m ts b1)
      else if is_static_function tok then
        (case ts of
           [] \<Rightarrow> Inl Msg_fmt
         | ar # ts1 \<Rightarrow>
             (case build_static m tok (int_of_long (strtol_any ar)) b of
                Inl e \<Rightarrow> Inl e
              | Inr b1 \<Rightarrow> build_tokens m ts1 b1))
      else if is_function tok then (case ts of [] \<Rightarrow> Inl Msg_fmt | ar # ts1 \<Rightarrow> build_tokens m ts1 b)
      else build_tokens m ts (b\<lparr>eb_operands := Text tok # eb_operands b\<rparr>))"

text \<open>The constructor: the tree and the services.\<close>

definition exp_builder :: "hst_svc_mapping \<Rightarrow> string list \<Rightarrow> exn + bool_value \<times> bool_service list" where
  "exp_builder m ts =
     (case build_tokens m ts \<lparr>eb_operands = [], eb_services = []\<rparr> of
        Inl e \<Rightarrow> Inl e
      | Inr b \<Rightarrow>
          (case pop_operand b of
             Inl e \<Rightarrow> Inl e
           | Inr (n, b1) \<Rightarrow> if eb_operands b1 \<noteq> [] then Inl Msg_fmt else Inr (n, eb_services b1)))"

text \<open>What creates a boolean rule from its configuration: parser and builder.\<close>

definition create_rule :: "hst_svc_mapping \<Rightarrow> string \<Rightarrow> exn + bool_value \<times> bool_service list" where
  "create_rule m tx = (case get_postfix tx of Inl e \<Rightarrow> Inl e | Inr ts \<Rightarrow> exp_builder m ts)"

end
