(* ===== verification/Bam_Builder_Props.thy ===== *)
theory Bam_Builder_Props
  imports Bam_Builder
begin

section \<open>A boolean rule means what its text says\<close>

text \<open>
  Lemmas on \<^verbatim>\<open>Bam_Builder\<close>: whatever the text, a tree that is built is consistent and its services are the ones
  the caller registers in the service book. For the text of an expression, the tree has the shape of
  the expression, and after any sequence of messages its value is the value of the expression in the
  last states of the services.
\<close>

subsection \<open>Every tree that is built\<close>

text \<open>The ids of a service come from the mapping.\<close>

definition mapped_service :: "hst_svc_mapping \<Rightarrow> bool_service \<Rightarrow> bool" where
  "mapped_service m s \<longleftrightarrow>
     (\<exists>hst svc. hs_mapping m (hst, svc) = Some (service_ids s)) \<and> bs_host_id s \<noteq> 0 \<and> bs_service_id s \<noteq> 0 \<and>
     s = bool_service_new (bs_host_id s) (bs_service_id s)"

definition operand_services :: "any_operand \<Rightarrow> bool_service list" where
  "operand_services x = (case x of Node n \<Rightarrow> services n | Text s \<Rightarrow> [])"

definition operand_consistent :: "any_operand \<Rightarrow> bool" where
  "operand_consistent x = (case x of Node n \<Rightarrow> whole_rule n \<longrightarrow> rule_ok n | Text s \<Rightarrow> True)"

text \<open>The operands, from the bottom of the stack, hold all services in the order of their creation.\<close>

definition builder_ok :: "hst_svc_mapping \<Rightarrow> builder \<Rightarrow> bool" where
  "builder_ok m b \<longleftrightarrow>
     concat (map operand_services (rev (eb_operands b))) = eb_services b \<and> list_all (mapped_service m) (eb_services b) \<and>
     list_all operand_consistent (eb_operands b)"

lemma services_binary_new [simp]: "services (binary_new op l r) = services l @ services r"
  by (simp add: binary_new_def)

lemma whole_rule_binary_new [simp]:
  "whole_rule (binary_new op l r) = (op \<noteq> Bool_operation Division \<and> whole_rule l \<and> whole_rule r)"
  by (simp add: binary_new_def)

lemma pop_operand_services:
  "pop_operand b = Inr (n, b') \<Longrightarrow>
     eb_services b' = eb_services b \<and>
     (\<exists>x. eb_operands b = x # eb_operands b' \<and> operand_services x = services n \<and>
        (operand_consistent x \<longrightarrow> whole_rule n \<longrightarrow> rule_ok n))"
  by (auto simp: operand_services_def operand_consistent_def split: list.splits any_operand.splits sum.splits)

lemma pop_string_services:
  "pop_string b = Inr (s, b') \<Longrightarrow>
     eb_services b' = eb_services b \<and> (\<exists>x. eb_operands b = x # eb_operands b' \<and> operand_services x = [])"
  by (auto simp: operand_services_def split: list.splits any_operand.splits if_splits)

lemmas pop_services = pop_operand_services pop_string_services

lemma pop_strings_ok: "pop_strings k b = Inr b' \<Longrightarrow> builder_ok m b \<Longrightarrow> builder_ok m b'"
proof (induction k arbitrary: b)
  case (Suc k)
  then obtain s b1 where "pop_string b = Inr (s, b1)" "pop_strings k b1 = Inr b'"
    by (auto simp del: pop_string.simps split: sum.splits)
  with Suc pop_string_services [of b s b1] show ?case by (auto simp: builder_ok_def)
qed simp

lemma build_operator_ok: "build_operator tok b = Inr b' \<Longrightarrow> builder_ok m b \<Longrightarrow> builder_ok m b'"
  unfolding build_operator_def
  by (auto simp: builder_ok_def operand_services_def operand_consistent_def [of "Node _"] binary_new_ok simp del: pop_operand.simps dest!: pop_operand_services
      split: if_splits sum.splits prod.splits option.splits)

lemma build_service_ok:
  assumes "build_service m b = Inr b'" "builder_ok m b"
  shows "builder_ok m b'"
proof -
  obtain svc b1 hst b2 where p: "pop_string b = Inr (svc, b1)" "pop_string b1 = Inr (hst, b2)"
    and ids: "fst (get_service_id m hst svc) \<noteq> 0" "snd (get_service_id m hst svc) \<noteq> 0"
    and b': "b' = (let obj = bool_service_new (fst (get_service_id m hst svc)) (snd (get_service_id m hst svc))
      in b2\<lparr>eb_operands := Node (Service obj) # eb_operands b2, eb_services := eb_services b2 @ [obj]\<rparr>)"
    using assms(1) unfolding build_service_def
    by (auto simp del: pop_string.simps simp: Let_def split: sum.splits prod.splits if_splits)
  have "mapped_service m (bool_service_new (fst (get_service_id m hst svc)) (snd (get_service_id m hst svc)))"
    using ids by (auto simp: mapped_service_def bool_service_new_def service_ids_def get_service_id_def split: option.splits)
  moreover have "builder_ok m b2" using assms(2) pop_string_services [OF p(1)] pop_string_services [OF p(2)]
    by (auto simp: builder_ok_def)
  ultimately show ?thesis by (simp add: b' Let_def builder_ok_def operand_services_def operand_consistent_def [of "Node _"])
qed

lemma build_static_ok: "build_static m func ar b = Inr b' \<Longrightarrow> builder_ok m b \<Longrightarrow> builder_ok m b'"
  unfolding build_static_def
  by (auto simp del: pop_strings.simps intro: pop_strings_ok build_service_ok split: if_splits)

lemma push_text_ok: "builder_ok m b \<Longrightarrow> builder_ok m (b\<lparr>eb_operands := Text tok # eb_operands b\<rparr>)"
  by (simp add: builder_ok_def operand_services_def operand_consistent_def [of "Text _"])

lemma build_tokens_ok: "build_tokens m ts b = Inr b' \<Longrightarrow> builder_ok m b \<Longrightarrow> builder_ok m b'"
proof (induction m ts b rule: build_tokens.induct)
  case (2 m tok ts b)
  consider (op) "is_operator tok" | (static) "\<not> is_operator tok" "is_static_function tok"
    | (fn) "\<not> is_operator tok" "\<not> is_static_function tok" "is_function tok"
    | (word) "\<not> is_operator tok" "\<not> is_static_function tok" "\<not> is_function tok" by blast
  then show ?case
  proof cases
    case op
    then obtain b1 where "build_operator tok b = Inr b1" "build_tokens m ts b1 = Inr b'"
      using "2.prems"(1) by (simp split: sum.splits)
    with op show ?thesis using "2.IH"(1) build_operator_ok "2.prems"(2) by blast
  next
    case static
    then obtain ar ts1 b1 where "ts = ar # ts1" "build_static m tok (int_of_long (strtol_any ar)) b = Inr b1"
        "build_tokens m ts1 b1 = Inr b'"
      using "2.prems"(1) by (simp split: sum.splits list.splits)
    with static show ?thesis using "2.IH"(2) build_static_ok "2.prems"(2) by blast
  next
    case fn
    then obtain ar ts1 where "ts = ar # ts1" "build_tokens m ts1 b = Inr b'"
      using "2.prems"(1) by (simp split: list.splits)
    with fn show ?thesis using "2.IH"(3) "2.prems"(2) by blast
  next
    case word
    then show ?thesis using "2.IH"(4) "2.prems" push_text_ok by simp
  qed
qed simp

lemma exp_builder_ok:
  assumes "exp_builder m ts = Inr (n, ss)"
  shows "services n = ss \<and> list_all (mapped_service m) ss \<and> (whole_rule n \<longrightarrow> rule_ok n)"
proof -
  obtain b b1 where b: "build_tokens m ts \<lparr>eb_operands = [], eb_services = []\<rparr> = Inr b"
    "pop_operand b = Inr (n, b1)" "eb_operands b1 = []" "eb_services b1 = ss"
    using assms unfolding exp_builder_def by (auto simp del: pop_operand.simps split: sum.splits prod.splits if_splits)
  have "builder_ok m b" by (rule build_tokens_ok [OF b(1)]) (simp add: builder_ok_def)
  then show ?thesis using pop_operand_services [OF b(2)] b(3,4) by (auto simp: builder_ok_def)
qed

subsection \<open>The tree of an expression\<close>

text \<open>
  The expressions whose meaning is given below: whole numbers and names of states, the states of known
  services, the negation and the binary operators but the division. The unary minus and the other
  functions are parsed, but the builder ignores them.
\<close>

fun rule_exp :: "hst_svc_mapping \<Rightarrow> exp \<Rightarrow> bool" where
  "rule_exp m (Word w) = (case word_value w of Inl e \<Rightarrow> False | Inr v \<Rightarrow> v \<in> \<int>)"
| "rule_exp m (Call f ws) =
     (f = ''SERVICESTATUS'' \<and>
      (case ws of [hst, svc] \<Rightarrow> fst (get_service_id m hst svc) \<noteq> 0 \<and> snd (get_service_id m hst svc) \<noteq> 0 | _ \<Rightarrow> False))"
| "rule_exp m (Unary op e) = (op \<noteq> ''-'' \<and> rule_exp m e)"
| "rule_exp m (Binary op l r) = (op \<noteq> ''/'' \<and> rule_exp m l \<and> rule_exp m r)"

definition word_number :: "string \<Rightarrow> rat" where
  "word_number w = (case word_value w of Inl e \<Rightarrow> 0 | Inr v \<Rightarrow> v)"

definition operator_of :: "string \<Rightarrow> bool_op" where
  "operator_of op = (case binary_operator op of None \<Rightarrow> Bool_and | Some bop \<Rightarrow> bop)"

fun tree_of :: "hst_svc_mapping \<Rightarrow> exp \<Rightarrow> bool_value" where
  "tree_of m (Word w) = Constant (word_number w)"
| "tree_of m (Call f ws) =
     (let ids = get_service_id m (hd ws) (hd (tl ws)) in Service (bool_service_new (fst ids) (snd ids)))"
| "tree_of m (Unary op e) = Bool_not (tree_of m e)"
| "tree_of m (Binary op l r) = binary_new (operator_of op) (tree_of m l) (tree_of m r)"

text \<open>The value of an expression, given the value of the state of each service by its ids.\<close>

fun exp_value :: "hst_svc_mapping \<Rightarrow> (u32 \<times> u32 \<Rightarrow> rat option) \<Rightarrow> exp \<Rightarrow> rat option" where
  "exp_value m st (Word w) = Some (word_number w)"
| "exp_value m st (Call f ws) = st (get_service_id m (hd ws) (hd (tl ws)))"
| "exp_value m st (Unary op e) = map_option (\<lambda>v. of_bool (v = 0)) (exp_value m st e)"
| "exp_value m st (Binary op l r) = op_eval (operator_of op) (exp_value m st l) (exp_value m st r)"

text \<open>A word stays on the operand stack as it is; everything else is a node.\<close>

fun operand_of :: "hst_svc_mapping \<Rightarrow> exp \<Rightarrow> any_operand" where
  "operand_of m (Word w) = Text w"
| "operand_of m e = Node (tree_of m e)"

lemma binary_operator_some:
  "is_binary op \<Longrightarrow> \<exists>bop. binary_operator op = Some bop \<and> operator_of op = bop \<and> op \<noteq> ''-u'' \<and> op \<noteq> ''!'' \<and>
     (op \<noteq> ''/'' \<longrightarrow> bop \<noteq> Bool_operation Division)"
  by (auto simp: is_binary_def is_operator_def operator_of_def binary_operator_def)

lemma pop_operand_of:
  "rule_exp m e \<Longrightarrow> pop_operand \<lparr>eb_operands = operand_of m e # os, eb_services = ss\<rparr> = Inr (tree_of m e, \<lparr>eb_operands = os, eb_services = ss\<rparr>)"
  by (cases e) (auto simp: word_number_def split: sum.splits)

lemma word_not_function: "is_word w \<Longrightarrow> \<not> is_operator w \<and> \<not> is_static_function w \<and> \<not> is_function w \<and> w \<noteq> []"
  by (auto simp: is_word_def is_static_function_def is_function_def)

lemma arity_two [simp]: "int_of_long (strtol_any (dec 2)) = 2"
proof -
  have "dec 2 = ''2''" by code_simp
  moreover have "strtol_any ''2'' = 2" by code_simp
  ultimately show ?thesis by (simp add: int_of_long_def)
qed

lemma build_exp:
  assumes "wf_exp e" "rule_exp m e"
  shows "build_tokens m (postfix_tokens e @ ts) \<lparr>eb_operands = os, eb_services = ss\<rparr> =
    build_tokens m ts \<lparr>eb_operands = operand_of m e # os, eb_services = ss @ services (tree_of m e)\<rparr>"
  using assms
proof (induction e arbitrary: ts os ss)
  case (Word w)
  then show ?case using word_not_function [of w] by simp
next
  case (Call f ws)
  then obtain hst svc where ws: "ws = [hst, svc]" "f = ''SERVICESTATUS''"
    and ids: "fst (get_service_id m hst svc) \<noteq> 0" "snd (get_service_id m hst svc) \<noteq> 0"
    by (auto split: list.splits)
  have w: "is_word hst" "is_word svc" using Call.prems(1) ws by auto
  have "\<not> is_operator f" "is_static_function f" using ws by (simp_all add: is_operator_def is_static_function_def)
  then show ?case
    using word_not_function [OF w(1)] word_not_function [OF w(2)] ws ids
    by (simp add: build_static_def build_service_def Let_def numeral_2_eq_2 [symmetric])
next
  case (Unary op e)
  then have "unary_code op = ''!''" by (auto simp: unary_code_def)
  with Unary show ?case by (simp add: build_operator_def pop_operand_of del: pop_operand.simps)
next
  case (Binary op l r)
  then obtain bop where b: "is_operator op" "binary_operator op = Some bop" "operator_of op = bop" "op \<noteq> ''-u''" "op \<noteq> ''!''"
    using binary_operator_some [of op] by (auto simp: is_binary_def)
  with Binary show ?case by (simp add: build_operator_def pop_operand_of del: pop_operand.simps)
qed

lemma create_rule_written:
  assumes "wf_exp e" "rule_exp m e"
  shows "create_rule m (write_exp e) = Inr (tree_of m e, services (tree_of m e))"
  using build_exp [OF assms, of "[]" "[]" "[]"] assms
  by (simp add: create_rule_def get_postfix_written exp_builder_def pop_operand_of del: pop_operand.simps)

subsection \<open>Its value\<close>

lemma tree_of_whole: "wf_exp e \<Longrightarrow> rule_exp m e \<Longrightarrow> whole_rule (tree_of m e) \<and> rule_ok (tree_of m e)"
proof (induction e)
  case (Binary op l r)
  then show ?case using binary_operator_some [of op] by (auto simp: binary_new_ok)
qed (auto simp: word_number_def Let_def split: sum.splits)

definition service_value :: "bool_service \<Rightarrow> rat option" where
  "service_value s = (if bs_state_known s then Some (of_int (bs_state_hard s)) else None)"

lemma shape_cases:
  "shape n = Constant v \<Longrightarrow> n = Constant v"
  "shape n = Service s \<Longrightarrow> \<exists>s'. n = Service s'"
  "shape n = Bool_not k \<Longrightarrow> \<exists>k'. n = Bool_not k' \<and> shape k' = k"
  "shape n = Binary_op op l r c \<Longrightarrow> \<exists>l' r' c'. n = Binary_op op l' r' c' \<and> shape l' = l \<and> shape r' = r"
  by (cases n; auto)+

lemma length_services_shape: "length (services (shape n)) = length (services n)"
  by (induction n) simp_all

lemma services_shape: "shape m = shape n \<Longrightarrow> length (services m) = length (services n)"
  using length_services_shape by metis

lemma exp_value_tree:
  assumes "shape n = shape (tree_of m e)" "services n = map f (services (tree_of m e))"
  shows "rule_value n = exp_value m (\<lambda>ids. service_value (f (bool_service_new (fst ids) (snd ids)))) e"
  using assms
proof (induction e arbitrary: n)
  case (Word w)
  then show ?case by (auto dest!: shape_cases(1))
next
  case (Call g ws)
  then show ?case by (auto simp: Let_def service_value_def dest!: shape_cases(2))
next
  case (Unary op e)
  then show ?case by (auto dest!: shape_cases(3))
next
  case (Binary op l r)
  then obtain l' r' c where n: "n = Binary_op (operator_of op) l' r' c" "shape l' = shape (tree_of m l)" "shape r' = shape (tree_of m r)"
    by (auto simp: binary_new_def dest!: shape_cases(4))
  then have "services l' = map f (services (tree_of m l))" "services r' = map f (services (tree_of m r))"
    using Binary.prems(2) services_shape [OF n(2)] by (simp_all add: append_eq_append_conv)
  with Binary.IH n show ?case by simp
qed

lemma rule_follows_exp:
  fixes evs
  assumes "wf_exp e" "rule_exp m e"
  defines "n \<equiv> book_updates evs (tree_of m e)"
    and "v \<equiv> exp_value m (\<lambda>ids. service_value (service_updates evs (bool_service_new (fst ids) (snd ids)))) e"
  shows "state_known n = (v \<noteq> None)" "v \<noteq> None \<Longrightarrow> value_hard n = v" "v \<noteq> None \<Longrightarrow> boolean_value n = (v \<noteq> Some 0)"
proof -
  have "rule_value n = v"
    unfolding n_def v_def by (rule exp_value_tree) (simp_all add: book_updates_services)
  moreover have "agrees n"
    unfolding n_def using tree_of_whole [OF assms(1,2)] book_updates_ok rule_agrees by blast
  ultimately show "state_known n = (v \<noteq> None)" "v \<noteq> None \<Longrightarrow> value_hard n = v" "v \<noteq> None \<Longrightarrow> boolean_value n = (v \<noteq> Some 0)"
    by (auto simp: agrees_def operand_ok_def)
qed

end
