(* ===== verification/Bam_Kpi_Props.thy ===== *)
theory Bam_Kpi_Props
  imports Bam_Kpi Bam_Ba_Props Bam_Builder_Props
begin

section \<open>A business activity follows its KPIs\<close>

text \<open>
  Lemmas on \<^verbatim>\<open>Bam_Kpi\<close> and \<^verbatim>\<open>Bam_Ba\<close> together: what a BA relies on is a locale, that a KPI which does not notify has not
  changed and keeps its impacts exact; services and boolean rules satisfy it, but for the downtime of a rule. Inside the locale,
  the state of a BA is shown to be the one of its KPIs after any sequence of messages.
\<close>

subsection \<open>KPIs and their business activity\<close>

text \<open>A message for one KPI: the time, whether there is a visitor, the KPI and the message.\<close>

type_synonym 'm bam_message = "time \<times> bool \<times> nat \<times> 'm"

definition bam_step ::
  "(time option \<Rightarrow> 'm \<Rightarrow> 'k \<Rightarrow> 'k \<times> kpi_output list \<times> bool) \<Rightarrow> (time \<Rightarrow> 'k \<Rightarrow> kpi_view) \<Rightarrow> 'm bam_message \<Rightarrow>
   (nat \<Rightarrow> 'k) \<times> ba \<Rightarrow> exn + (nat \<Rightarrow> 'k) \<times> ba" where
  "bam_step upd view msg st =
     (let (now, visits, k, m) = msg; (kpis, b) = st;
          visitor = (if visits then Some now else None);
          (s, out, notify) = upd visitor m (kpis k);
          kpis1 = kpis(k := s)
      in if notify \<and> map_of (ba_impacts b) k \<noteq> None then
           (case ba_update_from (\<lambda>j. view now (kpis1 j)) visitor k b of
              Inl e \<Rightarrow> Inl e
            | Inr (b1, out1, notify1) \<Rightarrow> Inr (kpis1, b1))
         else Inr (kpis1, b))"

fun bam_run ::
  "(time option \<Rightarrow> 'm \<Rightarrow> 'k \<Rightarrow> 'k \<times> kpi_output list \<times> bool) \<Rightarrow> (time \<Rightarrow> 'k \<Rightarrow> kpi_view) \<Rightarrow> 'm bam_message list \<Rightarrow>
   (nat \<Rightarrow> 'k) \<times> ba \<Rightarrow> exn + (nat \<Rightarrow> 'k) \<times> ba" where
  "bam_run upd view [] st = Inr st"
| "bam_run upd view (m # ms) st = (case bam_step upd view m st of Inl e \<Rightarrow> Inl e | Inr st1 \<Rightarrow> bam_run upd view ms st1)"

text \<open>A BA with the impacts its KPIs have now.\<close>

definition live :: "(nat \<Rightarrow> kpi_view) \<Rightarrow> ba \<Rightarrow> ba" where
  "live kpis b = b\<lparr>ba_impacts := map (\<lambda>(k, i). (k, impact_of (kpis k))) (ba_impacts b)\<rparr>"

definition same_impact :: "bool \<Rightarrow> impact_info \<Rightarrow> impact_info \<Rightarrow> bool" where
  "same_impact downtime i j \<longleftrightarrow>
     ii_hard i = ii_hard j \<and> ii_soft i = ii_soft j \<and> (downtime \<longrightarrow> ii_in_downtime i = ii_in_downtime j)"

lemma same_impact_counted:
  assumes "list_all2 (same_impact downtime) is js" "d = Dt_ignore_kpi \<longrightarrow> downtime"
  shows "map (\<lambda>i. ii_hard i) (counted d is) = map (\<lambda>i. ii_hard i) (counted d js)"
  using assms by (induction rule: list_all2_induct) (auto simp: counted_def ignored_def same_impact_def)

lemma state_spec_live:
  assumes "list_all (\<lambda>(k, i). same_impact downtime i (impact_of (kpis k))) (ba_impacts b)" "ba_dt_behaviour b = Dt_ignore_kpi \<longrightarrow> downtime"
  shows "state_spec kpis b = state_spec kpis (live kpis b)"
proof -
  let ?d = "ba_dt_behaviour b" and ?is = "map snd (ba_impacts b)" and ?js = "map snd (ba_impacts (live kpis b))"
  have "list_all2 (same_impact downtime) ?is ?js"
    using assms(1) by (auto simp: live_def list_all2_conv_all_nth list_all_length case_prod_beta)
  then have m: "map (\<lambda>i. ii_hard i) (counted ?d ?is) = map (\<lambda>i. ii_hard i) (counted ?d ?js)"
    by (rule same_impact_counted) (rule assms(2))
  have f: "map (\<lambda>i. f (ii_hard i)) (counted ?d ?is) = map (\<lambda>i. f (ii_hard i)) (counted ?d ?js)" for f :: "impact_values \<Rightarrow> 'a"
    using arg_cong [OF m, of "map f"] by (simp add: comp_def)
  have h: "hard_states ?d ?is = hard_states ?d ?js" "points ?d ?is = points ?d ?js"
    unfolding hard_states_def points_def by (rule f, subst f, rule refl)
  have e: "every_kpi_in_dt kpis (live kpis b) = every_kpi_in_dt kpis b"
    by (auto simp: every_kpi_in_dt_def live_def list_all_iff case_prod_beta)
  show ?thesis
    using h e
    by (cases "ba_kind b")
      (simp_all add: state_spec_def Let_def criticals_def falling_state_def rising_state_def live_def)
qed

locale kpi_source =
  fixes upd :: "time option \<Rightarrow> 'm \<Rightarrow> 'k \<Rightarrow> 'k \<times> kpi_output list \<times> bool"
    and view :: "time \<Rightarrow> 'k \<Rightarrow> kpi_view"
    and inv :: "'k \<Rightarrow> bool"
    and tracks :: "'k \<Rightarrow> bool"
    and exact :: "'k \<Rightarrow> bool"
  assumes upd_inv: "inv s \<Longrightarrow> inv (fst (upd v m s))"
    and upd_tracks: "tracks (fst (upd v m s)) = tracks s"
    and upd_exact: "exact (fst (upd v m s)) = exact s"
    and view_exact: "exact s \<Longrightarrow> tame (impact_of (view t s))"
    and upd_silent: "inv s \<Longrightarrow> \<not> snd (snd (upd v m s)) \<Longrightarrow>
      same_impact (tracks s) (impact_of (view t s)) (impact_of (view t (fst (upd v m s))))"
    and view_time: "impact_of (view t s) = impact_of (view t' s)"
begin

definition synced :: "(nat \<Rightarrow> 'k) \<Rightarrow> ba \<Rightarrow> bool" where
  "synced kpis b \<longleftrightarrow>
     (\<forall>k. inv (kpis k)) \<and> ba_ok b \<and> (ba_kind b = Ba_impact \<longrightarrow> (\<forall>k. exact (kpis k))) \<and>
     list_all (\<lambda>(k, i). same_impact (tracks (kpis k)) i (impact_of (view 0 (kpis k)))) (ba_impacts b)"

lemma synced_step:
  assumes "synced kpis b"
  shows "\<exists>kpis' b'. bam_step upd view msg (kpis, b) = Inr (kpis', b') \<and> synced kpis' b' \<and>
    map fst (ba_impacts b') = map fst (ba_impacts b) \<and> ba_dt_behaviour b' = ba_dt_behaviour b \<and>
    (\<forall>k. tracks (kpis' k) = tracks (kpis k))"
proof -
  obtain now visits k m where msg: "msg = (now, visits, k, m)" using prod_cases4 by blast
  let ?v = "if visits then Some now else None"
  obtain s out notify where u: "upd ?v m (kpis k) = (s, out, notify)" using prod_cases3 by blast
  let ?kpis = "kpis(k := s)"
  have inv: "\<forall>j. inv (?kpis j)" "\<forall>j. tracks (?kpis j) = tracks (kpis j)" "\<forall>j. exact (?kpis j) = exact (kpis j)"
    using assms upd_inv [of "kpis k" ?v m] upd_tracks [of ?v m "kpis k"] upd_exact [of ?v m "kpis k"] u
    by (auto simp: synced_def)
  have ok: "ba_ok b" using assms by (simp add: synced_def)
  have i: "(j, i) \<in> set (ba_impacts b) \<Longrightarrow> same_impact (tracks (kpis j)) i (impact_of (view 0 (kpis j)))" for j i
    using assms by (auto simp: synced_def list_all_iff)
  show ?thesis
  proof (cases "notify \<and> map_of (ba_impacts b) k \<noteq> None")
    case True
    let ?views = "\<lambda>j. view now (?kpis j)"
    obtain b' out1 n1 where b': "ba_update_from ?views ?v k b = Inr (b', out1, n1)"
      using ba_update_from_total [of b k ?views ?v] True by auto
    have t: "ba_kind b = Ba_impact \<longrightarrow> tame (impact_of (?views k))"
      using assms spec [OF inv(3), of k] view_exact [of s now] by (simp add: synced_def)
    have im: "ba_impacts b' = set_impact k (impact_of (view now s)) (ba_impacts b)"
      using ba_update_from_ok(2) [OF ok t b'] by simp
    have "list_all (\<lambda>(j, i). same_impact (tracks (?kpis j)) i (impact_of (view 0 (?kpis j)))) (ba_impacts b')"
      using i inv(2) view_time [of 0 s now] by (auto simp: im set_impact_def list_all_iff same_impact_def split: if_splits)
    then have "synced ?kpis b'"
      using assms inv(1,3) ba_update_from_ok(1) [OF ok t b'] ba_update_from_dt [OF b'] by (simp add: synced_def)
    moreover have "ba_dt_behaviour b' = ba_dt_behaviour b" using ba_update_from_dt [OF b'] by simp
    ultimately show ?thesis using True b' u inv(2) im by (simp add: bam_step_def msg Let_def)
  next
    case False
    have "list_all (\<lambda>(j, i). same_impact (tracks (?kpis j)) i (impact_of (view 0 (?kpis j)))) (ba_impacts b)"
      unfolding list_all_iff
    proof safe
      fix j i assume ji: "(j, i) \<in> set (ba_impacts b)"
      have "same_impact (tracks (kpis k)) (impact_of (view 0 (kpis k))) (impact_of (view 0 s))" if "j = k"
        using upd_silent [of "kpis k" ?v m 0] u assms False ji that
        by (auto simp: synced_def map_of_eq_None_iff intro: rev_image_eqI)
      with i [OF ji] inv(2) show "same_impact (tracks (?kpis j)) i (impact_of (view 0 (?kpis j)))"
        by (auto simp: same_impact_def)
    qed
    then have "synced ?kpis b" using assms inv(1,3) ok by (simp add: synced_def)
    with False u inv(2) show ?thesis by (auto simp: bam_step_def msg Let_def)
  qed
qed

lemma synced_run:
  "synced kpis b \<Longrightarrow>
   \<exists>kpis' b'. bam_run upd view ms (kpis, b) = Inr (kpis', b') \<and> synced kpis' b' \<and>
     map fst (ba_impacts b') = map fst (ba_impacts b) \<and> ba_dt_behaviour b' = ba_dt_behaviour b \<and>
     (\<forall>k. tracks (kpis' k) = tracks (kpis k))"
proof (induction ms arbitrary: kpis b)
  case (Cons m ms)
  obtain kpis1 b1 where s: "bam_step upd view m (kpis, b) = Inr (kpis1, b1)" "synced kpis1 b1"
      "map fst (ba_impacts b1) = map fst (ba_impacts b)" "ba_dt_behaviour b1 = ba_dt_behaviour b"
      "\<forall>k. tracks (kpis1 k) = tracks (kpis k)"
    using synced_step [OF Cons.prems] by blast
  from Cons.IH [OF s(2)] s show ?case by simp
qed simp

lemma synced_state:
  assumes "synced kpis b" "ba_dt_behaviour b = Dt_ignore_kpi \<longrightarrow> list_all (\<lambda>(k, i). tracks (kpis k)) (ba_impacts b)"
  shows "get_state_hard (\<lambda>k. view now (kpis k)) b = state_spec (\<lambda>k. view now (kpis k)) (live (\<lambda>k. view now (kpis k)) b)"
proof -
  let ?views = "\<lambda>k. view now (kpis k)" and ?dt = "ba_dt_behaviour b = Dt_ignore_kpi"
  have "list_all (\<lambda>(k, i). same_impact ?dt i (impact_of (?views k))) (ba_impacts b)"
    using assms view_time [of now _ 0] by (auto simp: synced_def list_all_iff same_impact_def)
  from state_spec_live [OF this] have "state_spec ?views b = state_spec ?views (live ?views b)" by simp
  then show ?thesis using ba_ok_state [of b ?views] assms(1) by (simp add: synced_def)
qed

lemma synced_add:
  assumes "synced kpis b" "k < max_kpis"
  shows "synced kpis (add_impact k (view now (kpis k)) b)"
proof -
  have "ba_ok (add_impact k (view now (kpis k)) b)"
    using assms view_exact by (intro ba_ok_add) (simp_all add: synced_def)
  with assms view_time [of now "kpis k" 0] show ?thesis
    by (auto simp: synced_def add_impact_def same_impact_def split: option.splits)
qed

end

subsection \<open>Services\<close>

text \<open>A service that has a downtime is in downtime.\<close>

definition sv_ok :: "kpi_service \<Rightarrow> bool" where
  "sv_ok s \<longleftrightarrow> (sv_downtime_ids s \<noteq> {} \<longrightarrow> sv_downtimed s)"

lemma sv_view_simps:
  "impact_of (sv_view t s) = \<lparr>ii_hard = sv_fill_impact s (sv_state_hard s), ii_soft = sv_fill_impact s (sv_state_soft s), ii_in_downtime = sv_downtimed s\<rparr>"
  by (simp add: impact_of_def sv_view_def)

text \<open>What a BA sees of a service.\<close>

definition sv_core :: "kpi_service \<Rightarrow> bool \<times> bool \<times> rat \<times> rat \<times> rat \<times> bam_state \<times> bam_state" where
  "sv_core s = (sv_acknowledged s, sv_downtimed s, sv_impact_warning s, sv_impact_critical s,
     sv_impact_unknown s, sv_state_hard s, sv_state_soft s)"

lemma sv_core_impact: "sv_core s = sv_core s' \<Longrightarrow> impact_of (sv_view t s) = impact_of (sv_view t' s')"
proof -
  assume c: "sv_core s = sv_core s'"
  then have "sv_impact s st = sv_impact s' st" for st by (cases st) (simp_all add: sv_core_def)
  with c show ?thesis by (simp add: sv_view_simps sv_fill_impact_def sv_core_def Let_def)
qed

lemma sv_visit_core: "sv_core (fst (sv_visit_opt v s)) = sv_core s" "sv_downtime_ids (fst (sv_visit_opt v s)) = sv_downtime_ids s"
  by (auto simp: sv_visit_opt_def sv_visit_def sv_open_new_event_def sv_core_def Let_def case_prod_beta split: option.splits)

lemma visited_core:
  "sv_core (fst (visited v p)) = sv_core (fst p)" "sv_downtime_ids (fst (visited v p)) = sv_downtime_ids (fst p)"
  "snd (snd (visited v p)) = snd p"
  using sv_visit_core [of v "fst p"] by (simp_all add: visited_def case_prod_beta)

lemma sv_downtime_check_core:
  "sv_core (sv_downtime_check d s) = sv_core s" "sv_downtime_ids (sv_downtime_check d s) = sv_downtime_ids s"
  by (simp_all add: sv_downtime_check_def sv_core_def)

lemma sv_update_silent:
  assumes "sv_ok s" "\<not> snd (snd (sv_update v m s))"
  shows "impact_of (sv_view t (fst (sv_update v m s))) = impact_of (sv_view t s)"
proof (cases m)
  case (Restored_state lc hard soft ty ack)
  with assms(2) show ?thesis by (intro sv_core_impact) (simp add: sv_core_def Let_def)
next
  case (Service_status lc fb hard soft ty)
  with assms(2) show ?thesis
    by (intro sv_core_impact) (simp add: visited_core sv_status_def, simp add: sv_core_def Let_def)
next
  case (Acknowledgement deletion)
  with assms(2) show ?thesis
    by (intro sv_core_impact) (simp add: visited_core sv_acknowledge_def, simp add: sv_core_def)
next
  case (Downtime_message d)
  with assms(2) show ?thesis
    by (intro sv_core_impact, cases "sv_downtime d s") (simp_all add: visited_core sv_downtime_def Let_def split: if_splits,
      auto simp: sv_downtime_check_core, auto simp: sv_core_def)
next
  case (Pb_downtime_message d)
  with assms show ?thesis
    by (intro sv_core_impact) (simp add: sv_pb_downtime_def Let_def split: if_splits,
      auto simp: visited_core sv_downtime_check_core sv_ok_def, auto simp: sv_core_def)
qed

lemma sv_ok_core: "sv_ok s \<Longrightarrow> sv_downtimed s' = sv_downtimed s \<Longrightarrow> sv_downtime_ids s' = sv_downtime_ids s \<Longrightarrow> sv_ok s'"
  by (simp add: sv_ok_def)

lemma sv_ok_visited: "sv_ok (fst p) \<Longrightarrow> sv_ok (fst (visited v p))"
  using visited_core [of v p] by (simp add: sv_ok_def sv_core_def)

lemma sv_ok_check: "sv_ok (sv_downtime_check d s) = sv_ok s"
  by (simp add: sv_downtime_check_def sv_ok_def)

lemma sv_update_ok:
  assumes "sv_ok s"
  shows "sv_ok (fst (sv_update v m s))"
proof (cases m)
  case (Restored_state lc hard soft ty ack)
  with assms show ?thesis by (simp add: sv_ok_def Let_def)
next
  case (Service_status lc fb hard soft ty)
  have "sv_ok (fst (sv_status lc fb hard soft ty s))" using assms by (simp add: sv_status_def Let_def sv_ok_def)
  with Service_status show ?thesis by (simp add: sv_ok_visited)
next
  case (Acknowledgement deletion)
  have "sv_ok (fst (sv_acknowledge deletion s))" using assms by (simp add: sv_acknowledge_def sv_ok_def)
  with Acknowledgement show ?thesis by (simp add: sv_ok_visited)
next
  case (Downtime_message d)
  have "sv_ok (fst p)" if "sv_downtime d s = Some p" for p
    using that by (auto simp: sv_downtime_def Let_def sv_ok_check split: if_splits) (auto simp: sv_ok_def)
  with assms Downtime_message show ?thesis by (auto intro!: sv_ok_visited split: option.splits)
next
  case (Pb_downtime_message d)
  have "sv_ok (fst (sv_pb_downtime d s))"
    using assms by (auto simp: sv_pb_downtime_def Let_def sv_ok_check) (auto simp: sv_ok_def)
  with Pb_downtime_message show ?thesis by (auto intro!: sv_ok_visited simp: case_prod_beta Let_def)
qed

definition sv_exact :: "kpi_service \<Rightarrow> bool" where
  "sv_exact s \<longleftrightarrow> tame_number (sv_impact_warning s) \<and> tame_number (sv_impact_critical s) \<and> tame_number (sv_impact_unknown s)"

lemma sv_update_impacts: "sv_exact (fst (sv_update v m s)) = sv_exact s"
proof -
  have c: "sv_core s = sv_core s' \<Longrightarrow> sv_exact s = sv_exact s'" for s s' by (simp add: sv_core_def sv_exact_def)
  have v: "sv_exact (fst (visited v p)) = sv_exact (fst p)" for v p by (rule c) (rule visited_core)
  have d: "sv_exact (sv_downtime_check d s) = sv_exact s" for d s by (rule c) (rule sv_downtime_check_core)
  show ?thesis
    by (cases m) (auto simp: v d Let_def case_prod_beta sv_status_def sv_acknowledge_def sv_downtime_def sv_pb_downtime_def
        split: option.splits if_splits, auto simp: sv_exact_def v d)
qed

lemma sv_impact_exact: "sv_exact s \<Longrightarrow> tame (impact_of (sv_view t s))"
  by (cases "sv_state_hard s") (simp_all add: sv_view_simps sv_fill_impact_def tame_def sv_exact_def Let_def, simp add: tame_number_def)

interpretation services: kpi_source sv_update sv_view sv_ok "\<lambda>s. True" sv_exact
proof
  show "impact_of (sv_view t s) = impact_of (sv_view t' s)" for t t' s by (rule sv_core_impact) simp
qed (simp_all add: sv_update_ok sv_update_silent same_impact_def sv_update_impacts sv_impact_exact)

subsection \<open>Boolean rules\<close>

text \<open>The state of the KPI is the one of its rule, as long as the rule is known.\<close>

definition kb_ok :: "kpi_boolexp \<Rightarrow> bool" where
  "kb_ok s \<longleftrightarrow> (state_known (bx_expression (kb_boolexp s)) \<longrightarrow> kb_current_state s = bx_get_state (kb_boolexp s))"

lemma kb_visit_fields:
  "kb_current_state (fst (kb_visit_opt v s)) = kb_current_state s" "kb_boolexp (fst (kb_visit_opt v s)) = kb_boolexp s"
  "kb_impact (fst (kb_visit_opt v s)) = kb_impact s"
  by (auto simp: kb_visit_opt_def kb_visit_def Let_def split: option.splits)

lemma kb_update_cases:
  fixes v m s
  defines "n \<equiv> update_service (fst m) (snd m) (bx_expression (kb_boolexp s))"
  defines "s1 \<equiv> s\<lparr>kb_boolexp := (kb_boolexp s)\<lparr>bx_expression := fst n\<rparr>\<rparr>"
  shows "kb_update v m s = (if snd n then kb_update_from v s1 else (s1, [], False))"
  unfolding kb_update_def n_def s1_def by (simp add: Let_def case_prod_beta)

lemma kb_update_from_ok: "kb_ok (fst (kb_update_from v s))"
  by (simp add: kb_update_from_def case_prod_beta kb_ok_def kb_visit_fields) (simp add: kb_update_state_def)

lemma kb_update_ok:
  assumes "kb_ok s"
  shows "kb_ok (fst (kb_update v m s))"
proof -
  let ?n = "update_service (fst m) (snd m) (bx_expression (kb_boolexp s))"
  have "same_view (bx_expression (kb_boolexp s)) (fst ?n)" if "\<not> snd ?n"
    by (rule update_service_silent [of "fst m" "snd m"]) (use that in \<open>simp add: prod_eq_iff\<close>)
  with assms show ?thesis
    by (auto simp: kb_update_cases kb_update_from_ok) (simp add: kb_ok_def same_view_def bx_get_state_def)
qed

lemma kb_update_silent:
  assumes "\<not> snd (snd (kb_update v m s))"
  shows "kb_current_state (fst (kb_update v m s)) = kb_current_state s \<and> kb_impact (fst (kb_update v m s)) = kb_impact s"
  using assms
  by (auto simp: kb_update_cases kb_update_from_def case_prod_beta kb_visit_fields split: if_splits)
    (simp_all add: kb_update_state_def)

lemma kb_view_simps:
  "impact_of (kb_view t s) = \<lparr>ii_hard = kb_fill_impact s, ii_soft = kb_fill_impact s, ii_in_downtime = in_downtime (bx_expression (kb_boolexp s))\<rparr>"
  by (simp add: impact_of_def kb_view_def)

definition kb_exact :: "kpi_boolexp \<Rightarrow> bool" where
  "kb_exact s \<longleftrightarrow> tame_number (kb_impact s)"

lemma kb_update_impact: "kb_impact (fst (kb_update v m s)) = kb_impact s"
  by (auto simp: kb_update_cases kb_update_from_def case_prod_beta kb_visit_fields) (simp add: kb_update_state_def)

interpretation rules: kpi_source kb_update kb_view kb_ok "\<lambda>s. False" kb_exact
proof
  show "impact_of (kb_view t s) = impact_of (kb_view t' s)" for t t' s by (simp add: kb_view_simps)
  show "same_impact False (impact_of (kb_view t s)) (impact_of (kb_view t (fst (kb_update v m s))))"
    if "\<not> snd (snd (kb_update v m s))" for v m s t
    using kb_update_silent [OF that] by (simp add: same_impact_def kb_view_simps kb_fill_impact_def)
  show "tame (impact_of (kb_view t s))" if "kb_exact s" for t s
    using that by (simp add: kb_view_simps kb_fill_impact_def tame_def kb_exact_def) (simp add: tame_number_def)
qed (simp_all add: kb_update_ok kb_exact_def kb_update_impact)

subsection \<open>Services and rules of one business activity\<close>

datatype kpi = Kpi_service kpi_service | Kpi_boolexp kpi_boolexp

text \<open>A KPI is only given the messages of its own kind.\<close>

fun kpi_update :: "time option \<Rightarrow> kpi_message + nat \<times> service_event \<Rightarrow> kpi \<Rightarrow> kpi \<times> kpi_output list \<times> bool" where
  "kpi_update v (Inl m) (Kpi_service s) = (let (s1, out, notify) = sv_update v m s in (Kpi_service s1, out, notify))"
| "kpi_update v (Inr m) (Kpi_boolexp s) = (let (s1, out, notify) = kb_update v m s in (Kpi_boolexp s1, out, notify))"
| "kpi_update v m s = (s, [], False)"

fun view_of :: "time \<Rightarrow> kpi \<Rightarrow> kpi_view" where
  "view_of now (Kpi_service s) = sv_view now s"
| "view_of now (Kpi_boolexp s) = kb_view now s"

fun kpi_ok :: "kpi \<Rightarrow> bool" where
  "kpi_ok (Kpi_service s) = sv_ok s"
| "kpi_ok (Kpi_boolexp s) = kb_ok s"

fun is_service :: "kpi \<Rightarrow> bool" where
  "is_service (Kpi_service s) = True"
| "is_service (Kpi_boolexp s) = False"

fun kpi_exact :: "kpi \<Rightarrow> bool" where
  "kpi_exact (Kpi_service s) = sv_exact s"
| "kpi_exact (Kpi_boolexp s) = kb_exact s"

interpretation kpis: kpi_source kpi_update view_of kpi_ok is_service kpi_exact
proof
  fix v t t' :: time and m s
  show "impact_of (view_of t s) = impact_of (view_of t' s)"
    by (cases s) (auto intro: services.view_time rules.view_time)
  show "kpi_exact s \<Longrightarrow> tame (impact_of (view_of t s))"
    by (cases s) (simp_all add: services.view_exact rules.view_exact)
next
  fix v m and s :: kpi
  show "is_service (fst (kpi_update v m s)) = is_service s"
    by (cases "(v, m, s)" rule: kpi_update.cases) (simp_all add: case_prod_beta)
  show "kpi_exact (fst (kpi_update v m s)) = kpi_exact s"
    by (cases "(v, m, s)" rule: kpi_update.cases) (simp_all add: case_prod_beta services.upd_exact rules.upd_exact)
  assume ok: "kpi_ok s"
  then show "kpi_ok (fst (kpi_update v m s))"
    by (cases "(v, m, s)" rule: kpi_update.cases) (simp_all add: case_prod_beta services.upd_inv rules.upd_inv)
  fix t
  assume "\<not> snd (snd (kpi_update v m s))"
  with ok show "same_impact (is_service s) (impact_of (view_of t s)) (impact_of (view_of t (fst (kpi_update v m s))))"
    by (cases "(v, m, s)" rule: kpi_update.cases)
      (simp_all add: case_prod_beta services.upd_silent rules.upd_silent, simp_all add: same_impact_def)
qed

end
