(* ===== verification/Bam_Props.thy ===== *)
theory Bam_Props
  imports Bam_Kpi_Props
begin

section \<open>Business activity monitoring: results\<close>

text \<open>
  The properties of the boolean rules, the KPIs and the business activities, with their witnesses.
\<close>

subsection \<open>Configurations\<close>

text \<open>A BA with its settings, as \<open>applier::ba::_new_ba\<close> makes it.\<close>

definition ba_configured :: "ba_kind \<Rightarrow> bool \<Rightarrow> rat \<Rightarrow> rat \<Rightarrow> downtime_behaviour \<Rightarrow> ba" where
  "ba_configured k virtual warning critical d =
     (ba_new k virtual)\<lparr>ba_level_warning := warning, ba_level_critical := critical, ba_dt_behaviour := d\<rparr>"

definition ba_settings :: "ba \<Rightarrow> ba_kind \<times> bool \<times> rat \<times> rat \<times> downtime_behaviour \<times> bool" where
  "ba_settings b = (ba_kind b, ba_generate_virtual_status b, ba_level_warning b, ba_level_critical b, ba_dt_behaviour b, ba_valid b)"

lemma ba_configured_ok: "ba_ok (ba_configured k virtual warning critical d)"
  using kind_summary.start_means [of k d] by (simp add: ba_ok_def ba_configured_def ba_new_def)

lemma ba_configured_events:
  "event_ok (ba_configured k virtual warning critical d)" "open_end (ba_configured k virtual warning critical d)"
  "ba_event (ba_configured k virtual warning critical d) = None" "ba_impacts (ba_configured k virtual warning critical d) = []"
  "ba_kind (ba_configured k virtual warning critical d) = k"
  by (simp_all add: event_ok_def open_end_def ba_configured_def ba_new_def)

lemma visit_settings: "visit_opt kpis visitor b = (b', out) \<Longrightarrow> ba_settings b' = ba_settings b"
  by (auto simp: visit_opt_def visit_def Let_def open_new_event_def ba_settings_def split: option.splits if_splits)

lemma changes_settings: "apply_changes k i b = Inr (b', ch) \<Longrightarrow> ba_settings b' = ba_settings b"
  by (auto simp: apply_changes_eq unapply_impact_eq Let_def ba_settings_def split: if_splits option.splits)

lemma inherited_settings: "compute_inherited_downtime kpis visitor b = (b', out) \<Longrightarrow> ba_settings b' = ba_settings b"
  by (auto simp: compute_inherited_downtime_def Let_def ba_settings_def split: if_splits)

lemma note_settings: "ba_settings (note_kpi_update v b) = ba_settings b"
  by (simp add: note_kpi_update_def ba_settings_def)

lemma update_settings: "ba_update_from kpis visitor k b = Inr (b', out, notify) \<Longrightarrow> ba_settings b' = ba_settings b"
  by (auto simp: ba_update_from_def Let_def note_settings dest!: changes_settings inherited_settings visit_settings
      split: sum.splits prod.splits)

lemma add_settings: "ba_settings (add_impact k v b) = ba_settings b"
  by (simp add: add_impact_def note_settings split: option.splits) (simp add: ba_settings_def)

lemma remove_settings: "ba_settings (remove_impact k b) = ba_settings b"
  by (simp add: remove_impact_def unapply_impact_eq Let_def ba_settings_def split: option.splits)

lemma step_settings:
  assumes "ba_step s b = Inr (b', out)"
  shows "ba_settings b' = ba_settings b"
proof -
  obtain kpis visitor i where s: "s = (kpis, visitor, i)" using prod_cases3 by blast
  show ?thesis
  proof (cases i)
    case (Downtime started "end")
    let ?r = "service_downtime kpis visitor started end b"
    have "b' = fst ?r" using assms s Downtime by (simp add: case_prod_beta)
    with service_downtime_cases [of kpis visitor started "end" b]
    have "b' = b \<or> (\<exists>out d. visit_opt kpis visitor (b\<lparr>ba_in_downtime := d\<rparr>) = (b', out))" by metis
    then show ?thesis by (auto dest!: visit_settings simp: ba_settings_def)
  qed (use assms s in \<open>auto simp: add_settings remove_settings update_settings split: sum.splits\<close>)
qed

lemma run_settings: "ba_run ss b = Inr (b', out) \<Longrightarrow> ba_settings b' = ba_settings b"
proof (induction ss arbitrary: b out)
  case (Cons s ss)
  then obtain b1 o1 o2 where r: "ba_step s b = Inr (b1, o1)" "ba_run ss b1 = Inr (b', o2)"
    by (auto split: sum.splits prod.splits)
  then show ?case using Cons.IH step_settings by metis
qed simp

subsection \<open>Boolean rules\<close>

text \<open>The last state of a service, by its ids, after a sequence of messages: unknown, or its hard state.\<close>

definition last_state :: "((u32 \<times> u32) \<times> service_event) list \<Rightarrow> u32 \<times> u32 \<Rightarrow> rat option" where
  "last_state evs ids = service_value (service_updates evs (bool_service_new (fst ids) (snd ids)))"

text \<open>
  C11. A boolean rule means what its text says. The text written for an expression over whole numbers,
  names of states, states of known services, the negation and the binary operators other than the
  division is accepted by tokenizer, parser and builder. After any sequence of messages about
  services, the tree - whose operators cache the values of their operands and stop the propagation
  of a change that they do not notice - has the value of the expression in the last states of the
  services: it is known exactly if the expression is determined, where an unknown operand does not
  matter when the other one decides a conjunction or disjunction, and then has its number and its
  truth value.
\<close>

theorem boolean_rule_value:
  assumes "wf_exp e" "rule_exp m e"
  shows "\<exists>n. create_rule m (write_exp e) = Inr (n, services n) \<and>
    (\<forall>evs. let v = exp_value m (last_state evs) e; r = book_updates evs n in
       state_known r = (v \<noteq> None) \<and> (v \<noteq> None \<longrightarrow> value_hard r = v \<and> boolean_value r = (v \<noteq> Some 0)))"
proof (intro exI conjI allI)
  show "create_rule m (write_exp e) = Inr (tree_of m e, services (tree_of m e))"
    by (rule create_rule_written [OF assms])
  fix evs
  have "last_state evs = (\<lambda>ids. service_value (service_updates evs (bool_service_new (fst ids) (snd ids))))"
    by (simp add: last_state_def fun_eq_iff)
  then show "let v = exp_value m (last_state evs) e; r = book_updates evs (tree_of m e) in
      state_known r = (v \<noteq> None) \<and> (v \<noteq> None \<longrightarrow> value_hard r = v \<and> boolean_value r = (v \<noteq> Some 0))"
    using rule_follows_exp [OF assms, of evs] by (simp add: Let_def)
qed

text \<open>A mapping with one service, and a rule that asks whether it is in an OK state.\<close>

definition demo_mapping :: hst_svc_mapping where
  "demo_mapping = set_service ''h'' ''s'' 1 2 True \<lparr>hs_mapping = Map.empty, hs_activated = Map.empty\<rparr>"

definition demo_rule :: exp where
  "demo_rule = Binary ''IS'' (Call ''SERVICESTATUS'' [''h'', ''s'']) (Word ''OK'')"

lemma demo_rule_ok: "wf_exp demo_rule" "rule_exp demo_mapping demo_rule"
  by (simp_all add: demo_rule_def demo_mapping_def set_service_def is_binary_def is_operator_def is_function_def is_word_def
      word_value_def get_service_id_def)

lemma demo_rule_value:
  "exp_value demo_mapping (last_state [((1, 2), Status 0 False)]) demo_rule = Some 1"
  "exp_value demo_mapping (last_state []) demo_rule = None"
  by (simp_all add: demo_rule_def demo_mapping_def set_service_def get_service_id_def last_state_def service_updates_def
      bool_service_new_def service_ids_def service_value_def operator_of_def binary_operator_def op_eval_def word_number_def
      word_value_def)

theorem boolean_rule_value_witness:
  "\<exists>n. create_rule demo_mapping (write_exp demo_rule) = Inr (n, services n) \<and>
     state_known (book_updates [((1, 2), Status 0 False)] n) \<and> value_hard (book_updates [((1, 2), Status 0 False)] n) = Some 1 \<and>
     boolean_value (book_updates [((1, 2), Status 0 False)] n)"
proof -
  obtain n where "create_rule demo_mapping (write_exp demo_rule) = Inr (n, services n)"
    and "\<forall>evs. let v = exp_value demo_mapping (last_state evs) demo_rule; r = book_updates evs n in
       state_known r = (v \<noteq> None) \<and> (v \<noteq> None \<longrightarrow> value_hard r = v \<and> boolean_value r = (v \<noteq> Some 0))"
    using boolean_rule_value [OF demo_rule_ok] by blast
  then show ?thesis
    by (metis (no_types, lifting) demo_rule_value(1) option.distinct(1) option.inject zero_neq_one)
qed

text \<open>
  C21. Whatever the text of a boolean rule, a tree that is built is well formed: the services of the
  tree from left to right are the ones that are registered in the service book, in this order, each
  with non-zero ids that the mapping knows and an unknown state; and if the tree is over whole
  numbers and does not divide, its caches agree with its services after any sequence of messages.
\<close>

theorem boolean_rule_wellformed:
  assumes "create_rule m tx = Inr (n, ss)"
  shows "services n = ss \<and> list_all (mapped_service m) ss \<and>
    (whole_rule n \<longrightarrow>
       (\<forall>evs. let r = book_updates evs n in
          services r = map (service_updates evs) ss \<and> state_known r = (rule_value r \<noteq> None) \<and>
          (state_known r \<longrightarrow> value_hard r = rule_value r)))"
proof -
  obtain ts where "exp_builder m ts = Inr (n, ss)"
    using assms by (auto simp: create_rule_def split: sum.splits)
  note ok = exp_builder_ok [OF this]
  have "agrees (book_updates evs n)" if "whole_rule n" for evs
    using ok that book_updates_ok [of n evs] rule_agrees by blast
  with ok show ?thesis by (auto simp: Let_def book_updates_services agrees_def)
qed

theorem boolean_rule_wellformed_witness:
  "\<exists>n ss. create_rule demo_mapping (write_exp demo_rule) = Inr (n, ss) \<and> services n = ss \<and>
     list_all (mapped_service demo_mapping) ss"
  using boolean_rule_wellformed [of demo_mapping "write_exp demo_rule"] create_rule_written [OF demo_rule_ok] by blast

subsection \<open>Business activities\<close>

text \<open>The view of a KPI without acknowledgement and downtime impact, for the examples.\<close>

definition plain_impact :: "bam_state \<Rightarrow> rat \<Rightarrow> impact_values" where
  "plain_impact st nominal = \<lparr>iv_acknowledgement = 0, iv_downtime = 0, iv_nominal = nominal, iv_state = st\<rparr>"

definition plain_view :: "bam_state \<Rightarrow> rat \<Rightarrow> bool \<Rightarrow> kpi_view" where
  "plain_view st nominal downtime =
     \<lparr>kv_hard = plain_impact st nominal, kv_soft = plain_impact st nominal, kv_in_downtime = downtime,
      kv_ok_state = (st = State_ok), kv_last_state_change = 1000\<rparr>"

text \<open>
  C12. The state of a business activity is the one of its KPIs. From a new BA of any of the five kinds,
  whatever sequence of KPIs is added, removed and changed, with downtimes of its own in between, the
  run succeeds as long as only KPIs that have been added notify; the impacts are the last ones of the
  KPIs, one for each; the settings are kept; and the hard state is the one computed from scratch: the
  worst or the best state of the KPIs that count, or the comparison with the thresholds of the points
  left, of the number of critical KPIs, or of their percentage as doubles give it - although a BA of kind
  impact adds and subtracts one impact at a time and recomputes only every hundredth time. There are
  fewer than \<open>2 ^ 20\<close> KPIs, and the nominal impacts on a BA of kind impact are multiples of \<open>1 / 1024\<close> of at
  most \<open>2 ^ 20\<close>: with others the levels are rounded and drift, as \<open>impact_level_drifts\<close> shows.
\<close>

theorem ba_state_correct:
  assumes "known_kpis ss {}" "list_all (fair_step kind) ss"
  shows "\<exists>b out. ba_run ss (ba_configured kind virtual warning critical d) = Inr (b, out) \<and>
    map_of (ba_impacts b) = impacts_after ss Map.empty \<and> distinct (map fst (ba_impacts b)) \<and>
    ba_settings b = ba_settings (ba_configured kind virtual warning critical d) \<and>
    (\<forall>kpis. get_state_hard kpis b = state_spec kpis b)"
proof -
  let ?b = "ba_configured kind virtual warning critical d"
  obtain b out where r: "ba_run ss ?b = Inr (b, out)"
    using ba_run_total [OF ba_configured_ok, of kind virtual warning critical d ss] assms
    by (auto simp: ba_configured_events)
  have "ba_ok b \<and> map_of (ba_impacts b) = impacts_after ss Map.empty"
    using ba_run_ok [OF ba_configured_ok _ r] assms(2) by (simp add: ba_configured_events)
  with r run_settings [OF r] ba_ok_state [of b] show ?thesis by (auto simp: ba_ok_def)
qed

text \<open>One KPI is added and turns critical.\<close>

definition demo_steps :: "ba_stimulus list" where
  "demo_steps =
     [(\<lambda>k. plain_view State_ok 0 False, Some 1500, Add 0), (\<lambda>k. plain_view State_critical 50 False, Some 2000, Changed 0)]"

lemma demo_steps_ok:
  "known_kpis demo_steps {}" "list_all (\<lambda>s. visitor_ok (fst (snd s))) demo_steps" "list_all (fair_step kind) demo_steps"
  by (simp_all add: demo_steps_def visitor_ok_def time_null_def max_kpis_def tame_def tame_number_def impact_of_def
      plain_view_def plain_impact_def)

theorem ba_state_correct_witness:
  "\<exists>b out. ba_run demo_steps (ba_configured Ba_impact True 80 50 Dt_inherit) = Inr (b, out) \<and>
     map_of (ba_impacts b) 0 = Some (impact_of (plain_view State_critical 50 False)) \<and>
     get_state_hard (\<lambda>k. plain_view State_critical 50 False) b = state_spec (\<lambda>k. plain_view State_critical 50 False) b"
proof -
  obtain b out where "ba_run demo_steps (ba_configured Ba_impact True 80 50 Dt_inherit) = Inr (b, out)"
    "map_of (ba_impacts b) = impacts_after demo_steps Map.empty" "\<forall>kpis. get_state_hard kpis b = state_spec kpis b"
    using ba_state_correct [OF demo_steps_ok(1,3), of Ba_impact True 80 50 Dt_inherit] by blast
  then show ?thesis by (intro exI [of _ b] exI [of _ out]) (simp add: demo_steps_def)
qed

text \<open>
  C16. The events of a business activity tell one history without gaps. In any run of a new BA, the
  first event that is written opens; every later one closes the open event, with all its other
  fields, and is followed at once by the next event, which starts when the other ends, not before it
  started, and differs in state or downtime; the BA keeps the last one as its open event. After a
  change of a KPI that a visitor sees, the open event has the hard state and the downtime of the BA.
\<close>

theorem ba_events_contiguous:
  assumes "list_all (\<lambda>s. visitor_ok (fst (snd s))) ss"
    and "ba_run ss (ba_configured kind virtual warning critical d) = Inr (b, out)"
  shows "follow None (events_of out) = Some (ba_event b) \<and>
    (\<forall>kpis now k b' out' notify. \<not> time_null now \<longrightarrow> ba_update_from kpis (Some now) k b = Inr (b', out', notify) \<longrightarrow>
       follow (ba_event b) (events_of out') = Some (ba_event b') \<and> shows_state kpis b')"
proof -
  have r: "event_ok b \<and> open_end b \<and> follow None (events_of out) = Some (ba_event b)"
    using ba_run_follow [OF ba_configured_events(1,2) assms] by (simp add: ba_configured_events)
  moreover have "follow (ba_event b) (events_of out') = Some (ba_event b') \<and> shows_state kpis b'"
    if "\<not> time_null now" "ba_update_from kpis (Some now) k b = Inr (b', out', notify)" for kpis now k b' out' notify
    using ba_update_from_follow [OF _ _ _ that(2)] r that(1) by (simp add: visitor_ok_def)
  ultimately show ?thesis by blast
qed

theorem ba_events_contiguous_witness:
  "\<exists>b out. ba_run demo_steps (ba_configured Ba_worst True 0 0 Dt_inherit) = Inr (b, out) \<and>
     follow None (events_of out) = Some (ba_event b)"
proof -
  obtain b out where r: "ba_run demo_steps (ba_configured Ba_worst True 0 0 Dt_inherit) = Inr (b, out)"
    using ba_run_total [OF ba_configured_ok, of Ba_worst True 0 0 Dt_inherit demo_steps] demo_steps_ok(1,3)
    by (auto simp: ba_configured_events)
  from ba_events_contiguous [OF demo_steps_ok(2) r] r show ?thesis by blast
qed

text \<open>The KPIs of a BA are added one by one.\<close>

definition add_impacts :: "time \<Rightarrow> (nat \<Rightarrow> kpi) \<Rightarrow> nat list \<Rightarrow> ba \<Rightarrow> ba" where
  "add_impacts t kpis ks b = fold (\<lambda>k. add_impact k (view_of t (kpis k))) ks b"

text \<open>
  C13. A business activity follows its KPIs, services and boolean rules: from the moment they are added,
  after any sequence of messages to the KPIs - states restored from the cache, statuses,
  acknowledgements and downtimes of services, changes of services under a rule - no message makes the
  BA read a KPI that it does not have, and its hard state is the one of the impacts that its KPIs have
  now, although a KPI notifies the BA only of some changes. KPIs that are BAs themselves are not among
  them. When the BA ignores KPIs in downtime, this is so if its KPIs are services; the KPIs are fewer
  than \<open>2 ^ 20\<close>, and the impacts of those of a BA of kind impact are multiples of \<open>1 / 1024\<close> of at most
  \<open>2 ^ 20\<close>, so that no level is rounded.
\<close>

theorem ba_follows_kpis:
  assumes "\<forall>k. kpi_ok (kpis k)" "d = Dt_ignore_kpi \<longrightarrow> (\<forall>k. is_service (kpis k))"
    and "kind = Ba_impact \<longrightarrow> (\<forall>k. kpi_exact (kpis k))" "list_all (\<lambda>k. k < max_kpis) ks"
    and "b = add_impacts t kpis ks (ba_configured kind virtual warning critical d)"
  shows "\<exists>kpis' b'. bam_run kpi_update view_of ms (kpis, b) = Inr (kpis', b') \<and> (\<forall>k. kpi_ok (kpis' k)) \<and>
    map fst (ba_impacts b') = map fst (ba_impacts b) \<and>
    (\<forall>now. let views = (\<lambda>k. view_of now (kpis' k)) in get_state_hard views b' = state_spec views (live views b'))"
proof -
  have "kpis.synced kpis (ba_configured kind virtual warning critical d)"
    using assms(1,3) ba_configured_ok by (simp add: kpis.synced_def ba_configured_events)
  then have s: "kpis.synced kpis b"
    using assms(4) unfolding assms(5) add_impacts_def by (induction ks rule: rev_induct) (auto intro: kpis.synced_add)
  have "ba_settings b = ba_settings (ba_configured kind virtual warning critical d)"
    unfolding assms(5) add_impacts_def by (induction ks rule: rev_induct) (simp_all add: add_settings)
  then have d: "ba_dt_behaviour b = d" by (simp add: ba_settings_def ba_configured_def)
  obtain kpis' b' where r: "bam_run kpi_update view_of ms (kpis, b) = Inr (kpis', b')" "kpis.synced kpis' b'"
      "map fst (ba_impacts b') = map fst (ba_impacts b)" "ba_dt_behaviour b' = ba_dt_behaviour b"
      "\<forall>k. is_service (kpis' k) = is_service (kpis k)"
    using kpis.synced_run [OF s] by blast
  have "get_state_hard (\<lambda>k. view_of now (kpis' k)) b' =
      state_spec (\<lambda>k. view_of now (kpis' k)) (live (\<lambda>k. view_of now (kpis' k)) b')" for now
    by (rule kpis.synced_state [OF r(2)]) (use assms(2) r(4,5) d in \<open>auto simp: list_all_iff\<close>)
  with r show ?thesis by (auto simp: kpis.synced_def Let_def)
qed

theorem ba_follows_kpis_witness:
  "\<exists>kpis b. bam_run kpi_update view_of [(2000, True, 0, Inl (Service_status 1990 1990 State_critical State_critical 1))]
       (\<lambda>k. Kpi_service (kpi_service_new 10 60 30),
        add_impacts 1000 (\<lambda>k. Kpi_service (kpi_service_new 10 60 30)) [0, 1] (ba_configured Ba_impact True 80 50 Dt_ignore_kpi)) =
       Inr (kpis, b) \<and>
     get_state_hard (\<lambda>k. view_of 2000 (kpis k)) b = state_spec (\<lambda>k. view_of 2000 (kpis k)) (live (\<lambda>k. view_of 2000 (kpis k)) b)"
proof -
  have s: "\<forall>k :: nat. kpi_ok (Kpi_service (kpi_service_new 10 60 30))" "\<forall>k :: nat. kpi_exact (Kpi_service (kpi_service_new 10 60 30))"
    by (simp_all add: sv_ok_def kpi_service_new_def sv_exact_def tame_number_def)
  have "list_all (\<lambda>k. k < max_kpis) [0, 1]" by (simp add: max_kpis_def)
  from ba_follows_kpis [where d = Dt_ignore_kpi and kind = Ba_impact and t = 1000 and virtual = True and warning = 80
      and critical = 50 and ms = "[(2000, True, 0, Inl (Service_status 1990 1990 State_critical State_critical 1))]",
      OF s(1) _ _ this refl] s(2)
  show ?thesis unfolding Let_def by (metis is_service.simps(1))
qed

text \<open>Whether a BA sees every change of its state: a level that is not whole is compared in \<open>int32_t\<close>, and a
  BA of kind best has a state besides the computed one.\<close>

definition reports_all :: "ba \<Rightarrow> bool" where
  "reports_all b \<longleftrightarrow>
     (ba_kind b = Ba_best \<longrightarrow> ba_dt_behaviour b \<noteq> Dt_ignore_kpi) \<and>
     (ba_kind b = Ba_impact \<longrightarrow> su_level_hard (ba_summary b) \<in> \<int>)"

lemma level_int_whole: "x \<in> \<int> \<Longrightarrow> level_int x = x"
  by (auto simp: level_int_def elim: Ints_cases)

lemma level_eps_small: "level_eps < 1"
  by code_simp

lemma small_counts:
  assumes "\<bar>double (of_nat a - of_nat b)\<bar> \<le> level_eps" "a \<le> max_kpis" "b \<le> max_kpis"
  shows "a = b"
proof -
  have "\<bar>int a - int b\<bar> < 2 ^ 43" using assms(2,3) by (simp add: max_kpis_def)
  then have "of_int \<bar>int a - int b\<bar> < (of_int (2 ^ 43) :: rat)" by (simp only: of_int_less_iff)
  then have "double (of_nat a - of_nat b) = of_nat a - of_nat b" by (intro double_on_grid on_grid_diff) simp_all
  then have "of_int \<bar>int a - int b\<bar> < (1 :: rat)" using assms(1) level_eps_small by simp
  then show "a = b" by linarith
qed

lemma worst_when_ignored:
  assumes "ba_ok b" "ba_kind b = Ba_worst" "list_all (\<lambda>(k, i). i = impact_of (kpis k)) (ba_impacts b)"
  shows "get_state_hard kpis b = su_computed_hard (ba_summary b)"
proof (cases "ba_dt_behaviour b = Dt_ignore_kpi \<and> every_kpi_in_dt kpis b")
  case True
  then have "counted (ba_dt_behaviour b) (map snd (ba_impacts b)) = []"
    using assms(3) by (fastforce simp: counted_def filter_empty_conv ignored_def every_kpi_in_dt_def list_all_iff impact_of_def)
  then have "worst_of (hard_states (ba_dt_behaviour b) (map snd (ba_impacts b))) = State_ok"
    by (simp add: hard_states_def worst_of_def)
  then have "su_computed_hard (ba_summary b) = State_ok"
    using assms(1,2) by (simp add: ba_ok_def)
  with True assms(2) show ?thesis by (simp add: get_state_hard_eq)
qed (use assms(2) in \<open>auto simp: get_state_hard_eq\<close>)

text \<open>What \<open>_apply_changes\<close> reports determines the state.\<close>

definition judged :: "ba \<Rightarrow> bam_state \<times> rat" where
  "judged b =
     (if ba_kind b = Ba_best \<or> ba_kind b = Ba_worst then (su_computed_hard (ba_summary b), 0)
      else (State_ok, su_level_hard (ba_summary b)))"

lemma judged_state:
  assumes "ba_ok b" "ba_ok b'" "ba_settings b = ba_settings b'" "length (ba_impacts b) = length (ba_impacts b')" "judged b = judged b'"
    and "reports_all b" "list_all (\<lambda>(k, i). i = impact_of (kpis k)) (ba_impacts b)"
    and "list_all (\<lambda>(k, i). i = impact_of (kpis' k)) (ba_impacts b')"
  shows "get_state_hard kpis b = get_state_hard kpis' b'"
proof (cases "ba_kind b")
  case Ba_worst
  then show ?thesis
    using worst_when_ignored assms by (simp add: judged_def ba_settings_def)
next
  case Ba_ratio_percent
  moreover have "ba_impacts b = [] \<longleftrightarrow> ba_impacts b' = []" using assms(4) by auto
  ultimately show ?thesis
    using assms(3-5) by (simp add: get_state_hard_eq judged_def ba_settings_def percent_state_def rising_state_def)
qed (use assms(3-6) in \<open>auto simp: get_state_hard_eq judged_def ba_settings_def falling_state_def rising_state_def reports_all_def\<close>)

lemma ratio_level:
  assumes "ba_ok b" "ba_kind b = Ba_ratio_number \<or> ba_kind b = Ba_ratio_percent"
  shows "\<exists>n\<le>max_kpis. su_level_hard (ba_summary b) = of_nat n"
proof -
  let ?hs = "hard_states (ba_dt_behaviour b) (map snd (ba_impacts b))"
  have "length ?hs \<le> max_kpis"
    using ba_ok_fits [OF assms(1)] length_filter_le [of "\<lambda>i. \<not> ignored (ba_dt_behaviour b) i" "map snd (ba_impacts b)"]
    unfolding fits_def hard_states_def counted_def length_map by linarith
  then have "count_list ?hs State_critical \<le> max_kpis" by (rule order.trans [OF count_le_length])
  moreover have "su_level_hard (ba_summary b) = of_nat (count_list ?hs State_critical)"
    using assms by (auto simp: ba_ok_def criticals_def)
  ultimately show ?thesis by blast
qed

lemma unchanged_judged:
  assumes "ba_ok b" "reports_all b" "ba_kind b = Ba_impact \<longrightarrow> tame i" "apply_changes k i b = Inr (b', False)"
  shows "judged b = judged b'"
proof -
  have k: "ba_ok b'" "ba_kind b' = ba_kind b" using ba_ok_changes [OF assms(1,3,4)] by simp_all
  consider "ba_kind b = Ba_best \<or> ba_kind b = Ba_worst" | "ba_kind b = Ba_impact"
    | (ratio) "ba_kind b = Ba_ratio_number \<or> ba_kind b = Ba_ratio_percent" by (cases "ba_kind b") auto
  then show ?thesis
  proof cases
    case ratio
    obtain m where m: "su_level_hard (ba_summary b) = of_nat m" "m \<le> max_kpis" using ratio_level [OF assms(1) ratio] by blast
    obtain n where n: "su_level_hard (ba_summary b') = of_nat n" "n \<le> max_kpis"
      using ratio_level [OF k(1)] ratio k(2) by auto
    have "\<bar>double (su_level_hard (ba_summary b) - su_level_hard (ba_summary b'))\<bar> \<le> level_eps"
      using ratio assms(4) by (auto simp: apply_changes_eq Let_def)
    then show ?thesis using small_counts [of m n] m n k ratio by (auto simp: judged_def)
  qed (use assms(2,4) k in \<open>auto simp: judged_def apply_changes_eq Let_def level_int_whole reports_all_def split: option.splits\<close>)
qed

text \<open>
  A business activity notifies its own parents of every change of its state. If a BA whose impacts
  are those of its KPIs is told of the change of one KPI and does not notify its parents, then its hard
  state and its downtime are the same as before. This is so for a BA of kind worst, ratio number and
  ratio percent; for one of kind best unless it ignores KPIs in downtime; and for one of kind impact
  whose level is a whole number and whose impacts are not rounded.
\<close>

theorem ba_notifies_parents:
  assumes "ba_ok b" "reports_all b" "list_all (\<lambda>(j, i). i = impact_of (kpis j)) (ba_impacts b)"
    and "\<forall>j. j \<noteq> k \<longrightarrow> kpis' j = kpis j" "ba_kind b = Ba_impact \<longrightarrow> tame (impact_of (kpis' k))"
    and "ba_update_from kpis' visitor k b = Inr (b', out, False)"
  shows "get_state_hard kpis' b' = get_state_hard kpis b \<and> ba_in_downtime b' = ba_in_downtime b"
proof -
  let ?b1 = "note_kpi_update (kpis' k) b"
  obtain b2 ch b3 o1 o2 where u: "apply_changes k (impact_of (kpis' k)) ?b1 = Inr (b2, ch)"
      "compute_inherited_downtime kpis' visitor b2 = (b3, o1)" "visit_opt kpis' visitor b3 = (b', o2)"
    and quiet: "\<not> ch" "ba_in_downtime b' = ba_in_downtime b"
    using assms(6) by (auto simp: ba_update_from_def Let_def split: sum.splits prod.splits)
  have b1: "ba_ok ?b1" "reports_all ?b1" "judged ?b1 = judged b"
    using assms(1,2) by (simp_all add: ba_ok_def reports_all_def judged_def)
  have f: "ba_summary b' = ba_summary b2" "ba_kind b' = ba_kind b2" "ba_kind b2 = ba_kind b"
    using inherited_fields [OF u(2)] visit_opt_fields [OF u(3)] apply_changes_dt [OF u(1)] by simp_all
  have "judged ?b1 = judged b2" by (rule unchanged_judged [OF b1(1,2)]) (use u(1) quiet(1) assms(5) in simp_all)
  moreover have "judged b2 = judged b'" using f by (simp add: judged_def)
  ultimately have j: "judged b = judged b'" using b1(3) by simp
  have im: "ba_impacts b' = set_impact k (impact_of (kpis' k)) (ba_impacts b)" "ba_ok b'"
    using ba_update_from_ok [OF assms(1,5,6)] by simp_all
  have "list_all (\<lambda>(j, i). i = impact_of (kpis' j)) (ba_impacts b')"
    using assms(3,4) by (fastforce simp: im(1) set_impact_def list_all_iff split: if_splits)
  moreover have "length (ba_impacts b) = length (ba_impacts b')" by (simp add: im(1) set_impact_def)
  moreover have "ba_settings b = ba_settings b'" using update_settings [OF assms(6)] by simp
  ultimately have "get_state_hard kpis b = get_state_hard kpis' b'"
    using judged_state [OF assms(1) im(2)] j assms(2,3) by blast
  with quiet(2) show ?thesis by simp
qed

theorem ba_notifies_parents_witness:
  "\<exists>b out. ba_update_from (\<lambda>k. plain_view State_critical 60 False) None 0
       (add_impact 0 (plain_view State_critical 50 False) (ba_configured Ba_worst False 0 0 Dt_ignore)) = Inr (b, out, False) \<and>
     get_state_hard (\<lambda>k. plain_view State_critical 60 False) b =
       get_state_hard (\<lambda>k. plain_view State_critical 50 False)
         (add_impact 0 (plain_view State_critical 50 False) (ba_configured Ba_worst False 0 0 Dt_ignore))"
proof -
  let ?b = "add_impact 0 (plain_view State_critical 50 False) (ba_configured Ba_worst False 0 0 Dt_ignore)"
  let ?kpis = "\<lambda>k :: nat. if k = 0 then plain_view State_critical 50 False else plain_view State_critical 60 False"
  have ok: "ba_ok ?b" "reports_all ?b" "list_all (\<lambda>(j, i). i = impact_of (?kpis j)) (ba_impacts ?b)"
    by (rule ba_ok_add, simp_all add: ba_configured_ok ba_configured_events max_kpis_def)
      (simp_all add: reports_all_def add_impact_def ba_configured_def ba_new_def note_kpi_update_def)
  obtain b out where u: "ba_update_from (\<lambda>k. plain_view State_critical 60 False) None 0 ?b = Inr (b, out, False)"
    by (simp add: Let_def add_impact_def ba_configured_def ba_new_def plain_view_def plain_impact_def impact_of_def
        note_kpi_update_def ignored_def ba_update_from_def apply_changes_eq set_impact_def
        compute_inherited_downtime_def visit_opt_def recompute_def worse_def time_null_def)
  have "get_state_hard ?kpis ?b = get_state_hard (\<lambda>k. plain_view State_critical 50 False) ?b"
    by (simp add: get_state_hard_eq add_impact_def ba_configured_def ba_new_def note_kpi_update_def)
  moreover have "ba_kind ?b \<noteq> Ba_impact" by (simp add: add_impact_def ba_configured_def ba_new_def)
  ultimately show ?thesis using ba_notifies_parents [OF ok _ _ u] u by auto
qed

text \<open>
  The two kinds that do not satisfy it do change their state without telling their parents. A BA of
  kind impact whose level goes from 50.5 to 50 is compared with the whole part of the old level: with a
  critical threshold of 50 it turns from warning to critical, unnoticed. A BA of kind best that
  ignores KPIs in downtime turns from critical to OK when its only KPI enters a downtime, unnoticed,
  since the computed state is critical before and after.
\<close>

theorem ba_silent_state_changes:
  "(let b = add_impact 0 (plain_view State_warning (99 / 2) False) (ba_configured Ba_impact False 80 50 Dt_ignore) in
    get_state_hard (\<lambda>k. plain_view State_warning (99 / 2) False) b = State_warning \<and>
    (case ba_update_from (\<lambda>k. plain_view State_critical 50 False) None 0 b of
       Inl e \<Rightarrow> False
     | Inr (b', out, notify) \<Rightarrow>
         get_state_hard (\<lambda>k. plain_view State_critical 50 False) b' = State_critical \<and> \<not> notify)) \<and>
   (let b = add_impact 0 (plain_view State_critical 50 False) (ba_configured Ba_best False 0 0 Dt_ignore_kpi) in
    get_state_hard (\<lambda>k. plain_view State_critical 50 False) b = State_critical \<and>
    (case ba_update_from (\<lambda>k. plain_view State_critical 50 True) None 0 b of
       Inl e \<Rightarrow> False
     | Inr (b', out, notify) \<Rightarrow>
         get_state_hard (\<lambda>k. plain_view State_critical 50 True) b' = State_ok \<and> \<not> notify))"
proof -
  have f: "\<lfloor>101 / 2 :: rat\<rfloor> = 50" by (rule floor_unique) simp_all
  have d: "double 0 = 0" "double (101 / 2) = 101 / 2" "double 50 = 50" "double 100 = 100"
    by (rule double_on_grid; simp add: on_gridI [of _ "51712"])+
  show ?thesis
    by (simp add: d f Let_def add_impact_def ba_configured_def ba_new_def plain_view_def plain_impact_def impact_of_def
        note_kpi_update_def get_state_hard_eq ignored_def ba_update_from_def apply_changes_eq unapply_impact_eq
        recompute_limit_def set_impact_def subtract_impact_def compute_inherited_downtime_def visit_opt_def
        falling_state_def recompute_def level_int_def every_kpi_in_dt_def time_null_def better_def)
qed

subsection \<open>From the text of a rule to its KPI\<close>

text \<open>The messages of the service book for the KPI of a rule: every listener, up to the KPI.\<close>

definition kb_book_update :: "time option \<Rightarrow> u32 \<times> u32 \<Rightarrow> service_event \<Rightarrow> kpi_boolexp \<Rightarrow> kpi_boolexp" where
  "kb_book_update visitor ids ev s =
     (let n = bx_expression (kb_boolexp s) in
      foldl (\<lambda>t k. fst (kb_update visitor (k, ev) t)) s
        (filter (\<lambda>k. (bs_host_id (services n ! k), bs_service_id (services n ! k)) = ids) [0..<length (services n)]))"

definition kb_book_updates :: "((u32 \<times> u32) \<times> service_event) list \<Rightarrow> kpi_boolexp \<Rightarrow> kpi_boolexp" where
  "kb_book_updates evs s = foldl (\<lambda>t (ids, ev). kb_book_update None ids ev t) s evs"

lemma kb_update_expression:
  "bx_expression (kb_boolexp (fst (kb_update v m s))) = fst (update_service (fst m) (snd m) (bx_expression (kb_boolexp s)))"
  "bx_impact_if (kb_boolexp (fst (kb_update v m s))) = bx_impact_if (kb_boolexp s)"
  by (simp_all add: kb_update_cases kb_update_from_def case_prod_beta kb_visit_fields kb_update_state_def)

lemma kb_fold_expression:
  fixes v ev
  defines "f \<equiv> \<lambda>t k. fst (kb_update v (k, ev) t)"
  shows "bx_expression (kb_boolexp (foldl f s ks)) = foldl (\<lambda>m k. fst (update_service k ev m)) (bx_expression (kb_boolexp s)) ks"
    and "bx_impact_if (kb_boolexp (foldl f s ks)) = bx_impact_if (kb_boolexp s)"
    and "kb_ok s \<Longrightarrow> kb_ok (foldl f s ks)"
  unfolding f_def by (induction ks arbitrary: s) (simp_all add: kb_update_expression kb_update_ok)

lemma kb_book_update_expression:
  "bx_expression (kb_boolexp (kb_book_update v ids ev s)) = book_update ids ev (bx_expression (kb_boolexp s))"
  "bx_impact_if (kb_boolexp (kb_book_update v ids ev s)) = bx_impact_if (kb_boolexp s)"
  "kb_ok s \<Longrightarrow> kb_ok (kb_book_update v ids ev s)"
  by (simp_all add: kb_book_update_def Let_def kb_fold_expression book_update_def)

lemma kb_book_updates_expression:
  "bx_expression (kb_boolexp (kb_book_updates evs s)) = book_updates evs (bx_expression (kb_boolexp s))"
  "bx_impact_if (kb_boolexp (kb_book_updates evs s)) = bx_impact_if (kb_boolexp s)"
  "kb_ok s \<Longrightarrow> kb_ok (kb_book_updates evs s)"
  by (induction evs arbitrary: s)
    (simp_all add: kb_book_updates_def book_updates_def case_prod_beta kb_book_update_expression)

text \<open>
  The KPI of a boolean rule is in the state that the text of the rule asks for: if the rule is not
  determined from the start, then after any sequence of messages about services after which it is, the
  KPI is critical if the truth value of the expression in the last states of the services is the one
  that has an impact, and OK otherwise.
\<close>

theorem rule_kpi_state:
  assumes "wf_exp e" "rule_exp m e" "exp_value m (last_state []) e = None"
    and "create_rule m (write_exp e) = Inr (n, ss)" "exp_value m (last_state evs) e = Some v"
  shows "kb_current_state (kb_book_updates evs (kpi_boolexp_new \<lparr>bx_expression = n, bx_impact_if = impact_if\<rparr> impact)) =
    (if (v \<noteq> 0) = impact_if then State_critical else State_ok)"
proof -
  let ?s = "kpi_boolexp_new \<lparr>bx_expression = n, bx_impact_if = impact_if\<rparr> impact" and ?t = "kb_book_updates evs"
  have n: "n = tree_of m e" using create_rule_written [OF assms(1,2)] assms(4) by simp
  have ls: "last_state evs = (\<lambda>ids. service_value (service_updates evs (bool_service_new (fst ids) (snd ids))))" for evs
    by (simp add: last_state_def fun_eq_iff)
  note rule = rule_follows_exp [OF assms(1,2), folded ls, folded n]
  have "\<not> state_known n" using rule(1) [of "[]"] assms(3) by (simp add: book_updates_def)
  then have "kb_ok (?t ?s)" by (intro kb_book_updates_expression(3)) (simp add: kb_ok_def kpi_boolexp_new_def)
  moreover have "bx_expression (kb_boolexp (?t ?s)) = book_updates evs n" "bx_impact_if (kb_boolexp (?t ?s)) = impact_if"
    by (simp_all add: kb_book_updates_expression kpi_boolexp_new_def)
  ultimately show ?thesis
    using rule(1,3) [of evs] assms(5) by (simp add: kb_ok_def bx_get_state_def)
qed

theorem rule_kpi_state_witness:
  "\<exists>n ss. create_rule demo_mapping (write_exp demo_rule) = Inr (n, ss) \<and>
     kb_current_state (kb_book_updates [((1, 2), Status 0 False)]
       (kpi_boolexp_new \<lparr>bx_expression = n, bx_impact_if = True\<rparr> 40)) = State_critical"
proof -
  have r: "create_rule demo_mapping (write_exp demo_rule) = Inr (tree_of demo_mapping demo_rule, services (tree_of demo_mapping demo_rule))"
    by (rule create_rule_written [OF demo_rule_ok])
  from rule_kpi_state [OF demo_rule_ok demo_rule_value(2) r demo_rule_value(1), of True 40] r show ?thesis by auto
qed

end
