(* ===== verification/Event_Queue.thy ===== *)
theory Event_Queue
  imports Collect_Prelude "HOL-Library.Multiset"
begin

section \<open>The lists of timed events\<close>

text \<open>
  Models \<^verbatim>\<open>timed_event\<close> of \<^verbatim>\<open>engine/src/events/timed_event.cc\<close> and the two lists of
  \<^verbatim>\<open>engine/src/events/loop.cc\<close>: insertion by time, search, removal, rescheduling, and the correction of
  the times after a jump of the clock. \<open>std::sort\<close> leaves the order of events of the same time open, so
  the sorting function is an argument.
\<close>

subsection \<open>Events\<close>

text \<open>The objects that are checked, by their identifiers.\<close>

datatype oid = Hst nat | Svc nat nat

datatype event_type =
    Event_service_check | Event_command_check | Event_log_rotation | Event_program_shutdown
  | Event_program_restart | Event_check_reaper | Event_orphan_check | Event_retention_save
  | Event_status_save | Event_scheduled_downtime | Event_sfreshness_check | Event_expire_downtime
  | Event_host_check | Event_hfreshness_check | Event_reschedule_checks | Event_expire_comment
  | Event_expire_host_ack | Event_expire_service_ack | Event_enginerpc_check | Event_sleep | Event_user_function

text \<open>
  What \<open>event_data\<close> holds: a pointer to an object, the identifier of a comment stored in the pointer
  itself, or the address of a copy of the identifier of a downtime, next to that identifier.
\<close>

datatype event_data = No_data | Object oid | Comment_id nat | Downtime_at nat nat

record timed_event =
  ev_type :: event_type
  ev_run_time :: int
  ev_recurring :: bool
  ev_interval :: int
  ev_timing_func :: "(int \<Rightarrow> int) option"
  ev_compensate :: bool
  ev_data :: event_data
  ev_options :: u32

type_synonym event_list = "timed_event list"

definition new_event :: "event_type \<Rightarrow> int \<Rightarrow> bool \<Rightarrow> event_data \<Rightarrow> u32 \<Rightarrow> timed_event" where
  "new_event t run_time compensate d options =
     \<lparr>ev_type = t, ev_run_time = run_time, ev_recurring = False, ev_interval = 0, ev_timing_func = None,
      ev_compensate = compensate, ev_data = d, ev_options = options\<rparr>"

subsection \<open>Operations\<close>

text \<open>The backward loop of \<open>add_event\<close>, on the reversed list.\<close>

fun add_from_end :: "timed_event \<Rightarrow> event_list \<Rightarrow> event_list" where
  "add_from_end e [] = []"
| "add_from_end e (x # xs) = (if ev_run_time e \<ge> ev_run_time x then e # x # xs else x # add_from_end e xs)"

definition add_event :: "timed_event \<Rightarrow> event_list \<Rightarrow> event_list" where
  "add_event e l =
     (if l = [] then [e]
      else if ev_run_time e < ev_run_time (hd l) then e # l
      else rev (add_from_end e (rev l)))"

definition matches :: "event_type \<Rightarrow> event_data \<Rightarrow> timed_event \<Rightarrow> bool" where
  "matches t d e \<longleftrightarrow> ev_type e = t \<and> ev_data e = d"

definition find_event :: "event_type \<Rightarrow> event_data \<Rightarrow> event_list \<Rightarrow> timed_event option" where
  "find_event t d l = find (matches t d) l"

text \<open>\<open>remove_event\<close> of the iterator that \<open>find_event\<close> returned.\<close>

fun remove_found :: "event_type \<Rightarrow> event_data \<Rightarrow> event_list \<Rightarrow> event_list" where
  "remove_found t d [] = []"
| "remove_found t d (e # l) = (if matches t d e then l else e # remove_found t d l)"

definition remove_events :: "event_type \<Rightarrow> event_data \<Rightarrow> event_list \<Rightarrow> event_list" where
  "remove_events t d l = filter (\<lambda>e. \<not> matches t d e) l"

text \<open>\<open>remove_downtime\<close> compares the identifier with the pointer, not with what it points at.\<close>

fun data_as_integer :: "event_data \<Rightarrow> nat option" where
  "data_as_integer (Downtime_at a i) = Some a"
| "data_as_integer (Comment_id c) = Some c"
| "data_as_integer _ = None"

fun remove_downtime :: "nat \<Rightarrow> event_list \<Rightarrow> event_list" where
  "remove_downtime i [] = []"
| "remove_downtime i (e # l) =
     (if ev_type e \<noteq> Event_scheduled_downtime then e # remove_downtime i l
      else if data_as_integer (ev_data e) = Some i then l
      else e # remove_downtime i l)"

definition next_run_time :: "int \<Rightarrow> timed_event \<Rightarrow> int" where
  "next_run_time now e =
     (case ev_timing_func e of
        Some f \<Rightarrow> f now
      | None \<Rightarrow> (let t = ev_run_time e + ev_interval e in if t < now then now else t))"

definition reschedule_event :: "int \<Rightarrow> timed_event \<Rightarrow> event_list \<Rightarrow> event_list" where
  "reschedule_event now e l =
     add_event (if ev_recurring e then e\<lparr>ev_run_time := next_run_time now e\<rparr> else e) l"

definition adjust_timestamp :: "int \<Rightarrow> int \<Rightarrow> int" where
  "adjust_timestamp diff ts =
     (if ts = 0 \<or> ts = - 1 then ts else (let t = ts + diff in if t < 0 then 0 else t))"

definition compensate_event :: "int \<Rightarrow> int \<Rightarrow> timed_event \<Rightarrow> timed_event" where
  "compensate_event now diff e =
     (if \<not> ev_compensate e then e
      else (case ev_timing_func e of
              Some f \<Rightarrow> e\<lparr>ev_run_time := f now\<rparr>
            | None \<Rightarrow> e\<lparr>ev_run_time := adjust_timestamp diff (ev_run_time e)\<rparr>))"

definition compensate_list :: "(event_list \<Rightarrow> event_list) \<Rightarrow> int \<Rightarrow> int \<Rightarrow> event_list \<Rightarrow> event_list" where
  "compensate_list sort_events now diff l = sort_events (map (compensate_event now diff) l)"

subsection \<open>Lists ordered by time\<close>

text \<open>
  The contract of a list of events: insertion keeps the order of the times, loses nothing, and puts an
  event behind those of the same time. It determines the list: events added one by one are in the order
  of a stable sort.
\<close>

locale timed_list =
  fixes time :: "'e \<Rightarrow> int"
    and add :: "'e \<Rightarrow> 'e list \<Rightarrow> 'e list"
  assumes add_sorted: "sorted (map time l) \<Longrightarrow> sorted (map time (add e l))"
    and add_mset: "mset (add e l) = add_mset e (mset l)"
    and add_fifo: "sorted (map time l) \<Longrightarrow>
      filter (\<lambda>x. time x = k) (add e l) = filter (\<lambda>x. time x = k) (l @ [e])"
begin

lemma fold_add_sorted: "sorted (map time l) \<Longrightarrow> sorted (map time (fold add es l))"
  by (induction es arbitrary: l) (auto intro: add_sorted)

lemma fold_add_mset: "mset (fold add es l) = mset es + mset l"
  by (induction es arbitrary: l) (auto simp: add_mset)

lemma fold_add_fifo:
  "sorted (map time l) \<Longrightarrow> filter (\<lambda>x. time x = k) (fold add es l) = filter (\<lambda>x. time x = k) (l @ es)"
proof (induction es arbitrary: l)
  case Nil
  then show ?case by simp
next
  case (Cons e es)
  then have "filter (\<lambda>x. time x = k) (fold add es (add e l)) = filter (\<lambda>x. time x = k) (add e l @ es)"
    by (intro Cons.IH add_sorted)
  with Cons.prems show ?case by (simp add: add_fifo)
qed

lemma fold_add_sort: "fold add es [] = sort_key time es"
proof (rule sym, rule properties_for_sort_key)
  show "mset (fold add es []) = mset es" by (simp add: fold_add_mset)
  show "sorted (map time (fold add es []))" by (rule fold_add_sorted) simp
  fix k
  have "filter (\<lambda>x. time x = time k) (fold add es []) = filter (\<lambda>x. time x = time k) es"
    using fold_add_fifo [of "[]" "time k" es] by simp
  then show "filter (\<lambda>x. time k = time x) (fold add es []) = filter (\<lambda>x. time k = time x) es"
    by (simp add: eq_commute)
qed

lemma first_is_least: "sorted (map time (e # l)) \<Longrightarrow> x \<in> set (e # l) \<Longrightarrow> time e \<le> time x"
  by auto

end

lemma add_from_end_mset:
  "l \<noteq> [] \<Longrightarrow> ev_run_time (last l) \<le> ev_run_time e \<Longrightarrow> mset (add_from_end e l) = add_mset e (mset l)"
  by (induction l) (auto split: if_splits)

lemma add_event_mset [simp]: "mset (add_event e l) = add_mset e (mset l)"
proof (cases "l = [] \<or> ev_run_time e < ev_run_time (hd l)")
  case True
  then show ?thesis by (auto simp: add_event_def)
next
  case False
  then have "rev l \<noteq> []" "ev_run_time (last (rev l)) \<le> ev_run_time e" by (auto simp: last_rev)
  from add_from_end_mset [OF this] False show ?thesis by (auto simp: add_event_def)
qed

lemma set_add_event [simp]: "set (add_event e l) = insert e (set l)"
  by (metis add_event_mset set_mset_add_mset_insert set_mset_mset)

lemma length_add_event [simp]: "length (add_event e l) = Suc (length l)"
  by (metis add_event_mset size_mset size_add_mset)

lemma add_from_end_split:
  "sorted_wrt (\<lambda>x y. ev_run_time x \<ge> ev_run_time y) l \<Longrightarrow> l \<noteq> [] \<Longrightarrow> ev_run_time (last l) \<le> ev_run_time e \<Longrightarrow>
   \<exists>a b. l = a @ b \<and> add_from_end e l = a @ e # b \<and> (\<forall>x\<in>set a. ev_run_time x > ev_run_time e) \<and>
     (\<forall>x\<in>set b. ev_run_time x \<le> ev_run_time e)"
proof (induction l)
  case Nil
  then show ?case by simp
next
  case (Cons x xs)
  show ?case
  proof (cases "ev_run_time e \<ge> ev_run_time x")
    case True
    with Cons.prems show ?thesis by (intro exI [of _ "[]"] exI [of _ "x # xs"]) auto
  next
    case False
    with Cons.prems have "xs \<noteq> []" by auto
    with Cons obtain a b where "xs = a @ b" "add_from_end e xs = a @ e # b" "\<forall>x\<in>set a. ev_run_time x > ev_run_time e"
      "\<forall>x\<in>set b. ev_run_time x \<le> ev_run_time e"
      by auto
    with False show ?thesis by (intro exI [of _ "x # a"] exI [of _ b]) auto
  qed
qed

text \<open>An insertion splits an ordered list into what is due up to the time of the event, and the rest.\<close>

lemma add_event_split:
  assumes "sorted (map ev_run_time l)"
  obtains a b where "l = a @ b" "add_event e l = a @ e # b" "\<forall>x\<in>set a. ev_run_time x \<le> ev_run_time e"
    "\<forall>x\<in>set b. ev_run_time e < ev_run_time x"
proof (cases "l = [] \<or> ev_run_time e < ev_run_time (hd l)")
  case True
  with assms have "\<forall>x\<in>set l. ev_run_time e < ev_run_time x"
    by (cases l) auto
  with True that [of "[]" l] show thesis by (auto simp: add_event_def)
next
  case False
  have "sorted_wrt (\<lambda>x y. ev_run_time x \<ge> ev_run_time y) (rev l)"
    using assms by (simp add: sorted_wrt_rev sorted_wrt_map)
  moreover have "rev l \<noteq> []" "ev_run_time (last (rev l)) \<le> ev_run_time e"
    using False by (auto simp: last_rev)
  ultimately obtain a b where "rev l = a @ b" "add_from_end e (rev l) = a @ e # b"
    "\<forall>x\<in>set a. ev_run_time x > ev_run_time e" "\<forall>x\<in>set b. ev_run_time x \<le> ev_run_time e"
    using add_from_end_split by blast
  with False that [of "rev b" "rev a"] show thesis
    by (auto simp: add_event_def rev_swap)
qed

lemma add_event_sorted: "sorted (map ev_run_time l) \<Longrightarrow> sorted (map ev_run_time (add_event e l))"
proof -
  assume l: "sorted (map ev_run_time l)"
  obtain a b where *: "l = a @ b" "add_event e l = a @ e # b" "\<forall>x\<in>set a. ev_run_time x \<le> ev_run_time e"
    "\<forall>x\<in>set b. ev_run_time e < ev_run_time x"
    using add_event_split [OF l] by blast
  with l show ?thesis by (auto simp: sorted_append)
qed

lemma add_event_fifo:
  "sorted (map ev_run_time l) \<Longrightarrow>
   filter (\<lambda>x. ev_run_time x = k) (add_event e l) = filter (\<lambda>x. ev_run_time x = k) (l @ [e])"
proof -
  assume l: "sorted (map ev_run_time l)"
  obtain a b where *: "l = a @ b" "add_event e l = a @ e # b" "\<forall>x\<in>set a. ev_run_time x \<le> ev_run_time e"
    "\<forall>x\<in>set b. ev_run_time e < ev_run_time x"
    using add_event_split [OF l] by blast
  have "filter (\<lambda>x. ev_run_time x = ev_run_time e) b = []"
    using * by (auto simp: filter_empty_conv)
  with * show ?thesis by (cases "ev_run_time e = k") auto
qed

interpretation events: timed_list ev_run_time add_event
  by unfold_locales (simp_all add: add_event_sorted add_event_fifo)

subsection \<open>Search and removal\<close>

lemma find_event_None: "find_event t d l = None \<longleftrightarrow> (\<forall>e\<in>set l. \<not> matches t d e)"
  by (auto simp: find_event_def find_None_iff)

lemma find_event_Some: "find_event t d l = Some e \<Longrightarrow> e \<in> set l \<and> matches t d e"
  by (auto simp: find_event_def find_Some_iff)

lemma remove_found_mset:
  "find_event t d l = Some e \<Longrightarrow> mset l = add_mset e (mset (remove_found t d l))"
  by (induction l) (auto simp: find_event_def split: if_splits)

lemma remove_found_none: "find_event t d l = None \<Longrightarrow> remove_found t d l = l"
  by (induction l) (auto simp: find_event_def split: if_splits)

lemma set_remove_found: "set (remove_found t d l) \<subseteq> set l"
  by (induction l) auto

lemma remove_found_sorted: "sorted (map ev_run_time l) \<Longrightarrow> sorted (map ev_run_time (remove_found t d l))"
  using set_remove_found by (induction l) fastforce+

text \<open>The number of events of a kind for an object.\<close>

definition scheduled :: "event_type \<Rightarrow> event_data \<Rightarrow> event_list \<Rightarrow> nat" where
  "scheduled t d l = length (filter (matches t d) l)"

lemma scheduled_zero: "scheduled t d l = 0 \<longleftrightarrow> find_event t d l = None"
  by (auto simp: scheduled_def find_event_None filter_empty_conv)

lemma scheduled_mset: "scheduled t d l = size (filter_mset (matches t d) (mset l))"
  by (simp add: scheduled_def flip: mset_filter)

lemma scheduled_add: "scheduled t d (add_event e l) = scheduled t d l + (if matches t d e then 1 else 0)"
  by (simp add: scheduled_mset)

lemma scheduled_remove: "find_event t d l = Some e \<Longrightarrow> scheduled t d (remove_found t d l) = scheduled t d l - 1"
  using remove_found_mset [of t d l e] find_event_Some [of t d l e] by (simp add: scheduled_mset)

lemma scheduled_remove_other:
  "d \<noteq> d' \<or> t \<noteq> t' \<Longrightarrow> scheduled t d (remove_found t' d' l) = scheduled t d l"
  by (induction l) (auto simp: scheduled_def matches_def)

end
