(* ===== verification/Check_World.thy ===== *)
theory Check_World
  imports Notifier Event_Queue
begin

section \<open>Hosts, services and the state of the engine\<close>

text \<open>
  The data that the checks of \<^verbatim>\<open>engine/src/host.cc\<close> and \<^verbatim>\<open>engine/src/service.cc\<close> work on: the members
  of \<^verbatim>\<open>checkable\<close> and \<^verbatim>\<open>notifier\<close> (grouped by their role), of \<^verbatim>\<open>check_result\<close>, of the comments of
  \<^verbatim>\<open>comment.cc\<close> and of the downtimes of \<^verbatim>\<open>downtime.cc\<close>, and the globals: the lists of events, the results
  to reap, the counters. A call of \<open>notify\<close> is the one of the theory of the notifications, on the view of
  the object that the notifier has.

  States are the integers of the enumerations: 0 is \<open>state_ok\<close> and \<open>state_up\<close>. Doubles are rationals. A
  call reads one time. Logs, macros and statistics are left out; what is sent to the event broker and to
  the commands is a list of effects. \<open>None\<close> stands for a call that does not return, as a notification
  with cyclic dependencies.
\<close>

subsection \<open>Data\<close>

abbreviation (input) state_ok :: nat where "state_ok \<equiv> 0"
abbreviation (input) state_warning :: nat where "state_warning \<equiv> 1"
abbreviation (input) state_critical :: nat where "state_critical \<equiv> 2"
abbreviation (input) state_unknown :: nat where "state_unknown \<equiv> 3"
abbreviation (input) state_up :: nat where "state_up \<equiv> 0"
abbreviation (input) state_down :: nat where "state_down \<equiv> 1"
abbreviation (input) state_unreachable :: nat where "state_unreachable \<equiv> 2"

datatype ack_type = Ack_none | Ack_normal | Ack_sticky

text \<open>The configuration of an object.\<close>

record ck_conf =
  cf_name :: string
  cf_max_attempts :: int
  cf_check_interval :: u32
  cf_retry_interval :: u32
  cf_check_period :: "string option"
  cf_has_command :: bool
  cf_command_empty :: bool
  cf_active :: bool
  cf_passive :: bool
  cf_freshness :: bool
  cf_freshness_threshold :: int
  cf_initial_state :: nat
  cf_low_threshold :: rat
  cf_high_threshold :: rat
  cf_flap_on :: "nat \<Rightarrow> bool"
  cf_stalk_on :: "nat \<Rightarrow> bool"
  cf_volatile :: bool
  cf_event_handler :: bool
  cf_obsess :: bool
  cf_ack_timeout :: int
  cf_parents :: "nat option list"
  cf_children :: "nat option list"
  cf_masters :: "oid list"
  cf_total_services :: int
  cf_total_interval :: u64

text \<open>The state of an object and what depends on it.\<close>

record ck_status =
  cs_state :: nat
  cs_last_state :: nat
  cs_last_hard_state :: nat
  cs_hard :: bool
  cs_attempt :: int
  cs_last_state_change :: int
  cs_last_hard_state_change :: int
  cs_last_time :: "nat \<Rightarrow> int"
  cs_event_id :: u64
  cs_last_event_id :: u64
  cs_problem_id :: u64
  cs_last_problem_id :: u64
  cs_ack :: ack_type
  cs_last_ack :: int
  cs_checked :: bool
  cs_host_problem :: bool
  cs_passive :: bool
  cs_output :: string
  cs_long_output :: string
  cs_perf_data :: string
  cs_next_notification :: int
  cs_no_more :: bool

text \<open>Flap detection.\<close>

record ck_flap =
  fl_enabled :: bool
  fl_history :: "nat list"
  fl_index :: nat
  fl_last_update :: int
  fl_percent :: rat
  fl_flapping :: bool
  fl_comment :: nat

text \<open>The schedule of the checks.\<close>

record ck_sched =
  sc_last_check :: int
  sc_next_check :: int
  sc_should :: bool
  sc_executing :: bool
  sc_freshened :: bool
  sc_options :: u32
  sc_latency :: rat
  sc_execution_time :: rat
  sc_reschedule_current :: bool

record checkable =
  ck_conf :: ck_conf
  ck_status :: ck_status
  ck_flap :: ck_flap
  ck_sched :: ck_sched
  ck_depth :: int
  ck_pending_flex :: int
  ck_notifier :: notifier

record check_result =
  cr_object :: oid
  cr_passive :: bool
  cr_options :: u32
  cr_reschedule :: bool
  cr_latency :: rat
  cr_start :: int
  cr_execution_time :: rat
  cr_exited_ok :: bool
  cr_return_code :: int
  cr_output :: string

datatype entry_type = Entry_user | Entry_downtime | Entry_flapping | Entry_acknowledgement

record comment =
  co_id :: nat
  co_owner :: oid
  co_entry :: entry_type
  co_persistent :: bool

record downtime =
  dt_id :: nat
  dt_object :: oid
  dt_author :: string
  dt_comment :: string
  dt_start :: int
  dt_end :: int
  dt_fixed :: bool
  dt_triggered_by :: nat
  dt_duration :: int
  dt_in_effect :: bool
  dt_comment_id :: nat
  dt_start_flex :: bool
  dt_incremented :: bool

datatype effect =
    Notified oid reason "string list"
  | Logged oid nat bool int
  | Status_sent oid
  | State_changed oid nat bool int
  | Event_handler_run oid
  | Obsessed oid
  | Check_processed oid
  | Comment_added comment
  | Comment_deleted nat
  | Downtime_started nat
  | Downtime_stopped nat bool
  | Downtime_added nat
  | Downtime_deleted nat
  | Acknowledged oid
  | Adaptive_update oid

record world =
  w_ck :: "oid \<Rightarrow> checkable"
  w_hosts :: "nat list"
  w_services :: "(nat \<times> nat) list"
  w_low :: event_list
  w_high :: event_list
  w_to_reap_partial :: "check_result list"
  w_to_reap :: "check_result list"
  w_waiting :: "(nat \<times> check_result) list"
  w_to_forget :: "oid list"
  w_next_event_id :: u64
  w_next_problem_id :: u64
  w_running_services :: u32
  w_running_hosts :: u32
  w_next_notification_id :: u64
  w_comments :: "comment list"
  w_next_comment :: nat
  w_downtimes :: "downtime list"
  w_next_downtime :: nat
  w_effects :: "effect list"

text \<open>The result of a command that runs synchronously.\<close>

record sync_result =
  sr_exit_code :: int
  sr_timeout :: bool
  sr_seconds :: nat
  sr_output :: string

text \<open>
  The environment of a call: that of the notifications (with the clock, the length of an interval and the
  time periods), the configuration of the engine, the dependencies of an object, and the answers of the
  event broker modules, of the whitelist and of the commands, and the address of the copy of an identifier.
\<close>

record cenv =
  ce_n :: nenv
  ce_index :: "oid \<Rightarrow> nat"
  ce_oid :: "nat \<Rightarrow> oid"
  ce_dependencies :: "nat \<Rightarrow> dependency list"
  ce_accept_passive_hosts :: bool
  ce_accept_passive_services :: bool
  ce_cached_host_horizon :: u32
  ce_cached_service_horizon :: u32
  ce_obsess_services :: bool
  ce_obsess_hosts :: bool
  ce_predictive_services :: bool
  ce_predictive_hosts :: bool
  ce_enable_flap :: bool
  ce_low_service :: rat
  ce_high_service :: rat
  ce_low_host :: rat
  ce_high_host :: rat
  ce_event_handlers :: bool
  ce_log_service_retries :: bool
  ce_log_host_retries :: bool
  ce_freshness_latency :: int
  ce_service_spread :: u32
  ce_host_spread :: u32
  ce_event_start :: int
  ce_check_service_freshness :: bool
  ce_check_host_freshness :: bool
  ce_service_timeout :: u32
  ce_host_timeout :: int
  ce_reaper_interval :: u32
  ce_host_down_disable :: bool
  ce_precheck :: neb_result
  ce_initiate :: neb_result
  ce_allowed :: "oid \<Rightarrow> bool"
  ce_run :: "oid \<Rightarrow> nat option"
  ce_sync_precheck :: neb_result
  ce_sync :: "oid \<Rightarrow> sync_result option"
  ce_address :: "nat \<Rightarrow> nat"

definition now :: "cenv \<Rightarrow> int" where
  "now env = ne_now (ce_n env)"

subsection \<open>Access\<close>

fun host_of :: "oid \<Rightarrow> oid" where
  "host_of (Hst h) = Hst h"
| "host_of (Svc h s) = Hst h"

fun is_host :: "oid \<Rightarrow> bool" where
  "is_host (Hst h) = True"
| "is_host (Svc h s) = False"

fun exists_object :: "world \<Rightarrow> oid \<Rightarrow> bool" where
  "exists_object w (Hst h) = (h \<in> set (w_hosts w))"
| "exists_object w (Svc h s) = ((h, s) \<in> set (w_services w))"

definition upd :: "oid \<Rightarrow> (checkable \<Rightarrow> checkable) \<Rightarrow> world \<Rightarrow> world" where
  "upd x f w = w\<lparr>w_ck := (w_ck w)(x := f (w_ck w x))\<rparr>"

definition upd_status :: "oid \<Rightarrow> (ck_status \<Rightarrow> ck_status) \<Rightarrow> world \<Rightarrow> world" where
  "upd_status x f = upd x (\<lambda>c. c\<lparr>ck_status := f (ck_status c)\<rparr>)"

definition upd_flap :: "oid \<Rightarrow> (ck_flap \<Rightarrow> ck_flap) \<Rightarrow> world \<Rightarrow> world" where
  "upd_flap x f = upd x (\<lambda>c. c\<lparr>ck_flap := f (ck_flap c)\<rparr>)"

definition upd_sched :: "oid \<Rightarrow> (ck_sched \<Rightarrow> ck_sched) \<Rightarrow> world \<Rightarrow> world" where
  "upd_sched x f = upd x (\<lambda>c. c\<lparr>ck_sched := f (ck_sched c)\<rparr>)"

definition emit :: "effect \<Rightarrow> world \<Rightarrow> world" where
  "emit e w = w\<lparr>w_effects := w_effects w @ [e]\<rparr>"

abbreviation conf :: "world \<Rightarrow> oid \<Rightarrow> ck_conf" where "conf w x \<equiv> ck_conf (w_ck w x)"
abbreviation status :: "world \<Rightarrow> oid \<Rightarrow> ck_status" where "status w x \<equiv> ck_status (w_ck w x)"
abbreviation flap :: "world \<Rightarrow> oid \<Rightarrow> ck_flap" where "flap w x \<equiv> ck_flap (w_ck w x)"
abbreviation sched :: "world \<Rightarrow> oid \<Rightarrow> ck_sched" where "sched w x \<equiv> ck_sched (w_ck w x)"
abbreviation state :: "world \<Rightarrow> oid \<Rightarrow> nat" where "state w x \<equiv> cs_state (status w x)"

text \<open>\<open>update_status\<close> and \<open>log_event\<close>.\<close>

definition update_status :: "oid \<Rightarrow> world \<Rightarrow> world" where
  "update_status x = emit (Status_sent x)"

definition service_log_event :: "cenv \<Rightarrow> oid \<Rightarrow> world \<Rightarrow> world" where
  "service_log_event env x w =
     (if \<not> cs_hard (status w x) \<and> \<not> ce_log_service_retries env then w
      else emit (Logged x (state w x) (cs_hard (status w x)) (cs_attempt (status w x))) w)"

definition host_log_event :: "oid \<Rightarrow> world \<Rightarrow> world" where
  "host_log_event x w = emit (Logged x (state w x) (cs_hard (status w x)) (cs_attempt (status w x))) w"

text \<open>\<open>handle_service_event\<close> and \<open>handle_host_event\<close>: the event broker and the event handler commands.\<close>

definition handle_event :: "cenv \<Rightarrow> oid \<Rightarrow> world \<Rightarrow> world" where
  "handle_event env x w =
     (let w1 = emit (State_changed x (state w x) (cs_hard (status w x)) (cs_attempt (status w x))) w in
      if ce_event_handlers env \<and> cf_event_handler (conf w x) then emit (Event_handler_run x) w1 else w1)"

definition obsess :: "bool \<Rightarrow> oid \<Rightarrow> world \<Rightarrow> world" where
  "obsess enabled x w = (if enabled \<and> cf_obsess (conf w x) then emit (Obsessed x) w else w)"

subsection \<open>Comments\<close>

text \<open>The constructor takes the next identifier, and looks for the first free one from 1 on.\<close>

definition next_free_comment :: "nat \<Rightarrow> comment list \<Rightarrow> nat" where
  "next_free_comment used cs =
     (case find (\<lambda>k. k \<notin> set (map co_id cs) \<and> k \<noteq> used) [1..<length cs + 3] of Some k \<Rightarrow> k | None \<Rightarrow> 0)"

definition add_comment_of :: "bool \<Rightarrow> oid \<Rightarrow> entry_type \<Rightarrow> world \<Rightarrow> nat \<times> world" where
  "add_comment_of persistent x entry w =
     (let c = \<lparr>co_id = w_next_comment w, co_owner = x, co_entry = entry, co_persistent = persistent\<rparr> in
      (co_id c,
       emit (Comment_added c)
         (w\<lparr>w_next_comment := next_free_comment (co_id c) (w_comments w), w_comments := w_comments w @ [c]\<rparr>)))"

abbreviation add_comment :: "oid \<Rightarrow> entry_type \<Rightarrow> world \<Rightarrow> nat \<times> world" where
  "add_comment \<equiv> add_comment_of False"

definition delete_comment :: "nat \<Rightarrow> world \<Rightarrow> world" where
  "delete_comment i w =
     (if i \<in> set (map co_id (w_comments w)) then
        emit (Comment_deleted i) (w\<lparr>w_comments := filter (\<lambda>c. co_id c \<noteq> i) (w_comments w)\<rparr>)
      else w)"

definition ack_comment :: "oid \<Rightarrow> comment \<Rightarrow> bool" where
  "ack_comment x c \<longleftrightarrow> co_owner c = x \<and> co_entry c = Entry_acknowledgement \<and> \<not> co_persistent c"

definition delete_acknowledgement_comments :: "oid \<Rightarrow> world \<Rightarrow> world" where
  "delete_acknowledgement_comments x w =
     w\<lparr>w_comments := filter (\<lambda>c. \<not> ack_comment x c) (w_comments w),
       w_effects := w_effects w @ map (\<lambda>c. Comment_deleted (co_id c)) (filter (ack_comment x) (w_comments w))\<rparr>"

subsection \<open>Notifications\<close>

text \<open>The notifier that an object is, with the members that its class and its host decide.\<close>

definition host_view_of :: "world \<Rightarrow> oid \<Rightarrow> host_view" where
  "host_view_of w h =
     \<lparr>hv_up = (state w h = state_up), hv_hard = cs_hard (status w h), hv_downtime_depth = ck_depth (w_ck w h),
      hv_notification_period = nt_notification_period (ck_notifier (w_ck w h))\<rparr>"

definition notifier_view :: "world \<Rightarrow> oid \<Rightarrow> notifier" where
  "notifier_view w x =
     (let c = w_ck w x; s = ck_status c in
      (ck_notifier c)
        \<lparr>nt_type := (if is_host x then Host_notification else Service_notification),
         nt_host := host_view_of w (host_of x), nt_is_volatile := cf_volatile (ck_conf c),
         nt_is_flapping := fl_flapping (ck_flap c), nt_hard := cs_hard s, nt_state := cs_state s,
         nt_last_hard_state_change := cs_last_hard_state_change s, nt_acknowledged := (cs_ack s \<noteq> Ack_none),
         nt_downtime_depth := ck_depth c\<rparr>)"

definition dependency_node :: "cenv \<Rightarrow> world \<Rightarrow> nat \<Rightarrow> dep_node" where
  "dependency_node env w i =
     (let s = status w (ce_oid env i) in
      \<lparr>dn_hard = cs_hard s, dn_last_hard_state = cs_last_hard_state s, dn_current_state = cs_state s,
       dn_checked = cs_checked s, dn_dependencies = ce_dependencies env i\<rparr>)"

definition nenv_of :: "cenv \<Rightarrow> world \<Rightarrow> nenv" where
  "nenv_of env w = (ce_n env)\<lparr>ne_graph := dependency_node env w\<rparr>"

definition notify_object :: "cenv \<Rightarrow> reason \<Rightarrow> string \<Rightarrow> string \<Rightarrow> oid \<Rightarrow> world \<Rightarrow> world option" where
  "notify_object env type author message x w =
     (case notify (nenv_of env w) type author message 0 (notifier_view w x, w_next_notification_id w) of
        None \<Rightarrow> None
      | Some (ok, reached, n, next_id) \<Rightarrow>
          Some (emit (Notified x type reached)
                 ((upd x (\<lambda>c. c\<lparr>ck_notifier := n\<rparr>) w)\<lparr>w_next_notification_id := next_id\<rparr>)))"

text \<open>The members that a change of state resets.\<close>

definition reset_notifications :: "oid \<Rightarrow> world \<Rightarrow> world" where
  "reset_notifications x =
     upd x (\<lambda>c. c\<lparr>ck_notifier := (ck_notifier c)\<lparr>nt_last_notification := 0\<rparr>,
                  ck_status := (ck_status c)\<lparr>cs_next_notification := 0, cs_no_more := False\<rparr>\<rparr>)"

subsection \<open>Times\<close>

text \<open>
  \<open>check_interval () * interval_length\<close> is a product of 32-bit integers; \<open>retry_interval ()\<close> is a double.
  \<open>_last_check\<close> is an \<open>int\<close>. A double out of the range of \<open>int\<close> converts to the smallest \<open>int\<close>.
\<close>

definition check_delay :: "cenv \<Rightarrow> ck_conf \<Rightarrow> int" where
  "check_delay env c = uint (cf_check_interval c * ne_interval_length (ce_n env))"

definition retry_delay :: "cenv \<Rightarrow> ck_conf \<Rightarrow> int" where
  "retry_delay env c = uint (cf_retry_interval c) * uint (ne_interval_length (ce_n env))"

definition int32 :: "int \<Rightarrow> int" where
  "int32 t = sint (of_int t :: u32)"

definition int_of_double :: "rat \<Rightarrow> int" where
  "int_of_double r =
     (let n = (if r < 0 then \<lceil>r\<rceil> else \<lfloor>r\<rfloor>) in if - (2 ^ 31) \<le> n \<and> n < 2 ^ 31 then n else - (2 ^ 31))"

definition ulong :: "int \<Rightarrow> u64" where
  "ulong t = of_int t"

definition get_next_valid_time :: "cenv \<Rightarrow> int \<Rightarrow> string option \<Rightarrow> int" where
  "get_next_valid_time env pref_time tp =
     (let preferred_time = max pref_time (now env) in
      case tp of
        None \<Rightarrow> preferred_time
      | Some p \<Rightarrow> ne_next_valid_time (ce_n env) p preferred_time False)"

definition check_time_against_period :: "cenv \<Rightarrow> int \<Rightarrow> string option \<Rightarrow> bool" where
  "check_time_against_period env t tp =
     (case tp of None \<Rightarrow> True | Some p \<Rightarrow> ne_next_valid_time (ce_n env) p t False = t)"

subsection \<open>What the operations leave unchanged\<close>

named_theorems frame_simps \<open>members that an operation of the engine reads or leaves unchanged\<close>

lemma w_ck_upd [frame_simps]: "w_ck (upd x f w) y = (if y = x then f (w_ck w x) else w_ck w y)"
  by (simp add: upd_def)

lemma upd_rest [frame_simps]:
  "w_low (upd x f w) = w_low w" "w_high (upd x f w) = w_high w" "w_hosts (upd x f w) = w_hosts w"
  "w_services (upd x f w) = w_services w" "w_to_reap (upd x f w) = w_to_reap w"
  "w_to_reap_partial (upd x f w) = w_to_reap_partial w" "w_waiting (upd x f w) = w_waiting w"
  "w_to_forget (upd x f w) = w_to_forget w"
  "w_next_event_id (upd x f w) = w_next_event_id w" "w_next_problem_id (upd x f w) = w_next_problem_id w"
  "w_running_services (upd x f w) = w_running_services w" "w_running_hosts (upd x f w) = w_running_hosts w"
  "w_next_notification_id (upd x f w) = w_next_notification_id w" "w_comments (upd x f w) = w_comments w"
  "w_next_comment (upd x f w) = w_next_comment w" "w_downtimes (upd x f w) = w_downtimes w"
  "w_next_downtime (upd x f w) = w_next_downtime w" "w_effects (upd x f w) = w_effects w"
  by (simp_all add: upd_def)

lemma emit_rest [frame_simps]:
  "w_ck (emit e w) = w_ck w" "w_low (emit e w) = w_low w" "w_high (emit e w) = w_high w"
  "w_hosts (emit e w) = w_hosts w" "w_services (emit e w) = w_services w" "w_to_reap (emit e w) = w_to_reap w"
  "w_to_reap_partial (emit e w) = w_to_reap_partial w" "w_waiting (emit e w) = w_waiting w"
  "w_to_forget (emit e w) = w_to_forget w"
  "w_next_event_id (emit e w) = w_next_event_id w" "w_next_problem_id (emit e w) = w_next_problem_id w"
  "w_running_services (emit e w) = w_running_services w" "w_running_hosts (emit e w) = w_running_hosts w"
  "w_next_notification_id (emit e w) = w_next_notification_id w" "w_comments (emit e w) = w_comments w"
  "w_next_comment (emit e w) = w_next_comment w" "w_downtimes (emit e w) = w_downtimes w"
  "w_next_downtime (emit e w) = w_next_downtime w" "w_effects (emit e w) = w_effects w @ [e]"
  by (simp_all add: emit_def)

lemmas upd_parts = upd_status_def upd_flap_def upd_sched_def

text \<open>
  Two worlds that differ only in effects, comments, notification data and counters of notifications: what
  a call of \<open>notify\<close> may change.
\<close>

definition same_checks :: "world \<Rightarrow> world \<Rightarrow> bool" where
  "same_checks w w' \<longleftrightarrow>
     (\<forall>x. conf w' x = conf w x \<and> status w' x = status w x \<and> sched w' x = sched w x \<and>
          ck_depth (w_ck w' x) = ck_depth (w_ck w x) \<and> ck_pending_flex (w_ck w' x) = ck_pending_flex (w_ck w x)) \<and>
     w_low w' = w_low w \<and> w_high w' = w_high w \<and> w_hosts w' = w_hosts w \<and> w_services w' = w_services w \<and>
     w_to_reap w' = w_to_reap w \<and> w_to_reap_partial w' = w_to_reap_partial w \<and> w_waiting w' = w_waiting w \<and>
     w_to_forget w' = w_to_forget w \<and>
     w_next_event_id w' = w_next_event_id w \<and> w_next_problem_id w' = w_next_problem_id w \<and>
     w_running_services w' = w_running_services w \<and> w_running_hosts w' = w_running_hosts w \<and>
     w_downtimes w' = w_downtimes w \<and> w_next_downtime w' = w_next_downtime w"

lemma same_checks_refl [simp]: "same_checks w w"
  by (simp add: same_checks_def)

lemma same_checks_trans [trans]: "same_checks w1 w2 \<Longrightarrow> same_checks w2 w3 \<Longrightarrow> same_checks w1 w3"
  by (simp add: same_checks_def)

lemma same_checks_emit [simp]: "same_checks w (emit e w)"
  by (simp add: same_checks_def emit_def)

lemma same_checks_flap [simp]: "same_checks w (upd_flap x f w)"
  by (simp add: same_checks_def upd_flap_def upd_def)

lemma notify_object_cases:
  assumes "notify_object env type author message x w = Some w'"
  obtains n i ds where
    "w' = emit (Notified x type ds) ((upd x (\<lambda>c. c\<lparr>ck_notifier := n\<rparr>) w)\<lparr>w_next_notification_id := i\<rparr>)"
  using assms that by (auto simp: notify_object_def split: option.splits)

lemma notify_object_same: "notify_object env type author message x w = Some w' \<Longrightarrow> same_checks w w'"
  by (elim notify_object_cases) (simp add: same_checks_def upd_def emit_def)

lemma notify_object_flap: "notify_object env type author message x w = Some w' \<Longrightarrow> flap w' y = flap w y"
  by (elim notify_object_cases) (simp add: upd_def emit_def)

lemma notify_object_effects:
  "notify_object env type author message x w = Some w' \<Longrightarrow> \<exists>ds. w_effects w' = w_effects w @ [Notified x type ds]"
  by (elim notify_object_cases) (auto simp: upd_def emit_def)

lemma delete_comment_same [simp]: "same_checks w (delete_comment i w)"
  by (simp add: delete_comment_def same_checks_def emit_def)

lemma delete_comment_ck [frame_simps]: "w_ck (delete_comment i w) = w_ck w"
  by (simp add: delete_comment_def emit_def)

lemma add_comment_same: "add_comment_of p x entry w = (i, w') \<Longrightarrow> same_checks w w'"
  by (auto simp: add_comment_of_def same_checks_def emit_def Let_def)

lemma add_comment_ck: "add_comment_of p x entry w = (i, w') \<Longrightarrow> w_ck w' = w_ck w"
  by (auto simp: add_comment_of_def emit_def Let_def)

text \<open>The search for the next identifier of a comment finds one: more candidates than identifiers.\<close>

lemma next_free_comment:
  "next_free_comment used cs \<notin> set (map co_id cs) \<and> next_free_comment used cs \<noteq> used \<and> next_free_comment used cs > 0"
proof -
  let ?P = "\<lambda>k. k \<notin> set (map co_id cs) \<and> k \<noteq> used"
  have "\<exists>k\<in>set [1..<length cs + 3]. ?P k"
  proof (rule ccontr)
    assume "\<not> ?thesis"
    then have "set [1..<length cs + 3] \<subseteq> insert used (set (map co_id cs))" by auto
    then have "card (set [1..<length cs + 3]) \<le> card (insert used (set (map co_id cs)))"
      by (intro card_mono) auto
    also have "\<dots> \<le> Suc (length cs)"
      by (metis card_insert_le_m1 card_length diff_Suc_1 length_map zero_less_Suc)
    finally show False by simp
  qed
  then obtain k where "find ?P [1..<length cs + 3] = Some k"
    by (metis (mono_tags, lifting) find_None_iff not_Some_eq)
  moreover from this have "?P k" "k \<in> set [1..<length cs + 3]" by (auto simp: find_Some_iff)
  ultimately show ?thesis by (simp add: next_free_comment_def)
qed

end
