(* ===== verification/Flapping.thy ===== *)
theory Flapping
  imports Check_World
begin

section \<open>Flap detection\<close>

text \<open>
  Models \<open>check_for_flapping\<close>, \<open>set_flap\<close>, \<open>clear_flap\<close>, \<open>enable_flap_detection\<close>,
  \<open>disable_flap_detection\<close> and \<open>handle_flap_detection_disabled\<close> of \<^verbatim>\<open>engine/src/host.cc\<close> and
  \<^verbatim>\<open>engine/src/service.cc\<close>. The last 21 states are a ring buffer; a change of state weighs between 0.75
  for the oldest and 1.25 for the newest pair. The lemmas relate the loop over the ring to the sum over the
  states in the order of time, and bound the percentage.
\<close>

subsection \<open>The history\<close>

definition max_history :: nat where "max_history = 21"

definition record_state :: "nat \<Rightarrow> ck_flap \<Rightarrow> ck_flap" where
  "record_state s f =
     f\<lparr>fl_history := (fl_history f)[fl_index f := s],
       fl_index := (if fl_index f + 1 \<ge> max_history then 0 else fl_index f + 1)\<rparr>"

definition curve :: "nat \<Rightarrow> rat" where
  "curve x = of_nat (x - 1) * (1.25 - 0.75) / of_nat (max_history - 2) + 0.75"

function curved_loop :: "nat list \<Rightarrow> nat \<Rightarrow> nat \<Rightarrow> nat \<Rightarrow> rat \<Rightarrow> rat" where
  "curved_loop h x y previous changes =
     (if x \<ge> max_history then changes
      else
        (let v = h ! y; y' = (if y + 1 \<ge> max_history then 0 else y + 1) in
         if x = 0 then curved_loop h 1 y' v changes
         else curved_loop h (x + 1) y' v (if previous \<noteq> v then changes + curve x else changes)))"
  by pat_completeness auto

termination
  by (relation "measure (\<lambda>(h, x, y, previous, changes). max_history - x)") auto

declare curved_loop.simps [simp del]

definition percent_change :: "ck_flap \<Rightarrow> rat" where
  "percent_change f = curved_loop (fl_history f) 0 (fl_index f) 0 0 * 100 / of_nat (max_history - 1)"

subsection \<open>Start and end\<close>

definition set_flap :: "cenv \<Rightarrow> bool \<Rightarrow> oid \<Rightarrow> world \<Rightarrow> world option" where
  "set_flap env allow x w =
     (let (i, w1) = add_comment x Entry_flapping w;
          w2 = upd_flap x (\<lambda>f. f\<lparr>fl_comment := i, fl_flapping := True\<rparr>) w1 in
      if allow then notify_object env Reason_flappingstart [] [] x w2 else Some w2)"

definition drop_flap_comment :: "oid \<Rightarrow> world \<Rightarrow> world" where
  "drop_flap_comment x w =
     upd_flap x (\<lambda>f. f\<lparr>fl_comment := 0\<rparr>)
       (if fl_comment (flap w x) \<noteq> 0 then delete_comment (fl_comment (flap w x)) w else w)"

definition clear_flap :: "cenv \<Rightarrow> oid \<Rightarrow> world \<Rightarrow> world option" where
  "clear_flap env x w =
     do {
       w1 \<leftarrow> notify_object env Reason_flappingstop [] [] x
               (upd_flap x (\<lambda>f. f\<lparr>fl_flapping := False\<rparr>) (drop_flap_comment x w));
       notify_object env Reason_recovery [] [] x w1
     }"

text \<open>What follows the comparison with the thresholds.\<close>

definition flap_transition :: "cenv \<Rightarrow> bool \<Rightarrow> bool \<Rightarrow> oid \<Rightarrow> world \<Rightarrow> world option" where
  "flap_transition env is_flapping allow x w =
     (if is_flapping \<and> \<not> fl_flapping (flap w x) then set_flap env allow x w
      else if \<not> is_flapping \<and> fl_flapping (flap w x) then clear_flap env x w
      else Some w)"

subsection \<open>Services\<close>

definition service_low :: "cenv \<Rightarrow> ck_conf \<Rightarrow> rat" where
  "service_low env c = (if cf_low_threshold c \<le> 0 then ce_low_service env else cf_low_threshold c)"

definition service_high :: "cenv \<Rightarrow> ck_conf \<Rightarrow> rat" where
  "service_high env c = (if cf_high_threshold c \<le> 0 then ce_high_service env else cf_high_threshold c)"

definition service_update_history :: "bool \<Rightarrow> oid \<Rightarrow> world \<Rightarrow> bool" where
  "service_update_history update x w \<longleftrightarrow>
     update \<and> cf_flap_on (conf w x) (state w x) \<and> state w (host_of x) = state_up"

definition service_measure :: "bool \<Rightarrow> oid \<Rightarrow> world \<Rightarrow> world" where
  "service_measure update x w =
     (let w1 = (if service_update_history update x w then upd_flap x (record_state (state w x)) w else w) in
      upd_flap x (\<lambda>f. f\<lparr>fl_percent := percent_change f\<rparr>) w1)"

definition service_check_for_flapping :: "cenv \<Rightarrow> bool \<Rightarrow> bool \<Rightarrow> oid \<Rightarrow> world \<Rightarrow> world option" where
  "service_check_for_flapping env update allow x w =
     (let low = service_low env (conf w x); high = service_high env (conf w x);
          w1 = service_measure update x w; pct = fl_percent (flap w1 x) in
      if \<not> ce_enable_flap env then Some w1
      else if \<not> fl_enabled (flap w1 x) then Some w1
      else if pct > low \<and> pct < high then Some w1
      else
        (let is_flapping =
               (if pct < low then False
                else if pct \<ge> high then state w1 x \<noteq> state_ok \<or> fl_flapping (flap w1 x)
                else False) in
         flap_transition env is_flapping allow x w1))"

subsection \<open>Hosts\<close>

definition host_low :: "cenv \<Rightarrow> ck_conf \<Rightarrow> rat" where
  "host_low env c = (if cf_low_threshold c \<le> 0 then ce_low_host env else cf_low_threshold c)"

definition host_high :: "cenv \<Rightarrow> ck_conf \<Rightarrow> rat" where
  "host_high env c = (if cf_high_threshold c \<le> 0 then ce_high_host env else cf_high_threshold c)"

text \<open>The time to wait before a state that is not that of a check of the host is recorded again.\<close>

definition wait_threshold :: "cenv \<Rightarrow> oid \<Rightarrow> world \<Rightarrow> u64" where
  "wait_threshold env x w =
     (let il = ne_interval_length (ce_n env) in
      if cf_total_services (conf w x) = 0
      then ulong (uint (nt_notification_interval (ck_notifier (w_ck w x)) * il))
      else cf_total_interval (conf w x) * ulong (uint il) div ulong (cf_total_services (conf w x)))"

definition host_update_history :: "cenv \<Rightarrow> bool \<Rightarrow> bool \<Rightarrow> oid \<Rightarrow> world \<Rightarrow> bool" where
  "host_update_history env update actual x w \<longleftrightarrow>
     update \<and> state w x \<noteq> state_unreachable \<and> cf_flap_on (conf w x) (state w x) \<and>
     (actual \<or> \<not> ulong (now env - fl_last_update (flap w x)) < wait_threshold env x w)"

definition host_measure :: "cenv \<Rightarrow> bool \<Rightarrow> bool \<Rightarrow> oid \<Rightarrow> world \<Rightarrow> world" where
  "host_measure env update actual x w =
     (let w1 = (if host_update_history env update actual x w
                then upd_flap x (\<lambda>f. record_state (state w x) (f\<lparr>fl_last_update := now env\<rparr>)) w else w) in
      upd_flap x (\<lambda>f. f\<lparr>fl_percent := percent_change f\<rparr>) w1)"

definition host_check_for_flapping :: "cenv \<Rightarrow> bool \<Rightarrow> bool \<Rightarrow> bool \<Rightarrow> oid \<Rightarrow> world \<Rightarrow> world option" where
  "host_check_for_flapping env update actual allow x w =
     (let low = host_low env (conf w x); high = host_high env (conf w x);
          w1 = host_measure env update actual x w; pct = fl_percent (flap w1 x) in
      if \<not> ce_enable_flap env then Some w1
      else if \<not> fl_enabled (flap w1 x) then Some w1
      else if pct > low \<and> pct < high then Some w1
      else
        (let is_flapping =
               (if pct \<le> low then False
                else if pct \<ge> high then state w1 x \<noteq> state_up \<or> fl_flapping (flap w1 x)
                else False) in
         flap_transition env is_flapping allow x w1))"

subsection \<open>Switching the detection on and off\<close>

definition handle_flap_detection_disabled :: "cenv \<Rightarrow> oid \<Rightarrow> world \<Rightarrow> world option" where
  "handle_flap_detection_disabled env x w =
     map_option (update_status x)
       (if fl_flapping (flap w x) then
          do {
            w1 \<leftarrow> notify_object env Reason_flappingdisabled [] [] x
                    (drop_flap_comment x (upd_flap x (\<lambda>f. f\<lparr>fl_flapping := False\<rparr>) w));
            notify_object env Reason_recovery [] [] x w1
          }
        else Some w)"

definition disable_flap_detection :: "cenv \<Rightarrow> oid \<Rightarrow> world \<Rightarrow> world option" where
  "disable_flap_detection env x w =
     (if \<not> fl_enabled (flap w x) then Some w
      else handle_flap_detection_disabled env x (upd_flap x (\<lambda>f. f\<lparr>fl_enabled := False\<rparr>) w))"

definition service_enable_flap_detection :: "cenv \<Rightarrow> oid \<Rightarrow> world \<Rightarrow> world option" where
  "service_enable_flap_detection env x w =
     (if fl_enabled (flap w x) then Some w
      else map_option (update_status x)
             (service_check_for_flapping env False True x (upd_flap x (\<lambda>f. f\<lparr>fl_enabled := True\<rparr>) w)))"

definition host_enable_flap_detection :: "cenv \<Rightarrow> oid \<Rightarrow> world \<Rightarrow> world option" where
  "host_enable_flap_detection env x w =
     (if fl_enabled (flap w x) then Some w
      else host_check_for_flapping env False False True x (upd_flap x (\<lambda>f. f\<lparr>fl_enabled := True\<rparr>) w))"

subsection \<open>The ring and the states in the order of time\<close>

definition flap_wf :: "ck_flap \<Rightarrow> bool" where
  "flap_wf f \<longleftrightarrow> length (fl_history f) = max_history \<and> fl_index f < max_history"

definition timeline_of :: "ck_flap \<Rightarrow> nat list" where
  "timeline_of f = drop (fl_index f) (fl_history f) @ take (fl_index f) (fl_history f)"

lemma record_state_wf: "flap_wf f \<Longrightarrow> flap_wf (record_state s f)"
  by (auto simp: flap_wf_def record_state_def max_history_def)

lemma timeline_record: "flap_wf f \<Longrightarrow> timeline_of (record_state s f) = tl (timeline_of f) @ [s]"
proof -
  assume f: "flap_wf f"
  then have i: "fl_index f < length (fl_history f)" by (simp add: flap_wf_def)
  from i have "tl (drop (fl_index f) (fl_history f)) = drop (Suc (fl_index f)) (fl_history f)"
    by (simp add: tl_drop drop_Suc)
  moreover have "take (Suc (fl_index f)) ((fl_history f)[fl_index f := s]) = take (fl_index f) (fl_history f) @ [s]"
    using i by (simp add: take_Suc_conv_app_nth)
  ultimately show ?thesis
    using f by (cases "fl_index f + 1 \<ge> max_history")
      (auto simp: timeline_of_def record_state_def flap_wf_def tl_append split: list.splits)
qed

lemma timeline_nth:
  assumes "flap_wf f" "x < max_history"
  shows "fl_history f ! (if fl_index f + x \<ge> max_history then fl_index f + x - max_history else fl_index f + x) =
    timeline_of f ! x"
  using assms by (auto simp: timeline_of_def flap_wf_def nth_append max_history_def add.commute)

lemma curved_loop_sum:
  assumes f: "flap_wf f" and "1 \<le> x" "x \<le> max_history"
  shows "curved_loop (fl_history f) x
      (if fl_index f + x \<ge> max_history then fl_index f + x - max_history else fl_index f + x)
      (timeline_of f ! (x - 1)) changes =
    changes + (\<Sum>k = x..<max_history. if timeline_of f ! (k - 1) \<noteq> timeline_of f ! k then curve k else 0)"
  using assms(2,3)
proof (induction "max_history - x" arbitrary: x changes)
  case 0
  then show ?case by (subst curved_loop.simps) simp
next
  case (Suc n)
  let ?y = "\<lambda>x. if fl_index f + x \<ge> max_history then fl_index f + x - max_history else fl_index f + x"
  from Suc have x: "x < max_history" by simp
  have v: "fl_history f ! ?y x = timeline_of f ! x" by (rule timeline_nth [OF f x])
  have y: "(if ?y x + 1 \<ge> max_history then 0 else ?y x + 1) = ?y (x + 1)"
    using f x by (auto simp: flap_wf_def)
  have "curved_loop (fl_history f) x (?y x) (timeline_of f ! (x - 1)) changes =
      curved_loop (fl_history f) (x + 1) (?y (x + 1)) (timeline_of f ! (x + 1 - 1))
        (if timeline_of f ! (x - 1) \<noteq> timeline_of f ! x then changes + curve x else changes)"
    using x Suc.prems unfolding y [symmetric] by (subst curved_loop.simps) (simp only: v, simp add: Let_def v)
  also have "\<dots> = (if timeline_of f ! (x - 1) \<noteq> timeline_of f ! x then changes + curve x else changes) +
      (\<Sum>k = x + 1..<max_history. if timeline_of f ! (k - 1) \<noteq> timeline_of f ! k then curve k else 0)"
    by (rule Suc.hyps(1)) (use Suc x in auto)
  finally show ?case
    using x by (simp add: sum.atLeast_Suc_lessThan)
qed

text \<open>The weight of the changes in a list of states, the oldest first.\<close>

definition weighted_changes :: "nat list \<Rightarrow> rat" where
  "weighted_changes t = (\<Sum>k = 1..<max_history. if t ! (k - 1) \<noteq> t ! k then curve k else 0)"

lemma percent_change_timeline: "flap_wf f \<Longrightarrow> percent_change f = weighted_changes (timeline_of f) * 5"
proof -
  assume f: "flap_wf f"
  have "curved_loop (fl_history f) 0 (fl_index f) 0 0 =
      curved_loop (fl_history f) 1 (if fl_index f + 1 \<ge> max_history then fl_index f + 1 - max_history else fl_index f + 1)
        (timeline_of f ! (1 - 1)) 0"
    using f timeline_nth [OF f, of 0]
    by (subst curved_loop.simps) (auto simp: flap_wf_def max_history_def Let_def)
  also have "\<dots> = weighted_changes (timeline_of f)"
    by (subst curved_loop_sum [OF f]) (simp_all add: weighted_changes_def max_history_def)
  finally show ?thesis by (simp add: percent_change_def max_history_def)
qed

lemma curve_nonneg [simp]: "0 \<le> curve k"
  by (simp add: curve_def)

lemma sum_curve: "(\<Sum>k = 1..<max_history. curve k) = 20"
  by (simp add: curve_def max_history_def eval_nat_numeral atLeastLessThanSuc)

lemma weighted_changes_bounds: "0 \<le> weighted_changes t" "weighted_changes t \<le> 20"
proof -
  show "0 \<le> weighted_changes t"
    unfolding weighted_changes_def by (intro sum_nonneg) simp
  have "weighted_changes t \<le> (\<Sum>k = 1..<max_history. curve k)"
    unfolding weighted_changes_def by (intro sum_mono) simp
  then show "weighted_changes t \<le> 20" by (simp only: sum_curve)
qed

lemma weighted_changes_constant:
  assumes "\<forall>k\<in>{1..<max_history}. t ! (k - 1) = t ! k"
  shows "weighted_changes t = 0"
  using assms unfolding weighted_changes_def by (intro sum.neutral) simp

text \<open>A change weighs more the younger it is.\<close>

lemma curve_mono: "k \<le> l \<Longrightarrow> curve k \<le> curve l"
  by (simp add: curve_def max_history_def divide_right_mono diff_le_mono)

subsection \<open>Frame\<close>

lemma set_flap_frame:
  assumes "set_flap env allow x w = Some w'"
  shows "same_checks w w'" "flap w' x = (flap w x)\<lparr>fl_comment := w_next_comment w, fl_flapping := True\<rparr>"
    "y \<noteq> x \<Longrightarrow> flap w' y = flap w y"
proof -
  obtain i w1 where 1: "add_comment x Entry_flapping w = (i, w1)" by fastforce
  then have i: "i = w_next_comment w" by (auto simp: add_comment_of_def Let_def)
  let ?w2 = "upd_flap x (\<lambda>f. f\<lparr>fl_comment := i, fl_flapping := True\<rparr>) w1"
  have 2: "same_checks w ?w2" using add_comment_same [OF 1] same_checks_flap same_checks_trans by blast
  have 3: "w' = ?w2 \<or> notify_object env Reason_flappingstart [] [] x ?w2 = Some w'"
    using assms 1 by (auto simp: set_flap_def Let_def split: if_splits)
  from 3 2 show "same_checks w w'" using notify_object_same same_checks_trans by blast
  have "flap w' y = flap ?w2 y" for y using 3 notify_object_flap by auto
  with add_comment_ck [OF 1] i show "flap w' x = (flap w x)\<lparr>fl_comment := w_next_comment w, fl_flapping := True\<rparr>"
    "y \<noteq> x \<Longrightarrow> flap w' y = flap w y"
    by (simp_all add: upd_flap_def frame_simps)
qed

lemma drop_flap_comment_frame:
  "same_checks w (drop_flap_comment x w)" "flap (drop_flap_comment x w) x = (flap w x)\<lparr>fl_comment := 0\<rparr>"
  "y \<noteq> x \<Longrightarrow> flap (drop_flap_comment x w) y = flap w y"
proof -
  show "same_checks w (drop_flap_comment x w)"
    using same_checks_trans [OF delete_comment_same same_checks_flap] by (simp add: drop_flap_comment_def)
qed (auto simp: drop_flap_comment_def upd_flap_def frame_simps)

lemma clear_flap_frame:
  assumes "clear_flap env x w = Some w'"
  shows "same_checks w w'" "flap w' x = (flap w x)\<lparr>fl_comment := 0, fl_flapping := False\<rparr>"
    "y \<noteq> x \<Longrightarrow> flap w' y = flap w y"
proof -
  let ?w1 = "upd_flap x (\<lambda>f. f\<lparr>fl_flapping := False\<rparr>) (drop_flap_comment x w)"
  from assms obtain w2 where 2: "notify_object env Reason_flappingstop [] [] x ?w1 = Some w2"
    "notify_object env Reason_recovery [] [] x w2 = Some w'"
    by (auto simp: clear_flap_def bind_eq_Some_conv)
  show "same_checks w w'"
    by (rule same_checks_trans [OF drop_flap_comment_frame(1) same_checks_trans [OF same_checks_flap
          same_checks_trans [OF notify_object_same [OF 2(1)] notify_object_same [OF 2(2)]]]])
  have "flap w' y = flap ?w1 y" for y using 2 notify_object_flap by metis
  then show "flap w' x = (flap w x)\<lparr>fl_comment := 0, fl_flapping := False\<rparr>" "y \<noteq> x \<Longrightarrow> flap w' y = flap w y"
    using drop_flap_comment_frame(2,3) by (simp_all add: upd_flap_def frame_simps)
qed

lemma flap_transition_frame:
  assumes "flap_transition env b allow x w = Some w'"
  shows "same_checks w w'" "fl_flapping (flap w' x) = b" "fl_history (flap w' x) = fl_history (flap w x)"
    "fl_index (flap w' x) = fl_index (flap w x)" "fl_percent (flap w' x) = fl_percent (flap w x)"
    "fl_enabled (flap w' x) = fl_enabled (flap w x)" "y \<noteq> x \<Longrightarrow> flap w' y = flap w y"
proof -
  consider "set_flap env allow x w = Some w'" b | "clear_flap env x w = Some w'" "\<not> b"
    | "w' = w" "fl_flapping (flap w x) = b"
    using assms unfolding flap_transition_def by (cases b; cases "fl_flapping (flap w x)") simp_all
  then have "same_checks w w' \<and> fl_flapping (flap w' x) = b \<and> fl_history (flap w' x) = fl_history (flap w x) \<and>
    fl_index (flap w' x) = fl_index (flap w x) \<and> fl_percent (flap w' x) = fl_percent (flap w x) \<and>
    fl_enabled (flap w' x) = fl_enabled (flap w x) \<and> (y \<noteq> x \<longrightarrow> flap w' y = flap w y)"
  proof cases
    case 1
    note * = set_flap_frame [OF 1(1)]
    from 1 show ?thesis by (simp add: *(1,2)) (simp add: *(3))
  next
    case 2
    note * = clear_flap_frame [OF 2(1)]
    from 2 show ?thesis by (simp add: *(1,2)) (simp add: *(3))
  qed simp
  then show "same_checks w w'" "fl_flapping (flap w' x) = b" "fl_history (flap w' x) = fl_history (flap w x)"
    "fl_index (flap w' x) = fl_index (flap w x)" "fl_percent (flap w' x) = fl_percent (flap w x)"
    "fl_enabled (flap w' x) = fl_enabled (flap w x)" "y \<noteq> x \<Longrightarrow> flap w' y = flap w y"
    by blast+
qed

lemma service_measure_frame:
  "same_checks w (service_measure u x w)" "fl_flapping (flap (service_measure u x w) x) = fl_flapping (flap w x)"
  "fl_enabled (flap (service_measure u x w) x) = fl_enabled (flap w x)"
  "y \<noteq> x \<Longrightarrow> flap (service_measure u x w) y = flap w y"
proof -
  show "same_checks w (service_measure u x w)"
    using same_checks_trans [OF same_checks_flap same_checks_flap] by (simp add: service_measure_def Let_def)
qed (auto simp: service_measure_def Let_def upd_flap_def frame_simps record_state_def)

lemma host_measure_frame:
  "same_checks w (host_measure env u a x w)"
  "fl_flapping (flap (host_measure env u a x w) x) = fl_flapping (flap w x)"
  "fl_enabled (flap (host_measure env u a x w) x) = fl_enabled (flap w x)"
  "y \<noteq> x \<Longrightarrow> flap (host_measure env u a x w) y = flap w y"
proof -
  show "same_checks w (host_measure env u a x w)"
    using same_checks_trans [OF same_checks_flap same_checks_flap] by (simp add: host_measure_def Let_def)
qed (auto simp: host_measure_def Let_def upd_flap_def frame_simps record_state_def)

lemma service_check_for_flapping_cases:
  assumes "service_check_for_flapping env u allow x w = Some w'"
  shows "w' = service_measure u x w \<or> (\<exists>b. flap_transition env b allow x (service_measure u x w) = Some w')"
  using assms unfolding service_check_for_flapping_def Let_def by (auto split: if_split_asm)

lemma host_check_for_flapping_cases:
  assumes "host_check_for_flapping env u a allow x w = Some w'"
  shows "w' = host_measure env u a x w \<or> (\<exists>b. flap_transition env b allow x (host_measure env u a x w) = Some w')"
  using assms unfolding host_check_for_flapping_def Let_def by (auto split: if_split_asm)

lemma service_check_for_flapping_same:
  "service_check_for_flapping env u allow x w = Some w' \<Longrightarrow> same_checks w w'"
  by (drule service_check_for_flapping_cases)
    (auto intro: service_measure_frame(1) same_checks_trans [OF service_measure_frame(1) flap_transition_frame(1)])

lemma host_check_for_flapping_same:
  "host_check_for_flapping env u a allow x w = Some w' \<Longrightarrow> same_checks w w'"
  by (drule host_check_for_flapping_cases)
    (auto intro: host_measure_frame(1) same_checks_trans [OF host_measure_frame(1) flap_transition_frame(1)])

end
