(* ===== verification/Check_Schedule.thy ===== *)
theory Check_Schedule
  imports Check_World "HOL-Library.AList"
begin

section \<open>Scheduling and launching checks\<close>

text \<open>
  Models, for services (\<^verbatim>\<open>engine/src/service.cc\<close>) and hosts (\<^verbatim>\<open>engine/src/host.cc\<close>), \<open>schedule_check\<close>,
  \<open>verify_check_viability\<close>, \<open>run_async_check\<close>, \<open>run_scheduled_check\<close>, \<open>is_result_fresh\<close>,
  \<open>check_result_freshness\<close>, \<open>check_for_orphaned\<close>, \<open>check_for_expired_acknowledgement\<close> and
  \<open>adjust_check_attempt\<close>, and the queue of results of \<^verbatim>\<open>engine/src/checks/checker.cc\<close>.
\<close>

subsection \<open>Options\<close>

definition opt_forced :: u32 where "opt_forced = 1"
definition opt_freshness :: u32 where "opt_freshness = 2"
definition opt_orphan :: u32 where "opt_orphan = 4"

definition forced :: "u32 \<Rightarrow> bool" where
  "forced options \<longleftrightarrow> has_flag options opt_forced"

fun check_event :: "oid \<Rightarrow> event_type" where
  "check_event (Hst h) = Event_host_check"
| "check_event (Svc h s) = Event_service_check"

subsection \<open>The queue of results\<close>

definition add_check_result_to_reap :: "check_result \<Rightarrow> world \<Rightarrow> world" where
  "add_check_result_to_reap r w = w\<lparr>w_to_reap_partial := w_to_reap_partial w @ [r]\<rparr>"

definition add_check_result :: "nat \<Rightarrow> check_result \<Rightarrow> world \<Rightarrow> world" where
  "add_check_result i r w = w\<lparr>w_waiting := AList.update i r (w_waiting w)\<rparr>"

subsection \<open>Scheduling a check\<close>

text \<open>Whether the event that is already in the list is kept.\<close>

definition use_original_event :: "timed_event \<Rightarrow> int \<Rightarrow> u32 \<Rightarrow> bool" where
  "use_original_event e check_time options =
     (if forced (ev_options e) then \<not> (forced options \<and> check_time < ev_run_time e)
      else if forced options then False
      else if check_time < ev_run_time e then False
      else True)"

text \<open>The list of events after the call, with the time of the next check.\<close>

definition place_check :: "cenv \<Rightarrow> oid \<Rightarrow> int \<Rightarrow> u32 \<Rightarrow> event_list \<Rightarrow> event_list \<times> int \<times> bool \<times> bool" where
  "place_check env x check_time options l =
     (let t = check_event x;
          e' = new_event t check_time True (Object x) options in
      case find_event t (Object x) l of
        None \<Rightarrow> (reschedule_event (now env) e' l, check_time, False, False)
      | Some e \<Rightarrow>
          (if use_original_event e check_time options then (l, ev_run_time e, True, False)
           else (reschedule_event (now env) e' (remove_found t (Object x) l), check_time, False, True)))"

definition service_schedule_check :: "cenv \<Rightarrow> oid \<Rightarrow> int \<Rightarrow> u32 \<Rightarrow> bool \<Rightarrow> world \<Rightarrow> bool \<times> world" where
  "service_schedule_check env x check_time options no_update w =
     (if \<not> cf_active (conf w x) \<and> \<not> forced options then (False, w)
      else
        (let (l, t, kept, replaced) = place_check env x check_time options (w_low w);
             no_update1 = (no_update \<or> replaced \<or> (\<not> kept \<and> \<not> cf_active (conf w x)));
             w1 = (upd_sched x (\<lambda>s. s\<lparr>sc_next_check := t, sc_options := options\<rparr>) w)\<lparr>w_low := l\<rparr> in
         (True, if no_update1 then w1 else update_status x w1)))"

definition host_schedule_check :: "cenv \<Rightarrow> oid \<Rightarrow> int \<Rightarrow> u32 \<Rightarrow> bool \<Rightarrow> world \<Rightarrow> bool \<times> world" where
  "host_schedule_check env x check_time options no_update w =
     (if \<not> cf_active (conf w x) \<and> \<not> forced options then (False, w)
      else
        (let (l, t, kept, replaced) = place_check env x check_time options (w_low w);
             w1 = (upd_sched x (\<lambda>s. s\<lparr>sc_next_check := t, sc_options := options\<rparr>) w)\<lparr>w_low := l\<rparr> in
         if no_update then (False, w1) else (True, update_status x w1)))"

subsection \<open>Viability\<close>

text \<open>Whether the check may run, whether the time is valid, and the time at which it should run.\<close>

definition viability_interval :: "cenv \<Rightarrow> oid \<Rightarrow> world \<Rightarrow> int" where
  "viability_interval env x w =
     (if \<not> cs_hard (status w x) \<and> state w x \<noteq> state_ok then int_of_double (of_int (retry_delay env (conf w x)))
      else int32 (check_delay env (conf w x)))"

definition verify_check_viability :: "cenv \<Rightarrow> u32 \<Rightarrow> oid \<Rightarrow> world \<Rightarrow> (bool \<times> bool \<times> int) option" where
  "verify_check_viability env options x w =
     (let interval0 = viability_interval env x w;
          interval = (if is_host x \<and> interval0 \<le> 0 then 300 else interval0);
          current = now env in
      if forced options then Some (True, True, current)
      else
        (let enabled = cf_active (conf w x);
             pref1 = (if enabled then current else current + interval);
             valid = check_time_against_period env current (cf_check_period (conf w x));
             pref2 = (if valid then pref1 else current) in
         case authorized_by_dependencies (nenv_of env w) False (ce_index env x) of
           None \<Rightarrow> None
         | Some ok \<Rightarrow> Some (enabled \<and> valid \<and> ok, valid, if ok then pref2 else current + interval)))"

subsection \<open>Launching a check\<close>

text \<open>\<open>adjust_check_attempt\<close> of a host.\<close>

definition adjust_check_attempt :: "bool \<Rightarrow> oid \<Rightarrow> world \<Rightarrow> world" where
  "adjust_check_attempt is_active x w =
     (let s = status w x in
      if cs_hard s then upd_status x (\<lambda>s. s\<lparr>cs_attempt := 1\<rparr>) w
      else if is_active \<and> cs_state s = state_up then upd_status x (\<lambda>s. s\<lparr>cs_attempt := 1\<rparr>) w
      else if cs_attempt s < cf_max_attempts (conf w x) then upd_status x (\<lambda>s. s\<lparr>cs_attempt := cs_attempt s + 1\<rparr>) w
      else w)"

definition new_result :: "cenv \<Rightarrow> oid \<Rightarrow> u32 \<Rightarrow> bool \<Rightarrow> rat \<Rightarrow> check_result" where
  "new_result env x options reschedule latency =
     \<lparr>cr_object = x, cr_passive = False, cr_options = options, cr_reschedule = reschedule, cr_latency = latency,
      cr_start = now env, cr_execution_time = 0, cr_exited_ok = True, cr_return_code = 0, cr_output = []\<rparr>"

definition run_failure :: "check_result \<Rightarrow> string \<Rightarrow> world \<Rightarrow> world" where
  "run_failure r reason =
     add_check_result_to_reap (r\<lparr>cr_return_code := int state_unknown, cr_exited_ok := True, cr_output := reason\<rparr>)"

text \<open>The command: the whitelist, the run, and the failure of the run.\<close>

definition execute_check :: "cenv \<Rightarrow> oid \<Rightarrow> check_result \<Rightarrow> world \<Rightarrow> world" where
  "execute_check env x r w =
     (if \<not> ce_allowed env x then run_failure r ''UNKNOWN: this command cannot be executed because of security restrictions on the poller. A whitelist has been defined, and it does not include this command.'' w
      else (case ce_run env x of
              Some i \<Rightarrow> add_check_result i r w
            | None \<Rightarrow> run_failure r ''(Execute command failed)'' w))"

text \<open>The result of a launch: \<open>OK\<close> or \<open>ERROR\<close>, whether the time is valid, and the preferred time.\<close>

definition start_check :: "bool \<Rightarrow> oid \<Rightarrow> world \<Rightarrow> world" where
  "start_check scheduled_check x w =
     upd_sched x (\<lambda>s. s\<lparr>sc_options := (if scheduled_check then 0 else sc_options s), sc_executing := True\<rparr>) w"

definition service_run_async_check :: "cenv \<Rightarrow> u32 \<Rightarrow> rat \<Rightarrow> bool \<Rightarrow> bool \<Rightarrow> oid \<Rightarrow> world \<Rightarrow>
    (bool \<times> bool \<times> int \<times> world) option" where
  "service_run_async_check env options latency scheduled_check reschedule x w =
     (if \<not> cf_has_command (conf w x) then Some (False, True, 0, w)
      else
        (case verify_check_viability env options x w of
           None \<Rightarrow> None
         | Some (perform, valid, preferred) \<Rightarrow>
             (if \<not> perform then Some (False, valid, preferred, w)
              else
                (case ce_precheck env of
                   Neb_cancel \<Rightarrow> Some (False, valid, preferred + check_delay env (conf w x), w)
                 | Neb_override \<Rightarrow> Some (True, valid, preferred, w)
                 | Neb_ok \<Rightarrow>
                     (let w1 = (start_check scheduled_check x w)\<lparr>w_running_services := w_running_services w + 1\<rparr>;
                          r = new_result env x options reschedule latency in
                      if ce_initiate env = Neb_override then Some (True, valid, preferred, w1)
                      else if ce_host_down_disable env \<and> exists_object w (host_of x) \<and> state w (host_of x) \<noteq> state_up
                      then Some (True, valid, preferred,
                             run_failure r (''host '' @ cf_name (conf w (host_of x)) @ '' is down'') w1)
                      else Some (True, valid, preferred, execute_check env x r w1))))))"

definition host_run_async_check :: "cenv \<Rightarrow> u32 \<Rightarrow> rat \<Rightarrow> bool \<Rightarrow> bool \<Rightarrow> oid \<Rightarrow> world \<Rightarrow>
    (bool \<times> bool \<times> int \<times> world) option" where
  "host_run_async_check env options latency scheduled_check reschedule x w =
     (if \<not> cf_has_command (conf w x) then Some (False, True, 0, w)
      else
        (case verify_check_viability env options x w of
           None \<Rightarrow> None
         | Some (perform, valid, preferred) \<Rightarrow>
             (if \<not> perform then Some (False, valid, preferred, w)
              else
                (let w1 = (if reschedule then upd_sched x (\<lambda>s. s\<lparr>sc_reschedule_current := True\<rparr>) w else w) in
                 if sc_executing (sched w1 x) \<and> \<not> forced options then Some (True, valid, preferred, w1)
                 else
                   (case ce_precheck env of
                      Neb_cancel \<Rightarrow> Some (False, valid, preferred, w1)
                    | Neb_override \<Rightarrow> Some (True, valid, preferred, w1)
                    | Neb_ok \<Rightarrow>
                        (let w2 = adjust_check_attempt True x (upd_sched x (\<lambda>s. s\<lparr>sc_options :=
                                    (if scheduled_check then 0 else sc_options s)\<rparr>) w1);
                             w3 = (if scheduled_check then w2 else upd_sched x (\<lambda>s. s\<lparr>sc_next_check := now env\<rparr>) w2);
                             w4 = (upd_sched x (\<lambda>s. s\<lparr>sc_executing := True\<rparr>) w3)
                                    \<lparr>w_running_hosts := w_running_hosts w + 1\<rparr> in
                         Some (True, valid, preferred,
                           execute_check env x (new_result env x options reschedule latency) w4)))))))"

text \<open>The checks of hosts and of other services that a result starts: options, latency and flags are fixed.\<close>

definition host_on_demand_check :: "cenv \<Rightarrow> oid \<Rightarrow> world \<Rightarrow> world option" where
  "host_on_demand_check env x w =
     map_option (\<lambda>(_, _, _, w'). w') (host_run_async_check env 0 0 False False x w)"

definition service_on_demand_check :: "cenv \<Rightarrow> oid \<Rightarrow> world \<Rightarrow> world option" where
  "service_on_demand_check env x w =
     map_option (\<lambda>(_, _, _, w'). w') (service_run_async_check env 0 0 False False x w)"

subsection \<open>Scheduled checks\<close>

text \<open>The time at which a check that could not run is tried again.\<close>

definition retry_time :: "cenv \<Rightarrow> oid \<Rightarrow> int \<Rightarrow> world \<Rightarrow> int" where
  "retry_time env x preferred w =
     (if now env \<ge> preferred
      then now env + (if cf_check_interval (conf w x) = 0 then 300 else check_delay env (conf w x))
      else preferred)"

definition service_reschedule_failed :: "cenv \<Rightarrow> bool \<Rightarrow> int \<Rightarrow> oid \<Rightarrow> world \<Rightarrow> world" where
  "service_reschedule_failed env valid preferred x w =
     (let tp = cf_check_period (conf w x);
          t = get_next_valid_time env (retry_time env x preferred w) tp in
      if \<not> valid \<and> \<not> check_time_against_period env t tp
      then upd_sched x (\<lambda>s. s\<lparr>sc_next_check := t + 604800\<rparr>) w
      else upd_sched x (\<lambda>s. s\<lparr>sc_next_check := t, sc_should := True\<rparr>) w)"

definition host_reschedule_failed :: "cenv \<Rightarrow> bool \<Rightarrow> int \<Rightarrow> oid \<Rightarrow> world \<Rightarrow> world" where
  "host_reschedule_failed env valid preferred x w =
     (let preferred1 = retry_time env x preferred w;
          t = get_next_valid_time env preferred1 (cf_check_period (conf w x)) in
      if \<not> valid \<and> t = preferred1
      then upd_sched x (\<lambda>s. s\<lparr>sc_next_check := t + 604800\<rparr>) w
      else upd_sched x (\<lambda>s. s\<lparr>sc_next_check := t, sc_should := True\<rparr>) w)"

definition service_run_scheduled_check :: "cenv \<Rightarrow> u32 \<Rightarrow> rat \<Rightarrow> oid \<Rightarrow> world \<Rightarrow> (bool \<times> world) option" where
  "service_run_scheduled_check env options latency x w =
     (case service_run_async_check env options latency True True x w of
        None \<Rightarrow> None
      | Some (ok, valid, preferred, w1) \<Rightarrow>
          (if ok then Some (True, w1)
           else
             (let w2 = (if sc_should (sched w1 x) then service_reschedule_failed env valid preferred x w1 else w1);
                  (sent, w3) = (if sc_should (sched w2 x)
                                then service_schedule_check env x (sc_next_check (sched w2 x)) options False w2
                                else (False, w2)) in
              Some (False, if sent then w3 else update_status x w3))))"

definition host_run_scheduled_check :: "cenv \<Rightarrow> u32 \<Rightarrow> rat \<Rightarrow> oid \<Rightarrow> world \<Rightarrow> (bool \<times> world) option" where
  "host_run_scheduled_check env options latency x w =
     (case host_run_async_check env options latency True True x w of
        None \<Rightarrow> None
      | Some (ok, valid, preferred, w1) \<Rightarrow>
          (if ok then Some (True, w1)
           else
             (let w2 = (if sc_should (sched w1 x) then host_reschedule_failed env valid preferred x w1 else w1);
                  w3 = update_status x w2 in
              Some (False, if sc_should (sched w3 x)
                           then snd (host_schedule_check env x (sc_next_check (sched w3 x)) options False w3)
                           else w3))))"

subsection \<open>Freshness\<close>

definition service_freshness_threshold :: "cenv \<Rightarrow> oid \<Rightarrow> world \<Rightarrow> int" where
  "service_freshness_threshold env x w =
     (let c = conf w x; s = status w x in
      if cf_freshness_threshold c = 0 then
        int_of_double
          (of_int (if cs_hard s \<or> cs_state s = state_ok then check_delay env c else retry_delay env c) +
           sc_latency (sched w x) + of_int (ce_freshness_latency env))
      else cf_freshness_threshold c)"

definition host_freshness_threshold :: "cenv \<Rightarrow> oid \<Rightarrow> world \<Rightarrow> int" where
  "host_freshness_threshold env x w =
     (let c = conf w x; s = status w x in
      if cf_freshness_threshold c = 0 then
        int_of_double
          (of_int (uint (if cs_hard s \<or> cs_state s = state_up then cf_check_interval c else cf_retry_interval c) *
                   uint (ne_interval_length (ce_n env))) +
           sc_latency (sched w x) + of_int (ce_freshness_latency env))
      else cf_freshness_threshold c)"

definition expiration_time :: "cenv \<Rightarrow> u32 \<Rightarrow> int \<Rightarrow> oid \<Rightarrow> world \<Rightarrow> int" where
  "expiration_time env spread threshold x w =
     (let c = conf w x; last_check = sc_last_check (sched w x) in
      if \<not> cs_checked (status w x) then ce_event_start env + threshold
      else if cf_active c \<and> ce_event_start env > last_check \<and> cf_freshness_threshold c = 0
      then ce_event_start env + threshold + uint (spread * ne_interval_length (ce_n env))
      else last_check + threshold)"

definition is_result_fresh :: "cenv \<Rightarrow> oid \<Rightarrow> world \<Rightarrow> bool" where
  "is_result_fresh env x w =
     (let t = (if is_host x then expiration_time env (ce_host_spread env) (host_freshness_threshold env x w) x w
               else expiration_time env (ce_service_spread env) (service_freshness_threshold env x w) x w) in
      \<not> t < now env)"

definition freshness_candidate :: "cenv \<Rightarrow> oid \<Rightarrow> world \<Rightarrow> bool" where
  "freshness_candidate env x w \<longleftrightarrow>
     (let c = conf w x in
      cf_freshness c \<and> \<not> sc_executing (sched w x) \<and> (cf_active c \<or> cf_passive c) \<and> \<not> sc_freshened (sched w x) \<and>
      check_time_against_period env (now env) (cf_check_period c) \<and>
      (is_host x \<or> \<not> (cf_check_interval c = 0 \<and> cf_freshness_threshold c = 0)))"

definition freshen :: "cenv \<Rightarrow> oid \<Rightarrow> world \<Rightarrow> world" where
  "freshen env x w =
     (if freshness_candidate env x w \<and> \<not> is_result_fresh env x w then
        (let w1 = upd_sched x (\<lambda>s. s\<lparr>sc_freshened := True\<rparr>) w; options = opt_forced OR opt_freshness in
         snd (if is_host x then host_schedule_check env x (now env) options False w1
              else service_schedule_check env x (now env) options False w1))
      else w)"

definition service_check_result_freshness :: "cenv \<Rightarrow> world \<Rightarrow> world" where
  "service_check_result_freshness env w =
     (if \<not> ce_check_service_freshness env then w else fold (\<lambda>(h, s). freshen env (Svc h s)) (w_services w) w)"

definition host_check_result_freshness :: "cenv \<Rightarrow> world \<Rightarrow> world" where
  "host_check_result_freshness env w =
     (if \<not> ce_check_host_freshness env then w else fold (\<lambda>h. freshen env (Hst h)) (w_hosts w) w)"

subsection \<open>Orphans\<close>

definition service_orphan :: "cenv \<Rightarrow> oid \<Rightarrow> world \<Rightarrow> world" where
  "service_orphan env x w =
     (let s = sched w x;
          expected = \<lfloor>of_int (sc_next_check s) + sc_latency s +
            of_int (uint (ce_service_timeout env) + uint (ce_reaper_interval env) + 600)\<rfloor> in
      if sc_executing s \<and> expected < now env then
        snd (service_schedule_check env x (now env) opt_orphan False
          ((upd_sched x (\<lambda>s. s\<lparr>sc_executing := False\<rparr>) w)\<lparr>w_running_services :=
             (if w_running_services w > 0 then w_running_services w - 1 else w_running_services w)\<rparr>))
      else w)"

definition host_orphan :: "cenv \<Rightarrow> oid \<Rightarrow> world \<Rightarrow> world" where
  "host_orphan env x w =
     (let s = sched w x;
          expected = \<lfloor>of_int (sc_next_check s) + sc_latency s +
            of_int (ce_host_timeout env + uint (ce_reaper_interval env) + 600)\<rfloor> in
      if sc_next_check s \<noteq> 0 \<and> sc_executing s \<and> expected < now env then
        snd (host_schedule_check env x (now env) opt_orphan False
          ((upd_sched x (\<lambda>s. s\<lparr>sc_executing := False\<rparr>) w)\<lparr>w_running_hosts :=
             (if w_running_hosts w > 0 then w_running_hosts w - 1 else w_running_hosts w)\<rparr>))
      else w)"

definition service_check_for_orphaned :: "cenv \<Rightarrow> world \<Rightarrow> world" where
  "service_check_for_orphaned env w = fold (\<lambda>(h, s). service_orphan env (Svc h s)) (w_services w) w"

definition host_check_for_orphaned :: "cenv \<Rightarrow> world \<Rightarrow> world" where
  "host_check_for_orphaned env w = fold (\<lambda>h. host_orphan env (Hst h)) (w_hosts w) w"

subsection \<open>Acknowledgements\<close>

fun ack_event :: "oid \<Rightarrow> event_type" where
  "ack_event (Hst h) = Event_expire_host_ack"
| "ack_event (Svc h s) = Event_expire_service_ack"

definition schedule_acknowledgement_expiration :: "oid \<Rightarrow> world \<Rightarrow> world" where
  "schedule_acknowledgement_expiration x w =
     (let t = cf_ack_timeout (conf w x); a = cs_last_ack (status w x) in
      if t > 0 \<and> a \<noteq> 0 then w\<lparr>w_low := add_event (new_event (ack_event x) (a + t) True (Object x) 0) (w_low w)\<rparr>
      else w)"

definition check_for_expired_acknowledgement :: "cenv \<Rightarrow> oid \<Rightarrow> world \<Rightarrow> world" where
  "check_for_expired_acknowledgement env x w =
     (let s = status w x; t = cf_ack_timeout (conf w x) in
      if cs_ack s \<noteq> Ack_none \<and> t > 0 \<and> cs_last_ack s + t \<ge> now env
      then update_status x (upd_status x (\<lambda>s. s\<lparr>cs_ack := Ack_none\<rparr>) w)
      else w)"

end
