(* ===== verification/Check_Output.thy ===== *)
theory Check_Output
  imports Collect_Prelude
begin

section \<open>The output of a check\<close>

text \<open>
  Models \<open>parse_check_output\<close> of \<^verbatim>\<open>engine/src/utils.cc\<close>, which splits the output of a plugin into the
  short output, the long output and the performance data: a pipe ends the text of a line, and from the first
  pipe after the first line on, all lines are performance data.
\<close>

definition isspace :: "char \<Rightarrow> bool" where
  "isspace c \<longleftrightarrow> c \<in> {CHR '' '', CHR 0x09, CHR 0x0A, CHR 0x0B, CHR 0x0C, CHR 0x0D}"

text \<open>\<open>std::string::find\<close> of a separator: what is before it and what is after it.\<close>

fun cut :: "string \<Rightarrow> string \<Rightarrow> (string \<times> string) option" where
  "cut sep [] = (if sep = [] then Some ([], []) else None)"
| "cut sep (c # s) =
     (if take (length sep) (c # s) = sep then Some ([], drop (length sep) (c # s))
      else (case cut sep s of None \<Rightarrow> None | Some (a, b) \<Rightarrow> Some (c # a, b)))"

definition next_line :: "bool \<Rightarrow> string \<Rightarrow> string \<times> string option" where
  "next_line escaped s =
     (case (if escaped then cut [CHR 0x5C, CHR ''n''] s else None) of
        Some (a, b) \<Rightarrow> (a, Some b)
      | None \<Rightarrow> (case cut [CHR 0x0A] s of Some (a, b) \<Rightarrow> (a, Some b) | None \<Rightarrow> (s, None)))"

text \<open>The loops that trim: the end of a text keeps its first character, the start its last one.\<close>

fun trim_end :: "string \<Rightarrow> nat \<Rightarrow> nat" where
  "trim_end s 0 = 0"
| "trim_end s (Suc n) = (if n > 0 \<and> isspace (s ! n) then trim_end s n else Suc n)"

fun trim_start :: "string \<Rightarrow> string" where
  "trim_start [] = []"
| "trim_start [c] = [c]"
| "trim_start (c # d # s) = (if isspace c then trim_start (d # s) else c # d # s)"

text \<open>The last pipe of a line.\<close>

definition split_pipe :: "string \<Rightarrow> (string \<times> string) option" where
  "split_pipe line =
     (if CHR ''|'' \<in> set line then
        Some (rev (tl (dropWhile (\<lambda>c. c \<noteq> CHR ''|'') (rev line))), rev (takeWhile (\<lambda>c. c \<noteq> CHR ''|'') (rev line)))
      else None)"

record parsed =
  pa_short :: string
  pa_long :: string
  pa_perf :: string
  pa_long_pipe :: bool
  pa_filled :: bool
  pa_line :: nat

definition newline_text :: "bool \<Rightarrow> string" where
  "newline_text escape = (if escape then [CHR 0x5C, CHR ''n''] else [CHR 0x0A])"

definition add_long :: "bool \<Rightarrow> string \<Rightarrow> parsed \<Rightarrow> parsed" where
  "add_long escape t p =
     p\<lparr>pa_long := pa_long p @ (if pa_line p > 2 then newline_text escape else []) @ t\<rparr>"

definition add_perf :: "string \<Rightarrow> parsed \<Rightarrow> parsed" where
  "add_perf t p = p\<lparr>pa_perf := pa_perf p @ (if pa_filled p then '' '' else []) @ t\<rparr>"

definition parse_line :: "bool \<Rightarrow> string \<Rightarrow> parsed \<Rightarrow> parsed" where
  "parse_line escape line p =
     (case (if pa_long_pipe p then None else split_pipe line) of
        Some (text, perf) \<Rightarrow>
          (let text1 = take (trim_end text (length text)) text; perf1 = trim_start perf in
           if pa_line p = 1 then
             p\<lparr>pa_short := pa_short p @ text1, pa_perf := pa_perf p @ perf1, pa_filled := True\<rparr>
           else (add_perf perf1 (add_long escape text1 p))\<lparr>pa_long_pipe := True\<rparr>)
      | None \<Rightarrow>
          (let line1 = take (trim_end line (length line)) line in
           if pa_line p = 1 then p\<lparr>pa_short := pa_short p @ line1\<rparr>
           else if \<not> pa_long_pipe p then add_long escape line1 p
           else add_perf line1 p))"

lemma cut_shorter: "cut sep s = Some (a, b) \<Longrightarrow> sep \<noteq> [] \<Longrightarrow> length b < length s"
proof (induction s arbitrary: a b)
  case (Cons c s)
  then show ?case
    by (cases "cut sep s"; cases sep) (auto split: if_splits simp: less_Suc_eq)
qed simp

lemma next_line_shorter: "next_line escaped s = (a, Some b) \<Longrightarrow> length b < length s"
  by (auto simp: next_line_def split: if_splits option.splits dest: cut_shorter)

function parse_lines :: "bool \<Rightarrow> bool \<Rightarrow> string \<Rightarrow> parsed \<Rightarrow> parsed" where
  "parse_lines escape escaped s p =
     (case next_line escaped s of
        (line, rest) \<Rightarrow>
          (let p1 = (parse_line escape line p)\<lparr>pa_line := pa_line p + 1\<rparr> in
           case rest of None \<Rightarrow> p1 | Some s' \<Rightarrow> parse_lines escape escaped s' p1))"
  by pat_completeness auto

termination
  by (relation "measure (\<lambda>(_, _, s, _). length s)") (auto dest: next_line_shorter [OF sym])

declare parse_lines.simps [simp del]

definition parse_check_output :: "bool \<Rightarrow> bool \<Rightarrow> string \<Rightarrow> string \<times> string \<times> string" where
  "parse_check_output escape escaped buffer =
     (let p = parse_lines escape escaped buffer
                \<lparr>pa_short = [], pa_long = [], pa_perf = [], pa_long_pipe = False, pa_filled = False, pa_line = 1\<rparr> in
      (pa_short p, pa_long p, pa_perf p))"

end
