(* ===== verification/Downtimes.thy ===== *)
theory Downtimes
  imports Check_World
begin

section \<open>Scheduled downtimes\<close>

text \<open>
  Models \<^verbatim>\<open>engine/src/downtimes\<close>: the downtimes of hosts (\<^verbatim>\<open>host_downtime.cc\<close>) and services
  (\<^verbatim>\<open>service_downtime.cc\<close>), which differ only in the object they look up, and the manager that keeps them
  (\<^verbatim>\<open>downtime_manager.cc\<close>), a multimap ordered by the time of the start. A downtime is a record of the map,
  found by its identifier. The recursion of \<open>handle\<close> through the downtimes that another one triggers is a
  stack of tasks; a recursion that does not end is \<open>None\<close>. Downtimes that the manager adds for the anomaly
  detections of a service are left out.
\<close>

subsection \<open>The manager\<close>

text \<open>\<open>find_downtime\<close> of any type, and the first downtime that another one triggers.\<close>

definition find_downtime :: "nat \<Rightarrow> world \<Rightarrow> downtime option" where
  "find_downtime i w = find (\<lambda>d. dt_id d = i) (w_downtimes w)"

definition triggered :: "nat \<Rightarrow> world \<Rightarrow> downtime list" where
  "triggered i w = filter (\<lambda>d. dt_triggered_by d = i) (w_downtimes w)"

definition upd_downtime :: "nat \<Rightarrow> (downtime \<Rightarrow> downtime) \<Rightarrow> world \<Rightarrow> world" where
  "upd_downtime i f w = w\<lparr>w_downtimes := map (\<lambda>d. if dt_id d = i then f d else d) (w_downtimes w)\<rparr>"

text \<open>Insertion into the multimap, behind the downtimes of the same start.\<close>

definition add_downtime :: "downtime \<Rightarrow> world \<Rightarrow> world" where
  "add_downtime d w =
     w\<lparr>w_downtimes := takeWhile (\<lambda>e. dt_start e \<le> dt_start d) (w_downtimes w) @ d #
                      dropWhile (\<lambda>e. dt_start e \<le> dt_start d) (w_downtimes w)\<rparr>"

fun erase_downtime :: "nat \<Rightarrow> downtime list \<Rightarrow> downtime list" where
  "erase_downtime i [] = []"
| "erase_downtime i (d # ds) = (if dt_id d = i then ds else d # erase_downtime i ds)"

text \<open>Removal, with the destructor, which deletes the comment of the downtime.\<close>

definition destroy_downtime :: "downtime \<Rightarrow> world \<Rightarrow> world" where
  "destroy_downtime d w = emit (Downtime_deleted (dt_id d)) (delete_comment (dt_comment_id d) w)"

definition delete_downtime :: "nat \<Rightarrow> world \<Rightarrow> world" where
  "delete_downtime i w =
     (case find_downtime i w of
        None \<Rightarrow> w
      | Some d \<Rightarrow> destroy_downtime d (w\<lparr>w_downtimes := erase_downtime i (w_downtimes w)\<rparr>))"

definition get_next_downtime_id :: "world \<Rightarrow> nat" where
  "get_next_downtime_id w =
     (if w_next_downtime w = 0 then fold (\<lambda>d m. if dt_id d \<ge> m then dt_id d else m) (w_downtimes w) 0
      else w_next_downtime w) + 1"

subsection \<open>Start and end\<close>

definition int64_max :: int where "int64_max = 2 ^ 63 - 1"

definition after_end :: "downtime \<Rightarrow> int" where
  "after_end d = (if dt_end d = int64_max then dt_end d else dt_end d + 1)"

definition schedule_downtime_event :: "cenv \<Rightarrow> int \<Rightarrow> nat \<Rightarrow> world \<Rightarrow> world" where
  "schedule_downtime_event env t i w =
     w\<lparr>w_high := add_event (new_event Event_scheduled_downtime t False (Downtime_at (ce_address env i) i) 0) (w_high w)\<rparr>"

definition add_depth :: "oid \<Rightarrow> int \<Rightarrow> world \<Rightarrow> world" where
  "add_depth x k = upd x (\<lambda>c. c\<lparr>ck_depth := ck_depth c + k\<rparr>)"

definition add_pending :: "oid \<Rightarrow> int \<Rightarrow> world \<Rightarrow> world" where
  "add_pending x k = upd x (\<lambda>c. c\<lparr>ck_pending_flex := ck_pending_flex c + k\<rparr>)"

text \<open>A flexible downtime of an object without a problem waits for the problem.\<close>

definition waits_for_problem :: "downtime \<Rightarrow> world \<Rightarrow> bool" where
  "waits_for_problem d w \<longleftrightarrow> \<not> dt_fixed d \<and> \<not> dt_start_flex d \<and> state w (dt_object d) = state_ok"

definition wait_for_problem :: "downtime \<Rightarrow> world \<Rightarrow> world" where
  "wait_for_problem d w =
     (let w1 = upd_downtime (dt_id d) (\<lambda>d. d\<lparr>dt_incremented := True\<rparr>) (add_pending (dt_object d) 1 w) in
      w1\<lparr>w_high := add_event (new_event Event_expire_downtime (after_end d) False No_data 0) (w_high w1)\<rparr>)"

definition end_downtime :: "cenv \<Rightarrow> downtime \<Rightarrow> world \<Rightarrow> world option" where
  "end_downtime env d w =
     (let x = dt_object d; w1 = add_depth x (- 1) (emit (Downtime_stopped (dt_id d) False) w) in
      do {
        w2 \<leftarrow> (if ck_depth (w_ck w1 x) = 0 then notify_object env Reason_downtimeend (dt_author d) (dt_comment d) x w1
               else Some w1);
        let w3 = update_status x w2;
        Some (if \<not> dt_fixed d \<and> dt_incremented d \<and> ck_pending_flex (w_ck w3 x) > 0 then add_pending x (- 1) w3 else w3)
      })"

definition start_downtime :: "cenv \<Rightarrow> downtime \<Rightarrow> world \<Rightarrow> world option" where
  "start_downtime env d w =
     (let x = dt_object d; w1 = emit (Downtime_started (dt_id d)) w in
      do {
        w2 \<leftarrow> (if ck_depth (w_ck w1 x) = 0 then notify_object env Reason_downtimestart (dt_author d) (dt_comment d) x w1
               else Some w1);
        let w3 = update_status x (upd_downtime (dt_id d) (\<lambda>d. d\<lparr>dt_in_effect := True\<rparr>) (add_depth x 1 w2));
        Some (schedule_downtime_event env (if dt_fixed d then after_end d else now env + dt_duration d) (dt_id d) w3)
      })"

subsection \<open>The recursion of \<open>handle\<close>\<close>

text \<open>
  \<open>Handle\<close> is a call of \<open>handle\<close>. When a downtime ends, the loop over what it triggered searches twice per
  round (\<open>Stop_first\<close> and \<open>Stop_second\<close>), and leaves when the second search finds nothing; then the downtime
  is removed.
\<close>

datatype task = Handle nat | Stop_first nat | Stop_second nat | Remove nat

definition first_triggered :: "nat \<Rightarrow> world \<Rightarrow> nat option" where
  "first_triggered i w = map_option dt_id (find (\<lambda>d. dt_triggered_by d = i) (w_downtimes w))"

text \<open>One call or one search: the tasks that come next, before those that wait.\<close>

fun task_step :: "cenv \<Rightarrow> task \<Rightarrow> world \<Rightarrow> (task list \<times> world) option" where
  "task_step env (Handle i) w =
     (case find_downtime i w of
        None \<Rightarrow> Some ([], w)
      | Some d \<Rightarrow>
          (if \<not> exists_object w (dt_object d) then Some ([], w)
           else if waits_for_problem d w then Some ([], wait_for_problem d w)
           else if dt_in_effect d then map_option (\<lambda>w1. ([Stop_first i], w1)) (end_downtime env d w)
           else map_option (\<lambda>w1. (map (\<lambda>c. Handle (dt_id c)) (triggered i w1), w1)) (start_downtime env d w)))"
| "task_step env (Stop_first i) w =
     Some (case first_triggered i w of None \<Rightarrow> [Stop_second i] | Some c \<Rightarrow> [Handle c, Stop_second i], w)"
| "task_step env (Stop_second i) w =
     Some (case first_triggered i w of None \<Rightarrow> [Remove i] | Some c \<Rightarrow> [Handle c, Stop_first i], w)"
| "task_step env (Remove i) w = Some ([], delete_downtime i w)"

partial_function (option) run_tasks :: "cenv \<Rightarrow> task list \<Rightarrow> world \<Rightarrow> world option" where
  "run_tasks env ts w =
     (case ts of
        [] \<Rightarrow> Some w
      | t # ts' \<Rightarrow> Option.bind (task_step env t w) (\<lambda>(us, w1). run_tasks env (us @ ts') w1))"

definition handle_downtime :: "cenv \<Rightarrow> nat \<Rightarrow> world \<Rightarrow> world option" where
  "handle_downtime env i w = run_tasks env [Handle i] w"

subsection \<open>Flexible downtimes\<close>

definition flex_starts :: "cenv \<Rightarrow> oid \<Rightarrow> downtime \<Rightarrow> bool" where
  "flex_starts env x d \<longleftrightarrow>
     \<not> dt_fixed d \<and> \<not> dt_in_effect d \<and> dt_triggered_by d = 0 \<and> dt_object d = x \<and>
     dt_start d \<le> now env \<and> now env \<le> dt_end d"

fun flex_loop :: "cenv \<Rightarrow> oid \<Rightarrow> nat list \<Rightarrow> world \<Rightarrow> world option" where
  "flex_loop env x [] w = Some w"
| "flex_loop env x (i # is) w =
     (case find_downtime i w of
        None \<Rightarrow> flex_loop env x is w
      | Some d \<Rightarrow>
          (if flex_starts env x d
           then Option.bind (handle_downtime env i (upd_downtime i (\<lambda>d. d\<lparr>dt_start_flex := True\<rparr>) w)) (flex_loop env x is)
           else flex_loop env x is w))"

definition check_pending_flex_downtime :: "cenv \<Rightarrow> oid \<Rightarrow> world \<Rightarrow> world option" where
  "check_pending_flex_downtime env x w =
     (if state w x = state_ok then Some w else flex_loop env x (map dt_id (w_downtimes w)) w)"

subsection \<open>Scheduling, cancelling and expiry\<close>

definition subscribe_downtime :: "cenv \<Rightarrow> downtime \<Rightarrow> world \<Rightarrow> world" where
  "subscribe_downtime env d w =
     (if \<not> exists_object w (dt_object d) then w
      else
        (let (c, w1) = add_comment (dt_object d) Entry_downtime w;
             w2 = upd_downtime (dt_id d) (\<lambda>d. d\<lparr>dt_comment_id := c\<rparr>) w1 in
         if dt_triggered_by d = 0 then schedule_downtime_event env (dt_start d) (dt_id d) w2 else w2))"

definition year_2100 :: int where "year_2100 = 4102441200"
definition max_duration :: int where "max_duration = 31622400"

text \<open>An exception for a missing object or a missing parent, \<open>None\<close> for the return of \<open>ERROR\<close>.\<close>

definition schedule_downtime :: "cenv \<Rightarrow> oid \<Rightarrow> string \<Rightarrow> string \<Rightarrow> int \<Rightarrow> int \<Rightarrow> bool \<Rightarrow> nat \<Rightarrow> int \<Rightarrow> world \<Rightarrow>
    (world, nat option) outcome" where
  "schedule_downtime env x author comment start_time end_time fixed triggered_by duration w =
     (if start_time \<ge> end_time \<or> end_time \<le> now env then (Inr None, w)
      else if \<not> exists_object w x then (Inl Msg_fmt, w)
      else
        (let i = get_next_downtime_id w; w0 = w\<lparr>w_next_downtime := i\<rparr> in
         if triggered_by > 0 \<and> find_downtime triggered_by w = None then (Inl Msg_fmt, w0)
         else
           (let d = \<lparr>dt_id = i, dt_object = x, dt_author = author, dt_comment = comment,
                     dt_start = min start_time year_2100, dt_end = min end_time year_2100, dt_fixed = fixed,
                     dt_triggered_by = triggered_by, dt_duration = int32 (min duration max_duration),
                     dt_in_effect = False, dt_comment_id = 0, dt_start_flex = False, dt_incremented = False\<rparr> in
            (Inr (Some i), subscribe_downtime env d (emit (Downtime_added i) (add_downtime d w0))))))"

definition unschedule :: "cenv \<Rightarrow> downtime \<Rightarrow> world \<Rightarrow> world option" where
  "unschedule env d w =
     (let x = dt_object d;
          w1 = (if \<not> dt_fixed d \<and> dt_incremented d then add_pending x (- 1) w else w) in
      if dt_in_effect d then
        (let w2 = update_status x (add_depth x (- 1) (emit (Downtime_stopped (dt_id d) True) w1)) in
         if ck_depth (w_ck w2 x) = 0 then notify_object env Reason_downtimecancelled [] [] x w2 else Some w2)
      else Some w1)"

text \<open>The recursion of \<open>unschedule_downtime\<close> through the triggered downtimes.\<close>

partial_function (option) unschedule_downtimes :: "cenv \<Rightarrow> nat list \<Rightarrow> world \<Rightarrow> world option" where
  "unschedule_downtimes env is w =
     (case is of
        [] \<Rightarrow> Some w
      | i # is' \<Rightarrow>
          (case find_downtime i w of
             None \<Rightarrow> unschedule_downtimes env is' w
           | Some d \<Rightarrow>
               (if \<not> exists_object w (dt_object d) then unschedule_downtimes env is' w
                else
                  Option.bind (unschedule env d w)
                    (\<lambda>w1. let w2 = delete_downtime i (w1\<lparr>w_high := remove_downtime i (w_high w1)\<rparr>) in
                          unschedule_downtimes env (map dt_id (triggered i w2) @ is') w2))))"

definition unschedule_downtime :: "cenv \<Rightarrow> nat \<Rightarrow> world \<Rightarrow> world option" where
  "unschedule_downtime env i w = unschedule_downtimes env [i] w"

definition expired :: "cenv \<Rightarrow> downtime \<Rightarrow> bool" where
  "expired env d \<longleftrightarrow> \<not> dt_in_effect d \<and> dt_end d < now env"

definition check_for_expired_downtime :: "cenv \<Rightarrow> world \<Rightarrow> world" where
  "check_for_expired_downtime env w =
     fold (\<lambda>d w. delete_downtime (dt_id d) w) (filter (expired env) (w_downtimes w)) w"

text \<open>The clean-up at the start: stale downtimes, and triggered ones without their parent.\<close>

definition is_stale :: "cenv \<Rightarrow> world \<Rightarrow> downtime \<Rightarrow> bool" where
  "is_stale env w d \<longleftrightarrow>
     \<not> exists_object w (host_of (dt_object d)) \<or> \<not> exists_object w (dt_object d) \<or> dt_end d < now env"

fun drop_orphan_downtimes :: "downtime list \<Rightarrow> downtime list \<Rightarrow> downtime list" where
  "drop_orphan_downtimes kept [] = kept"
| "drop_orphan_downtimes kept (d # ds) =
     (if dt_triggered_by d \<noteq> 0 \<and> dt_triggered_by d \<notin> set (map dt_id (kept @ d # ds)) then drop_orphan_downtimes kept ds
      else drop_orphan_downtimes (kept @ [d]) ds)"

definition initialize_downtime_data :: "cenv \<Rightarrow> world \<Rightarrow> world" where
  "initialize_downtime_data env w =
     (let kept = drop_orphan_downtimes [] (filter (\<lambda>d. \<not> is_stale env w d) (w_downtimes w)) in
      fold destroy_downtime (filter (\<lambda>d. d \<notin> set kept) (w_downtimes w))
        (w\<lparr>w_downtimes := kept, w_next_downtime := 0\<rparr>))"

end
