(* ===== verification/Service_Check.thy ===== *)
theory Service_Check
  imports Flapping Check_Schedule Check_Output Downtimes
begin

section \<open>Results of service checks\<close>

text \<open>
  Models \<open>handle_async_check_result\<close> of \<^verbatim>\<open>engine/src/service.cc\<close>, in the order of its parts: which results
  are discarded, what is taken from the result, the number of the attempt, soft and hard changes of state,
  the logic of an OK result and of a problem, and the next check.
\<close>

subsection \<open>Discarded results\<close>

definition service_rejects :: "cenv \<Rightarrow> check_result \<Rightarrow> oid \<Rightarrow> world \<Rightarrow> bool" where
  "service_rejects env r x w \<longleftrightarrow>
     cr_passive r \<and> (\<not> ce_accept_passive_services env \<or> \<not> cf_passive (conf w x))"

definition service_clear_flags :: "check_result \<Rightarrow> oid \<Rightarrow> world \<Rightarrow> world" where
  "service_clear_flags r x =
     upd_sched x (\<lambda>s. s\<lparr>sc_freshened := (if has_flag (cr_options r) opt_freshness then False else sc_freshened s),
                       sc_executing := (if cr_passive r then sc_executing s else False)\<rparr>)"

subsection \<open>What is taken from the result\<close>

definition show_int :: "int \<Rightarrow> string" where
  "show_int i = (if i < 0 then CHR ''-'' # dec (nat (- i)) else dec (nat i))"

definition out_of_bounds_text :: "int \<Rightarrow> string" where
  "out_of_bounds_text code =
     ''(Return code of '' @ show_int code @ '' is out of bounds'' @
     (if code = 126 then '' - plugin may not be executable''
      else if code = 127 then '' - plugin may be missing'' else []) @ '')''"

definition colons :: "string \<Rightarrow> string" where
  "colons s = map (\<lambda>c. if c = CHR '';'' then CHR '':'' else c) s"

definition service_outcome :: "check_result \<Rightarrow> ck_status \<Rightarrow> ck_status" where
  "service_outcome r s =
     (if \<not> cr_exited_ok r then s\<lparr>cs_output := ''(Service check did not exit properly)'', cs_state := state_unknown\<rparr>
      else if cr_return_code r < 0 \<or> cr_return_code r > 3
      then s\<lparr>cs_output := out_of_bounds_text (cr_return_code r), cs_state := state_unknown\<rparr>
      else
        (let (short, long, perf) = parse_check_output True False (cr_output r) in
         s\<lparr>cs_long_output := long, cs_perf_data := perf,
           cs_output := (if short = [] then ''(No output returned from plugin)'' else colons short),
           cs_state := nat (cr_return_code r)\<rparr>))"

definition service_take_result :: "check_result \<Rightarrow> oid \<Rightarrow> world \<Rightarrow> world" where
  "service_take_result r x w =
     (let last_check = int32 (cr_start r);
          w1 = upd_sched x (\<lambda>s. s\<lparr>sc_latency := cr_latency r, sc_execution_time := max 0 (cr_execution_time r),
                 sc_last_check := last_check\<rparr>) w in
      upd_status x (\<lambda>s.
        let s1 = service_outcome r (s\<lparr>cs_passive := cr_passive r, cs_last_state := cs_state s\<rparr>) in
        s1\<lparr>cs_last_time := (cs_last_time s1)(cs_state s1 := last_check)\<rparr>) w1)"

text \<open>A host that was never checked is checked with the first OK result of one of its services.\<close>

definition first_host_check :: "cenv \<Rightarrow> oid \<Rightarrow> world \<Rightarrow> bool" where
  "first_host_check env x w \<longleftrightarrow>
     (let h = host_of x in
      state w x = state_ok \<and> \<not> cs_checked (status w h) \<and>
      (cf_initial_state (conf w h) \<noteq> state_up \<or> sc_next_check (sched w h) = 0 \<or>
       ulong (sc_next_check (sched w h) - now env) > 300))"

subsection \<open>Attempts and changes\<close>

definition service_attempt :: "int \<Rightarrow> ck_status \<Rightarrow> int" where
  "service_attempt max_attempts s =
     (if cs_last_state s = state_ok \<and> cs_state s \<noteq> cs_last_state s then 1
      else if \<not> cs_hard s \<and> cs_attempt s < max_attempts then cs_attempt s + 1
      else cs_attempt s)"

definition service_count_attempt :: "oid \<Rightarrow> world \<Rightarrow> world" where
  "service_count_attempt x w =
     upd_status x (\<lambda>s. s\<lparr>cs_attempt := service_attempt (cf_max_attempts (conf w x)) s\<rparr>) w"

definition service_state_change :: "ck_status \<Rightarrow> bool" where
  "service_state_change s \<longleftrightarrow> cs_state s \<noteq> cs_last_state s"

definition service_hard_change :: "int \<Rightarrow> ck_status \<Rightarrow> bool" where
  "service_hard_change max_attempts s \<longleftrightarrow>
     (cs_host_problem s \<and> cs_state s = state_ok) \<or>
     (cs_attempt s \<ge> max_attempts \<and>
      (cs_state s \<noteq> cs_last_hard_state s \<or> cs_last_state_change s > cs_last_hard_state_change s))"

text \<open>A change resets the notifications and the acknowledgement.\<close>

definition service_reset_on_change :: "bool \<Rightarrow> bool \<Rightarrow> oid \<Rightarrow> world \<Rightarrow> world" where
  "service_reset_on_change changed hard_changed x w =
     (if changed \<or> hard_changed then
        (let w1 = reset_notifications x w; a = cs_ack (status w1 x) in
         if (a = Ack_normal \<and> (changed \<or> \<not> hard_changed)) \<or> (a = Ack_sticky \<and> state w1 x = state_ok)
         then delete_acknowledgement_comments x (upd_status x (\<lambda>s. s\<lparr>cs_ack := Ack_none\<rparr>) w1)
         else w1)
      else w)"

definition initial_times :: "int \<Rightarrow> ck_status \<Rightarrow> ck_status" where
  "initial_times t s =
     s\<lparr>cs_last_state_change := (if cs_last_state_change s = 0 then t else cs_last_state_change s),
       cs_last_hard_state_change := (if cs_last_hard_state_change s = 0 then t else cs_last_hard_state_change s)\<rparr>"

definition service_change_times :: "bool \<Rightarrow> bool \<Rightarrow> oid \<Rightarrow> world \<Rightarrow> world" where
  "service_change_times changed hard_changed x w =
     (let t = sc_last_check (sched w x) in
      upd_status x (\<lambda>s. s\<lparr>cs_last_state_change := (if changed then t else cs_last_state_change s),
                         cs_last_hard_state_change := (if hard_changed then t else cs_last_hard_state_change s)\<rparr>)
        (upd_status (host_of x) (initial_times t) (upd_status x (initial_times t) w)))"

text \<open>The identifiers of the event and of the problem, of hosts and services.\<close>

definition next_ids :: "oid \<Rightarrow> world \<Rightarrow> world" where
  "next_ids x w =
     (let s = status w x;
          starts = (cs_last_state s = state_ok);
          pid = (if starts then w_next_problem_id w else cs_problem_id s);
          ends = (cs_state s = state_ok) in
      (upd_status x (\<lambda>s. s\<lparr>cs_last_event_id := cs_event_id s, cs_event_id := w_next_event_id w,
          cs_problem_id := (if ends then 0 else pid),
          cs_last_problem_id := (if ends then pid else cs_last_problem_id s)\<rparr>) w)
        \<lparr>w_next_event_id := w_next_event_id w + 1,
         w_next_problem_id := (if starts then w_next_problem_id w + 1 else w_next_problem_id w)\<rparr>)"

definition service_note_change :: "bool \<Rightarrow> bool \<Rightarrow> oid \<Rightarrow> world \<Rightarrow> world" where
  "service_note_change changed hard_changed x w =
     (let w1 = service_change_times changed hard_changed x (service_reset_on_change changed hard_changed x w) in
      if changed then next_ids x w1 else w1)"

subsection \<open>The result is OK\<close>

definition cached_host_state :: "cenv \<Rightarrow> oid \<Rightarrow> world \<Rightarrow> bool" where
  "cached_host_state env h w \<longleftrightarrow>
     cs_checked (status w h) \<and> ulong (now env - sc_last_check (sched w h)) \<le> ucast (ce_cached_host_horizon env)"

definition service_check_route :: "cenv \<Rightarrow> bool \<Rightarrow> oid \<Rightarrow> world \<Rightarrow> world option" where
  "service_check_route env first_check x w =
     (let h = host_of x in
      if state w h \<noteq> state_up \<and> \<not> first_check \<and> \<not> cached_host_state env h w then host_on_demand_check env h w
      else Some w)"

definition both_check_for_flapping :: "cenv \<Rightarrow> oid \<Rightarrow> world \<Rightarrow> world option" where
  "both_check_for_flapping env x w =
     Option.bind (service_check_for_flapping env True True x w)
       (host_check_for_flapping env True False True (host_of x))"

text \<open>A hard recovery, with the first of the two notifications.\<close>

definition service_hard_recovery :: "cenv \<Rightarrow> oid \<Rightarrow> world \<Rightarrow> world option" where
  "service_hard_recovery env x w =
     (let w1 = upd_status x (\<lambda>s. s\<lparr>cs_hard := True, cs_last_hard_state_change := sc_last_check (sched w x),
                 cs_attempt := 1\<rparr>) w in
      do {
        w2 \<leftarrow> both_check_for_flapping env x (service_log_event env x w1);
        w3 \<leftarrow> notify_object env Reason_recovery [] [] x w2;
        Some (handle_event env x w3)
      })"

definition service_soft_recovery :: "cenv \<Rightarrow> oid \<Rightarrow> world \<Rightarrow> world" where
  "service_soft_recovery env x w =
     (let attempt = cf_max_attempts (conf w x) - 1 in
      handle_event env x (service_log_event env x
        (upd_status x (\<lambda>s. s\<lparr>cs_hard := False, cs_attempt := (if attempt < 1 then 1 else attempt)\<rparr>) w)))"

definition service_ok_reset :: "oid \<Rightarrow> world \<Rightarrow> world" where
  "service_ok_reset x w =
     upd_status x (\<lambda>s. s\<lparr>cs_ack := Ack_none\<rparr>)
       (reset_notifications x (upd_status x (\<lambda>s. s\<lparr>cs_host_problem := False, cs_last_hard_state := state_ok\<rparr>) w))"

text \<open>The next world, whether the state was logged and flapping checked.\<close>

definition service_ok :: "cenv \<Rightarrow> bool \<Rightarrow> bool \<Rightarrow> bool \<Rightarrow> oid \<Rightarrow> world \<Rightarrow> (world \<times> bool \<times> bool) option" where
  "service_ok env changed hard_changed first_check x w =
     do {
       w1 \<leftarrow> service_check_route env first_check x (upd_status x (\<lambda>s. s\<lparr>cs_ack := Ack_none\<rparr>) w);
       w2 \<leftarrow> (if hard_changed then service_hard_recovery env x w1
              else Some (if changed then service_soft_recovery env x w1 else w1));
       w3 \<leftarrow> notify_object env Reason_recovery [] [] x w2;
       Some (service_ok_reset x (obsess (ce_obsess_services env) x w3),
             hard_changed \<or> changed, hard_changed)
     }"

subsection \<open>The result is a problem\<close>

text \<open>The state of the route is that of the host in every branch.\<close>

definition service_problem_route :: "cenv \<Rightarrow> bool \<Rightarrow> oid \<Rightarrow> world \<Rightarrow> world option" where
  "service_problem_route env changed x w =
     (let h = host_of x in
      if state w h = state_up then
        (if \<not> cached_host_state env h w \<and> changed then host_on_demand_check env h w else Some w)
      else
        (let w1 = (if \<not> cs_checked (status w h)
                   then upd_sched h (\<lambda>s. s\<lparr>sc_last_check := int32 (sc_last_check (sched w x))\<rparr>)
                          (upd_status h (\<lambda>s. s\<lparr>cs_checked := True\<rparr>) w)
                   else w) in
         notify_object env Reason_normal [] [] h w1))"

text \<open>The host is not up: a hard state without retries. The host has recovered: the attempts start again.\<close>

definition service_host_down :: "bool \<Rightarrow> bool \<Rightarrow> oid \<Rightarrow> world \<Rightarrow> bool \<times> world" where
  "service_host_down changed hard_changed0 x w =
     (let t = sc_last_check (sched w x);
          hard_changed = (hard_changed0 \<or> cs_last_hard_state (status w x) \<noteq> state w x) in
      (hard_changed,
       upd_status x (\<lambda>s. s\<lparr>cs_last_state_change := (if changed \<or> hard_changed then t else cs_last_state_change s),
           cs_last_hard_state_change := (if hard_changed then t else cs_last_hard_state_change s),
           cs_hard := (hard_changed \<or> cs_hard s),
           cs_last_hard_state := (if hard_changed then cs_state s else cs_last_hard_state s),
           cs_host_problem := True\<rparr>) w))"

definition service_host_recovered :: "oid \<Rightarrow> world \<Rightarrow> world" where
  "service_host_recovered x w =
     (if cs_host_problem (status w x) then
        upd_status x (\<lambda>s. s\<lparr>cs_host_problem := False, cs_attempt := (if cs_hard s then cs_attempt s else 1)\<rparr>) w
      else w)"

definition regular_time :: "cenv \<Rightarrow> oid \<Rightarrow> world \<Rightarrow> int" where
  "regular_time env x w = sc_last_check (sched w x) + check_delay env (conf w x)"

text \<open>Attempts are left: the next world, whether the state was logged, and the time of the next check.\<close>

definition service_retry :: "cenv \<Rightarrow> bool \<Rightarrow> oid \<Rightarrow> world \<Rightarrow> world \<times> bool \<times> int" where
  "service_retry env hard_changed x w =
     (if state w (host_of x) \<noteq> state_up then
        (if hard_changed then handle_event env x (service_log_event env x w) else w, hard_changed, regular_time env x w)
      else
        (handle_event env x (service_log_event env x (upd_status x (\<lambda>s. s\<lparr>cs_hard := False\<rparr>) w)), True,
         sc_last_check (sched w x) + retry_delay env (conf w x)))"

definition service_predictive :: "cenv \<Rightarrow> oid \<Rightarrow> world \<Rightarrow> oid list" where
  "service_predictive env x w =
     (if ce_predictive_services env \<and> cs_attempt (status w x) = cf_max_attempts (conf w x) - 1
      then cf_masters (conf w x) else [])"

text \<open>No attempts are left.\<close>

definition service_hard_problem :: "cenv \<Rightarrow> bool \<Rightarrow> bool \<Rightarrow> oid \<Rightarrow> world \<Rightarrow> world option" where
  "service_hard_problem env changed hard_changed x w =
     (let loud = (hard_changed \<or> cf_volatile (conf w x));
          w1 = upd_status x (\<lambda>s. s\<lparr>cs_hard := True\<rparr>) w;
          w2 = (if loud then service_log_event env x w1 else w1) in
      do {
        w3 \<leftarrow> (if (hard_changed \<or> changed) \<and> ck_pending_flex (w_ck w2 x) > 0
               then check_pending_flex_downtime env x w2 else Some w2);
        w4 \<leftarrow> both_check_for_flapping env x w3;
        w5 \<leftarrow> notify_object env Reason_normal [] [] x w4;
        Some (upd_status x (\<lambda>s. s\<lparr>cs_last_hard_state := cs_state s\<rparr>) (if loud then handle_event env x w5 else w5))
      })"

text \<open>What the two logics hand on: whether the state was logged and flapping checked, the next check, other services to check.\<close>

type_synonym verdict = "world \<times> bool \<times> bool \<times> int \<times> oid list"

definition service_host_effect :: "bool \<Rightarrow> bool \<Rightarrow> oid \<Rightarrow> world \<Rightarrow> bool \<times> world" where
  "service_host_effect changed hard_changed x w =
     (if state w (host_of x) \<noteq> state_up then service_host_down changed hard_changed x w
      else (hard_changed, service_host_recovered x w))"

definition service_attempts :: "cenv \<Rightarrow> bool \<Rightarrow> bool \<Rightarrow> oid \<Rightarrow> world \<Rightarrow> verdict option" where
  "service_attempts env changed hard_changed x w =
     (if cs_attempt (status w x) < cf_max_attempts (conf w x) then
        (let (w1, logged, t) = service_retry env hard_changed x w in
         Some (w1, logged, False, t, service_predictive env x w1))
      else
        map_option (\<lambda>w1. (w1, hard_changed \<or> cf_volatile (conf w x), True, regular_time env x w1, []))
          (service_hard_problem env changed hard_changed x w))"

definition service_problem :: "cenv \<Rightarrow> bool \<Rightarrow> bool \<Rightarrow> oid \<Rightarrow> world \<Rightarrow> verdict option" where
  "service_problem env changed hard_changed0 x w =
     do {
       w1 \<leftarrow> service_problem_route env changed x w;
       let (hard_changed, w2) = service_host_effect changed hard_changed0 x w1;
       (w3, rest) \<leftarrow> service_attempts env changed hard_changed x w2;
       Some (obsess (ce_obsess_services env) x w3, rest)
     }"

subsection \<open>The next check\<close>

definition service_reschedule :: "cenv \<Rightarrow> int \<Rightarrow> oid \<Rightarrow> world \<Rightarrow> bool \<times> world" where
  "service_reschedule env t x w =
     (let c = conf w x;
          next_check = get_next_valid_time env (if now env > t then now env else t) (cf_check_period c);
          should = (cf_check_interval c \<noteq> 0 \<and> cf_active c);
          w1 = upd_sched x (\<lambda>s. s\<lparr>sc_next_check := next_check, sc_should := should\<rparr>) w in
      if should then service_schedule_check env x next_check 0 True w1 else (False, w1))"

definition service_stalk :: "cenv \<Rightarrow> bool \<Rightarrow> bool \<Rightarrow> string \<Rightarrow> oid \<Rightarrow> world \<Rightarrow> world" where
  "service_stalk env changed logged old_output x w =
     (if cs_hard (status w x) \<and> \<not> changed \<and> \<not> logged \<and> old_output \<noteq> cs_output (status w x) \<and>
         cf_stalk_on (conf w x) (state w x)
      then service_log_event env x w else w)"

definition service_send_status :: "bool \<Rightarrow> bool \<Rightarrow> oid \<Rightarrow> world \<Rightarrow> world" where
  "service_send_status reschedule need_update x w =
     (let first = (\<not> (reschedule \<and> sc_should (sched w x) \<and> cs_checked (status w x)) \<or> \<not> cf_active (conf w x));
          w1 = (if first then upd_status x (\<lambda>s. s\<lparr>cs_checked := True\<rparr>) w else w) in
      if first \<or> need_update then update_status x w1 else w1)"

fun service_check_others :: "cenv \<Rightarrow> oid list \<Rightarrow> world \<Rightarrow> world option" where
  "service_check_others env [] w = Some w"
| "service_check_others env (y # ys) w =
     (if ulong (now env - sc_last_check (sched w y)) \<le> ucast (ce_cached_service_horizon env) \<or> sc_executing (sched w y)
      then service_check_others env ys w
      else Option.bind (service_on_demand_check env y w) (service_check_others env ys))"

definition service_finish :: "cenv \<Rightarrow> bool \<Rightarrow> bool \<Rightarrow> string \<Rightarrow> oid \<Rightarrow> verdict \<Rightarrow> world option" where
  "service_finish env reschedule changed old_output x v =
     (case v of (w, logged, flapped, t, others) \<Rightarrow>
        (let (need_update, w1) = (if reschedule then service_reschedule env t x w else (False, w));
             w2 = emit (Check_processed x) (service_stalk env changed logged old_output x w1);
             w3 = service_send_status reschedule need_update x w2 in
         do {
           w4 \<leftarrow> (if flapped then Some w3 else both_check_for_flapping env x w3);
           service_check_others env others w4
         }))"

subsection \<open>The handler\<close>

definition service_decide :: "cenv \<Rightarrow> bool \<Rightarrow> bool \<Rightarrow> bool \<Rightarrow> oid \<Rightarrow> world \<Rightarrow> verdict option" where
  "service_decide env changed hard_changed first_check x w =
     (if state w x = state_ok then
        map_option (\<lambda>(w1, logged, flapped). (w1, logged, flapped, regular_time env x w1, []))
          (service_ok env changed hard_changed first_check x w)
      else service_problem env changed hard_changed x w)"

definition service_process :: "cenv \<Rightarrow> check_result \<Rightarrow> oid \<Rightarrow> world \<Rightarrow> world option" where
  "service_process env r x w =
     (let w1 = service_take_result r x w; first_check = first_host_check env x w1 in
      do {
        w2 \<leftarrow> (if first_check then host_on_demand_check env (host_of x) w1 else Some w1);
        let w3 = service_count_attempt x w2;
        let changed = service_state_change (status w3 x);
        let hard_changed = service_hard_change (cf_max_attempts (conf w3 x)) (status w3 x);
        v \<leftarrow> service_decide env changed hard_changed first_check x (service_note_change changed hard_changed x w3);
        service_finish env (cr_reschedule r \<or> changed \<or> hard_changed) changed (cs_output (status w x)) x v
      })"

definition service_handle_async_check_result :: "cenv \<Rightarrow> check_result \<Rightarrow> oid \<Rightarrow> world \<Rightarrow> (bool \<times> world) option" where
  "service_handle_async_check_result env r x w =
     (let w1 = (if \<not> cr_passive r \<and> w_running_services w > 0
                then w\<lparr>w_running_services := w_running_services w - 1\<rparr> else w) in
      if service_rejects env r x w1 then Some (False, w1)
      else
        (let w2 = service_clear_flags r x w1 in
         if has_flag (cr_options r) opt_freshness \<and> is_result_fresh env x w2 then Some (True, w2)
         else map_option (Pair True) (service_process env r x w2)))"

end
