(* ===== verification/Host_Check.thy ===== *)
theory Host_Check
  imports Service_Check
begin

section \<open>Results of host checks\<close>

text \<open>
  Models \<open>handle_async_check_result_3x\<close>, \<open>process_check_result_3x\<close>, \<open>handle_state\<close>,
  \<open>determine_host_reachability\<close> and \<open>_switch_all_services_to_unknown\<close> of \<^verbatim>\<open>engine/src/host.cc\<close>, and the
  synchronous checks of \<^verbatim>\<open>engine/src/checks/checker.cc\<close> that a host with one attempt makes of its parents. The
  recursion through the parents is \<open>None\<close> when it does not end. A \<open>None\<close> in the list of the parents or children is
  a name whose host is missing. \<open>check_options\<close> is 0 and \<open>use_cached_result\<close> true in every call.
\<close>

subsection \<open>Reachability\<close>

definition present :: "nat option list \<Rightarrow> oid list" where
  "present hs = map (\<lambda>h. Hst (the h)) (filter (\<lambda>h. h \<noteq> None) hs)"

definition determine_host_reachability :: "nat \<Rightarrow> oid \<Rightarrow> world \<Rightarrow> nat" where
  "determine_host_reachability new_state x w =
     (if new_state = state_up then state_up
      else if cf_parents (conf w x) = [] then state_down
      else if list_ex (\<lambda>p. state w p = state_up) (present (cf_parents (conf w x))) then state_down
      else state_unreachable)"

subsection \<open>The state handler\<close>

definition host_state_change :: "ck_status \<Rightarrow> bool" where
  "host_state_change s \<longleftrightarrow>
     cs_last_state s \<noteq> cs_state s \<or> cs_last_hard_state s \<noteq> cs_state s \<or> (cs_state s = state_up \<and> \<not> cs_hard s)"

definition host_change_times :: "cenv \<Rightarrow> oid \<Rightarrow> world \<Rightarrow> world" where
  "host_change_times env x =
     upd_status x (\<lambda>s. s\<lparr>
       cs_last_state_change := (if \<not> cs_hard s \<or> cs_last_state s \<noteq> cs_state s then now env else cs_last_state_change s),
       cs_last_hard_state_change := (if cs_hard s then now env else cs_last_hard_state_change s)\<rparr>)"

definition host_reset_ack :: "oid \<Rightarrow> world \<Rightarrow> world" where
  "host_reset_ack x w =
     (let s = status w x in
      if cs_ack s = Ack_normal \<or> (cs_ack s = Ack_sticky \<and> cs_state s = state_up)
      then delete_acknowledgement_comments x (upd_status x (\<lambda>s. s\<lparr>cs_ack := Ack_none\<rparr>) w)
      else w)"

definition host_log_change :: "cenv \<Rightarrow> oid \<Rightarrow> world \<Rightarrow> world" where
  "host_log_change env x w =
     (if cs_hard (status w x) \<or> ce_log_host_retries env then host_log_event x w else w)"

definition state_notification :: "oid \<Rightarrow> world \<Rightarrow> reason" where
  "state_notification x w = (if state w x = state_up then Reason_recovery else Reason_normal)"

text \<open>The services of a host that is down get an UNKNOWN result each.\<close>

definition unknown_result :: "cenv \<Rightarrow> string \<Rightarrow> oid \<Rightarrow> check_result" where
  "unknown_result env output y =
     (new_result env y 0 False 0)\<lparr>cr_return_code := int state_unknown, cr_output := output\<rparr>"

definition switch_all_services_to_unknown :: "cenv \<Rightarrow> oid \<Rightarrow> world \<Rightarrow> world" where
  "switch_all_services_to_unknown env x w =
     fold (\<lambda>(h, s). add_check_result_to_reap (unknown_result env (''host '' @ cf_name (conf w x) @ '' is down'') (Svc h s)))
       (filter (\<lambda>(h, s). Hst h = x) (w_services w)) w"

definition host_changed :: "cenv \<Rightarrow> oid \<Rightarrow> world \<Rightarrow> world option" where
  "host_changed env x w =
     (let w1 = host_log_change env x (reset_notifications x (host_reset_ack x (next_ids x (host_change_times env x w)))) in
      do {
        w2 \<leftarrow> check_pending_flex_downtime env x w1;
        w3 \<leftarrow> notify_object env (state_notification x w2) [] [] x w2;
        let w4 = handle_event env x w3;
        Some (if state w4 x = state_up then upd_status x (\<lambda>s. s\<lparr>cs_attempt := 1\<rparr>) w4 else w4)
      })"

definition host_handle_state :: "cenv \<Rightarrow> oid \<Rightarrow> world \<Rightarrow> world option" where
  "host_handle_state env x w =
     (let w1 = upd_status x (\<lambda>s. s\<lparr>cs_last_time := (cs_last_time s)(cs_state s := now env)\<rparr>)
                 (obsess (ce_obsess_hosts env) x w);
          switch = (state w1 x \<noteq> state_up \<and> ce_host_down_disable env \<and> cs_hard (status w1 x)) in
      if host_state_change (status w1 x) then
        map_option (\<lambda>w2. if switch then switch_all_services_to_unknown env x w2 else w2) (host_changed env x w1)
      else
        map_option (\<lambda>w2. if \<not> cs_hard (status w2 x) \<and> ce_log_host_retries env then host_log_event x w2 else w2)
          (notify_object env (state_notification x w1) [] [] x w1))"

subsection \<open>The new state\<close>

text \<open>
  The parents and children whose checks follow. What a branch decides: whether the check is rescheduled, when, and the
  hosts to check.
\<close>

definition parents_with :: "(nat \<Rightarrow> bool) \<Rightarrow> oid \<Rightarrow> world \<Rightarrow> oid list" where
  "parents_with P x w = filter (\<lambda>p. P (state w p)) (present (cf_parents (conf w x)))"

definition children_with :: "(nat \<Rightarrow> bool) \<Rightarrow> oid \<Rightarrow> world \<Rightarrow> oid list" where
  "children_with P x w = filter (\<lambda>c. P (state w c)) (present (cf_children (conf w x)))"

definition retry_at :: "cenv \<Rightarrow> oid \<Rightarrow> world \<Rightarrow> int" where
  "retry_at env x w = sc_last_check (sched w x) + retry_delay env (conf w x)"

definition host_was_down :: "cenv \<Rightarrow> nat \<Rightarrow> bool \<Rightarrow> oid \<Rightarrow> world \<Rightarrow> world \<times> bool \<times> int \<times> oid list" where
  "host_was_down env new_state reschedule x w =
     (if new_state = state_up then
        (let w1 = upd_status x (\<lambda>s. s\<lparr>cs_state := state_up\<rparr>) w in
         (w1, True, regular_time env x w1,
          parents_with (\<lambda>s. s \<noteq> state_up) x w1 @ children_with (\<lambda>s. s \<noteq> state_up) x w1))
      else
        (let a = cs_attempt (status w x);
             w1 = upd_status x (\<lambda>s. s\<lparr>cs_hard := (a = cf_max_attempts (conf w x) \<or> a = 1)\<rparr>) w;
             w2 = upd_status x (\<lambda>s. s\<lparr>cs_state := determine_host_reachability new_state x w1\<rparr>) w1;
             s = status w2 x;
             changed = (cs_last_state s \<noteq> cs_state s \<or> cs_last_hard_state s \<noteq> cs_state s) in
         (w2, reschedule \<or> changed, if changed \<and> \<not> cs_hard s then retry_at env x w2 else regular_time env x w2, [])))"

text \<open>
  A host that was UP and has one attempt takes the first parent that is UP as a sign that it is DOWN itself; \<open>parent\<close>
  is the state of the last parent that was checked.
\<close>

definition serial_state :: "nat \<Rightarrow> nat \<Rightarrow> oid \<Rightarrow> world \<Rightarrow> nat" where
  "serial_state new_state parent x w =
     (if cs_passive (status w x) then determine_host_reachability new_state x w
      else if present (cf_parents (conf w x)) \<noteq> [] then (if parent = state_up then state_down else state w x)
      else if cf_parents (conf w x) = [] then state_down
      else state_unreachable)"

definition host_single_attempt :: "cenv \<Rightarrow> nat \<Rightarrow> nat \<Rightarrow> oid \<Rightarrow> world \<Rightarrow> world \<times> bool \<times> int \<times> oid list" where
  "host_single_attempt env new_state parent x w =
     (let w1 = upd_status x (\<lambda>s. s\<lparr>cs_state := serial_state new_state parent x w\<rparr>) w in
      (w1, True, regular_time env x w1, children_with (\<lambda>s. s \<noteq> state_unreachable) x w1))"

definition host_was_up :: "cenv \<Rightarrow> nat \<Rightarrow> bool \<Rightarrow> oid \<Rightarrow> world \<Rightarrow> world \<times> bool \<times> int \<times> oid list" where
  "host_was_up env new_state reschedule x w =
     (if new_state = state_up then
        (let w1 = upd_status x (\<lambda>s. s\<lparr>cs_state := state_up, cs_hard := True\<rparr>) w in
         (w1, reschedule, regular_time env x w1, []))
      else
        (let w1 = upd_status x (\<lambda>s. s\<lparr>cs_hard := False\<rparr>) w;
             w2 = upd_status x (\<lambda>s. s\<lparr>cs_state := determine_host_reachability new_state x w1\<rparr>) w1 in
         (w2, True, retry_at env x w2,
          parents_with (\<lambda>s. s = state_up) x w2 @ children_with (\<lambda>s. s \<noteq> state_unreachable) x w2 @
          (if ce_predictive_hosts env \<and> cs_attempt (status w2 x) = cf_max_attempts (conf w2 x) - 1
           then cf_masters (conf w2 x) else []))))"

definition single_attempt :: "nat \<Rightarrow> oid \<Rightarrow> world \<Rightarrow> bool" where
  "single_attempt new_state x w \<longleftrightarrow>
     state w x = state_up \<and> new_state \<noteq> state_up \<and> cf_max_attempts (conf w x) = 1"

subsection \<open>After the new state\<close>

definition host_stalk :: "string \<Rightarrow> oid \<Rightarrow> world \<Rightarrow> world" where
  "host_stalk old_output x w =
     (let s = status w x in
      if cs_last_state s = cs_state s \<and> old_output = cs_output s \<and> cf_stalk_on (conf w x) (cs_state s)
      then host_log_event x w else w)"

definition host_reschedule :: "cenv \<Rightarrow> int \<Rightarrow> oid \<Rightarrow> world \<Rightarrow> bool \<times> world" where
  "host_reschedule env t x w =
     (let c = conf w x; s = status w x;
          next_check = get_next_valid_time env (if now env > t then now env else t) (cf_check_period c);
          should = (\<not> (cf_check_interval c = 0 \<and> (cs_hard s \<or> cs_state s = state_up)) \<and> cf_active c);
          w1 = upd_sched x (\<lambda>s. s\<lparr>sc_next_check := next_check, sc_should := should\<rparr>) w in
      if should then host_schedule_check env x next_check 0 False w1 else (False, w1))"

fun host_check_others :: "cenv \<Rightarrow> oid list \<Rightarrow> world \<Rightarrow> world option" where
  "host_check_others env [] w = Some w"
| "host_check_others env (y # ys) w =
     (if ulong (now env - sc_last_check (sched w y)) \<le> ucast (ce_cached_host_horizon env) \<or> sc_executing (sched w y)
      then host_check_others env ys w
      else Option.bind (host_on_demand_check env y w) (host_check_others env ys))"

definition host_finish :: "cenv \<Rightarrow> string \<Rightarrow> oid \<Rightarrow> world \<times> bool \<times> int \<times> oid list \<Rightarrow> world option" where
  "host_finish env old_output x b =
     (case b of (w, reschedule, t, others) \<Rightarrow>
        do {
          w1 \<leftarrow> host_handle_state env x w;
          w2 \<leftarrow> host_check_for_flapping env True True True x (host_stalk old_output x w1);
          let (sent, w3) = (if reschedule then host_reschedule env t x w2 else (False, w2));
          host_check_others env others (if sent then w3 else update_status x w3)
        })"

text \<open>\<open>process_check_result_3x\<close> behind the serial checks of the parents; \<open>single\<close> is the case that makes them.\<close>

definition host_process_rest :: "cenv \<Rightarrow> bool \<Rightarrow> nat \<Rightarrow> nat \<Rightarrow> string \<Rightarrow> bool \<Rightarrow> oid \<Rightarrow> world \<Rightarrow> world option" where
  "host_process_rest env single new_state parent old_output reschedule x w =
     host_finish env old_output x
       (if single then host_single_attempt env new_state parent x w
        else if state w x \<noteq> state_up then host_was_down env new_state reschedule x w
        else host_was_up env new_state reschedule x w)"

definition set_hard :: "oid \<Rightarrow> world \<Rightarrow> world" where
  "set_hard x = upd_status x (\<lambda>s. s\<lparr>cs_hard := True\<rparr>)"

subsection \<open>Synchronous checks\<close>

definition host_output :: "string \<Rightarrow> string" where
  "host_output short = colons (if short = [] then ''(No output returned from host check)'' else short)"

definition execution_failed :: "string \<Rightarrow> sync_result" where
  "execution_failed reason = \<lparr>sr_exit_code = int state_unknown, sr_timeout = False, sr_seconds = 0, sr_output = reason\<rparr>"

definition sync_output :: "cenv \<Rightarrow> oid \<Rightarrow> sync_result" where
  "sync_output env x =
     (let r = (if \<not> ce_allowed env x then execution_failed ''UNKNOWN: this command cannot be executed because of security restrictions on the poller. A whitelist has been defined, and it does not include this command.''
               else (case ce_sync env x of Some r \<Rightarrow> r | None \<Rightarrow> execution_failed ''(Execute command failed)'')) in
      if sr_timeout r
      then r\<lparr>sr_output := ''Host check timed out after '' @ show_int (ce_host_timeout env) @ ''  seconds''\<rparr>
      else r)"

text \<open>\<open>_execute_sync\<close>: the state that the command gives.\<close>

definition execute_sync :: "cenv \<Rightarrow> oid \<Rightarrow> world \<Rightarrow> nat \<times> world" where
  "execute_sync env x w =
     (if ce_sync_precheck env \<noteq> Neb_ok then (state w x, w)
      else
        (let r = sync_output env x;
             (short, long, perf) = parse_check_output True False (sr_output r);
             empty_command = cf_command_empty (conf w x);
             code = (if empty_command then int state_ok else sr_exit_code r);
             w1 = upd_sched x (\<lambda>s. s\<lparr>sc_last_check := int32 (now env), sc_execution_time := of_nat (sr_seconds r)\<rparr>) w in
         (if code = int state_warning \<or> code = int state_ok then state_up else state_down,
          upd_status x (\<lambda>s. s\<lparr>cs_passive := False, cs_long_output := long, cs_perf_data := perf,
              cs_output := host_output (if empty_command then ''(Host assumed to be UP)'' else short)\<rparr>) w1)))"

text \<open>The members that \<open>run_sync\<close> sets before the command.\<close>

definition sync_prepare :: "oid \<Rightarrow> world \<Rightarrow> world" where
  "sync_prepare x w =
     upd_status x (\<lambda>s. s\<lparr>cs_last_state := cs_state s,
         cs_last_hard_state := (if cs_hard s then cs_state s else cs_last_hard_state s),
         cs_checked := True, cs_passive := False\<rparr>)
       (upd_sched x (\<lambda>s. s\<lparr>sc_freshened := False, sc_options := 0\<rparr>)
         (adjust_check_attempt True x (upd_sched x (\<lambda>s. s\<lparr>sc_latency := 0\<rparr>) w)))"

text \<open>
  \<open>run_sync\<close> up to \<open>process_check_result_3x\<close>: the state of the host when no command runs, or the new state with the
  output to compare. An exception leaves the last state of a parent.
\<close>

definition run_sync_start :: "cenv \<Rightarrow> nat \<Rightarrow> oid \<Rightarrow> world \<Rightarrow> (nat + (nat \<times> string \<times> world)) option" where
  "run_sync_start env parent x w =
     (if \<not> cf_has_command (conf w x) then Some (Inl parent)
      else
        (case verify_check_viability env 0 x w of
           None \<Rightarrow> None
         | Some (viable, _) \<Rightarrow>
             (if \<not> viable \<or> cached_host_state env x w then Some (Inl (state w x))
              else
                (let (new_state, w1) = execute_sync env x (sync_prepare x w) in
                 Some (Inr (new_state, cs_output (status w x), w1))))))"

partial_function (option) sync_parents :: "cenv \<Rightarrow> oid list \<Rightarrow> nat \<Rightarrow> world \<Rightarrow> (nat \<times> world) option" where
  "sync_parents env ps parent w =
     (case ps of
        [] \<Rightarrow> Some (parent, w)
      | p # ps' \<Rightarrow>
          Option.bind (run_sync_start env parent p w) (\<lambda>start.
          Option.bind
            (case start of
               Inl st \<Rightarrow> Some (st, w)
             | Inr (new_state, old_output, w1) \<Rightarrow>
                 (if single_attempt new_state p w1 then
                    Option.bind (sync_parents env (present (cf_parents (conf w1 p))) state_up (set_hard p w1)) (\<lambda>(grandparent, w2).
                    Option.bind (host_process_rest env True new_state grandparent old_output False p w2) (\<lambda>w3.
                    Some (state w3 p, emit (Check_processed p) w3)))
                  else
                    Option.bind (host_process_rest env False new_state state_up old_output False p w1) (\<lambda>w3.
                    Some (state w3 p, emit (Check_processed p) w3))))
            (\<lambda>(st, w4). if st = state_up then Some (st, w4) else sync_parents env ps' st w4)))"

subsection \<open>The handler\<close>

definition host_process :: "cenv \<Rightarrow> nat \<Rightarrow> string \<Rightarrow> bool \<Rightarrow> oid \<Rightarrow> world \<Rightarrow> world option" where
  "host_process env new_state old_output reschedule x w =
     (let w1 = (if cs_passive (status w x) then adjust_check_attempt False x w else w) in
      if single_attempt new_state x w1 then
        do {
          (parent, w2) \<leftarrow>
            (if cs_passive (status w1 x) then Some (state_up, set_hard x w1)
             else sync_parents env (present (cf_parents (conf w1 x))) state_up (set_hard x w1));
          host_process_rest env True new_state parent old_output reschedule x w2
        }
      else host_process_rest env False new_state state_up old_output reschedule x w1)"

definition host_rejects :: "cenv \<Rightarrow> check_result \<Rightarrow> oid \<Rightarrow> world \<Rightarrow> bool" where
  "host_rejects env r x w \<longleftrightarrow>
     cr_passive r \<and> (\<not> ce_accept_passive_hosts env \<or> \<not> cf_passive (conf w x))"

text \<open>The output and the state of a result; of the state of a passive result only whether it is UP matters.\<close>

definition host_out_of_bounds_text :: "int \<Rightarrow> string" where
  "host_out_of_bounds_text code =
     ''(Return code of '' @ show_int code @ '' is out of bounds'' @
     (if code = 126 \<or> code = 127 then '' - plugin may be missing'' else []) @ '')''"

definition host_outcome :: "check_result \<Rightarrow> bool \<Rightarrow> ck_status \<Rightarrow> ck_status" where
  "host_outcome r empty_command s =
     (let (short, long, perf) = parse_check_output True False (cr_output r);
          code = cr_return_code r;
          s1 = s\<lparr>cs_output := host_output short, cs_long_output := long, cs_perf_data := perf\<rparr>;
          s2 = (if cr_passive r then s1
                else if \<not> cr_exited_ok r
                then s1\<lparr>cs_output := ''(Host check did not exit properly)'', cs_long_output := [], cs_perf_data := []\<rparr>
                else if code < 0 \<or> code > 3
                then s1\<lparr>cs_output := host_out_of_bounds_text code, cs_long_output := [], cs_perf_data := []\<rparr>
                else s1) in
      if \<not> cr_passive r \<and> empty_command then s2\<lparr>cs_output := ''(Host assumed to be UP)''\<rparr> else s2)"

definition host_new_state :: "check_result \<Rightarrow> bool \<Rightarrow> nat" where
  "host_new_state r empty_command =
     (let code = cr_return_code r in
      if cr_passive r then (if code < 0 then state_down else nat code)
      else if empty_command then state_up
      else if cr_exited_ok r \<and> (code = int state_ok \<or> code = int state_warning) then state_up
      else state_down)"

definition host_take_result :: "check_result \<Rightarrow> oid \<Rightarrow> world \<Rightarrow> world" where
  "host_take_result r x w =
     (let w1 = upd_status x (\<lambda>s. (initial_times (sc_last_check (sched w x)) s)\<lparr>cs_passive := cr_passive r, cs_checked := True,
                 cs_last_state := cs_state s,
                 cs_last_hard_state := (if cs_hard s then cs_state s else cs_last_hard_state s)\<rparr>) w;
          w2 = upd_sched x (\<lambda>s. s\<lparr>sc_reschedule_current := False, sc_latency := cr_latency r,
                 sc_execution_time := max 0 (cr_execution_time r),
                 sc_executing := (if cr_passive r then sc_executing s else False),
                 sc_last_check := int32 (cr_start r)\<rparr>) w1 in
      upd_status x (host_outcome r (cf_command_empty (conf w x))) w2)"

definition host_handle_async_check_result_3x :: "cenv \<Rightarrow> check_result \<Rightarrow> oid \<Rightarrow> world \<Rightarrow> (bool \<times> world) option" where
  "host_handle_async_check_result_3x env r x w =
     (let w1 = (if \<not> cr_passive r \<and> w_running_hosts w > 0 then w\<lparr>w_running_hosts := w_running_hosts w - 1\<rparr> else w) in
      if host_rejects env r x w1 then Some (False, w1)
      else
        (let w2 = (if has_flag (cr_options r) opt_freshness
                   then upd_sched x (\<lambda>s. s\<lparr>sc_freshened := False\<rparr>) w1 else w1) in
         if has_flag (cr_options r) opt_freshness \<and> is_result_fresh env x w2 then Some (True, w2)
         else
           map_option (\<lambda>w3. (True, emit (Check_processed x) w3))
             (host_process env (host_new_state r (cf_command_empty (conf w2 x))) (cs_output (status w2 x))
               (cr_reschedule r \<or> sc_reschedule_current (sched w2 x)) x (host_take_result r x w2))))"

end
