(* ===== verification/Check_Reaper.thy ===== *)
theory Check_Reaper
  imports Host_Check
begin

section \<open>The queue of check results\<close>

text \<open>
  Models \<^verbatim>\<open>engine/src/checks/checker.cc\<close>: the results of commands that have finished, the objects to forget, and
  \<open>reap\<close>, which hands the results to the handlers of hosts and services. Two lists are swapped at the start of
  \<open>reap\<close>; after 30 seconds, or at a shutdown, results are left behind. The clock advances from result to result, so
  each one has its environment.
\<close>

datatype exit_status = Exit_normal | Exit_crash | Exit_timeout

text \<open>\<open>commands::result\<close>; the execution time is the end of the command after the start of the check.\<close>

record command_result =
  cm_id :: nat
  cm_exit_status :: exit_status
  cm_exit_code :: int
  cm_execution_time :: rat
  cm_output :: string

definition finished :: "command_result \<Rightarrow> world \<Rightarrow> world" where
  "finished res w =
     (case map_of (w_waiting w) (cm_id res) of
        None \<Rightarrow> w
      | Some r \<Rightarrow>
          add_check_result_to_reap
            (r\<lparr>cr_execution_time := cm_execution_time res, cr_return_code := cm_exit_code res,
               cr_exited_ok := (cm_exit_status res = Exit_normal \<or> cm_exit_status res = Exit_timeout),
               cr_output := cm_output res\<rparr>)
            (w\<lparr>w_waiting := AList.delete (cm_id res) (w_waiting w)\<rparr>))"

definition forget :: "oid \<Rightarrow> world \<Rightarrow> world" where
  "forget x w = w\<lparr>w_to_forget := w_to_forget w @ [x]\<rparr>"

definition drop_forgotten :: "world \<Rightarrow> world" where
  "drop_forgotten w =
     w\<lparr>w_waiting := filter (\<lambda>(i, r). cr_object r \<notin> set (w_to_forget w)) (w_waiting w),
       w_to_reap_partial := filter (\<lambda>r. cr_object r \<notin> set (w_to_forget w)) (w_to_reap_partial w),
       w_to_forget := []\<rparr>"

definition swap_queues :: "world \<Rightarrow> world" where
  "swap_queues w = w\<lparr>w_to_reap := w_to_reap_partial w, w_to_reap_partial := w_to_reap w\<rparr>"

definition handle_result :: "cenv \<Rightarrow> check_result \<Rightarrow> world \<Rightarrow> world option" where
  "handle_result env r w =
     map_option snd
       (if is_host (cr_object r) then host_handle_async_check_result_3x env r (cr_object r) w
        else service_handle_async_check_result env r (cr_object r) w)"

definition max_check_reaper_time :: int where "max_check_reaper_time = 30"

text \<open>
  The loop over the results; \<open>clock k\<close> is the environment of result \<open>k\<close>, with whether a shutdown was asked for. The
  handlers do not touch the list that is reaped, so the loop may follow that list.
\<close>

fun reap_loop :: "int \<Rightarrow> (nat \<Rightarrow> cenv \<times> bool) \<Rightarrow> nat \<Rightarrow> check_result list \<Rightarrow> world \<Rightarrow> world option" where
  "reap_loop start clock k [] w = Some w"
| "reap_loop start clock k (r # rs) w =
     (case handle_result (fst (clock k)) r (w\<lparr>w_to_reap := rs\<rparr>) of
        None \<Rightarrow> None
      | Some w1 \<Rightarrow>
          (if now (fst (clock k)) - start > max_check_reaper_time \<or> snd (clock k) then Some w1
           else reap_loop start clock (Suc k) rs w1))"

definition reap :: "int \<Rightarrow> (nat \<Rightarrow> cenv \<times> bool) \<Rightarrow> world \<Rightarrow> world option" where
  "reap start clock w =
     (let w1 = swap_queues (drop_forgotten w) in reap_loop start clock 0 (w_to_reap w1) w1)"

definition clear_queues :: "world \<Rightarrow> world" where
  "clear_queues w = w\<lparr>w_to_reap_partial := [], w_to_reap := [], w_waiting := [], w_to_forget := []\<rparr>"

end
