(* ===== verification/Event_Loop.thy ===== *)
theory Event_Loop
  imports Check_Reaper
begin

section \<open>The event loop\<close>

text \<open>
  Models \<open>handle_timed_event\<close> of \<^verbatim>\<open>engine/src/events/timed_event.cc\<close>, and \<open>_dispatching\<close> and
  \<open>adjust_check_scheduling\<close> of \<^verbatim>\<open>engine/src/events/loop.cc\<close>: one round of the loop, behind the reload of the
  configuration and the correction of the clock. Events that only write files, or that run external commands,
  leave the state as it is; so does the expiry of comments, since the comments of the model do not expire.
\<close>

record loop_env =
  le_c :: cenv
  le_max_parallel :: u32
  le_execute_services :: bool
  le_execute_hosts :: bool
  le_orphaned_hosts :: bool
  le_orphaned_services :: bool
  le_window :: u32
  le_rand :: nat
  le_sort :: "event_list \<Rightarrow> event_list"
  le_clock :: "nat \<Rightarrow> cenv \<times> bool"

subsection \<open>Spreading the checks\<close>

definition check_object :: "timed_event \<Rightarrow> oid option" where
  "check_object e =
     (case ev_data e of
        Object x \<Rightarrow> (if ev_type e = Event_host_check \<or> ev_type e = Event_service_check then Some x else None)
      | _ \<Rightarrow> None)"

definition adjustable :: "world \<Rightarrow> timed_event \<Rightarrow> bool" where
  "adjustable w e \<longleftrightarrow> (case check_object e of None \<Rightarrow> False | Some x \<Rightarrow> \<not> forced (sc_options (sched w x)))"

definition window :: "int \<Rightarrow> int \<Rightarrow> event_list \<Rightarrow> event_list" where
  "window first_time last_time l =
     filter (\<lambda>e. ev_run_time e > first_time) (takeWhile (\<lambda>e. ev_run_time e \<le> last_time) l)"

definition overhead :: rat where "overhead = 1 / 10"

text \<open>Whether a check starts before the one before it has ended.\<close>

fun bumps :: "rat \<Rightarrow> int list \<Rightarrow> bool" where
  "bumps end_time [] = False"
| "bumps end_time (t # ts) = (end_time > of_int t \<or> bumps (of_int t + overhead) ts)"

definition execution_estimate :: "timed_event \<Rightarrow> oid \<Rightarrow> world \<Rightarrow> rat" where
  "execution_estimate e x w =
     (if ev_type e = Event_host_check then sc_execution_time (sched w x) + overhead else overhead)"

fun spread :: "int \<Rightarrow> int \<Rightarrow> rat \<Rightarrow> rat \<Rightarrow> event_list \<Rightarrow> rat \<Rightarrow> rat \<Rightarrow> world \<Rightarrow> event_list \<times> world" where
  "spread first_time last_time gap factor [] icd_offset exec_offset w = ([], w)"
| "spread first_time last_time gap factor (e # es) icd_offset exec_offset w =
     (if ev_run_time e \<le> first_time then
        (let (es', w') = spread first_time last_time gap factor es icd_offset exec_offset w in (e # es', w'))
      else if ev_run_time e > last_time then (e # es, w)
      else
        (case check_object e of
           None \<Rightarrow> (let (es', w') = spread first_time last_time gap factor es icd_offset exec_offset w in (e # es', w'))
         | Some x \<Rightarrow>
             (if forced (sc_options (sched w x)) then
                (let (es', w') = spread first_time last_time gap factor es icd_offset exec_offset w in (e # es', w'))
              else
                (let t = first_time + \<lfloor>exec_offset + icd_offset\<rfloor>;
                     w1 = update_status x (upd_sched x (\<lambda>s. s\<lparr>sc_next_check := t\<rparr>) w);
                     (es', w') = spread first_time last_time gap factor es (icd_offset + gap)
                       (exec_offset + execution_estimate e x w * factor) w1 in
                 (e\<lparr>ev_run_time := t\<rparr> # es', w')))))"

definition adjust_check_scheduling :: "loop_env \<Rightarrow> world \<Rightarrow> world" where
  "adjust_check_scheduling le w =
     (let first_time = now (le_c le); len = uint (le_window le); last_time = first_time + len;
          checks = filter (adjustable w) (window first_time last_time (w_low w));
          total = of_nat (length checks) * overhead in
      if checks = [] \<or> \<not> bumps 0 (map ev_run_time checks) then w
      else
        (let (gap, factor) =
               (if \<lfloor>total\<rfloor> > len then (0, of_int len / total)
                else ((of_int len - total) / of_nat (length checks), 1));
             (l, w1) = spread first_time last_time gap factor (w_low w) (gap / 2) 0 w in
         w1\<lparr>w_low := le_sort le l\<rparr>))"

subsection \<open>Events\<close>

definition on_object :: "(oid \<Rightarrow> world \<Rightarrow> world option) \<Rightarrow> timed_event \<Rightarrow> world \<Rightarrow> world option" where
  "on_object f e w = (case ev_data e of Object x \<Rightarrow> f x w | _ \<Rightarrow> Some w)"

definition latency_of :: "cenv \<Rightarrow> timed_event \<Rightarrow> rat" where
  "latency_of env e = of_int (now env - ev_run_time e)"

definition handle_timed_event :: "loop_env \<Rightarrow> timed_event \<Rightarrow> world \<Rightarrow> world option" where
  "handle_timed_event le e w =
     (let env = le_c le in
      case ev_type e of
        Event_service_check \<Rightarrow>
          on_object (\<lambda>x w. map_option snd (service_run_scheduled_check env (ev_options e) (latency_of env e) x w)) e w
      | Event_host_check \<Rightarrow>
          on_object (\<lambda>x w. map_option snd (host_run_scheduled_check env (ev_options e) (latency_of env e) x w)) e w
      | Event_check_reaper \<Rightarrow> reap (now env) (le_clock le) w
      | Event_orphan_check \<Rightarrow>
          (let w1 = (if le_orphaned_hosts le then host_check_for_orphaned env w else w) in
           Some (if le_orphaned_services le then service_check_for_orphaned env w1 else w1))
      | Event_scheduled_downtime \<Rightarrow>
          (case ev_data e of Downtime_at a i \<Rightarrow> handle_downtime env i w | _ \<Rightarrow> Some w)
      | Event_sfreshness_check \<Rightarrow> Some (service_check_result_freshness env w)
      | Event_hfreshness_check \<Rightarrow> Some (host_check_result_freshness env w)
      | Event_expire_downtime \<Rightarrow> Some (check_for_expired_downtime env w)
      | Event_reschedule_checks \<Rightarrow> Some (adjust_check_scheduling le w)
      | Event_expire_host_ack \<Rightarrow> on_object (\<lambda>x w. Some (check_for_expired_acknowledgement env x w)) e w
      | Event_expire_service_ack \<Rightarrow> on_object (\<lambda>x w. Some (check_for_expired_acknowledgement env x w)) e w
      | _ \<Rightarrow> Some w)"

subsection \<open>One round of the loop\<close>

text \<open>Whether a check may run now, and the delay of a service check when too many run already.\<close>

definition saturated :: "loop_env \<Rightarrow> world \<Rightarrow> bool" where
  "saturated le w \<longleftrightarrow> le_max_parallel le \<noteq> 0 \<and> w_running_services w \<ge> le_max_parallel le"

definition nudge_seconds :: "loop_env \<Rightarrow> timed_event \<Rightarrow> world \<Rightarrow> int" where
  "nudge_seconds le e w =
     (if ev_type e = Event_service_check \<and> saturated le w then 5 + int (le_rand le mod 10) else 0)"

definition runs_now :: "loop_env \<Rightarrow> timed_event \<Rightarrow> world \<Rightarrow> bool" where
  "runs_now le e w \<longleftrightarrow>
     (case check_object e of
        None \<Rightarrow> True
      | Some x \<Rightarrow>
          (if ev_type e = Event_service_check then \<not> saturated le w \<and> le_execute_services le else le_execute_hosts le) \<or>
          forced (sc_options (sched w x)))"

text \<open>A check that may not run is moved: its first event is taken out of the list, and put back later.\<close>

definition postpone :: "loop_env \<Rightarrow> timed_event \<Rightarrow> oid \<Rightarrow> world \<Rightarrow> world" where
  "postpone le e x w =
     (let env = le_c le; c = conf w x; n = nudge_seconds le e w;
          t = sc_next_check (sched w x) +
            (if n \<noteq> 0 then n
             else if \<not> cs_hard (status w x) \<and> state w x \<noteq> state_ok then retry_delay env c
             else check_delay env c);
          w1 = upd_sched x (\<lambda>s. s\<lparr>sc_next_check := t\<rparr>) w in
      update_status x (w1\<lparr>w_low := reschedule_event (now env) (e\<lparr>ev_run_time := t\<rparr>) (w_low w1)\<rparr>))"

definition run_high :: "loop_env \<Rightarrow> timed_event \<Rightarrow> world \<Rightarrow> world option" where
  "run_high le e w =
     map_option (\<lambda>w1. if ev_recurring e then w1\<lparr>w_high := reschedule_event (now (le_c le)) e (w_high w1)\<rparr> else w1)
       (handle_timed_event le e w)"

definition run_low :: "loop_env \<Rightarrow> timed_event \<Rightarrow> world \<Rightarrow> world option" where
  "run_low le e w =
     (if runs_now le e w then
        map_option (\<lambda>w1. if ev_recurring e then w1\<lparr>w_low := reschedule_event (now (le_c le)) e (w_low w1)\<rparr> else w1)
          (handle_timed_event le e w)
      else (case check_object e of Some x \<Rightarrow> Some (postpone le e x w) | None \<Rightarrow> Some w))"

fun due :: "int \<Rightarrow> event_list \<Rightarrow> bool" where
  "due t [] = False"
| "due t (e # es) = (t \<ge> ev_run_time e)"

definition dispatch :: "loop_env \<Rightarrow> world \<Rightarrow> world option" where
  "dispatch le w =
     (let t = now (le_c le) in
      if due t (w_high w) then run_high le (hd (w_high w)) (w\<lparr>w_high := tl (w_high w)\<rparr>)
      else if due t (w_low w) then run_low le (hd (w_low w)) (w\<lparr>w_low := tl (w_low w)\<rparr>)
      else Some w)"

end
