(* ===== verification/Engine_Commands.thy ===== *)
theory Engine_Commands
  imports Event_Loop
begin

section \<open>Commands of the users\<close>

text \<open>
  Models the commands of \<^verbatim>\<open>engine/src/commands/commands.cc\<close> that work on hosts and services, behind the parsing of
  their arguments: passive results, acknowledgements, the switches of an object, checks at a given time, and what is
  propagated to the hosts behind a host. The functions for hosts and services differ only in the class of the object.
\<close>

subsection \<open>Passive results\<close>

definition passive_result :: "cenv \<Rightarrow> int \<Rightarrow> oid \<Rightarrow> int \<Rightarrow> string \<Rightarrow> check_result" where
  "passive_result env check_time x return_code output =
     \<lparr>cr_object = x, cr_passive = True, cr_options = 0, cr_reschedule = False,
      cr_latency = max 0 (of_int (now env - check_time)), cr_start = check_time, cr_execution_time = 0,
      cr_exited_ok = True, cr_return_code = (if return_code < 0 \<or> return_code > 3 then int state_unknown else return_code),
      cr_output = output\<rparr>"

definition process_passive_service_check :: "cenv \<Rightarrow> int \<Rightarrow> oid \<Rightarrow> int \<Rightarrow> string \<Rightarrow> world \<Rightarrow> bool \<times> world" where
  "process_passive_service_check env check_time x return_code output w =
     (if \<not> ce_accept_passive_services env then (False, w)
      else if \<not> exists_object w (host_of x) \<or> \<not> exists_object w x then (False, w)
      else if \<not> cf_passive (conf w x) then (False, w)
      else (True, add_check_result_to_reap (passive_result env check_time x return_code output) w))"

text \<open>The host function asks for the acceptance of passive checks of services.\<close>

definition process_passive_host_check :: "cenv \<Rightarrow> int \<Rightarrow> oid \<Rightarrow> int \<Rightarrow> string \<Rightarrow> world \<Rightarrow> bool \<times> world" where
  "process_passive_host_check env check_time x return_code output w =
     (if \<not> ce_accept_passive_services env then (False, w)
      else if return_code < 0 \<or> return_code > 2 then (False, w)
      else if \<not> exists_object w x then (False, w)
      else if \<not> cf_passive (conf w x) then (False, w)
      else (True, add_check_result_to_reap (passive_result env check_time x return_code output) w))"

subsection \<open>Acknowledgements\<close>

definition acknowledge_problem :: "cenv \<Rightarrow> string \<Rightarrow> string \<Rightarrow> bool \<Rightarrow> bool \<Rightarrow> bool \<Rightarrow> oid \<Rightarrow> world \<Rightarrow> world option" where
  "acknowledge_problem env author text sticky notifies persistent x w =
     (if state w x = state_ok then Some w
      else
        (let w1 = upd_status x (\<lambda>s. s\<lparr>cs_ack := (if sticky then Ack_sticky else Ack_normal), cs_last_ack := now env\<rparr>) w;
             w2 = emit (Acknowledged x) (schedule_acknowledgement_expiration x w1) in
         do {
           w3 \<leftarrow> (if notifies then notify_object env Reason_acknowledgement author text x w2 else Some w2);
           Some (snd (add_comment_of persistent x Entry_acknowledgement (update_status x w3)))
         }))"

definition remove_acknowledgement :: "oid \<Rightarrow> world \<Rightarrow> world" where
  "remove_acknowledgement x w =
     delete_acknowledgement_comments x (update_status x (upd_status x (\<lambda>s. s\<lparr>cs_ack := Ack_none\<rparr>) w))"

subsection \<open>Switches\<close>

definition upd_conf :: "oid \<Rightarrow> (ck_conf \<Rightarrow> ck_conf) \<Rightarrow> world \<Rightarrow> world" where
  "upd_conf x f = upd x (\<lambda>c. c\<lparr>ck_conf := f (ck_conf c)\<rparr>)"

definition disable_checks :: "oid \<Rightarrow> world \<Rightarrow> world" where
  "disable_checks x w =
     (if \<not> cf_active (conf w x) then w
      else emit (Adaptive_update x)
             (upd_sched x (\<lambda>s. s\<lparr>sc_should := False\<rparr>) (upd_conf x (\<lambda>c. c\<lparr>cf_active := False\<rparr>) w)))"

definition schedule_check :: "cenv \<Rightarrow> oid \<Rightarrow> int \<Rightarrow> u32 \<Rightarrow> world \<Rightarrow> world" where
  "schedule_check env x t options w =
     snd (if is_host x then host_schedule_check env x t options False w
          else service_schedule_check env x t options False w)"

definition enable_checks :: "cenv \<Rightarrow> oid \<Rightarrow> world \<Rightarrow> world" where
  "enable_checks env x w =
     (if cf_active (conf w x) then w
      else
        (let c = conf w x; should = (cf_check_interval c \<noteq> 0);
             t = (if check_time_against_period env (now env) (cf_check_period c) then now env
                  else get_next_valid_time env (now env) (cf_check_period c));
             w1 = upd_sched x (\<lambda>s. s\<lparr>sc_should := should, sc_next_check := t\<rparr>) (upd_conf x (\<lambda>c. c\<lparr>cf_active := True\<rparr>) w);
             w2 = (if should then schedule_check env x t 0 w1 else w1) in
         update_status x (emit (Adaptive_update x) w2)))"

text \<open>Passive checks, the event handler, the processor of obsessions, and notifications.\<close>

definition switch_passive_checks :: "bool \<Rightarrow> oid \<Rightarrow> world \<Rightarrow> world" where
  "switch_passive_checks b x w =
     (if cf_passive (conf w x) = b then w else emit (Adaptive_update x) (upd_conf x (\<lambda>c. c\<lparr>cf_passive := b\<rparr>) w))"

definition switch_event_handler :: "bool \<Rightarrow> oid \<Rightarrow> world \<Rightarrow> world" where
  "switch_event_handler b x w =
     (if cf_event_handler (conf w x) = b then w
      else emit (Adaptive_update x) (upd_conf x (\<lambda>c. c\<lparr>cf_event_handler := b\<rparr>) w))"

definition switch_obsessing :: "bool \<Rightarrow> oid \<Rightarrow> world \<Rightarrow> world" where
  "switch_obsessing b x w =
     (if cf_obsess (conf w x) = b then w else emit (Adaptive_update x) (upd_conf x (\<lambda>c. c\<lparr>cf_obsess := b\<rparr>) w))"

definition switch_notifications :: "bool \<Rightarrow> oid \<Rightarrow> world \<Rightarrow> world" where
  "switch_notifications b x w =
     (if nt_notifications_enabled (ck_notifier (w_ck w x)) = b then w
      else emit (Adaptive_update x)
             (upd x (\<lambda>c. c\<lparr>ck_notifier := (ck_notifier c)\<lparr>nt_notifications_enabled := b\<rparr>\<rparr>) w))"

subsection \<open>Hosts behind a host\<close>

text \<open>
  The recursion through the children as a stack: the visit of a host puts, for each child, its visit and then the
  action on it before what waits. An action that throws an exception, which is \<open>False\<close>, ends the recursion.
\<close>

datatype visit = Visit oid | Act oid

definition children :: "world \<Rightarrow> oid \<Rightarrow> oid list" where
  "children w x = present (cf_children (conf w x))"

definition visits :: "oid list \<Rightarrow> visit list" where
  "visits xs = concat (map (\<lambda>c. [Visit c, Act c]) xs)"

partial_function (option) propagate :: "(oid \<Rightarrow> world \<Rightarrow> bool \<times> world) \<Rightarrow> visit list \<Rightarrow> world \<Rightarrow> world option" where
  "propagate act vs w =
     (case vs of
        [] \<Rightarrow> Some w
      | v # vs' \<Rightarrow>
          (case v of
             Visit x \<Rightarrow> propagate act (visits (children w x) @ vs') w
           | Act x \<Rightarrow> (case act x w of (ok, w') \<Rightarrow> if ok then propagate act vs' w' else Some w')))"

definition services_of :: "world \<Rightarrow> oid \<Rightarrow> oid list" where
  "services_of w x = map (\<lambda>(h, s). Svc h s) (filter (\<lambda>(h, s). Hst h = x) (w_services w))"

definition switch_beyond :: "bool \<Rightarrow> bool \<Rightarrow> bool \<Rightarrow> oid \<Rightarrow> world \<Rightarrow> world" where
  "switch_beyond b affect_hosts affect_services x w =
     (let w1 = (if affect_hosts then switch_notifications b x w else w) in
      if affect_services then fold (switch_notifications b) (services_of w1 x) w1 else w1)"

definition propagate_notifications :: "bool \<Rightarrow> bool \<Rightarrow> bool \<Rightarrow> bool \<Rightarrow> oid \<Rightarrow> world \<Rightarrow> world option" where
  "propagate_notifications b affect_top_host affect_hosts affect_services x w =
     propagate (\<lambda>y w. (True, switch_beyond b affect_hosts affect_services y w)) [Visit x]
       (if affect_top_host then switch_notifications b x w else w)"

definition schedule_and_propagate_downtime ::
    "cenv \<Rightarrow> oid \<Rightarrow> string \<Rightarrow> string \<Rightarrow> int \<Rightarrow> int \<Rightarrow> bool \<Rightarrow> nat \<Rightarrow> int \<Rightarrow> world \<Rightarrow> world option" where
  "schedule_and_propagate_downtime env x author comment s e fixed triggered_by duration w =
     propagate (\<lambda>y w. case schedule_downtime env y author comment s e fixed triggered_by duration w of
         (Inl _, w') \<Rightarrow> (False, w') | (Inr _, w') \<Rightarrow> (True, w')) [Visit x] w"

subsection \<open>Downtimes by name\<close>

text \<open>
  \<open>delete_downtime_by_hostname_service_description_start_time_comment\<close>: a service downtime is kept unless its
  description is the wanted one, also when none is wanted.
\<close>

definition wanted_downtime :: "string \<Rightarrow> string \<Rightarrow> int option \<Rightarrow> string \<Rightarrow> world \<Rightarrow> downtime \<Rightarrow> bool" where
  "wanted_downtime hostname description start_time comment w d \<longleftrightarrow>
     (start_time = None \<or> start_time = Some (dt_start d)) \<and> (comment = [] \<or> dt_comment d = comment) \<and>
     (let x = dt_object d; name = (\<lambda>y. if exists_object w x then cf_name (conf w y) else []) in
      if is_host x then description = [] \<and> (hostname = [] \<or> name x = hostname)
      else (hostname = [] \<or> name (host_of x) = hostname) \<and> name x = description)"

fun unschedule_all :: "cenv \<Rightarrow> nat list \<Rightarrow> world \<Rightarrow> world option" where
  "unschedule_all env [] w = Some w"
| "unschedule_all env (i # is) w = Option.bind (unschedule_downtime env i w) (unschedule_all env is)"

definition delete_downtime_by_filter ::
    "cenv \<Rightarrow> string \<Rightarrow> string \<Rightarrow> int option \<Rightarrow> string \<Rightarrow> world \<Rightarrow> (nat \<times> world) option" where
  "delete_downtime_by_filter env hostname description start_time comment w =
     (if hostname = [] \<and> description = [] \<and> start_time = None \<and> comment = [] then Some (0, w)
      else
        (let is = map dt_id (filter (wanted_downtime hostname description start_time comment w) (w_downtimes w)) in
         map_option (Pair (length is)) (unschedule_all env is w)))"

subsection \<open>Checks at a given time\<close>

definition check_options :: "bool \<Rightarrow> u32" where
  "check_options force = (if force then opt_forced else 0)"

definition schedule_host_service_checks :: "cenv \<Rightarrow> bool \<Rightarrow> int \<Rightarrow> oid \<Rightarrow> world \<Rightarrow> world" where
  "schedule_host_service_checks env force t x w =
     fold (\<lambda>y. schedule_check env y t (check_options force)) (services_of w x) w"

end
