(* ===== verification/Check_Samples.thy ===== *)
theory Check_Samples
  imports Check_World Notifier_Props
begin

section \<open>Sample objects of the engine\<close>

text \<open>
  A configuration of the engine with notifications and flap detection off, and a world with two hosts and a
  service, for concrete instances of the properties of checks and downtimes.
\<close>

definition sample_conf :: "string \<Rightarrow> int \<Rightarrow> ck_conf" where
  "sample_conf name attempts = \<lparr>cf_name = name, cf_max_attempts = attempts, cf_check_interval = 5, cf_retry_interval = 1,
     cf_check_period = None, cf_has_command = True, cf_command_empty = False, cf_active = True, cf_passive = True,
     cf_freshness = False, cf_freshness_threshold = 0, cf_initial_state = 0, cf_low_threshold = 0, cf_high_threshold = 0,
     cf_flap_on = (\<lambda>s. True), cf_stalk_on = (\<lambda>s. False), cf_volatile = False, cf_event_handler = False,
     cf_obsess = False, cf_ack_timeout = 0, cf_parents = [], cf_children = [], cf_masters = [], cf_total_services = 0,
     cf_total_interval = 0\<rparr>"

definition sample_status :: ck_status where
  "sample_status = \<lparr>cs_state = 0, cs_last_state = 0, cs_last_hard_state = 0, cs_hard = True, cs_attempt = 1,
     cs_last_state_change = 100, cs_last_hard_state_change = 100, cs_last_time = (\<lambda>s. 100), cs_event_id = 0,
     cs_last_event_id = 0, cs_problem_id = 0, cs_last_problem_id = 0, cs_ack = Ack_none, cs_last_ack = 0,
     cs_checked = True, cs_host_problem = False, cs_passive = False, cs_output = [], cs_long_output = [],
     cs_perf_data = [], cs_next_notification = 0, cs_no_more = False\<rparr>"

definition sample_flap :: ck_flap where
  "sample_flap = \<lparr>fl_enabled = False, fl_history = replicate 21 0, fl_index = 0, fl_last_update = 0, fl_percent = 0,
     fl_flapping = False, fl_comment = 0\<rparr>"

definition sample_sched :: ck_sched where
  "sample_sched = \<lparr>sc_last_check = 100, sc_next_check = 100, sc_should = True, sc_executing = True, sc_freshened = False,
     sc_options = 0, sc_latency = 0, sc_execution_time = 0, sc_reschedule_current = False\<rparr>"

definition sample_checkable :: "string \<Rightarrow> int \<Rightarrow> checkable" where
  "sample_checkable name attempts = \<lparr>ck_conf = sample_conf name attempts, ck_status = sample_status,
     ck_flap = sample_flap, ck_sched = sample_sched, ck_depth = 0, ck_pending_flex = 0, ck_notifier = sample_notifier\<rparr>"

definition sample_world :: world where
  "sample_world = \<lparr>w_ck = (\<lambda>x. sample_checkable ''web'' 3), w_hosts = [0, 1], w_services = [(0, 0)], w_low = [],
     w_high = [], w_to_reap_partial = [], w_to_reap = [], w_waiting = [], w_to_forget = [], w_next_event_id = 1, w_next_problem_id = 1,
     w_running_services = 0, w_running_hosts = 0, w_next_notification_id = 1, w_comments = [], w_next_comment = 1,
     w_downtimes = [], w_next_downtime = 0, w_effects = []\<rparr>"

definition sample_cenv :: "int \<Rightarrow> cenv" where
  "sample_cenv t = \<lparr>ce_n = (sample_nenv t)\<lparr>ne_enable_notifications := False\<rparr>, ce_index = (\<lambda>x. 0), ce_oid = (\<lambda>i. Hst 0),
     ce_dependencies = (\<lambda>i. []), ce_accept_passive_hosts = True, ce_accept_passive_services = True,
     ce_cached_host_horizon = 15, ce_cached_service_horizon = 15, ce_obsess_services = False, ce_obsess_hosts = False,
     ce_predictive_services = True, ce_predictive_hosts = True, ce_enable_flap = False, ce_low_service = 20,
     ce_high_service = 30, ce_low_host = 20, ce_high_host = 30, ce_event_handlers = False, ce_log_service_retries = False,
     ce_log_host_retries = False, ce_freshness_latency = 15, ce_service_spread = 5, ce_host_spread = 5, ce_event_start = 0,
     ce_check_service_freshness = True, ce_check_host_freshness = True, ce_service_timeout = 60, ce_host_timeout = 30,
     ce_reaper_interval = 2, ce_host_down_disable = False, ce_precheck = Neb_ok, ce_initiate = Neb_ok,
     ce_allowed = (\<lambda>x. True), ce_run = (\<lambda>x. Some 0), ce_sync_precheck = Neb_ok,
     ce_sync = (\<lambda>x. Some \<lparr>sr_exit_code = 2, sr_timeout = False, sr_seconds = 0, sr_output = []\<rparr>), ce_address = (\<lambda>i. i + 1000)\<rparr>"

lemmas sample_eval = sample_conf_def sample_status_def sample_flap_def sample_sched_def sample_checkable_def
  sample_world_def

lemma sample_env [simp]:
  "now (sample_cenv t) = t" "ne_now (ce_n (sample_cenv t)) = t" "ne_interval_length (ce_n (sample_cenv t)) = 60"
  "ce_index (sample_cenv t) = (\<lambda>x. 0)" "ce_oid (sample_cenv t) = (\<lambda>i. Hst 0)"
  "ce_dependencies (sample_cenv t) = (\<lambda>i. [])" "ce_accept_passive_hosts (sample_cenv t) = True"
  "ce_accept_passive_services (sample_cenv t) = True" "ce_cached_host_horizon (sample_cenv t) = 15"
  "ce_cached_service_horizon (sample_cenv t) = 15" "ce_obsess_services (sample_cenv t) = False"
  "ce_obsess_hosts (sample_cenv t) = False" "ce_predictive_services (sample_cenv t) = True"
  "ce_predictive_hosts (sample_cenv t) = True" "ce_enable_flap (sample_cenv t) = False"
  "ce_low_service (sample_cenv t) = 20" "ce_high_service (sample_cenv t) = 30"
  "ce_low_host (sample_cenv t) = 20" "ce_high_host (sample_cenv t) = 30"
  "ce_event_handlers (sample_cenv t) = False" "ce_log_service_retries (sample_cenv t) = False"
  "ce_log_host_retries (sample_cenv t) = False" "ce_freshness_latency (sample_cenv t) = 15"
  "ce_service_spread (sample_cenv t) = 5" "ce_host_spread (sample_cenv t) = 5"
  "ce_event_start (sample_cenv t) = 0" "ce_check_service_freshness (sample_cenv t) = True"
  "ce_check_host_freshness (sample_cenv t) = True" "ce_service_timeout (sample_cenv t) = 60"
  "ce_host_timeout (sample_cenv t) = 30" "ce_reaper_interval (sample_cenv t) = 2"
  "ce_host_down_disable (sample_cenv t) = False" "ce_precheck (sample_cenv t) = Neb_ok"
  "ce_initiate (sample_cenv t) = Neb_ok" "ce_allowed (sample_cenv t) = (\<lambda>x. True)"
  "ce_run (sample_cenv t) = (\<lambda>x. Some 0)"
  "ce_sync_precheck (sample_cenv t) = Neb_ok"
  "ce_sync (sample_cenv t) = (\<lambda>x. Some \<lparr>sr_exit_code = 2, sr_timeout = False, sr_seconds = 0, sr_output = []\<rparr>)" "ce_address (sample_cenv t) = (\<lambda>i. i + 1000)"
  by (simp_all add: sample_cenv_def sample_nenv_def now_def)

lemmas sample_viable = notify_eval nenv_of_def sample_cenv_def is_notification_viable_acknowledgement_def
  is_notification_viable_flapping_def is_notification_viable_downtime_def is_notification_viable_custom_def

lemma sample_notify:
  "type \<noteq> Reason_recovery \<Longrightarrow>
   notify_object (sample_cenv t) type author message x w =
     Some (emit (Notified x type [])
       ((upd x (\<lambda>c. c\<lparr>ck_notifier := notifier_view w x\<rparr>) w)\<lparr>w_next_notification_id := w_next_notification_id w\<rparr>))"
  by (cases type) (simp_all add: notify_object_def sample_viable)

end
