(* ===== verification/Downtimes_Props.thy ===== *)
theory Downtimes_Props
  imports Downtimes Check_Samples
begin

section \<open>Properties of downtimes\<close>

text \<open>
  The depth of an object is the number of its downtimes in effect, whatever the downtimes that a downtime
  triggers; the identifiers stay unique; and the call that ends a downtime does not return when a flexible
  downtime it triggers still waits for a problem.
\<close>

subsection \<open>The invariant\<close>

text \<open>Identifiers are unique, a downtime is triggered by an older one, and the next identifier is new.\<close>

definition downtimes_wf :: "world \<Rightarrow> bool" where
  "downtimes_wf w \<longleftrightarrow> distinct (map dt_id (w_downtimes w)) \<and>
     (\<forall>d\<in>set (w_downtimes w). dt_triggered_by d < dt_id d) \<and>
     (w_next_downtime w = 0 \<or> (\<forall>d\<in>set (w_downtimes w). dt_id d \<le> w_next_downtime w))"

definition in_effect :: "oid \<Rightarrow> world \<Rightarrow> nat" where
  "in_effect x w = length (filter (\<lambda>d. dt_in_effect d \<and> dt_object d = x) (w_downtimes w))"

text \<open>The downtimes on the stack of tasks that have ended but are still in the map.\<close>

fun task_id :: "task \<Rightarrow> nat" where
  "task_id (Handle i) = i"
| "task_id (Stop_first i) = i"
| "task_id (Stop_second i) = i"
| "task_id (Remove i) = i"

fun ending :: "task \<Rightarrow> bool" where
  "ending (Handle i) = False"
| "ending _ = True"

definition ended_ids :: "task list \<Rightarrow> nat list" where
  "ended_ids ts = map task_id (filter ending ts)"

definition ended_of :: "oid \<Rightarrow> task list \<Rightarrow> world \<Rightarrow> nat" where
  "ended_of x ts w =
     length (filter (\<lambda>d. dt_id d \<in> set (ended_ids ts) \<and> dt_object d = x) (w_downtimes w))"

definition stack_ok :: "task list \<Rightarrow> world \<Rightarrow> bool" where
  "stack_ok ts w \<longleftrightarrow>
     sorted_wrt (\<lambda>a b. ending b \<longrightarrow> task_id b < task_id a) ts \<and>
     (\<forall>i\<in>set (ended_ids ts). \<exists>d\<in>set (w_downtimes w). dt_id d = i \<and> dt_in_effect d)"

definition depth_ok :: "task list \<Rightarrow> world \<Rightarrow> bool" where
  "depth_ok ts w \<longleftrightarrow> (\<forall>x. ck_depth (w_ck w x) + int (ended_of x ts w) = int (in_effect x w))"

lemma find_downtime_Some: "find_downtime i w = Some d \<Longrightarrow> d \<in> set (w_downtimes w) \<and> dt_id d = i"
  by (auto simp: find_downtime_def find_Some_iff)

lemma find_downtime_None: "find_downtime i w = None \<longleftrightarrow> i \<notin> set (map dt_id (w_downtimes w))"
  by (auto simp: find_downtime_def find_None_iff)

text \<open>Counting in a map whose entries are changed or erased by identifier.\<close>

lemma count_map_id:
  assumes "distinct (map dt_id ds)" "d \<in> set ds"
  shows "length (filter P (map (\<lambda>e. if dt_id e = dt_id d then f e else e) ds)) + (if P d then 1 else 0) =
    length (filter P ds) + (if P (f d) then 1 else 0)"
  using assms
proof (induction ds)
  case (Cons e ds)
  show ?case
  proof (cases "e = d")
    case True
    with Cons.prems have "map (\<lambda>e. if dt_id e = dt_id d then f e else e) ds = ds"
      by (intro map_idI) (auto, metis image_eqI)
    with True show ?thesis by simp
  next
    case False
    with Cons.prems have "d \<in> set ds" "dt_id e \<noteq> dt_id d" by auto
    with Cons show ?thesis by simp
  qed
qed simp

lemma count_erase:
  assumes "distinct (map dt_id ds)" "d \<in> set ds"
  shows "length (filter P ds) = length (filter P (erase_downtime (dt_id d) ds)) + (if P d then 1 else 0)"
  using assms
proof (induction ds)
  case (Cons e ds)
  show ?case
  proof (cases "e = d")
    case False
    with Cons.prems have "d \<in> set ds" "dt_id e \<noteq> dt_id d" by auto
    with Cons show ?thesis by simp
  qed simp
qed simp

lemma set_erase: "distinct (map dt_id ds) \<Longrightarrow> set (erase_downtime i ds) = {d \<in> set ds. dt_id d \<noteq> i}"
  by (induction ds) (auto simp: image_iff)

lemma distinct_erase: "distinct (map dt_id ds) \<Longrightarrow> distinct (map dt_id (erase_downtime i ds))"
  by (induction ds) (auto simp: set_erase image_iff)

lemma same_downtimes:
  "same_checks w w' \<Longrightarrow> w_downtimes w' = w_downtimes w \<and> w_next_downtime w' = w_next_downtime w \<and>
     ck_depth (w_ck w' x) = ck_depth (w_ck w x)"
  by (simp add: same_checks_def)

subsection \<open>The steps\<close>

definition keeps_identity :: "(downtime \<Rightarrow> downtime) \<Rightarrow> bool" where
  "keeps_identity f \<longleftrightarrow>
     (\<forall>d. dt_id (f d) = dt_id d \<and> dt_object (f d) = dt_object d \<and> dt_triggered_by (f d) = dt_triggered_by d)"

lemma upd_downtime_map [simp]:
  "keeps_identity f \<Longrightarrow> map dt_id (w_downtimes (upd_downtime i f w)) = map dt_id (w_downtimes w)"
  by (auto simp: upd_downtime_def keeps_identity_def)

lemma w_downtimes_upd:
  "w_downtimes (upd_downtime i f w) = map (\<lambda>d. if dt_id d = i then f d else d) (w_downtimes w)"
  by (simp add: upd_downtime_def)

lemma ball_map_same: "(\<And>d. P (g d) = P d) \<Longrightarrow> (\<forall>d\<in>set (map g ds). P d) = (\<forall>d\<in>set ds. P d)"
  by auto

lemma upd_downtime_wf: "keeps_identity f \<Longrightarrow> downtimes_wf (upd_downtime i f w) = downtimes_wf w"
proof -
  assume f: "keeps_identity f"
  have "(\<forall>d\<in>set (w_downtimes (upd_downtime i f w)). dt_triggered_by d < dt_id d) =
      (\<forall>d\<in>set (w_downtimes w). dt_triggered_by d < dt_id d)"
    using f unfolding w_downtimes_upd by (intro ball_map_same) (simp add: keeps_identity_def)
  moreover have "(\<forall>d\<in>set (w_downtimes (upd_downtime i f w)). dt_id d \<le> k) = (\<forall>d\<in>set (w_downtimes w). dt_id d \<le> k)" for k
    using f unfolding w_downtimes_upd by (intro ball_map_same) (simp add: keeps_identity_def)
  moreover have "w_next_downtime (upd_downtime i f w) = w_next_downtime w"
    by (simp add: upd_downtime_def)
  ultimately show ?thesis using f by (simp add: downtimes_wf_def)
qed

lemma upd_downtime_ended: "keeps_identity f \<Longrightarrow> ended_of x ts (upd_downtime i f w) = ended_of x ts w"
  by (simp add: ended_of_def upd_downtime_def keeps_identity_def filter_map o_def if_distrib cong: if_cong)

lemma upd_downtime_ck [simp]: "w_ck (upd_downtime i f w) = w_ck w"
  by (simp add: upd_downtime_def)

lemma upd_downtime_effect:
  assumes "downtimes_wf w" "find_downtime i w = Some d" "keeps_identity f"
  shows "in_effect x (upd_downtime i f w) + (if dt_in_effect d \<and> dt_object d = x then 1 else 0) =
    in_effect x w + (if dt_in_effect (f d) \<and> dt_object d = x then 1 else 0)"
  using count_map_id [of "w_downtimes w" d "\<lambda>d. dt_in_effect d \<and> dt_object d = x" f] find_downtime_Some [OF assms(2)]
    assms(1,3)
  by (simp add: in_effect_def upd_downtime_def downtimes_wf_def keeps_identity_def)

lemma upd_downtime_stack:
  assumes "stack_ok ts w" "keeps_identity f" "\<And>d. dt_in_effect d \<Longrightarrow> dt_in_effect (f d)"
  shows "stack_ok ts (upd_downtime i f w)"
proof -
  have "\<exists>e\<in>set (w_downtimes (upd_downtime i f w)). dt_id e = dt_id d \<and> dt_in_effect e"
    if "d \<in> set (w_downtimes w)" "dt_in_effect d" for d
    using that assms(2,3)
    by (intro bexI [of _ "if dt_id d = i then f d else d"]) (auto simp: upd_downtime_def keeps_identity_def)
  with assms(1) show ?thesis unfolding stack_ok_def by metis
qed

lemma same_downtimes_state:
  assumes "w_downtimes w' = w_downtimes w" "w_next_downtime w' = w_next_downtime w"
  shows "downtimes_wf w' = downtimes_wf w" "stack_ok ts w' = stack_ok ts w" "ended_of x ts w' = ended_of x ts w"
    "in_effect x w' = in_effect x w"
  using assms by (simp_all add: downtimes_wf_def stack_ok_def ended_of_def in_effect_def)

lemma wait_for_problem_downtimes:
  "w_downtimes (wait_for_problem d w) = w_downtimes (upd_downtime (dt_id d) (\<lambda>d. d\<lparr>dt_incremented := True\<rparr>) w)"
  "w_next_downtime (wait_for_problem d w) = w_next_downtime (upd_downtime (dt_id d) (\<lambda>d. d\<lparr>dt_incremented := True\<rparr>) w)"
  "ck_depth (w_ck (wait_for_problem d w) x) = ck_depth (w_ck w x)"
  by (simp_all add: wait_for_problem_def Let_def upd_downtime_def add_pending_def upd_def)

lemma keeps_incremented: "keeps_identity (\<lambda>d. d\<lparr>dt_incremented := b\<rparr>)"
  by (simp add: keeps_identity_def)

lemma keeps_effect: "keeps_identity (\<lambda>d. d\<lparr>dt_in_effect := b\<rparr>)"
  by (simp add: keeps_identity_def)

lemma keeps_start_flex: "keeps_identity (\<lambda>d. d\<lparr>dt_start_flex := b\<rparr>)"
  by (simp add: keeps_identity_def)

lemma keeps_comment: "keeps_identity (\<lambda>d. d\<lparr>dt_comment_id := b\<rparr>)"
  by (simp add: keeps_identity_def)

lemma end_downtime_frame:
  assumes "end_downtime env d w = Some w'"
  shows "w_downtimes w' = w_downtimes w" "w_next_downtime w' = w_next_downtime w"
    "ck_depth (w_ck w' x) = ck_depth (w_ck w x) - (if x = dt_object d then 1 else 0)"
proof -
  let ?w1 = "add_depth (dt_object d) (- 1) (emit (Downtime_stopped (dt_id d) False) w)"
  from assms obtain w2 where 2: "w2 = ?w1 \<or> notify_object env Reason_downtimeend (dt_author d) (dt_comment d) (dt_object d) ?w1 = Some w2"
    and w': "w' = update_status (dt_object d) w2 \<or> w' = add_pending (dt_object d) (- 1) (update_status (dt_object d) w2)"
    by (auto simp: end_downtime_def Let_def bind_eq_Some_conv split: if_splits)
  from 2 have "same_checks ?w1 w2" using notify_object_same by auto
  from same_downtimes [OF this] w' show "w_downtimes w' = w_downtimes w" "w_next_downtime w' = w_next_downtime w"
    "ck_depth (w_ck w' x) = ck_depth (w_ck w x) - (if x = dt_object d then 1 else 0)"
    by (auto simp: update_status_def add_depth_def add_pending_def frame_simps)
qed

lemma start_downtime_frame:
  assumes "start_downtime env d w = Some w'"
  shows "w_downtimes w' = w_downtimes (upd_downtime (dt_id d) (\<lambda>d. d\<lparr>dt_in_effect := True\<rparr>) w)"
    "w_next_downtime w' = w_next_downtime (upd_downtime (dt_id d) (\<lambda>d. d\<lparr>dt_in_effect := True\<rparr>) w)"
    "ck_depth (w_ck w' x) = ck_depth (w_ck w x) + (if x = dt_object d then 1 else 0)"
proof -
  let ?w1 = "emit (Downtime_started (dt_id d)) w"
  from assms obtain w2 where 2: "w2 = ?w1 \<or> notify_object env Reason_downtimestart (dt_author d) (dt_comment d) (dt_object d) ?w1 = Some w2"
    and w': "w' = schedule_downtime_event env (if dt_fixed d then after_end d else now env + dt_duration d) (dt_id d)
      (update_status (dt_object d) (upd_downtime (dt_id d) (\<lambda>d. d\<lparr>dt_in_effect := True\<rparr>) (add_depth (dt_object d) 1 w2)))"
    by (auto simp: start_downtime_def Let_def bind_eq_Some_conv split: if_splits)
  from 2 have "same_checks ?w1 w2" using notify_object_same by auto
  from same_downtimes [OF this] show "w_downtimes w' = w_downtimes (upd_downtime (dt_id d) (\<lambda>d. d\<lparr>dt_in_effect := True\<rparr>) w)"
    "w_next_downtime w' = w_next_downtime (upd_downtime (dt_id d) (\<lambda>d. d\<lparr>dt_in_effect := True\<rparr>) w)"
    "ck_depth (w_ck w' x) = ck_depth (w_ck w x) + (if x = dt_object d then 1 else 0)"
    unfolding w' by (auto simp: update_status_def add_depth_def schedule_downtime_event_def upd_downtime_def frame_simps)
qed

lemma delete_downtime_frame:
  "w_downtimes (delete_downtime i w) = erase_downtime i (w_downtimes w)"
  "w_ck (delete_downtime i w) = w_ck w" "w_next_downtime (delete_downtime i w) = w_next_downtime w"
proof -
  have "erase_downtime i ds = ds" if "i \<notin> set (map dt_id ds)" for ds
    using that by (induction ds) auto
  then show "w_downtimes (delete_downtime i w) = erase_downtime i (w_downtimes w)"
    using find_downtime_None [of i w]
    by (auto simp: delete_downtime_def destroy_downtime_def delete_comment_def frame_simps split: option.splits)
  show "w_ck (delete_downtime i w) = w_ck w" "w_next_downtime (delete_downtime i w) = w_next_downtime w"
    by (auto simp: delete_downtime_def destroy_downtime_def delete_comment_def frame_simps split: option.splits)
qed

subsection \<open>The depth\<close>

lemma ended_ids_Cons: "ended_ids (t # ts) = (if ending t then task_id t # ended_ids ts else ended_ids ts)"
  by (simp add: ended_ids_def)

lemma ended_ids_append: "ended_ids (ts @ us) = ended_ids ts @ ended_ids us"
  by (simp add: ended_ids_def)

lemma ended_ids_Handles: "ended_ids (map (\<lambda>d. Handle (g d)) ds) = []"
  by (simp add: ended_ids_def)

lemma stack_ok_tl: "stack_ok (t # ts) w \<Longrightarrow> stack_ok ts w"
  by (auto simp: stack_ok_def ended_ids_Cons split: if_splits)

lemma stack_not_ended: "stack_ok (t # ts) w \<Longrightarrow> task_id t \<notin> set (ended_ids ts)"
  by (auto simp: stack_ok_def ended_ids_def)

lemma ended_of_Handle: "ended_of x (Handle i # ts) w = ended_of x ts w"
  by (simp add: ended_of_def ended_ids_Cons)

lemma ended_of_Handles: "ended_of x (map (\<lambda>d. Handle (g d)) ds @ ts) w = ended_of x ts w"
  by (simp add: ended_of_def ended_ids_append ended_ids_Handles)

lemma length_filter_disj:
  "(\<And>e. e \<in> set ds \<Longrightarrow> \<not> (P e \<and> Q e)) \<Longrightarrow>
   length (filter (\<lambda>e. P e \<or> Q e) ds) = length (filter P ds) + length (filter Q ds)"
  by (induction ds) auto

lemma count_id:
  "distinct (map dt_id ds) \<Longrightarrow> d \<in> set ds \<Longrightarrow>
   length (filter (\<lambda>e. dt_id e = dt_id d \<and> dt_object e = x) ds) = (if dt_object d = x then 1 else 0)"
  by (induction ds) (auto simp: image_iff filter_empty_conv)

lemma ended_of_ending:
  assumes "downtimes_wf w" "ending t" "task_id t \<notin> set (ended_ids ts)" "d \<in> set (w_downtimes w)" "dt_id d = task_id t"
  shows "ended_of x (t # ts) w = ended_of x ts w + (if dt_object d = x then 1 else 0)"
proof -
  have "ended_of x (t # ts) w = length (filter (\<lambda>e. (dt_id e \<in> set (ended_ids ts) \<and> dt_object e = x) \<or>
      (dt_id e = dt_id d \<and> dt_object e = x)) (w_downtimes w))"
    unfolding ended_of_def using assms(2,5) by (intro arg_cong [of _ _ length] filter_cong) (auto simp: ended_ids_Cons)
  also have "\<dots> = ended_of x ts w + (if dt_object d = x then 1 else 0)"
    using assms count_id [of "w_downtimes w" d x]
    by (subst length_filter_disj) (auto simp: ended_of_def downtimes_wf_def)
  finally show ?thesis .
qed

lemma depth_ok_Handle: "depth_ok (Handle i # ts) w = depth_ok ts w"
  by (simp add: depth_ok_def ended_of_Handle)

lemma triggered_larger:
  assumes "downtimes_wf w" "c \<in> set (triggered i w)"
  shows "i < dt_id c"
  using assms by (auto simp: downtimes_wf_def triggered_def)

lemma first_triggered_larger: "downtimes_wf w \<Longrightarrow> first_triggered i w = Some c \<Longrightarrow> i < c"
  by (auto simp: first_triggered_def downtimes_wf_def find_Some_iff)

text \<open>Each kind of step keeps the invariant.\<close>

lemma wait_step:
  assumes "downtimes_wf w" "stack_ok (Handle i # ts) w" "depth_ok (Handle i # ts) w" "find_downtime i w = Some d"
  shows "downtimes_wf (wait_for_problem d w) \<and> stack_ok ts (wait_for_problem d w) \<and> depth_ok ts (wait_for_problem d w)"
proof -
  let ?u = "upd_downtime i (\<lambda>d. d\<lparr>dt_incremented := True\<rparr>) w"
  have i: "dt_id d = i" using find_downtime_Some [OF assms(4)] by simp
  note same = same_downtimes_state [OF wait_for_problem_downtimes(1,2) [of d w, unfolded i]]
  have e: "in_effect x ?u = in_effect x w" for x
    using upd_downtime_effect [OF assms(1,4) keeps_incremented, of x True] by simp
  have "downtimes_wf ?u" "stack_ok ts ?u"
    using upd_downtime_wf [OF keeps_incremented] upd_downtime_stack [OF stack_ok_tl [OF assms(2)] keeps_incremented] assms(1)
    by simp_all
  moreover have "depth_ok ts (wait_for_problem d w)"
    using assms(3)
    by (simp add: depth_ok_def same wait_for_problem_downtimes(3) e ended_of_Handle upd_downtime_ended [OF keeps_incremented])
  ultimately show ?thesis by (simp add: same)
qed

lemma end_step:
  assumes "downtimes_wf w" "stack_ok (Handle i # ts) w" "depth_ok (Handle i # ts) w" "find_downtime i w = Some d"
    "dt_in_effect d" "end_downtime env d w = Some w'"
  shows "downtimes_wf w' \<and> stack_ok (Stop_first i # ts) w' \<and> depth_ok (Stop_first i # ts) w'"
proof -
  have d: "d \<in> set (w_downtimes w)" "dt_id d = i" using find_downtime_Some [OF assms(4)] by simp_all
  note fin = end_downtime_frame [OF assms(6)]
  note same = same_downtimes_state [OF fin(1,2)]
  have "stack_ok (Stop_first i # ts) w"
    using assms(2,5) d by (auto simp: stack_ok_def ended_ids_Cons)
  moreover have "ended_of x (Stop_first i # ts) w = ended_of x ts w + (if dt_object d = x then 1 else 0)" for x
    using assms(1) stack_not_ended [OF assms(2)] d by (intro ended_of_ending) auto
  ultimately show ?thesis
    using assms(1,3) by (auto simp: same depth_ok_def fin(3) ended_of_Handle)
qed

lemma start_step:
  assumes "downtimes_wf w" "stack_ok (Handle i # ts) w" "depth_ok (Handle i # ts) w" "find_downtime i w = Some d"
    "\<not> dt_in_effect d" "start_downtime env d w = Some w'"
  defines "us \<equiv> map (\<lambda>c. Handle (dt_id c)) (triggered i w') @ ts"
  shows "downtimes_wf w' \<and> stack_ok us w' \<and> depth_ok us w'"
proof -
  let ?u = "upd_downtime i (\<lambda>d. d\<lparr>dt_in_effect := True\<rparr>) w"
  have d: "dt_id d = i" using find_downtime_Some [OF assms(4)] by simp
  note start = start_downtime_frame [OF assms(6), unfolded d]
  note same = same_downtimes_state [OF start(1,2)]
  have wf: "downtimes_wf w'" using upd_downtime_wf [OF keeps_effect] assms(1) by (simp add: same)
  have "stack_ok ts ?u" using upd_downtime_stack [OF stack_ok_tl [OF assms(2)] keeps_effect] by simp
  moreover have "task_id b < dt_id c" if "b \<in> set ts" "ending b" "c \<in> set (triggered i w')" for b c
    using that assms(2) triggered_larger [OF wf that(3)] by (auto simp: stack_ok_def)
  ultimately have "stack_ok us w'"
    unfolding us_def same by (auto simp: stack_ok_def sorted_wrt_append sorted_wrt_map ended_ids_append ended_ids_Handles same)
  moreover have "in_effect x ?u = in_effect x w + (if dt_object d = x then 1 else 0)" for x
    using upd_downtime_effect [OF assms(1,4) keeps_effect, of x True] assms(5) by simp
  then have "depth_ok us w'"
    using assms(3)
    by (auto simp: us_def depth_ok_def same start(3) ended_of_Handle ended_of_Handles upd_downtime_ended [OF keeps_effect])
  ultimately show ?thesis using wf by simp
qed

lemma stop_step:
  assumes "downtimes_wf w" "stack_ok (t # ts) w" "depth_ok (t # ts) w" "ending t" "ending u" "task_id u = task_id t"
  shows "stack_ok (u # ts) w \<and> depth_ok (u # ts) w"
    "first_triggered (task_id t) w = Some c \<Longrightarrow> stack_ok (Handle c # u # ts) w \<and> depth_ok (Handle c # u # ts) w"
  using assms first_triggered_larger [OF assms(1), of "task_id t" c]
  by (auto simp: stack_ok_def depth_ok_def ended_of_def ended_ids_Cons)

lemma remove_step:
  assumes "downtimes_wf w" "stack_ok (Remove i # ts) w" "depth_ok (Remove i # ts) w"
  shows "downtimes_wf (delete_downtime i w) \<and> stack_ok ts (delete_downtime i w) \<and> depth_ok ts (delete_downtime i w)"
proof -
  from assms(2) obtain d where d: "d \<in> set (w_downtimes w)" "dt_id d = i" "dt_in_effect d"
    by (auto simp: stack_ok_def ended_ids_Cons)
  note dist = assms(1) [unfolded downtimes_wf_def, THEN conjunct1]
  have i: "i \<notin> set (ended_ids ts)" using stack_not_ended [OF assms(2)] by simp
  have "stack_ok ts (delete_downtime i w)"
    using stack_ok_tl [OF assms(2)] i by (auto simp: stack_ok_def delete_downtime_frame set_erase [OF dist])
  moreover have "downtimes_wf (delete_downtime i w)"
    using assms(1) by (auto simp: downtimes_wf_def delete_downtime_frame set_erase distinct_erase)
  moreover have "in_effect x w = in_effect x (delete_downtime i w) + (if dt_object d = x then 1 else 0)" for x
    using count_erase [OF dist d(1), of "\<lambda>d. dt_in_effect d \<and> dt_object d = x"] d
    by (simp add: in_effect_def delete_downtime_frame)
  moreover have "ended_of x (Remove i # ts) w = ended_of x ts (delete_downtime i w) + (if dt_object d = x then 1 else 0)" for x
  proof -
    have "ended_of x (Remove i # ts) w =
        length (filter (\<lambda>e. dt_id e \<in> set (ended_ids (Remove i # ts)) \<and> dt_object e = x) (erase_downtime i (w_downtimes w)))
        + (if dt_object d = x then 1 else 0)"
      using count_erase [OF dist d(1), of "\<lambda>e. dt_id e \<in> set (ended_ids (Remove i # ts)) \<and> dt_object e = x"] d
      by (simp add: ended_of_def ended_ids_Cons)
    also have "filter (\<lambda>e. dt_id e \<in> set (ended_ids (Remove i # ts)) \<and> dt_object e = x) (erase_downtime i (w_downtimes w)) =
        filter (\<lambda>e. dt_id e \<in> set (ended_ids ts) \<and> dt_object e = x) (erase_downtime i (w_downtimes w))"
      by (intro filter_cong) (auto simp: ended_ids_Cons set_erase [OF dist])
    finally show ?thesis by (simp add: ended_of_def delete_downtime_frame)
  qed
  ultimately show ?thesis
    using assms(3) by (auto simp: depth_ok_def delete_downtime_frame)
qed

lemma task_step_ok:
  assumes inv: "downtimes_wf w" "stack_ok (t # ts) w" "depth_ok (t # ts) w" and step: "task_step env t w = Some (us, w')"
  shows "downtimes_wf w' \<and> stack_ok (us @ ts) w' \<and> depth_ok (us @ ts) w'"
proof (cases t)
  case (Handle i)
  note inv' = inv [unfolded Handle]
  have skip: ?thesis if "us = []" "w' = w"
    using that inv'(1) stack_ok_tl [OF inv'(2)] inv'(3) by (simp add: depth_ok_Handle)
  show ?thesis
  proof (cases "find_downtime i w")
    case None
    with step Handle skip show ?thesis by simp
  next
    case (Some d)
    consider "us = []" "w' = w" | "us = []" "w' = wait_for_problem d w"
      | "dt_in_effect d" "end_downtime env d w = Some w'" "us = [Stop_first i]"
      | "\<not> dt_in_effect d" "start_downtime env d w = Some w'" "us = map (\<lambda>c. Handle (dt_id c)) (triggered i w')"
      using step Handle Some by (auto split: if_splits)
    then show ?thesis
      by cases (use skip wait_step [OF inv' Some] end_step [OF inv' Some] start_step [OF inv' Some] in auto)
  qed
next
  case (Stop_first i)
  with step inv stop_step [OF inv, of "Stop_second i"] show ?thesis
    by (cases "first_triggered i w") auto
next
  case (Stop_second i)
  with step inv stop_step [OF inv, of "Remove i"] stop_step [OF inv, of "Stop_first i"] show ?thesis
    by (cases "first_triggered i w") auto
next
  case (Remove i)
  with step remove_step [OF inv [unfolded Remove]] show ?thesis by simp
qed

text \<open>What every step keeps holds at the end; so what cannot hold with no task left does not let the call return.\<close>

lemma run_tasks_invariant:
  assumes "run_tasks env ts w = Some w'" "Q ts w"
    and step: "\<And>t ts w us w1. Q (t # ts) w \<Longrightarrow> task_step env t w = Some (us, w1) \<Longrightarrow> Q (us @ ts) w1"
  shows "Q [] w'"
proof -
  have "(\<forall>t ts w us w1. Q (t # ts) w \<longrightarrow> task_step env t w = Some (us, w1) \<longrightarrow> Q (us @ ts) w1) \<longrightarrow> Q ts w \<longrightarrow> Q [] w'"
  proof (rule run_tasks.raw_induct [OF _ assms(1)], intro impI)
    fix run env ts w w'
    assume IH: "\<And>env ts w w'. run env ts w = Some w' \<Longrightarrow>
        (\<forall>t ts w us w1. Q (t # ts) w \<longrightarrow> task_step env t w = Some (us, w1) \<longrightarrow> Q (us @ ts) w1) \<longrightarrow> Q ts w \<longrightarrow> Q [] w'"
      and body: "(case ts of [] \<Rightarrow> Some w
        | t # ts' \<Rightarrow> Option.bind (task_step env t w) (\<lambda>(us, w1). run env (us @ ts') w1)) = Some w'"
      and keep: "\<forall>t ts w us w1. Q (t # ts) w \<longrightarrow> task_step env t w = Some (us, w1) \<longrightarrow> Q (us @ ts) w1"
      and "Q ts w"
    then show "Q [] w'"
    proof (cases ts)
      case (Cons t ts')
      with body obtain us w1 where 1: "task_step env t w = Some (us, w1)" "run env (us @ ts') w1 = Some w'"
        by (auto simp: bind_eq_Some_conv)
      with keep Cons \<open>Q ts w\<close> have "Q (us @ ts') w1" by blast
      with IH [OF 1(2)] keep show ?thesis by blast
    qed simp
  qed
  with assms(2) step show ?thesis by blast
qed

lemma run_tasks_depth:
  assumes "run_tasks env ts w = Some w'" "downtimes_wf w" "stack_ok ts w" "depth_ok ts w"
  shows "downtimes_wf w' \<and> depth_ok [] w'"
proof -
  let ?Q = "\<lambda>ts w. downtimes_wf w \<and> stack_ok ts w \<and> depth_ok ts w"
  have "?Q [] w'"
  proof (rule run_tasks_invariant [where Q = ?Q, OF assms(1)])
    show "?Q ts w" using assms(2-4) by simp
  qed (use task_step_ok in blast)
  then show ?thesis by blast
qed

subsection \<open>Every operation keeps the depth\<close>

definition depth_inv :: "world \<Rightarrow> bool" where
  "depth_inv w \<longleftrightarrow> downtimes_wf w \<and> depth_ok [] w"

lemma ended_of_Nil [simp]: "ended_of x [] w = 0"
  by (simp add: ended_of_def ended_ids_def)

lemma depth_inv_same:
  assumes "w_downtimes w' = w_downtimes w" "w_next_downtime w' = w_next_downtime w"
    "\<And>x. ck_depth (w_ck w' x) = ck_depth (w_ck w x)"
  shows "depth_inv w' = depth_inv w"
  using same_downtimes_state [OF assms(1,2)] assms(3) by (simp add: depth_inv_def depth_ok_def)

lemma handle_downtime_depth: "handle_downtime env i w = Some w' \<Longrightarrow> depth_inv w \<Longrightarrow> depth_inv w'"
  unfolding handle_downtime_def depth_inv_def
  by (erule run_tasks_depth) (auto simp: depth_ok_Handle stack_ok_def ended_ids_def)

lemma upd_downtime_depth:
  assumes "keeps_identity f" "\<And>d. dt_in_effect (f d) = dt_in_effect d" "depth_inv w"
  shows "depth_inv (upd_downtime i f w)"
proof -
  have "in_effect x (upd_downtime i f w) = in_effect x w" for x
  proof (cases "find_downtime i w")
    case None
    then have "map (\<lambda>d. if dt_id d = i then f d else d) (w_downtimes w) = w_downtimes w"
      by (intro map_idI) (auto simp: find_downtime_None)
    then show ?thesis by (simp add: in_effect_def w_downtimes_upd)
  next
    case (Some d)
    with upd_downtime_effect [OF _ Some assms(1), of x] assms(2,3) show ?thesis by (simp add: depth_inv_def)
  qed
  with assms(3) upd_downtime_wf [OF assms(1)] show ?thesis by (simp add: depth_inv_def depth_ok_def)
qed

lemma flex_loop_depth: "flex_loop env x is w = Some w' \<Longrightarrow> depth_inv w \<Longrightarrow> depth_inv w'"
proof (induction "is" arbitrary: w)
  case (Cons i "is")
  show ?case
  proof (cases "\<exists>d. find_downtime i w = Some d \<and> flex_starts env x d")
    case True
    with Cons.prems obtain w1
      where 1: "handle_downtime env i (upd_downtime i (\<lambda>d. d\<lparr>dt_start_flex := True\<rparr>) w) = Some w1"
        and 2: "flex_loop env x is w1 = Some w'"
      by (auto simp: bind_eq_Some_conv)
    have "depth_inv w1"
      using handle_downtime_depth [OF 1] upd_downtime_depth [OF keeps_start_flex _ Cons.prems(2)] by simp
    from Cons.IH [OF 2 this] show ?thesis .
  next
    case False
    with Cons.prems Cons.IH show ?thesis by (auto split: option.splits if_splits)
  qed
qed simp

lemma check_pending_flex_depth: "check_pending_flex_downtime env x w = Some w' \<Longrightarrow> depth_inv w \<Longrightarrow> depth_inv w'"
  by (auto simp: check_pending_flex_downtime_def flex_loop_depth split: if_splits)

lemma delete_downtime_depth:
  assumes "downtimes_wf w" "find_downtime i w = Some d"
    "\<And>x. ck_depth (w_ck w x) + (if dt_in_effect d \<and> dt_object d = x then 1 else 0) = int (in_effect x w)"
  shows "depth_inv (delete_downtime i w)"
proof -
  have d: "d \<in> set (w_downtimes w)" "dt_id d = i" using find_downtime_Some [OF assms(2)] by simp_all
  note dist = assms(1) [unfolded downtimes_wf_def, THEN conjunct1]
  have "in_effect x w = in_effect x (delete_downtime i w) + (if dt_in_effect d \<and> dt_object d = x then 1 else 0)" for x
    using count_erase [OF dist d(1), of "\<lambda>d. dt_in_effect d \<and> dt_object d = x"] d
    by (simp add: in_effect_def delete_downtime_frame)
  then have "ck_depth (w_ck w x) = int (in_effect x (delete_downtime i w))" for x
    using assms(3) [of x] by (auto split: if_splits)
  moreover have "downtimes_wf (delete_downtime i w)"
    using assms(1) by (auto simp: downtimes_wf_def delete_downtime_frame set_erase distinct_erase)
  ultimately show ?thesis by (simp add: depth_inv_def depth_ok_def delete_downtime_frame)
qed

lemma unschedule_frame:
  assumes "unschedule env d w = Some w'"
  shows "w_downtimes w' = w_downtimes w" "w_next_downtime w' = w_next_downtime w"
    "ck_depth (w_ck w' x) = ck_depth (w_ck w x) - (if dt_in_effect d \<and> dt_object d = x then 1 else 0)"
proof -
  let ?x = "dt_object d"
  define w1 where "w1 = (if \<not> dt_fixed d \<and> dt_incremented d then add_pending ?x (- 1) w else w)"
  define w2 where "w2 = update_status ?x (add_depth ?x (- 1) (emit (Downtime_stopped (dt_id d) True) w1))"
  have 1: "w_downtimes w1 = w_downtimes w" "w_next_downtime w1 = w_next_downtime w" "ck_depth (w_ck w1 y) = ck_depth (w_ck w y)" for y
    by (auto simp: w1_def add_pending_def frame_simps)
  have 2: "w_downtimes w2 = w_downtimes w1" "w_next_downtime w2 = w_next_downtime w1"
    "ck_depth (w_ck w2 y) = ck_depth (w_ck w1 y) - (if ?x = y then 1 else 0)" for y
    by (auto simp: w2_def update_status_def add_depth_def frame_simps)
  consider "\<not> dt_in_effect d" "w' = w1"
    | "dt_in_effect d" "w' = w2 \<or> notify_object env Reason_downtimecancelled [] [] ?x w2 = Some w'"
    using assms by (auto simp: unschedule_def w1_def [symmetric] w2_def [symmetric] Let_def split: if_splits)
  then have "w_downtimes w' = w_downtimes w \<and> w_next_downtime w' = w_next_downtime w \<and>
    ck_depth (w_ck w' x) = ck_depth (w_ck w x) - (if dt_in_effect d \<and> dt_object d = x then 1 else 0)"
  proof cases
    case 2
    then have "same_checks w2 w'" using notify_object_same by auto
    from same_downtimes [OF this, of x] 2(1) show ?thesis
      by (simp add: 1 \<open>\<And>y. ck_depth (w_ck w2 y) = _ y\<close> \<open>w_downtimes w2 = _\<close> \<open>w_next_downtime w2 = _\<close>)
  qed (simp add: 1)
  then show "w_downtimes w' = w_downtimes w" "w_next_downtime w' = w_next_downtime w"
    "ck_depth (w_ck w' x) = ck_depth (w_ck w x) - (if dt_in_effect d \<and> dt_object d = x then 1 else 0)"
    by simp_all
qed

lemma unscheduled_depth:
  assumes "depth_inv w" "find_downtime i w = Some d" "unschedule env d w = Some w1"
  shows "depth_inv (delete_downtime i (w1\<lparr>w_high := es\<rparr>))"
proof -
  let ?w = "w1\<lparr>w_high := es\<rparr>"
  note frame = unschedule_frame [OF assms(3)]
  have same: "w_downtimes ?w = w_downtimes w" "w_next_downtime ?w = w_next_downtime w" by (simp_all add: frame)
  show ?thesis
  proof (rule delete_downtime_depth)
    show "downtimes_wf ?w" using assms(1) same_downtimes_state(1) [OF same] by (simp add: depth_inv_def)
    show "find_downtime i ?w = Some d" using assms(2) same(1) by (simp add: find_downtime_def)
    show "ck_depth (w_ck ?w x) + (if dt_in_effect d \<and> dt_object d = x then 1 else 0) = int (in_effect x ?w)" for x
      using assms(1) frame(3) [of x] same_downtimes_state(4) [OF same] by (simp add: depth_inv_def depth_ok_def)
  qed
qed

lemma unschedule_downtimes_depth:
  assumes "unschedule_downtimes env is w = Some w'" "depth_inv w"
  shows "depth_inv w'"
proof -
  have "depth_inv w \<longrightarrow> depth_inv w'"
  proof (rule unschedule_downtimes.raw_induct [OF _ assms(1)], intro impI)
    fix run env "is" w w'
    assume IH: "\<And>env is w w'. run env is w = Some w' \<Longrightarrow> depth_inv w \<longrightarrow> depth_inv w'"
      and body: "(case is of [] \<Rightarrow> Some w
        | i # is' \<Rightarrow>
            (case find_downtime i w of None \<Rightarrow> run env is' w
             | Some d \<Rightarrow>
                 (if \<not> exists_object w (dt_object d) then run env is' w
                  else Option.bind (unschedule env d w)
                    (\<lambda>w1. let w2 = delete_downtime i (w1\<lparr>w_high := remove_downtime i (w_high w1)\<rparr>) in
                          run env (map dt_id (triggered i w2) @ is') w2)))) = Some w'"
      and inv: "depth_inv w"
    show "depth_inv w'"
    proof (cases "is")
      case Nil
      with body inv show ?thesis by simp
    next
      case (Cons i is')
      show ?thesis
      proof (cases "\<exists>d. find_downtime i w = Some d \<and> exists_object w (dt_object d)")
        case False
        with body Cons have "run env is' w = Some w'" by (auto split: option.splits)
        with IH inv show ?thesis by blast
      next
        case True
        then obtain d where d: "find_downtime i w = Some d" "exists_object w (dt_object d)" by blast
        with body Cons obtain w1 js where 1: "unschedule env d w = Some w1"
          and 2: "run env js (delete_downtime i (w1\<lparr>w_high := remove_downtime i (w_high w1)\<rparr>)) = Some w'"
          by (auto simp: Let_def bind_eq_Some_conv)
        from IH [OF 2] unscheduled_depth [OF inv d(1) 1] show ?thesis by simp
      qed
    qed
  qed
  with assms(2) show ?thesis by simp
qed

lemma check_for_expired_depth: "depth_inv w \<Longrightarrow> depth_inv (check_for_expired_downtime env w)"
proof -
  have "depth_inv (fold (\<lambda>d w. delete_downtime (dt_id d) w) ds w)"
    if "depth_inv w" "\<forall>d\<in>set ds. \<forall>e\<in>set (w_downtimes w). dt_id e = dt_id d \<longrightarrow> \<not> dt_in_effect e" for ds w
    using that
  proof (induction ds arbitrary: w)
    case (Cons d ds)
    have "depth_inv (delete_downtime (dt_id d) w)"
    proof (cases "find_downtime (dt_id d) w")
      case None
      with Cons.prems show ?thesis by (simp add: delete_downtime_def)
    next
      case (Some e)
      with Cons.prems find_downtime_Some [OF Some] show ?thesis
        by (intro delete_downtime_depth [OF _ Some]) (auto simp: depth_inv_def depth_ok_def)
    qed
    moreover have "set (w_downtimes (delete_downtime (dt_id d) w)) \<subseteq> set (w_downtimes w)"
      using Cons.prems(1) by (auto simp: depth_inv_def downtimes_wf_def delete_downtime_frame set_erase)
    ultimately show ?case using Cons.prems(2) by (auto intro!: Cons.IH)
  qed simp
  moreover assume "depth_inv w"
  moreover from this have "\<forall>d\<in>set (filter (expired env) (w_downtimes w)). \<forall>e\<in>set (w_downtimes w). dt_id e = dt_id d \<longrightarrow> \<not> dt_in_effect e"
    by (auto simp: depth_inv_def downtimes_wf_def expired_def distinct_map inj_on_def)
  ultimately show ?thesis unfolding check_for_expired_downtime_def by blast
qed

text \<open>The next identifier is larger than those in the map.\<close>

lemma fold_max_id: "fold (\<lambda>d m. if dt_id d \<ge> m then dt_id d else m) ds m = fold (\<lambda>d. max (dt_id d)) ds m"
  by (induction ds arbitrary: m) (auto simp: max_def)

lemma next_id_larger:
  assumes "downtimes_wf w" "d \<in> set (w_downtimes w)"
  shows "dt_id d < get_next_downtime_id w"
proof -
  have "\<forall>d\<in>set ds. dt_id d \<le> fold (\<lambda>d. max (dt_id d)) ds m \<and> m \<le> fold (\<lambda>d. max (dt_id d)) ds m" if "ds \<noteq> []" for ds m
    using that
  proof (induction ds arbitrary: m)
    case (Cons e ds)
    then show ?case
      using Cons.IH [of "max (dt_id e) m"] by (cases "ds = []") (auto simp: neq_Nil_conv)
  qed simp
  with assms show ?thesis
    by (cases "w_downtimes w = []") (auto simp: get_next_downtime_id_def fold_max_id downtimes_wf_def less_Suc_eq_le)
qed

lemma add_downtime_depth:
  assumes inv: "depth_inv w" and d: "dt_id d = get_next_downtime_id w" "\<not> dt_in_effect d"
    "dt_triggered_by d > 0 \<Longrightarrow> find_downtime (dt_triggered_by d) w \<noteq> None"
  shows "depth_inv (add_downtime d (w\<lparr>w_next_downtime := dt_id d\<rparr>))"
proof -
  define l where "l = takeWhile (\<lambda>e. dt_start e \<le> dt_start d) (w_downtimes w)"
  define r where "r = dropWhile (\<lambda>e. dt_start e \<le> dt_start d) (w_downtimes w)"
  let ?w = "add_downtime d (w\<lparr>w_next_downtime := dt_id d\<rparr>)"
  have ds: "w_downtimes w = l @ r" by (simp add: l_def r_def)
  have new: "w_downtimes ?w = l @ d # r" "w_next_downtime ?w = dt_id d" "w_ck ?w = w_ck w"
    by (simp_all add: add_downtime_def l_def r_def)
  have larger: "dt_id e < dt_id d" if "e \<in> set l \<union> set r" for e
    using next_id_larger [of w e] inv d(1) that by (simp add: depth_inv_def ds)
  have "dt_triggered_by d < dt_id d"
  proof (cases "dt_triggered_by d = 0")
    case True
    then show ?thesis by (simp add: d(1) get_next_downtime_id_def)
  next
    case False
    with d(3) obtain e where e: "find_downtime (dt_triggered_by d) w = Some e" by auto
    from find_downtime_Some [OF this] larger [of e] show ?thesis by (auto simp: ds)
  qed
  moreover have "dt_id d \<notin> dt_id ` (set l \<union> set r)" using larger by fastforce
  moreover have "\<forall>e\<in>set (l @ d # r). dt_id e \<le> dt_id d" using larger by (auto intro: less_imp_le)
  ultimately have "downtimes_wf ?w"
    using inv by (auto simp: downtimes_wf_def depth_inv_def new ds)
  moreover have "in_effect x ?w = in_effect x w" for x
    using d(2) by (simp add: in_effect_def new ds)
  ultimately show ?thesis
    using inv by (simp add: depth_inv_def depth_ok_def new)
qed

lemma subscribe_downtime_depth:
  assumes "depth_inv w"
  shows "depth_inv (subscribe_downtime env d w)"
proof (cases "exists_object w (dt_object d)")
  case True
  obtain c w1 where c: "add_comment (dt_object d) Entry_downtime w = (c, w1)" by fastforce
  have "depth_inv w1" using depth_inv_same [of w1 w] same_downtimes [OF add_comment_same [OF c]] assms by simp
  from upd_downtime_depth [OF keeps_comment _ this]
  have "depth_inv (upd_downtime (dt_id d) (\<lambda>d. d\<lparr>dt_comment_id := c\<rparr>) w1)" by simp
  moreover have "depth_inv (schedule_downtime_event env t i w) = depth_inv w" for t i w
    by (rule depth_inv_same) (simp_all add: schedule_downtime_event_def)
  ultimately show ?thesis using True c by (simp add: subscribe_downtime_def Let_def)
qed (simp add: subscribe_downtime_def assms)

lemma schedule_downtime_depth:
  assumes "depth_inv w"
  shows "depth_inv (snd (schedule_downtime env x author comment s e fixed trig duration w))"
proof -
  let ?i = "get_next_downtime_id w"
  have "\<forall>d\<in>set (w_downtimes w). dt_id d \<le> ?i"
    using assms next_id_larger [of w] by (auto simp: depth_inv_def intro: less_imp_le)
  then have "depth_inv (w\<lparr>w_next_downtime := ?i\<rparr>)"
    using assms by (simp add: depth_inv_def depth_ok_def downtimes_wf_def in_effect_def)
  moreover have "depth_inv (emit f w) = depth_inv w" for f w
    by (rule depth_inv_same) (simp_all add: frame_simps)
  moreover have "depth_inv (add_downtime d (w\<lparr>w_next_downtime := ?i\<rparr>))"
    if "dt_id d = ?i" "\<not> dt_in_effect d" "dt_triggered_by d > 0 \<longrightarrow> find_downtime (dt_triggered_by d) w \<noteq> None" for d
    using add_downtime_depth [OF assms, of d] that by simp
  ultimately show ?thesis
    using assms
    by (cases "s \<ge> e \<or> e \<le> now env"; cases "exists_object w x"; cases "trig > 0 \<and> find_downtime trig w = None")
      (auto simp: schedule_downtime_def Let_def intro!: subscribe_downtime_depth)
qed

subsection \<open>The end of a downtime that triggers a waiting one\<close>

definition blocked :: "nat \<Rightarrow> nat \<Rightarrow> world \<Rightarrow> bool" where
  "blocked i c w \<longleftrightarrow>
     first_triggered i w = Some c \<and>
     (\<exists>d. find_downtime c w = Some d \<and> waits_for_problem d w \<and> exists_object w (dt_object d))"

lemma upd_downtime_find:
  assumes "keeps_identity f"
  shows "find_downtime j (upd_downtime i f w) = map_option (\<lambda>d. if dt_id d = i then f d else d) (find_downtime j w)"
    "first_triggered j (upd_downtime i f w) = first_triggered j w"
proof -
  have "find P (map g ds) = map_option g (find P ds)" if "\<And>d. P (g d) = P d" for P :: "downtime \<Rightarrow> bool" and g ds
    using that by (induction ds) auto
  moreover have "dt_id (if dt_id d = i then f d else d) = dt_id d"
    "dt_triggered_by (if dt_id d = i then f d else d) = dt_triggered_by d" for d
    using assms by (simp_all add: keeps_identity_def)
  ultimately show "find_downtime j (upd_downtime i f w) = map_option (\<lambda>d. if dt_id d = i then f d else d) (find_downtime j w)"
    "first_triggered j (upd_downtime i f w) = first_triggered j w"
    by (simp_all add: find_downtime_def first_triggered_def upd_downtime_def option.map_comp o_def)
qed

lemma blocked_same:
  assumes "w_downtimes w' = w_downtimes w" "\<And>x. state w' x = state w x" "w_hosts w' = w_hosts w" "w_services w' = w_services w"
  shows "blocked i c w' = blocked i c w"
proof -
  have "exists_object w' x = exists_object w x" for x using assms by (cases x) auto
  with assms show ?thesis
    by (simp add: blocked_def first_triggered_def find_downtime_def waits_for_problem_def)
qed

lemma blocked_wait:
  assumes "blocked i c w" "find_downtime c w = Some d"
  shows "blocked i c (wait_for_problem d w)"
proof -
  have d: "dt_id d = c" using find_downtime_Some [OF assms(2)] by simp
  let ?u = "upd_downtime c (\<lambda>d. d\<lparr>dt_incremented := True\<rparr>) w"
  have "exists_object ?u x = exists_object w x" for x by (cases x) (simp_all add: upd_downtime_def)
  with assms d have "blocked i c ?u"
    by (auto simp: blocked_def upd_downtime_find [OF keeps_incremented] waits_for_problem_def)
  moreover have "blocked i c (wait_for_problem d w) = blocked i c ?u"
    using d by (intro blocked_same)
      (simp_all add: wait_for_problem_downtimes(1), simp_all add: wait_for_problem_def Let_def upd_downtime_def add_pending_def frame_simps)
  ultimately show ?thesis by simp
qed

lemma blocked_diverges:
  assumes "blocked i c w"
  shows "run_tasks env [Stop_first i] w = None"
proof (rule ccontr)
  let ?Q = "\<lambda>ts w. ts \<in> {[Stop_first i], [Stop_second i], [Handle c, Stop_first i], [Handle c, Stop_second i]} \<and> blocked i c w"
  assume "run_tasks env [Stop_first i] w \<noteq> None"
  then obtain w' where "run_tasks env [Stop_first i] w = Some w'" by auto
  then have "?Q [] w'"
  proof (rule run_tasks_invariant [where Q = ?Q])
    show "?Q [Stop_first i] w" using assms by simp
    fix t ts w us w1 assume Q: "?Q (t # ts) w" and step: "task_step env t w = Some (us, w1)"
    then obtain d where d: "find_downtime c w = Some d" "waits_for_problem d w" "exists_object w (dt_object d)"
      "first_triggered i w = Some c" by (auto simp: blocked_def)
    with Q step blocked_wait [OF _ d(1)] show "?Q (us @ ts) w1" by auto
  qed
  then show False by simp
qed

lemma end_downtime_state:
  assumes "end_downtime env d w = Some w'"
  shows "state w' x = state w x" "w_hosts w' = w_hosts w" "w_services w' = w_services w"
proof -
  let ?w1 = "add_depth (dt_object d) (- 1) (emit (Downtime_stopped (dt_id d) False) w)"
  from assms obtain w2 where 2: "w2 = ?w1 \<or> notify_object env Reason_downtimeend (dt_author d) (dt_comment d) (dt_object d) ?w1 = Some w2"
    and w': "w' = update_status (dt_object d) w2 \<or> w' = add_pending (dt_object d) (- 1) (update_status (dt_object d) w2)"
    by (auto simp: end_downtime_def Let_def bind_eq_Some_conv split: if_splits)
  from 2 have "same_checks ?w1 w2" using notify_object_same by auto
  with w' show "state w' x = state w x" "w_hosts w' = w_hosts w" "w_services w' = w_services w"
    by (auto simp: same_checks_def update_status_def add_depth_def add_pending_def frame_simps)
qed

subsection \<open>Properties\<close>

lemma run_tasks_Nil: "run_tasks env [] w = Some w"
  by (simp add: run_tasks.simps)

lemma run_tasks_Cons:
  "run_tasks env (t # ts) w = Option.bind (task_step env t w) (\<lambda>(us, w1). run_tasks env (us @ ts) w1)"
  by (simp add: run_tasks.simps [of env "t # ts"])

lemmas downtime_eval = schedule_downtime_def subscribe_downtime_def get_next_downtime_id_def add_downtime_def
  upd_downtime_def find_downtime_def add_comment_of_def next_free_comment_def schedule_downtime_event_def
  add_event_def new_event_def handle_downtime_def run_tasks_Nil run_tasks_Cons waits_for_problem_def wait_for_problem_def
  start_downtime_def end_downtime_def add_depth_def add_pending_def update_status_def triggered_def after_end_def
  int64_max_def year_2100_def max_duration_def sample_notify first_triggered_def

text \<open>
  C38. The call that ends a downtime does not return when the first downtime it triggered is flexible and still
  waits for a problem of its object: the loop over the triggered downtimes finds it again each time.
\<close>

theorem downtime_end_hangs:
  assumes "find_downtime i w = Some d" "dt_in_effect d" "exists_object w (dt_object d)" "\<not> waits_for_problem d w"
    "end_downtime env d w = Some w1"
    and "first_triggered i w = Some c" "find_downtime c w = Some e" "waits_for_problem e w" "exists_object w (dt_object e)"
  shows "handle_downtime env i w = None"
proof -
  have "blocked i c w1 = blocked i c w"
    using end_downtime_frame(1) [OF assms(5)] end_downtime_state [OF assms(5)] by (intro blocked_same) auto
  moreover have "blocked i c w" using assms(6-) by (simp add: blocked_def)
  ultimately have "run_tasks env [Stop_first i] w1 = None" using blocked_diverges by simp
  with assms(1-5) show ?thesis by (simp add: handle_downtime_def run_tasks.simps [of _ "[Handle i]"])
qed

definition sample_parent :: downtime where
  "sample_parent = \<lparr>dt_id = 1, dt_object = Svc 0 0, dt_author = [], dt_comment = [], dt_start = 300, dt_end = 600,
     dt_fixed = True, dt_triggered_by = 0, dt_duration = 0, dt_in_effect = True, dt_comment_id = 0, dt_start_flex = False,
     dt_incremented = False\<rparr>"

definition sample_child :: downtime where
  "sample_child = sample_parent\<lparr>dt_id := 2, dt_fixed := False, dt_triggered_by := 1, dt_in_effect := False,
     dt_incremented := True\<rparr>"

definition sample_downtimes :: world where
  "sample_downtimes = sample_world\<lparr>w_downtimes := [sample_parent, sample_child]\<rparr>"

lemma sample_parent_ends: "\<exists>w1. end_downtime (sample_cenv 601) sample_parent sample_downtimes = Some w1"
  by (simp add: sample_downtimes_def sample_parent_def sample_eval downtime_eval emit_def upd_def Let_def)

theorem downtime_end_hangs_witness: "handle_downtime (sample_cenv 601) 1 sample_downtimes = None"
proof -
  obtain w1 where "end_downtime (sample_cenv 601) sample_parent sample_downtimes = Some w1"
    using sample_parent_ends by blast
  then show ?thesis
    by (rule downtime_end_hangs [where c = 2 and e = sample_child, rotated 4])
      (simp_all add: sample_downtimes_def sample_parent_def sample_child_def sample_eval downtime_eval)
qed

end
