(* ===== verification/Engine_Invariants.thy ===== *)
theory Engine_Invariants
  imports Engine_Commands Downtimes_Props
begin

section \<open>What every operation of the engine keeps\<close>

text \<open>
  A property of the state of the engine that the elementary changes keep is kept by the handlers of the results, by the
  events and by the loop. The elementary changes are the assumptions of a locale; the theory is interpreted for the
  lists of events, the depths of downtimes, the history of flap detection and the list of results that is reaped.
\<close>

named_theorems keeps \<open>operations that keep the invariant\<close>

subsection \<open>The handlers of results\<close>

locale engine_invariant =
  fixes P :: "world \<Rightarrow> bool"
  assumes emit [keeps]: "P w \<Longrightarrow> P (emit e w)"
    and status [keeps]: "P w \<Longrightarrow> P (upd_status x f w)"
    and sched [keeps]: "P w \<Longrightarrow> P (upd_sched x g w)"
    and reset [keeps]: "P w \<Longrightarrow> P (reset_notifications x w)"
    and ids [keeps]: "P w \<Longrightarrow> P (w\<lparr>w_next_event_id := i, w_next_problem_id := j\<rparr>)"
    and running_services [keeps]: "P w \<Longrightarrow> P (w\<lparr>w_running_services := n\<rparr>)"
    and running_hosts [keeps]: "P w \<Longrightarrow> P (w\<lparr>w_running_hosts := n\<rparr>)"
    and to_reap [keeps]: "P w \<Longrightarrow> P (add_check_result_to_reap r w)"
    and waiting [keeps]: "P w \<Longrightarrow> P (add_check_result k r w)"
    and acks [keeps]: "P w \<Longrightarrow> P (delete_acknowledgement_comments x w)"
    and notify: "notify_object env type author message x w = Some w' \<Longrightarrow> P w \<Longrightarrow> P w'"
    and service_flapping: "service_check_for_flapping env u allow x w = Some w' \<Longrightarrow> P w \<Longrightarrow> P w'"
    and host_flapping: "host_check_for_flapping env u a allow x w = Some w' \<Longrightarrow> P w \<Longrightarrow> P w'"
    and flex: "check_pending_flex_downtime env x w = Some w' \<Longrightarrow> P w \<Longrightarrow> P w'"
    and place: "place_check env x t opts (w_low w) = (l, rest) \<Longrightarrow> P w \<Longrightarrow> P (w\<lparr>w_low := l\<rparr>)"
begin

lemma update_status [keeps]: "P w \<Longrightarrow> P (update_status x w)"
  by (simp add: update_status_def emit)

lemma logs [keeps]: "P w \<Longrightarrow> P (service_log_event env x w)" "P w \<Longrightarrow> P (host_log_event x w)"
  by (simp_all add: service_log_event_def host_log_event_def emit)

lemma handle_event [keeps]: "P w \<Longrightarrow> P (handle_event env x w)"
  by (simp add: handle_event_def Let_def emit)

lemma obsess [keeps]: "P w \<Longrightarrow> P (obsess b x w)"
  by (simp add: obsess_def emit)

lemma adjust_attempt [keeps]: "P w \<Longrightarrow> P (adjust_check_attempt b x w)"
  by (simp add: adjust_check_attempt_def Let_def status)

lemma execute [keeps]: "P w \<Longrightarrow> P (execute_check env x r w)"
  by (simp add: execute_check_def run_failure_def to_reap waiting split: option.splits)

lemma service_run_async:
  "service_run_async_check env opts latency sc re x w = Some (ok, valid, t, w') \<Longrightarrow> P w \<Longrightarrow> P w'"
  by (auto simp: service_run_async_check_def start_check_def run_failure_def Let_def keeps
      split: if_splits option.splits neb_result.splits)

lemma host_run_async:
  assumes "host_run_async_check env opts latency sc re x w = Some (ok, valid, t, w')" "P w"
  shows "P w'"
proof -
  let ?w1 = "if re then upd_sched x (\<lambda>s. s\<lparr>sc_reschedule_current := True\<rparr>) w else w"
  let ?w2 = "adjust_check_attempt True x (upd_sched x (\<lambda>s. s\<lparr>sc_options := (if sc then 0 else sc_options s)\<rparr>) ?w1)"
  let ?w3 = "if sc then ?w2 else upd_sched x (\<lambda>s. s\<lparr>sc_next_check := now env\<rparr>) ?w2"
  let ?w4 = "(upd_sched x (\<lambda>s. s\<lparr>sc_executing := True\<rparr>) ?w3)\<lparr>w_running_hosts := w_running_hosts w + 1\<rparr>"
  have "w' = w \<or> w' = ?w1 \<or> w' = execute_check env x (new_result env x opts re latency) ?w4"
    using assms(1) unfolding host_run_async_check_def Let_def
    by (auto split: if_split_asm option.split_asm neb_result.split_asm)
  with assms(2) show ?thesis by (auto simp: keeps)
qed

lemma on_demand:
  "host_on_demand_check env x w = Some w' \<Longrightarrow> P w \<Longrightarrow> P w'"
  "service_on_demand_check env x w = Some w' \<Longrightarrow> P w \<Longrightarrow> P w'"
  by (auto simp: host_on_demand_check_def service_on_demand_check_def dest: host_run_async service_run_async)

lemma place_sched:
  assumes "place_check env x t opts (w_low w) = (l, rest)" "P w"
  shows "P ((upd_sched x f w)\<lparr>w_low := l\<rparr>)"
  using assms by (intro place [of env x t opts]) (simp_all add: upd_sched_def frame_simps sched [unfolded upd_sched_def])

lemma schedule_checks [keeps]:
  assumes "P w"
  shows "P (snd (service_schedule_check env x t opts b w))" "P (snd (host_schedule_check env x t opts b w))"
proof -
  obtain l u k r where p: "place_check env x t opts (w_low w) = (l, u, k, r)" by (cases "place_check env x t opts (w_low w)") auto
  note placed = place_sched [OF p assms]
  from assms placed show "P (snd (service_schedule_check env x t opts b w))" "P (snd (host_schedule_check env x t opts b w))"
    by (simp_all add: service_schedule_check_def host_schedule_check_def p Let_def update_status)
qed

lemma schedule_check_pairs:
  "service_schedule_check env x t opts b w = (s, w') \<Longrightarrow> P w \<Longrightarrow> P w'"
  "host_schedule_check env x t opts b w = (s, w') \<Longrightarrow> P w \<Longrightarrow> P w'"
  using schedule_checks [of w env x t opts b] by simp_all

text \<open>Services.\<close>

lemma service_changes [keeps]:
  assumes "P w"
  shows "P (service_take_result r x w)" "P (service_count_attempt x w)" "P (next_ids x w)"
    "P (service_note_change changed hard_changed x w)" "P (service_soft_recovery env x w)" "P (service_ok_reset x w)"
    "P (service_host_recovered x w)" "P (service_stalk env changed logged out x w)"
    "P (service_send_status re need x w)" "P (service_clear_flags r x w)"
proof -
  have n: "P (next_ids x w)" if "P w" for w
    using that by (simp add: next_ids_def Let_def keeps)
  then show "P (next_ids x w)" using assms .
  have "P (service_reset_on_change changed hard_changed x w)"
    using assms by (simp add: service_reset_on_change_def Let_def keeps)
  then have "P (service_change_times changed hard_changed x (service_reset_on_change changed hard_changed x w))"
    by (simp add: service_change_times_def Let_def keeps)
  then show "P (service_note_change changed hard_changed x w)"
    by (cases changed) (simp_all add: service_note_change_def n)
  show "P (service_take_result r x w)" "P (service_count_attempt x w)" "P (service_soft_recovery env x w)"
    "P (service_ok_reset x w)" "P (service_host_recovered x w)" "P (service_stalk env changed logged out x w)"
    "P (service_send_status re need x w)" "P (service_clear_flags r x w)"
    using assms
    by (simp_all add: service_take_result_def service_count_attempt_def service_soft_recovery_def service_ok_reset_def
        service_host_recovered_def service_stalk_def service_send_status_def service_clear_flags_def Let_def keeps)
qed

lemma both_flapping: "both_check_for_flapping env x w = Some w' \<Longrightarrow> P w \<Longrightarrow> P w'"
  by (auto simp: both_check_for_flapping_def bind_eq_Some_conv dest: service_flapping host_flapping)

lemma service_hard_recovery: "service_hard_recovery env x w = Some w' \<Longrightarrow> P w \<Longrightarrow> P w'"
  by (auto simp: service_hard_recovery_def Let_def bind_eq_Some_conv keeps dest!: notify both_flapping)

lemma service_route: "service_check_route env first x w = Some w' \<Longrightarrow> P w \<Longrightarrow> P w'"
  "service_problem_route env changed x w = Some w' \<Longrightarrow> P w \<Longrightarrow> P w'"
  by (auto simp: service_check_route_def service_problem_route_def Let_def keeps split: if_split_asm
      dest: notify on_demand)

lemma service_ok: "service_ok env changed hard first x w = Some (w', r) \<Longrightarrow> P w \<Longrightarrow> P w'"
proof -
  assume "service_ok env changed hard first x w = Some (w', r)" "P w"
  then obtain w1 w2 w3 where 1: "service_check_route env first x (upd_status x (\<lambda>s. s\<lparr>cs_ack := Ack_none\<rparr>) w) = Some w1"
    and 2: "(if hard then service_hard_recovery env x w1
      else Some (if changed then service_soft_recovery env x w1 else w1)) = Some w2"
    and 3: "notify_object env Reason_recovery [] [] x w2 = Some w3"
    and w': "w' = service_ok_reset x (obsess (ce_obsess_services env) x w3)"
    by (auto simp: service_ok_def bind_eq_Some_conv)
  have "P w1" using service_route(1) [OF 1] \<open>P w\<close> by (simp add: keeps)
  with 2 have "P w2" by (auto simp: keeps service_hard_recovery split: if_splits)
  from notify [OF 3 this] show "P w'" by (simp add: w' keeps)
qed

lemma service_host_down: "service_host_down changed hard x w = (b, w') \<Longrightarrow> P w \<Longrightarrow> P w'"
  by (auto simp: service_host_down_def Let_def keeps)

lemma service_retry: "service_retry env hard x w = (w', r) \<Longrightarrow> P w \<Longrightarrow> P w'"
  by (auto simp: service_retry_def keeps split: if_splits)

lemma service_hard_problem: "service_hard_problem env changed hard x w = Some w' \<Longrightarrow> P w \<Longrightarrow> P w'"
  by (auto simp: service_hard_problem_def Let_def bind_eq_Some_conv keeps split: if_splits
      dest!: notify both_flapping flex)

lemma service_attempts: "service_attempts env changed hard x w = Some (w', r) \<Longrightarrow> P w \<Longrightarrow> P w'"
  by (auto simp: service_attempts_def split: if_splits prod.splits dest: service_retry service_hard_problem)

lemma service_problem: "service_problem env changed hard x w = Some (w', r) \<Longrightarrow> P w \<Longrightarrow> P w'"
proof -
  assume a: "service_problem env changed hard x w = Some (w', r)" and "P w"
  from a obtain w1 where 1: "service_problem_route env changed x w = Some w1"
    by (auto simp: service_problem_def bind_eq_Some_conv)
  obtain h w2 where 2: "service_host_effect changed hard x w1 = (h, w2)" by fastforce
  from a 1 2 obtain w3 r3 where 3: "service_attempts env changed h x w2 = Some (w3, r3)"
    and w': "w' = obsess (ce_obsess_services env) x w3"
    by (auto simp: service_problem_def bind_eq_Some_conv)
  from service_route(2) [OF 1 \<open>P w\<close>] 2 have "P w2"
    by (auto simp: service_host_effect_def keeps split: if_splits dest: service_host_down)
  from service_attempts [OF 3 this] show "P w'" by (simp add: w' keeps)
qed

lemma service_reschedule: "service_reschedule env t x w = (b, w') \<Longrightarrow> P w \<Longrightarrow> P w'"
  by (auto simp: service_reschedule_def Let_def keeps split: if_splits dest!: schedule_check_pairs)

lemma service_others: "service_check_others env ys w = Some w' \<Longrightarrow> P w \<Longrightarrow> P w'"
  by (induction ys arbitrary: w) (auto simp: bind_eq_Some_conv split: if_splits dest: on_demand)

lemma service_finish: "service_finish env re changed out x (w, r) = Some w' \<Longrightarrow> P w \<Longrightarrow> P w'"
proof -
  assume f: "service_finish env re changed out x (w, r) = Some w'" and "P w"
  obtain logged flapped t others where r: "r = (logged, flapped, t, others)" by (cases r) auto
  obtain need w1 where 1: "(if re then service_reschedule env t x w else (False, w)) = (need, w1)" by fastforce
  let ?w3 = "service_send_status re need x (emit (Check_processed x) (service_stalk env changed logged out x w1))"
  from f r 1 obtain w4 where 4: "(if flapped then Some ?w3 else both_check_for_flapping env x ?w3) = Some w4"
    and 5: "service_check_others env others w4 = Some w'"
    by (auto simp: service_finish_def bind_eq_Some_conv Let_def)
  have "P w1" using 1 \<open>P w\<close> by (auto split: if_splits dest: service_reschedule)
  then have "P ?w3" by (simp add: keeps)
  with 4 have "P w4" by (auto split: if_splits dest: both_flapping)
  from service_others [OF 5 this] show "P w'" .
qed

lemma service_process: "service_process env r x w = Some w' \<Longrightarrow> P w \<Longrightarrow> P w'"
proof -
  assume a: "service_process env r x w = Some w'" and "P w"
  let ?w1 = "service_take_result r x w" and ?f = "first_host_check env x (service_take_result r x w)"
  from a obtain w2 c h v where 2: "(if ?f then host_on_demand_check env (host_of x) ?w1 else Some ?w1) = Some w2"
    and v: "service_decide env c h ?f x (service_note_change c h x (service_count_attempt x w2)) = Some v"
    and 3: "service_finish env (cr_reschedule r \<or> c \<or> h) c (cs_output (status w x)) x v = Some w'"
    unfolding service_process_def Let_def by (auto simp: bind_eq_Some_conv)
  have "P ?w1" using \<open>P w\<close> by (rule keeps)
  with 2 have "P w2" by (auto split: if_splits dest: on_demand)
  then have w3: "P (service_note_change c h x (service_count_attempt x w2))" by (simp add: keeps)
  obtain w4 r4 where v4: "v = (w4, r4)" by (cases v)
  with v w3 have "P w4"
    by (auto simp: service_decide_def split: if_splits dest: service_ok service_problem)
  from service_finish [OF 3 [unfolded v4] this] show "P w'" .
qed

lemma service_handler: "service_handle_async_check_result env r x w = Some (b, w') \<Longrightarrow> P w \<Longrightarrow> P w'"
  by (auto simp: service_handle_async_check_result_def Let_def keeps split: if_splits dest!: service_process)

text \<open>Hosts.\<close>

lemma host_changes [keeps]:
  assumes "P w"
  shows "P (host_change_times env x w)" "P (host_reset_ack x w)" "P (host_log_change env x w)"
    "P (switch_all_services_to_unknown env x w)" "P (host_stalk out x w)" "P (set_hard x w)" "P (sync_prepare x w)"
    "P (host_take_result r x w)"
proof -
  have "P (fold (\<lambda>(h, s). add_check_result_to_reap (f h s)) ss w)" if "P w" for f ss w
    using that by (induction ss arbitrary: w) (auto simp: keeps)
  with assms show "P (switch_all_services_to_unknown env x w)"
    by (simp add: switch_all_services_to_unknown_def)
qed (use assms in \<open>simp_all add: host_change_times_def host_reset_ack_def host_log_change_def host_stalk_def set_hard_def
    sync_prepare_def host_take_result_def Let_def keeps\<close>)

lemma host_changed: "host_changed env x w = Some w' \<Longrightarrow> P w \<Longrightarrow> P w'"
  by (auto simp: host_changed_def Let_def bind_eq_Some_conv keeps dest!: notify flex)

lemma host_handle_state: "host_handle_state env x w = Some w' \<Longrightarrow> P w \<Longrightarrow> P w'"
  by (auto simp: host_handle_state_def Let_def keeps split: if_splits dest!: notify host_changed)

lemma host_branches:
  "host_was_down env st re x w = (w', r) \<Longrightarrow> P w \<Longrightarrow> P w'"
  "host_was_up env st re x w = (w', r) \<Longrightarrow> P w \<Longrightarrow> P w'"
  "host_single_attempt env st p x w = (w', r) \<Longrightarrow> P w \<Longrightarrow> P w'"
  by (auto simp: host_was_down_def host_was_up_def host_single_attempt_def Let_def keeps split: if_splits)

lemma host_reschedule: "host_reschedule env t x w = (b, w') \<Longrightarrow> P w \<Longrightarrow> P w'"
  by (auto simp: host_reschedule_def Let_def keeps split: if_splits dest!: schedule_check_pairs)

lemma host_others: "host_check_others env ys w = Some w' \<Longrightarrow> P w \<Longrightarrow> P w'"
  by (induction ys arbitrary: w) (auto simp: bind_eq_Some_conv split: if_splits dest: on_demand)

lemma host_finish: "host_finish env out x (w, r) = Some w' \<Longrightarrow> P w \<Longrightarrow> P w'"
proof -
  assume f: "host_finish env out x (w, r) = Some w'" and "P w"
  obtain re t others where r: "r = (re, t, others)" by (cases r) auto
  with f obtain w1 w2 where 1: "host_handle_state env x w = Some w1"
    and 2: "host_check_for_flapping env True True True x (host_stalk out x w1) = Some w2"
    by (auto simp: host_finish_def bind_eq_Some_conv)
  obtain b w3 where 3: "(if re then host_reschedule env t x w2 else (False, w2)) = (b, w3)" by fastforce
  from f r 1 2 3 have 4: "host_check_others env others (if b then w3 else update_status x w3) = Some w'"
    by (simp add: host_finish_def)
  have "P w2" using host_flapping [OF 2] host_handle_state [OF 1 \<open>P w\<close>] by (simp add: keeps)
  with 3 have "P w3" by (auto split: if_splits dest: host_reschedule)
  then show "P w'" using host_others [OF 4] by (simp add: keeps)
qed

lemma host_process_rest: "host_process_rest env single st p out re x w = Some w' \<Longrightarrow> P w \<Longrightarrow> P w'"
proof -
  assume a: "host_process_rest env single st p out re x w = Some w'" and "P w"
  obtain w1 r where 1: "(if single then host_single_attempt env st p x w
      else if state w x \<noteq> state_up then host_was_down env st re x w else host_was_up env st re x w) = (w1, r)"
    by (metis surj_pair)
  with \<open>P w\<close> have "P w1" by (auto split: if_splits dest: host_branches)
  with a 1 show "P w'" unfolding host_process_rest_def by (auto dest: host_finish)
qed

lemma execute_sync: "execute_sync env x w = (st, w') \<Longrightarrow> P w \<Longrightarrow> P w'"
  by (auto simp: execute_sync_def Let_def keeps split: if_splits prod.splits)

lemma run_sync_start: "run_sync_start env p x w = Some (Inr (st, out, w')) \<Longrightarrow> P w \<Longrightarrow> P w'"
  by (auto simp: run_sync_start_def keeps split: if_splits option.splits prod.splits dest!: execute_sync)

lemma sync_parents: "sync_parents env ps p w = Some (st, w') \<Longrightarrow> P w \<Longrightarrow> P w'"
proof -
  assume s: "sync_parents env ps p w = Some (st, w')" and "P w"
  have "P w \<longrightarrow> P (snd (st, w'))"
  proof (rule sync_parents.raw_induct [OF _ s], intro impI)
    fix run env ps p w y
    assume IH: "\<And>env ps p w y. run env ps p w = Some y \<Longrightarrow> P w \<longrightarrow> P (snd y)"
      and body: "(case ps of [] \<Rightarrow> Some (p, w)
        | q # ps' \<Rightarrow>
            Option.bind (run_sync_start env p q w) (\<lambda>start.
            Option.bind
              (case start of
                 Inl st \<Rightarrow> Some (st, w)
               | Inr (new_state, old_output, w1) \<Rightarrow>
                   (if single_attempt new_state q w1 then
                      Option.bind (run env (present (cf_parents (conf w1 q))) state_up (set_hard q w1)) (\<lambda>(grandparent, w2).
                      Option.bind (host_process_rest env True new_state grandparent old_output False q w2) (\<lambda>w3.
                      Some (state w3 q, emit (Check_processed q) w3)))
                    else
                      Option.bind (host_process_rest env False new_state state_up old_output False q w1) (\<lambda>w3.
                      Some (state w3 q, emit (Check_processed q) w3))))
              (\<lambda>(st, w4). if st = state_up then Some (st, w4) else run env ps' st w4))) = Some y"
      and "P w"
    show "P (snd y)"
    proof (cases ps)
      case Nil
      with body \<open>P w\<close> show ?thesis by auto
    next
      case (Cons q ps')
      from body Cons obtain start st w4 where 1: "run_sync_start env p q w = Some start"
        and 2: "(case start of
                 Inl st \<Rightarrow> Some (st, w)
               | Inr (new_state, old_output, w1) \<Rightarrow>
                   (if single_attempt new_state q w1 then
                      Option.bind (run env (present (cf_parents (conf w1 q))) state_up (set_hard q w1)) (\<lambda>(grandparent, w2).
                      Option.bind (host_process_rest env True new_state grandparent old_output False q w2) (\<lambda>w3.
                      Some (state w3 q, emit (Check_processed q) w3)))
                    else
                      Option.bind (host_process_rest env False new_state state_up old_output False q w1) (\<lambda>w3.
                      Some (state w3 q, emit (Check_processed q) w3)))) = Some (st, w4)"
        and 3: "(if st = state_up then Some (st, w4) else run env ps' st w4) = Some y"
        by (auto simp: bind_eq_Some_conv split: prod.splits)
      have "P w4"
      proof (cases start)
        case (Inl a)
        with 2 \<open>P w\<close> show ?thesis by auto
      next
        case (Inr a)
        obtain st1 out w1 where a: "a = (st1, out, w1)" by (cases a)
        have "P w1" using run_sync_start [OF 1 [unfolded Inr a] \<open>P w\<close>] .
        then have "P (set_hard q w1)" by (rule keeps)
        with 2 Inr a \<open>P w1\<close> show ?thesis
          by (auto simp: bind_eq_Some_conv keeps split: if_splits dest!: host_process_rest IH)
      qed
      with 3 IH show ?thesis by (auto split: if_splits)
    qed
  qed
  with \<open>P w\<close> show "P w'" by simp
qed

lemma host_process: "host_process env st out re x w = Some w' \<Longrightarrow> P w \<Longrightarrow> P w'"
proof -
  assume a: "host_process env st out re x w = Some w'" and "P w"
  define w1 where "w1 = (if cs_passive (status w x) then adjust_check_attempt False x w else w)"
  have "P w1" using \<open>P w\<close> by (simp add: w1_def keeps)
  show "P w'"
  proof (cases "single_attempt st x w1")
    case True
    with a obtain p w2 where 2: "(if cs_passive (status w1 x) then Some (state_up, set_hard x w1)
             else sync_parents env (present (cf_parents (conf w1 x))) state_up (set_hard x w1)) = Some (p, w2)"
      and 3: "host_process_rest env True st p out re x w2 = Some w'"
      by (auto simp: host_process_def w1_def [symmetric] Let_def bind_eq_Some_conv)
    have "P (set_hard x w1)" using \<open>P w1\<close> by (rule keeps)
    with 2 have "P w2" by (auto split: if_splits dest: sync_parents)
    from host_process_rest [OF 3 this] show ?thesis .
  next
    case False
    with a \<open>P w1\<close> host_process_rest show ?thesis by (auto simp: host_process_def w1_def [symmetric] Let_def)
  qed
qed

lemma host_handler: "host_handle_async_check_result_3x env r x w = Some (b, w') \<Longrightarrow> P w \<Longrightarrow> P w'"
  by (auto simp: host_handle_async_check_result_3x_def Let_def keeps split: if_splits dest!: host_process)

lemma handle_result: "handle_result env r w = Some w' \<Longrightarrow> P w \<Longrightarrow> P w'"
  by (auto simp: handle_result_def split: if_splits dest: host_handler service_handler)

text \<open>Events that schedule or run checks.\<close>

lemma run_scheduled:
  assumes "P w"
  shows "service_run_scheduled_check env opts latency x w = Some (b, w') \<Longrightarrow> P w'"
    "host_run_scheduled_check env opts latency x w = Some (b, w') \<Longrightarrow> P w'"
  using assms
  by (auto simp: service_run_scheduled_check_def host_run_scheduled_check_def service_reschedule_failed_def
      host_reschedule_failed_def Let_def keeps split: option.splits if_splits prod.splits
      dest!: service_run_async host_run_async schedule_check_pairs)

lemma freshen [keeps]: "P w \<Longrightarrow> P (freshen env x w)"
  by (simp add: freshen_def Let_def keeps)

lemma orphans [keeps]: "P w \<Longrightarrow> P (service_orphan env x w)" "P w \<Longrightarrow> P (host_orphan env x w)"
  by (simp_all add: service_orphan_def host_orphan_def Let_def keeps)

lemma fold_keeps: "(\<And>y w. P w \<Longrightarrow> P (f y w)) \<Longrightarrow> P w \<Longrightarrow> P (fold f ys w)"
  by (induction ys arbitrary: w) auto

lemma sweeps [keeps]:
  assumes "P w"
  shows "P (service_check_result_freshness env w)" "P (host_check_result_freshness env w)"
    "P (service_check_for_orphaned env w)" "P (host_check_for_orphaned env w)"
  using assms
  by (auto simp: service_check_result_freshness_def host_check_result_freshness_def service_check_for_orphaned_def
      host_check_for_orphaned_def keeps intro!: fold_keeps)

lemma spread: "spread f l gap factor es a b w = (es', w') \<Longrightarrow> P w \<Longrightarrow> P w'"
proof (induction es arbitrary: a b w es' w')
  case (Cons e es)
  from Cons.prems(1) consider "w' = w" | a' b' es'' where "spread f l gap factor es a' b' w = (es'', w')"
    | a' b' es'' x t where
      "spread f l gap factor es a' b' (update_status x (upd_sched x (\<lambda>s. s\<lparr>sc_next_check := t\<rparr>) w)) = (es'', w')"
    by (auto simp: Let_def split: if_splits option.splits prod.splits)
  then show ?case
    by cases (use Cons.IH Cons.prems(2) in \<open>auto simp: keeps\<close>)
qed simp

lemma ack_expiry [keeps]: "P w \<Longrightarrow> P (check_for_expired_acknowledgement env x w)"
  by (simp add: check_for_expired_acknowledgement_def Let_def keeps)

end

subsection \<open>The loop\<close>

definition sorts :: "(event_list \<Rightarrow> event_list) \<Rightarrow> bool" where
  "sorts f \<longleftrightarrow> (\<forall>l. mset (f l) = mset l \<and> sorted (map ev_run_time (f l)))"

locale loop_invariant = engine_invariant +
  assumes forgotten: "P w \<Longrightarrow> P (drop_forgotten w)"
    and swapped: "P w \<Longrightarrow> P (swap_queues w)"
    and reaped: "P w \<Longrightarrow> P (w\<lparr>w_to_reap := rs\<rparr>)"
    and downtime: "handle_downtime env i w = Some w' \<Longrightarrow> P w \<Longrightarrow> P w'"
    and expiry: "P w \<Longrightarrow> P (check_for_expired_downtime env w)"
    and high: "P w \<Longrightarrow> P (w\<lparr>w_high := h\<rparr>)"
    and pop: "P w \<Longrightarrow> w_low w = e # es \<Longrightarrow> P (w\<lparr>w_low := es\<rparr>)"
    and again: "P w0 \<Longrightarrow> e \<in> set (w_low w0) \<Longrightarrow> ev_recurring e \<Longrightarrow> P w \<Longrightarrow>
      P (w\<lparr>w_low := reschedule_event t e (w_low w)\<rparr>)"
    and later: "P w \<Longrightarrow> w_low w = e # es \<Longrightarrow> check_object e = Some y \<Longrightarrow>
      P (w\<lparr>w_low := reschedule_event t (e\<lparr>ev_run_time := u\<rparr>) es\<rparr>)"
    and spreading: "P w \<Longrightarrow> sorts (le_sort le) \<Longrightarrow> P (adjust_check_scheduling le w)"
begin

lemma reap_loop: "reap_loop start clock k rs w = Some w' \<Longrightarrow> P w \<Longrightarrow> P w'"
proof (induction rs arbitrary: k w)
  case (Cons r rs)
  then obtain w1 where 1: "handle_result (fst (clock k)) r (w\<lparr>w_to_reap := rs\<rparr>) = Some w1"
    and 2: "w' = w1 \<or> reap_loop start clock (Suc k) rs w1 = Some w'"
    by (auto split: option.splits if_splits)
  have "P w1" by (rule handle_result [OF 1 reaped [OF Cons.prems(2)]])
  with 2 Cons.IH show ?case by blast
qed simp

lemma reap: "reap start clock w = Some w' \<Longrightarrow> P w \<Longrightarrow> P w'"
  unfolding reap_def Let_def by (erule reap_loop) (simp add: forgotten swapped)

lemma handle_timed_event:
  assumes "handle_timed_event le e w = Some w'" "P w" "sorts (le_sort le)"
  shows "P w'"
proof (cases "ev_type e")
  case Event_service_check
  with assms show ?thesis
    by (auto simp: handle_timed_event_def on_object_def Let_def split: event_data.splits dest: run_scheduled)
next
  case Event_host_check
  with assms show ?thesis
    by (auto simp: handle_timed_event_def on_object_def Let_def split: event_data.splits dest: run_scheduled)
next
  case Event_check_reaper
  with assms have "reap (now (le_c le)) (le_clock le) w = Some w'" by (simp add: handle_timed_event_def)
  then show ?thesis by (rule reap [OF _ assms(2)])
next
  case Event_scheduled_downtime
  with assms show ?thesis
    by (simp add: handle_timed_event_def split: event_data.splits) (erule downtime [OF _ assms(2)])
next
  case Event_expire_host_ack
  with assms show ?thesis by (auto simp: handle_timed_event_def on_object_def keeps split: event_data.splits)
next
  case Event_expire_service_ack
  with assms show ?thesis by (auto simp: handle_timed_event_def on_object_def keeps split: event_data.splits)
qed (use assms in \<open>auto simp: handle_timed_event_def Let_def keeps expiry spreading split: if_splits\<close>)

lemma postponed:
  "\<exists>t f. postpone le e x (w\<lparr>w_low := es\<rparr>) =
     update_status x (upd_sched x f (w\<lparr>w_low := reschedule_event (now (le_c le)) (e\<lparr>ev_run_time := t\<rparr>) es\<rparr>))"
proof -
  let ?c = "w\<lparr>w_low := es\<rparr>"
  define t where "t = sc_next_check (sched ?c x) +
    (if nudge_seconds le e ?c \<noteq> 0 then nudge_seconds le e ?c
     else if \<not> cs_hard (status ?c x) \<and> state ?c x \<noteq> state_ok then retry_delay (le_c le) (conf ?c x)
     else check_delay (le_c le) (conf ?c x))"
  have "postpone le e x ?c = update_status x (upd_sched x (\<lambda>s. s\<lparr>sc_next_check := t\<rparr>)
      (w\<lparr>w_low := reschedule_event (now (le_c le)) (e\<lparr>ev_run_time := t\<rparr>) es\<rparr>))"
    unfolding postpone_def Let_def t_def [symmetric] by (cases w) (simp add: upd_sched_def upd_def)
  then show ?thesis by blast
qed

lemma dispatch:
  assumes "dispatch le w = Some w'" "P w" "sorts (le_sort le)"
  shows "P w'"
proof -
  let ?t = "now (le_c le)"
  consider "due ?t (w_high w)" | "\<not> due ?t (w_high w)" "due ?t (w_low w)" | "\<not> due ?t (w_high w)" "\<not> due ?t (w_low w)"
    by blast
  then show ?thesis
  proof cases
    case 1
    then obtain e es where l: "w_high w = e # es" by (cases "w_high w") auto
    with assms(1) 1 have "run_high le e (w\<lparr>w_high := es\<rparr>) = Some w'" by (simp add: dispatch_def)
    then obtain w1 where 2: "handle_timed_event le e (w\<lparr>w_high := es\<rparr>) = Some w1"
      and w': "w' = (if ev_recurring e then w1\<lparr>w_high := reschedule_event ?t e (w_high w1)\<rparr> else w1)"
      by (auto simp: run_high_def)
    have "P w1" by (rule handle_timed_event [OF 2 high [OF assms(2)] assms(3)])
    with w' high [of w1] show ?thesis by simp
  next
    case due: 2
    then obtain e es where l: "w_low w = e # es" by (cases "w_low w") auto
    with assms(1) due have run: "run_low le e (w\<lparr>w_low := es\<rparr>) = Some w'" by (simp add: dispatch_def)
    have popped: "P (w\<lparr>w_low := es\<rparr>)" by (rule pop [OF assms(2) l])
    show ?thesis
    proof (cases "runs_now le e (w\<lparr>w_low := es\<rparr>)")
      case True
      with run obtain w1 where 1: "handle_timed_event le e (w\<lparr>w_low := es\<rparr>) = Some w1"
        and w': "w' = (if ev_recurring e then w1\<lparr>w_low := reschedule_event ?t e (w_low w1)\<rparr> else w1)"
        by (auto simp: run_low_def)
      have "P w1" by (rule handle_timed_event [OF 1 popped assms(3)])
      with w' again [OF assms(2), of e] l show ?thesis by auto
    next
      case False
      then obtain x where x: "check_object e = Some x" by (auto simp: runs_now_def split: option.splits)
      let ?c = "w\<lparr>w_low := es\<rparr>"
      obtain u f where "postpone le e x ?c =
          update_status x (upd_sched x f (w\<lparr>w_low := reschedule_event ?t (e\<lparr>ev_run_time := u\<rparr>) es\<rparr>))"
        using postponed by blast
      with run x False later [OF assms(2) l x] show ?thesis
        by (simp add: run_low_def) (metis update_status sched)
    qed
  qed (use assms in \<open>simp add: dispatch_def\<close>)
qed

end

subsection \<open>The engine\<close>

text \<open>The steps of the engine: a round of the loop, the end of a command, and the commands of the users.\<close>

inductive engine_step :: "world \<Rightarrow> world \<Rightarrow> bool" where
  step_loop: "sorts (le_sort le) \<Longrightarrow> dispatch le w = Some w' \<Longrightarrow> engine_step w w'"
| step_finished: "engine_step w (finished res w)"
| step_forget: "engine_step w (forget x w)"
| step_passive_service: "engine_step w (snd (process_passive_service_check env t x code out w))"
| step_passive_host: "engine_step w (snd (process_passive_host_check env t x code out w))"
| step_acknowledge: "acknowledge_problem env author words sticky b persistent x w = Some w' \<Longrightarrow> engine_step w w'"
| step_unacknowledge: "engine_step w (remove_acknowledgement x w)"
| step_disable_checks: "engine_step w (disable_checks x w)"
| step_enable_checks: "engine_step w (enable_checks env x w)"
| step_passive: "engine_step w (switch_passive_checks b x w)"
| step_event_handler: "engine_step w (switch_event_handler b x w)"
| step_obsessing: "engine_step w (switch_obsessing b x w)"
| step_notifications: "propagate_notifications b own hosts services x w = Some w' \<Longrightarrow> engine_step w w'"
| step_flaps_off: "disable_flap_detection env x w = Some w' \<Longrightarrow> engine_step w w'"
| step_service_flaps_on: "service_enable_flap_detection env x w = Some w' \<Longrightarrow> engine_step w w'"
| step_host_flaps_on: "host_enable_flap_detection env x w = Some w' \<Longrightarrow> engine_step w w'"
| step_downtime: "engine_step w (snd (schedule_downtime env x author words t u fixed trig d w))"
| step_downtimes: "schedule_and_propagate_downtime env x author words t u fixed trig d w = Some w' \<Longrightarrow> engine_step w w'"
| step_cancel: "unschedule_downtime env k w = Some w' \<Longrightarrow> engine_step w w'"
| step_cancel_all: "delete_downtime_by_filter env host descr start words w = Some (n, w') \<Longrightarrow> engine_step w w'"
| step_check: "engine_step w (schedule_check env x t opts w)"
| step_checks: "engine_step w (schedule_host_service_checks env force t x w)"

locale step_invariant = loop_invariant +
  assumes conf [keeps]: "P w \<Longrightarrow> P (upd_conf x f w)"
    and notifier [keeps]: "P w \<Longrightarrow> P (switch_notifications b x w)"
    and comment [keeps]: "P w \<Longrightarrow> P (snd (add_comment_of p x entry w))"
    and downtimes: "P w \<Longrightarrow> P (snd (schedule_downtime env x author words t u fixed trig d w))"
    and cancel: "unschedule_downtime env k w = Some w' \<Longrightarrow> P w \<Longrightarrow> P w'"
    and ack_event [keeps]: "P w \<Longrightarrow> P (schedule_acknowledgement_expiration x w)"
    and waiting_list [keeps]: "P w \<Longrightarrow> P (w\<lparr>w_waiting := rs\<rparr>)"
    and forget [keeps]: "P w \<Longrightarrow> P (forget x w)"
    and flap_switch [keeps]: "P w \<Longrightarrow> P (upd_flap x (\<lambda>c. c\<lparr>fl_enabled := on\<rparr>) w)"
    and flap_off: "handle_flap_detection_disabled env x w = Some w' \<Longrightarrow> P w \<Longrightarrow> P w'"
begin

lemma propagate:
  assumes "propagate act vs w = Some w'" "\<And>x w b w'. act x w = (b, w') \<Longrightarrow> P w \<Longrightarrow> P w'" "P w"
  shows "P w'"
proof -
  have "(\<forall>x w b w'. act x w = (b, w') \<longrightarrow> P w \<longrightarrow> P w') \<longrightarrow> P w \<longrightarrow> P w'"
  proof (rule propagate.raw_induct [OF _ assms(1)], intro impI)
    fix run act vs w w'
    assume IH: "\<And>act vs w w'. run act vs w = Some w' \<Longrightarrow>
        (\<forall>x w b w'. act x w = (b, w') \<longrightarrow> P w \<longrightarrow> P w') \<longrightarrow> P w \<longrightarrow> P w'"
      and body: "(case vs of [] \<Rightarrow> Some w
        | v # vs' \<Rightarrow>
            (case v of
               Visit x \<Rightarrow> run act (visits (children w x) @ vs') w
             | Act x \<Rightarrow> (case act x w of (ok, w') \<Rightarrow> if ok then run act vs' w' else Some w'))) = Some w'"
      and act: "\<forall>x w b w'. act x w = (b, w') \<longrightarrow> P w \<longrightarrow> P w'" and "P w"
    show "P w'"
    proof (cases vs)
      case (Cons v vs')
      show ?thesis
      proof (cases v)
        case (Visit x)
        with Cons body have "run act (visits (children w x) @ vs') w = Some w'" by simp
        from IH [OF this] act \<open>P w\<close> show ?thesis by blast
      next
        case (Act x)
        obtain ok w1 where 1: "act x w = (ok, w1)" by fastforce
        with act \<open>P w\<close> have "P w1" by blast
        with Cons Act 1 body IH act show ?thesis by (cases ok) auto
      qed
    qed (use body \<open>P w\<close> in simp)
  qed
  with assms(2,3) show ?thesis by blast
qed

lemma acknowledge: "acknowledge_problem env author words sticky b persistent x w = Some w' \<Longrightarrow> P w \<Longrightarrow> P w'"
  by (auto simp: acknowledge_problem_def Let_def bind_eq_Some_conv keeps split: if_splits dest!: notify)

lemma schedule_check [keeps]: "P w \<Longrightarrow> P (schedule_check env x t opts w)"
  by (simp add: schedule_check_def keeps)

lemma switches [keeps]:
  assumes "P w"
  shows "P (remove_acknowledgement x w)" "P (disable_checks x w)" "P (enable_checks env x w)"
    "P (switch_passive_checks b x w)" "P (switch_event_handler b x w)" "P (switch_obsessing b x w)"
    "P (switch_beyond b hosts services x w)" "P (schedule_host_service_checks env force t x w)" "P (finished res w)"
  using assms
  by (auto simp: remove_acknowledgement_def disable_checks_def enable_checks_def switch_passive_checks_def
      switch_event_handler_def switch_obsessing_def switch_beyond_def schedule_host_service_checks_def finished_def
      Let_def keeps split: option.splits intro!: fold_keeps)

lemma unschedule_all: "unschedule_all env is w = Some w' \<Longrightarrow> P w \<Longrightarrow> P w'"
  by (induction "is" arbitrary: w) (auto simp: bind_eq_Some_conv dest: cancel)

lemma flap_switches:
  assumes "P w"
  shows "disable_flap_detection env x w = Some w' \<Longrightarrow> P w'"
    "service_enable_flap_detection env x w = Some w' \<Longrightarrow> P w'"
    "host_enable_flap_detection env x w = Some w' \<Longrightarrow> P w'"
  using assms
  by (auto simp: disable_flap_detection_def service_enable_flap_detection_def host_enable_flap_detection_def keeps
      split: if_splits dest!: flap_off service_flapping host_flapping)

lemma step: "engine_step w w' \<Longrightarrow> P w \<Longrightarrow> P w'"
proof (induction rule: engine_step.induct)
  case (step_loop le w w')
  then show ?case using dispatch by blast
next
  case (step_passive_service w env t x code out)
  then show ?case by (auto simp: process_passive_service_check_def keeps)
next
  case (step_passive_host w env t x code out)
  then show ?case by (auto simp: process_passive_host_check_def keeps)
next
  case (step_notifications b own hosts services x w w')
  have "P w'"
    by (rule propagate [OF step_notifications(1) [unfolded propagate_notifications_def]])
      (use step_notifications(2) in \<open>auto simp: keeps\<close>)
  then show ?case .
next
  case (step_downtimes env x author words t u fixed trig d w w')
  have "P w2" if "(case schedule_downtime env y author words t u fixed trig d w1 of
      (Inl _, w') \<Rightarrow> (False, w') | (Inr _, w') \<Rightarrow> (True, w')) = (b, w2)" "P w1" for y w1 b w2
    using that downtimes [OF that(2), of env y author words t u fixed trig d]
    by (auto split: prod.splits sum.splits)
  with step_downtimes show ?case
    unfolding schedule_and_propagate_downtime_def by (blast intro: propagate)
next
  case (step_cancel_all env host descr start words w n w')
  then show ?case by (auto simp: delete_downtime_by_filter_def Let_def split: if_splits dest: unschedule_all)
qed (auto simp: keeps downtimes dest: acknowledge cancel flap_switches)

lemma reachable: "engine_step\<^sup>*\<^sup>* w w' \<Longrightarrow> P w \<Longrightarrow> P w'"
  by (induction rule: rtranclp_induct) (auto dest: step)

end

end
