(* ===== verification/Engine_Props.thy ===== *)
theory Engine_Props
  imports Engine_Invariants
begin

section \<open>Properties of the engine\<close>

text \<open>
  The instances of the invariants: the list of low priority events has at most one check per object and is in the
  order of time; the depth of downtimes counts the downtimes in effect; the ring of flap detection is well formed and
  the percentage is between 0 and 100; handling a result leaves the list that is reaped alone. They hold in every state
  that the engine reaches.
\<close>

subsection \<open>What downtimes leave unchanged\<close>

definition downtime_frame :: "world \<Rightarrow> world \<Rightarrow> bool" where
  "downtime_frame w w' \<longleftrightarrow>
     (\<forall>x. conf w' x = conf w x \<and> status w' x = status w x \<and> sched w' x = sched w x \<and> flap w' x = flap w x) \<and>
     w_low w' = w_low w \<and> w_to_reap w' = w_to_reap w \<and> w_to_reap_partial w' = w_to_reap_partial w \<and>
     w_waiting w' = w_waiting w \<and> w_to_forget w' = w_to_forget w \<and> w_hosts w' = w_hosts w \<and> w_services w' = w_services w"

lemma downtime_frame_refl [simp]: "downtime_frame w w"
  by (simp add: downtime_frame_def)

lemma downtime_frame_trans [trans]: "downtime_frame w1 w2 \<Longrightarrow> downtime_frame w2 w3 \<Longrightarrow> downtime_frame w1 w3"
  by (simp add: downtime_frame_def)

lemma notify_frame: "notify_object env type author message x w = Some w' \<Longrightarrow> downtime_frame w w'"
  using notify_object_same [of env type author message x w w'] notify_object_flap [of env type author message x w w']
  by (simp add: downtime_frame_def same_checks_def)

lemma depth_frame: "downtime_frame w (add_depth x k w)" "downtime_frame w (add_pending x k w)" "downtime_frame w (emit e w)"
  "downtime_frame w (upd_downtime i f w)" "downtime_frame w (update_status x w)" "downtime_frame w (w\<lparr>w_high := h\<rparr>)"
  "downtime_frame w (schedule_downtime_event env t i w)" "downtime_frame w (w\<lparr>w_next_downtime := i\<rparr>)"
  "downtime_frame w (delete_comment i w)" "downtime_frame w (w\<lparr>w_downtimes := ds\<rparr>)"
  by (simp_all add: downtime_frame_def add_depth_def add_pending_def upd_def emit_def upd_downtime_def update_status_def
      schedule_downtime_event_def delete_comment_def)

lemma frame_all:
  "downtime_frame w0 w \<Longrightarrow> downtime_frame w0 (add_depth x k w)" "downtime_frame w0 w \<Longrightarrow> downtime_frame w0 (add_pending x k w)"
  "downtime_frame w0 w \<Longrightarrow> downtime_frame w0 (emit e w)" "downtime_frame w0 w \<Longrightarrow> downtime_frame w0 (upd_downtime i f w)"
  "downtime_frame w0 w \<Longrightarrow> downtime_frame w0 (update_status x w)" "downtime_frame w0 w \<Longrightarrow> downtime_frame w0 (w\<lparr>w_high := h\<rparr>)"
  "downtime_frame w0 w \<Longrightarrow> downtime_frame w0 (schedule_downtime_event env t i w)"
  "downtime_frame w0 w \<Longrightarrow> downtime_frame w0 (w\<lparr>w_next_downtime := i\<rparr>)"
  "downtime_frame w0 w \<Longrightarrow> downtime_frame w0 (delete_comment i w)"
  "downtime_frame w0 w \<Longrightarrow> downtime_frame w0 (w\<lparr>w_downtimes := ds\<rparr>)"
  by (rule downtime_frame_trans, assumption, rule depth_frame)+

lemma end_frame: "end_downtime env d w = Some w' \<Longrightarrow> downtime_frame w w'"
  by (auto simp: end_downtime_def Let_def bind_eq_Some_conv split: if_splits
      intro!: frame_all dest!: notify_frame elim!: downtime_frame_trans [rotated])

lemma start_frame: "start_downtime env d w = Some w' \<Longrightarrow> downtime_frame w w'"
  by (auto simp: start_downtime_def Let_def bind_eq_Some_conv split: if_splits
      intro!: frame_all dest!: notify_frame elim!: downtime_frame_trans [rotated])

lemma delete_frame: "downtime_frame w0 w \<Longrightarrow> downtime_frame w0 (delete_downtime i w)"
  by (auto simp: delete_downtime_def destroy_downtime_def intro!: frame_all split: option.splits)

lemma task_frame: "task_step env t w = Some (ts, w') \<Longrightarrow> downtime_frame w w'"
  by (cases t) (auto simp: wait_for_problem_def Let_def intro!: frame_all delete_frame split: option.splits if_splits
      dest: end_frame start_frame)

lemma handle_frame: "handle_downtime env i w = Some w' \<Longrightarrow> downtime_frame w w'"
  unfolding handle_downtime_def
  by (erule run_tasks_invariant [where Q = "\<lambda>ts. downtime_frame w"]) (auto dest: task_frame elim: downtime_frame_trans)

lemma flex_frame: "flex_loop env x is w = Some w' \<Longrightarrow> downtime_frame w w'"
proof (induction "is" arbitrary: w)
  case (Cons i "is")
  then consider "flex_loop env x is w = Some w'"
    | w1 where "handle_downtime env i (upd_downtime i (\<lambda>d. d\<lparr>dt_start_flex := True\<rparr>) w) = Some w1"
      "flex_loop env x is w1 = Some w'"
    by (auto simp: bind_eq_Some_conv split: option.splits if_splits)
  then show ?case
  proof cases
    case 2
    then show ?thesis
      using Cons.IH handle_frame downtime_frame_trans depth_frame(4) by blast
  qed (use Cons.IH in blast)
qed simp

lemma pending_flex_frame: "check_pending_flex_downtime env x w = Some w' \<Longrightarrow> downtime_frame w w'"
  by (auto simp: check_pending_flex_downtime_def flex_frame split: if_splits)

lemma expired_frame: "downtime_frame w (check_for_expired_downtime env w)"
proof -
  have "downtime_frame w0 w \<Longrightarrow> downtime_frame w0 (fold (\<lambda>d w. delete_downtime (dt_id d) w) ds w)" for w0 w ds
    by (induction ds arbitrary: w) (auto intro: delete_frame)
  from this [OF downtime_frame_refl] show ?thesis unfolding check_for_expired_downtime_def .
qed

lemma schedule_frame: "downtime_frame w (snd (schedule_downtime env x author comment s e fixed trig duration w))"
proof -
  have "downtime_frame w (subscribe_downtime env d (emit f (add_downtime d (w\<lparr>w_next_downtime := i\<rparr>))))" for d f i
  proof -
    let ?w = "emit f (add_downtime d (w\<lparr>w_next_downtime := i\<rparr>))"
    have f: "downtime_frame w ?w" unfolding add_downtime_def by (intro frame_all) simp
    obtain c w1 where c: "add_comment (dt_object d) Entry_downtime ?w = (c, w1)" by fastforce
    have "downtime_frame ?w w1"
      using add_comment_same [OF c] add_comment_ck [OF c] by (simp add: downtime_frame_def same_checks_def)
    with f have "downtime_frame w w1" by (rule downtime_frame_trans)
    then show ?thesis using f c by (auto simp: subscribe_downtime_def Let_def intro!: frame_all)
  qed
  then show ?thesis by (auto simp: schedule_downtime_def Let_def depth_frame)
qed

lemma unschedule_downtimes_frame:
  assumes "unschedule_downtimes env is w = Some w'"
  shows "downtime_frame w w'"
proof (rule unschedule_downtimes.raw_induct [OF _ assms])
  fix run env "is" w w'
  assume IH: "\<And>env is w w'. run env is w = Some w' \<Longrightarrow> downtime_frame w w'"
    and body: "(case is of [] \<Rightarrow> Some w
      | i # is' \<Rightarrow>
          (case find_downtime i w of None \<Rightarrow> run env is' w
           | Some d \<Rightarrow>
               (if \<not> exists_object w (dt_object d) then run env is' w
                else Option.bind (unschedule env d w)
                  (\<lambda>w1. let w2 = delete_downtime i (w1\<lparr>w_high := remove_downtime i (w_high w1)\<rparr>) in
                        run env (map dt_id (triggered i w2) @ is') w2)))) = Some w'"
  have u: "downtime_frame w w1" if "unschedule env d w = Some w1" for d w1
    using that by (auto simp: unschedule_def Let_def split: if_splits
        intro!: frame_all dest!: notify_frame elim!: downtime_frame_trans [rotated])
  show "downtime_frame w w'"
  proof (cases "is")
    case (Cons i is')
    show ?thesis
    proof (cases "\<exists>d. find_downtime i w = Some d \<and> exists_object w (dt_object d)")
      case True
      then obtain d where d: "find_downtime i w = Some d" "exists_object w (dt_object d)" by blast
      with body Cons obtain w1 js where 1: "unschedule env d w = Some w1"
        and 2: "run env js (delete_downtime i (w1\<lparr>w_high := remove_downtime i (w_high w1)\<rparr>)) = Some w'"
        by (auto simp: Let_def bind_eq_Some_conv)
      from u [OF 1] have "downtime_frame w (delete_downtime i (w1\<lparr>w_high := remove_downtime i (w_high w1)\<rparr>))"
        by (intro delete_frame frame_all)
      from downtime_frame_trans [OF this IH [OF 2]] show ?thesis .
    next
      case False
      with body Cons have "run env is' w = Some w'" by (auto split: option.splits)
      then show ?thesis by (rule IH)
    qed
  qed (use body in simp)
qed

subsection \<open>The list of events\<close>

definition checks_ok :: "event_list \<Rightarrow> bool" where
  "checks_ok l \<longleftrightarrow> sorted (map ev_run_time l) \<and> (\<forall>x. scheduled (check_event x) (Object x) l \<le> 1) \<and>
     (\<forall>e\<in>set l. check_object e \<noteq> None \<longrightarrow> \<not> ev_recurring e)"

lemma matches_check: "matches (check_event x) (Object x) e \<Longrightarrow> check_object e = Some x"
  by (cases x) (auto simp: matches_def check_object_def)

lemma add_check_ok:
  assumes "checks_ok l" "ev_recurring e \<Longrightarrow> check_object e = None"
    "\<And>x. matches (check_event x) (Object x) e \<Longrightarrow> scheduled (check_event x) (Object x) l = 0"
  shows "checks_ok (add_event e l)"
proof -
  have "scheduled (check_event x) (Object x) (add_event e l) \<le> 1" for x
    using assms(1,3) by (auto simp: scheduled_add checks_ok_def)
  with assms(1,2) show ?thesis by (auto simp: checks_ok_def intro: events.add_sorted)
qed

lemma place_check_ok:
  assumes "place_check env x t opts l = (l', rest)" "checks_ok l"
  shows "checks_ok l'"
proof -
  let ?t = "check_event x" and ?e = "new_event (check_event x) t True (Object x) opts"
  have m: "y = x" if "matches (check_event y) (Object y) ?e" for y
    using that by (simp add: matches_def new_event_def)
  have r: "reschedule_event (now env) ?e k = add_event ?e k" for k
    by (simp add: reschedule_event_def new_event_def)
  have rec: "\<not> ev_recurring ?e" by (simp add: new_event_def)
  show ?thesis
  proof (cases "find_event ?t (Object x) l")
    case None
    then have "scheduled ?t (Object x) l = 0" by (simp add: scheduled_zero)
    with assms None m rec show ?thesis
      by (auto simp: place_check_def Let_def r intro!: add_check_ok)
  next
    case (Some e)
    have rem: "checks_ok (remove_found ?t (Object x) l)"
    proof -
      have "scheduled (check_event y) (Object y) (remove_found ?t (Object x) l) \<le> scheduled (check_event y) (Object y) l" for y
        using Some by (cases "y = x") (simp_all add: scheduled_remove scheduled_remove_other)
      with assms(2) set_remove_found [of ?t "Object x" l] show ?thesis
        unfolding checks_ok_def by (blast intro: remove_found_sorted order_trans)
    qed
    have "scheduled ?t (Object x) (remove_found ?t (Object x) l) = 0"
      using scheduled_remove [OF Some] assms(2) by (simp add: checks_ok_def)
    with assms Some m rec rem show ?thesis
      by (auto simp: place_check_def Let_def r split: if_splits intro!: add_check_ok)
  qed
qed

text \<open>The spreading changes only the times.\<close>

definition kind :: "timed_event \<Rightarrow> event_type \<times> event_data \<times> bool" where
  "kind e = (ev_type e, ev_data e, ev_recurring e)"

lemma spread_kind: "spread f l gap factor es a b w = (es', w') \<Longrightarrow> map kind es' = map kind es"
  by (induction es arbitrary: a b w es' w')
    (auto simp: kind_def Let_def split: if_splits option.splits prod.splits)

lemma spread_low: "spread f l gap factor es a b w = (es', w') \<Longrightarrow> w_low w' = w_low w"
  by (induction es arbitrary: a b w es' w')
    (fastforce simp: Let_def update_status_def upd_sched_def frame_simps split: if_splits option.splits prod.splits)+

lemma scheduled_kind: "scheduled t d l = length (filter (\<lambda>(t', d', r). t' = t \<and> d' = d) (map kind l))"
  by (simp add: scheduled_def matches_def [abs_def] kind_def filter_map o_def)

lemma scheduled_perm: "mset l = mset l' \<Longrightarrow> scheduled t d l = scheduled t d l'"
  by (simp add: scheduled_mset)

lemma same_kind_ok:
  assumes "checks_ok l" "map kind l' = map kind l" "mset s = mset l'" "sorted (map ev_run_time s)"
  shows "checks_ok s"
proof -
  have "scheduled t d s = scheduled t d l" for t d
    using scheduled_perm [OF assms(3)] assms(2) by (simp add: scheduled_kind)
  moreover have "check_object e \<noteq> None \<longrightarrow> \<not> ev_recurring e" if "e \<in> set s" for e
  proof -
    from that assms(3) have "e \<in> set l'" by (metis set_mset_mset)
    then have "kind e \<in> set (map kind l)" unfolding assms(2) [symmetric] by simp
    then obtain e' where "e' \<in> set l" "kind e = kind e'" by auto
    with assms(1) show ?thesis by (auto simp: checks_ok_def kind_def check_object_def split: event_data.splits)
  qed
  ultimately show ?thesis using assms(1,4) by (simp add: checks_ok_def)
qed

lemmas elementary = emit_def upd_status_def upd_sched_def upd_def reset_notifications_def add_check_result_to_reap_def
  add_check_result_def delete_acknowledgement_comments_def

interpretation checks: engine_invariant "\<lambda>w. checks_ok (w_low w)"
proof unfold_locales
  show "checks_ok (w_low w')" if "notify_object env type author message x w = Some w'" "checks_ok (w_low w)"
    for env type author message x w w'
    using notify_object_same [OF that(1)] that(2) by (simp add: same_checks_def)
  show "checks_ok (w_low w')" if "service_check_for_flapping env u allow x w = Some w'" "checks_ok (w_low w)"
    for env u allow x w w'
    using service_check_for_flapping_same [OF that(1)] that(2) by (simp add: same_checks_def)
  show "checks_ok (w_low w')" if "host_check_for_flapping env u a allow x w = Some w'" "checks_ok (w_low w)"
    for env u a allow x w w'
    using host_check_for_flapping_same [OF that(1)] that(2) by (simp add: same_checks_def)
  show "checks_ok (w_low w')" if "check_pending_flex_downtime env x w = Some w'" "checks_ok (w_low w)" for env x w w'
    using pending_flex_frame [OF that(1)] that(2) by (simp add: downtime_frame_def)
qed (simp_all add: elementary place_check_ok)

interpretation checks_loop: loop_invariant "\<lambda>w. checks_ok (w_low w)"
proof unfold_locales
  show "checks_ok (w_low w')" if "handle_downtime env i w = Some w'" "checks_ok (w_low w)" for env i w w'
    using handle_frame [OF that(1)] that(2) by (simp add: downtime_frame_def)
  show "checks_ok (w_low (check_for_expired_downtime env w))" if "checks_ok (w_low w)" for env w
    using expired_frame [of w env] that by (simp add: downtime_frame_def)
  show pop: "checks_ok (w_low (w\<lparr>w_low := es\<rparr>))" if "checks_ok (w_low w)" "w_low w = e # es" for w e es
  proof -
    have "scheduled t d es \<le> scheduled t d (w_low w)" for t d by (simp add: that(2) scheduled_def)
    with that show ?thesis by (simp add: checks_ok_def) (meson order_trans)
  qed
  show "checks_ok (w_low (w\<lparr>w_low := reschedule_event t e (w_low w)\<rparr>))"
    if "checks_ok (w_low w0)" "e \<in> set (w_low w0)" "ev_recurring e" "checks_ok (w_low w)" for w0 e w t
  proof -
    have "check_object (e\<lparr>ev_run_time := u\<rparr>) = None" for u
      using that by (auto simp: checks_ok_def check_object_def split: event_data.splits)
    then have "checks_ok (add_event (e\<lparr>ev_run_time := next_run_time t e\<rparr>) (w_low w))"
      using matches_check that(4) by (intro add_check_ok) (fastforce dest: matches_check)+
    with that(3) show ?thesis by (simp add: reschedule_event_def)
  qed
  show "checks_ok (w_low (w\<lparr>w_low := reschedule_event t (e\<lparr>ev_run_time := u\<rparr>) es\<rparr>))"
    if ok: "checks_ok (w_low w)" and l: "w_low w = e # es" and x: "check_object e = Some y" for w e es y t u
  proof -
    have "\<not> ev_recurring e" using ok l x by (simp add: checks_ok_def)
    moreover have "scheduled (check_event x) (Object x) es = 0" if "matches (check_event x) (Object x) e" for x
    proof -
      have "scheduled (check_event x) (Object x) (w_low w) \<le> 1" using ok by (simp add: checks_ok_def)
      with that show ?thesis by (simp add: l scheduled_def)
    qed
    ultimately show ?thesis
      using pop [OF ok l] by (auto simp: reschedule_event_def matches_def intro!: add_check_ok)
  qed
  show "checks_ok (w_low (adjust_check_scheduling le w))" if "checks_ok (w_low w)" "sorts (le_sort le)" for le w
    using that same_kind_ok [OF that(1) spread_kind]
    by (auto simp: adjust_check_scheduling_def Let_def sorts_def split: if_splits prod.splits)
qed (simp_all add: drop_forgotten_def swap_queues_def)

subsection \<open>The depth of downtimes\<close>

lemma depth_inv_same_checks: "same_checks w w' \<Longrightarrow> depth_inv w' = depth_inv w"
  by (rule depth_inv_same) (simp_all add: same_checks_def)

lemma depth_inv_lists:
  "depth_inv (w\<lparr>w_low := l\<rparr>) = depth_inv w" "depth_inv (w\<lparr>w_high := l\<rparr>) = depth_inv w"
  "depth_inv (w\<lparr>w_to_reap := rs\<rparr>) = depth_inv w" "depth_inv (drop_forgotten w) = depth_inv w"
  "depth_inv (swap_queues w) = depth_inv w"
  by (rule depth_inv_same; simp add: drop_forgotten_def swap_queues_def)+

lemma depth_inv_elementary:
  "depth_inv (emit e w) = depth_inv w" "depth_inv (upd_status x f w) = depth_inv w" "depth_inv (upd_sched x g w) = depth_inv w"
  "depth_inv (reset_notifications x w) = depth_inv w"
  "depth_inv (w\<lparr>w_next_event_id := i, w_next_problem_id := j\<rparr>) = depth_inv w"
  "depth_inv (w\<lparr>w_running_services := n\<rparr>) = depth_inv w" "depth_inv (w\<lparr>w_running_hosts := n\<rparr>) = depth_inv w"
  "depth_inv (add_check_result_to_reap r w) = depth_inv w" "depth_inv (add_check_result k r w) = depth_inv w"
  "depth_inv (delete_acknowledgement_comments x w) = depth_inv w"
  by (rule depth_inv_same; simp add: elementary)+

interpretation depth: engine_invariant depth_inv
proof unfold_locales
  show "depth_inv w'" if "notify_object env type author message x w = Some w'" "depth_inv w"
    for env type author message x w w'
    using depth_inv_same_checks [OF notify_object_same [OF that(1)]] that(2) by simp
  show "depth_inv w'" if "service_check_for_flapping env u allow x w = Some w'" "depth_inv w" for env u allow x w w'
    using depth_inv_same_checks [OF service_check_for_flapping_same [OF that(1)]] that(2) by simp
  show "depth_inv w'" if "host_check_for_flapping env u a allow x w = Some w'" "depth_inv w" for env u a allow x w w'
    using depth_inv_same_checks [OF host_check_for_flapping_same [OF that(1)]] that(2) by simp
  show "depth_inv w'" if "check_pending_flex_downtime env x w = Some w'" "depth_inv w" for env x w w'
    using that by (rule check_pending_flex_depth)
qed (simp_all add: depth_inv_elementary depth_inv_lists)

interpretation depth_loop: loop_invariant depth_inv
proof unfold_locales
  show "depth_inv w'" if "handle_downtime env i w = Some w'" "depth_inv w" for env i w w'
    using that by (rule handle_downtime_depth)
  show "depth_inv (check_for_expired_downtime env w)" if "depth_inv w" for env w
    using that by (rule check_for_expired_depth)
  show "depth_inv (adjust_check_scheduling le w)" if "depth_inv w" for le w
    using that by (auto simp: adjust_check_scheduling_def Let_def depth_inv_lists split: prod.splits intro: depth.spread)
qed (simp_all add: depth_inv_lists)

subsection \<open>The history of flap detection\<close>

definition flaps_ok :: "world \<Rightarrow> bool" where
  "flaps_ok w \<longleftrightarrow> (\<forall>x. flap_wf (flap w x) \<and> 0 \<le> fl_percent (flap w x) \<and> fl_percent (flap w x) \<le> 100)"

lemma percent_bounds: "flap_wf f \<Longrightarrow> 0 \<le> percent_change f \<and> percent_change f \<le> 100"
  using weighted_changes_bounds [of "timeline_of f"] by (simp add: percent_change_timeline)

lemma flaps_ok_same: "(\<And>x. flap w' x = flap w x) \<Longrightarrow> flaps_ok w' = flaps_ok w"
  by (simp add: flaps_ok_def)

lemma measured_ok:
  assumes "flaps_ok w" "\<And>f. flap_wf f \<Longrightarrow> flap_wf (g f)"
  shows "flaps_ok (upd_flap x (\<lambda>f. f\<lparr>fl_percent := percent_change f\<rparr>) (upd_flap x g w))"
proof -
  have "flap_wf (g (flap w x))" using assms by (simp add: flaps_ok_def)
  moreover have "flap_wf (f\<lparr>fl_percent := p\<rparr>) = flap_wf f" for f p by (simp add: flap_wf_def)
  ultimately show ?thesis
    using assms(1) percent_bounds [of "g (flap w x)"] by (simp add: flaps_ok_def upd_flap_def frame_simps)
qed

lemma upd_flap_id: "upd_flap x (\<lambda>f. f) w = w"
  by (simp add: upd_flap_def upd_def)

lemma service_measure_ok: "flaps_ok w \<Longrightarrow> flaps_ok (service_measure u x w)"
  using measured_ok [of w "record_state (state w x)" x] measured_ok [of w "\<lambda>f. f" x]
  by (simp add: service_measure_def Let_def record_state_wf upd_flap_id)

lemma host_measure_ok: "flaps_ok w \<Longrightarrow> flaps_ok (host_measure env u a x w)"
proof -
  assume w: "flaps_ok w"
  have "flap_wf (record_state s (f\<lparr>fl_last_update := t\<rparr>))" if "flap_wf f" for f s t
    using record_state_wf [of "f\<lparr>fl_last_update := t\<rparr>" s] that by (simp add: flap_wf_def)
  with measured_ok [OF w, of "\<lambda>f. record_state (state w x) (f\<lparr>fl_last_update := now env\<rparr>)" x] measured_ok [OF w, of "\<lambda>f. f" x]
  show ?thesis by (simp add: host_measure_def Let_def upd_flap_id)
qed

lemma transition_ok: "flap_transition env b allow x w = Some w' \<Longrightarrow> flaps_ok w \<Longrightarrow> flaps_ok w'"
proof -
  assume t: "flap_transition env b allow x w = Some w'" and w: "flaps_ok w"
  note fr = flap_transition_frame [OF t]
  have "flap_wf (flap w' y) \<and> 0 \<le> fl_percent (flap w' y) \<and> fl_percent (flap w' y) \<le> 100" for y
  proof (cases "y = x")
    case True
    with w fr(3-5) show ?thesis by (simp add: flaps_ok_def flap_wf_def)
  next
    case False
    with w fr(7) [of y] show ?thesis by (simp add: flaps_ok_def)
  qed
  then show ?thesis by (simp add: flaps_ok_def)
qed

lemma flaps_ok_lists:
  "flaps_ok (w\<lparr>w_low := l\<rparr>) = flaps_ok w" "flaps_ok (w\<lparr>w_high := l\<rparr>) = flaps_ok w"
  "flaps_ok (w\<lparr>w_to_reap := rs\<rparr>) = flaps_ok w" "flaps_ok (drop_forgotten w) = flaps_ok w"
  "flaps_ok (swap_queues w) = flaps_ok w"
  by (rule flaps_ok_same; simp add: drop_forgotten_def swap_queues_def)+

lemma flaps_ok_elementary:
  "flaps_ok (emit e w) = flaps_ok w" "flaps_ok (upd_status x f w) = flaps_ok w" "flaps_ok (upd_sched x g w) = flaps_ok w"
  "flaps_ok (reset_notifications x w) = flaps_ok w"
  "flaps_ok (w\<lparr>w_next_event_id := i, w_next_problem_id := j\<rparr>) = flaps_ok w"
  "flaps_ok (w\<lparr>w_running_services := n\<rparr>) = flaps_ok w" "flaps_ok (w\<lparr>w_running_hosts := n\<rparr>) = flaps_ok w"
  "flaps_ok (add_check_result_to_reap r w) = flaps_ok w" "flaps_ok (add_check_result k r w) = flaps_ok w"
  "flaps_ok (delete_acknowledgement_comments x w) = flaps_ok w"
  by (rule flaps_ok_same; simp add: elementary)+

interpretation flaps: engine_invariant flaps_ok
proof unfold_locales
  show "flaps_ok w'" if "notify_object env type author message x w = Some w'" "flaps_ok w"
    for env type author message x w w'
    using flaps_ok_same [of w' w] notify_object_flap [OF that(1)] that(2) by simp
  show "flaps_ok w'" if "service_check_for_flapping env u allow x w = Some w'" "flaps_ok w" for env u allow x w w'
    using service_check_for_flapping_cases [OF that(1)] service_measure_ok [OF that(2)] transition_ok by blast
  show "flaps_ok w'" if "host_check_for_flapping env u a allow x w = Some w'" "flaps_ok w" for env u a allow x w w'
    using host_check_for_flapping_cases [OF that(1)] host_measure_ok [OF that(2)] transition_ok by blast
  show "flaps_ok w'" if "check_pending_flex_downtime env x w = Some w'" "flaps_ok w" for env x w w'
    using pending_flex_frame [OF that(1)] flaps_ok_same [of w' w] that(2) by (simp add: downtime_frame_def)
qed (simp_all add: flaps_ok_elementary flaps_ok_lists)

interpretation flaps_loop: loop_invariant flaps_ok
proof unfold_locales
  show "flaps_ok w'" if "handle_downtime env i w = Some w'" "flaps_ok w" for env i w w'
    using handle_frame [OF that(1)] flaps_ok_same [of w' w] that(2) by (simp add: downtime_frame_def)
  show "flaps_ok (check_for_expired_downtime env w)" if "flaps_ok w" for env w
    using expired_frame [of w env] flaps_ok_same [of "check_for_expired_downtime env w" w] that by (simp add: downtime_frame_def)
  show "flaps_ok (adjust_check_scheduling le w)" if "flaps_ok w" for le w
    using that by (auto simp: adjust_check_scheduling_def Let_def flaps_ok_lists split: prod.splits intro: flaps.spread)
qed (simp_all add: flaps_ok_lists)

subsection \<open>The list that is reaped\<close>

interpretation reaping: engine_invariant "\<lambda>w. w_to_reap w = rs"
proof unfold_locales
  show "w_to_reap w' = rs" if "notify_object env type author message x w = Some w'" "w_to_reap w = rs"
    for env type author message x w w'
    using notify_object_same [OF that(1)] that(2) by (simp add: same_checks_def)
  show "w_to_reap w' = rs" if "service_check_for_flapping env u allow x w = Some w'" "w_to_reap w = rs"
    for env u allow x w w'
    using service_check_for_flapping_same [OF that(1)] that(2) by (simp add: same_checks_def)
  show "w_to_reap w' = rs" if "host_check_for_flapping env u a allow x w = Some w'" "w_to_reap w = rs"
    for env u a allow x w w'
    using host_check_for_flapping_same [OF that(1)] that(2) by (simp add: same_checks_def)
  show "w_to_reap w' = rs" if "check_pending_flex_downtime env x w = Some w'" "w_to_reap w = rs" for env x w w'
    using pending_flex_frame [OF that(1)] that(2) by (simp add: downtime_frame_def)
qed (simp_all add: elementary)

subsection \<open>The steps\<close>

lemmas commands = upd_conf_def switch_notifications_def add_comment_of_def forget_def upd_flap_def upd_def emit_def Let_def

lemma flap_off_cases:
  assumes "handle_flap_detection_disabled env x w = Some w'"
  shows "same_checks w w' \<and> (\<forall>y. \<exists>b i. flap w' y = (flap w y)\<lparr>fl_flapping := b, fl_comment := i\<rparr>)"
proof (cases "fl_flapping (flap w x)")
  case True
  let ?w1 = "drop_flap_comment x (upd_flap x (\<lambda>f. f\<lparr>fl_flapping := False\<rparr>) w)"
  from True assms obtain w2 w3 where 2: "notify_object env Reason_flappingdisabled [] [] x ?w1 = Some w2"
    "notify_object env Reason_recovery [] [] x w2 = Some w3" and w': "w' = update_status x w3"
    by (auto simp: handle_flap_detection_disabled_def bind_eq_Some_conv)
  have "same_checks w w3"
    by (rule same_checks_trans [OF same_checks_flap same_checks_trans [OF drop_flap_comment_frame(1)
          same_checks_trans [OF notify_object_same [OF 2(1)] notify_object_same [OF 2(2)]]]])
  then have "same_checks w w'"
    unfolding w' update_status_def by (rule same_checks_trans [OF _ same_checks_emit])
  moreover have "flap w' y = flap ?w1 y" for y
    using 2 notify_object_flap by (metis (no_types) emit_rest(1) update_status_def w')
  moreover have "\<exists>b i. flap ?w1 y = (flap w y)\<lparr>fl_flapping := b, fl_comment := i\<rparr>" for y
  proof (cases "y = x")
    case True
    then show ?thesis
      by (intro exI [of _ False] exI [of _ 0]) (simp add: drop_flap_comment_frame(2) upd_flap_def frame_simps)
  next
    case False
    then show ?thesis
      by (intro exI [of _ "fl_flapping (flap w y)"] exI [of _ "fl_comment (flap w y)"])
        (simp add: drop_flap_comment_frame(3) upd_flap_def frame_simps)
  qed
  ultimately show ?thesis by simp
next
  case False
  with assms have w': "w' = emit (Status_sent x) w" by (simp add: handle_flap_detection_disabled_def update_status_def)
  have "\<exists>b i. flap w y = (flap w y)\<lparr>fl_flapping := b, fl_comment := i\<rparr>" for y
    by (intro exI [of _ "fl_flapping (flap w y)"] exI [of _ "fl_comment (flap w y)"]) simp
  then show ?thesis by (simp add: w' emit_rest)
qed

interpretation checks_step: step_invariant "\<lambda>w. checks_ok (w_low w)"
proof unfold_locales
  show "checks_ok (w_low (snd (schedule_downtime env x author words t u fixed trig d w)))" if "checks_ok (w_low w)"
    for env x author words t u fixed trig d w
    using schedule_frame [of w] that by (simp add: downtime_frame_def)
  show "checks_ok (w_low w')" if "unschedule_downtime env k w = Some w'" "checks_ok (w_low w)" for env k w w'
    using unschedule_downtimes_frame [OF that(1) [unfolded unschedule_downtime_def]] that(2)
    by (simp add: downtime_frame_def)
  show "checks_ok (w_low (schedule_acknowledgement_expiration x w))" if "checks_ok (w_low w)" for x w
    using that by (cases x)
      (auto simp: schedule_acknowledgement_expiration_def Let_def new_event_def check_object_def matches_def
        split: oid.splits intro!: add_check_ok elim: check_event.elims)
  show "checks_ok (w_low w')" if "handle_flap_detection_disabled env x w = Some w'" "checks_ok (w_low w)" for env x w w'
    using flap_off_cases [OF that(1)] that(2) by (simp add: same_checks_def)
qed (simp_all add: commands)

lemma depth_inv_commands:
  "depth_inv (upd_conf x f w) = depth_inv w" "depth_inv (switch_notifications b x w) = depth_inv w"
  "depth_inv (snd (add_comment_of p x entry w)) = depth_inv w" "depth_inv (schedule_acknowledgement_expiration x w) = depth_inv w"
  "depth_inv (w\<lparr>w_waiting := rs\<rparr>) = depth_inv w" "depth_inv (forget x w) = depth_inv w" "depth_inv (upd_flap x h w) = depth_inv w"
  by (rule depth_inv_same; simp add: commands schedule_acknowledgement_expiration_def)+

interpretation depth_step: step_invariant depth_inv
proof unfold_locales
  show "depth_inv (snd (schedule_downtime env x author words t u fixed trig d w))" if "depth_inv w"
    for env x author words t u fixed trig d w
    using that by (rule schedule_downtime_depth)
  show "depth_inv w'" if "unschedule_downtime env k w = Some w'" "depth_inv w" for env k w w'
    using unschedule_downtimes_depth [OF that(1) [unfolded unschedule_downtime_def] that(2)] .
  show "depth_inv w'" if "handle_flap_detection_disabled env x w = Some w'" "depth_inv w" for env x w w'
    using depth_inv_same_checks flap_off_cases [OF that(1)] that(2) by blast
qed (simp_all add: depth_inv_commands)

lemma flaps_ok_commands:
  "flaps_ok (upd_conf x f w) = flaps_ok w" "flaps_ok (switch_notifications b x w) = flaps_ok w"
  "flaps_ok (snd (add_comment_of p x entry w)) = flaps_ok w" "flaps_ok (schedule_acknowledgement_expiration x w) = flaps_ok w"
  "flaps_ok (w\<lparr>w_waiting := rs\<rparr>) = flaps_ok w" "flaps_ok (forget x w) = flaps_ok w"
  by (rule flaps_ok_same; simp add: commands schedule_acknowledgement_expiration_def)+

interpretation flaps_step: step_invariant flaps_ok
proof unfold_locales
  show "flaps_ok (snd (schedule_downtime env x author words t u fixed trig d w))" if "flaps_ok w"
    for env x author words t u fixed trig d w
    using schedule_frame [of w env x author words t u fixed trig d] that
      flaps_ok_same [of "snd (schedule_downtime env x author words t u fixed trig d w)" w]
    by (simp add: downtime_frame_def)
  show "flaps_ok w'" if "unschedule_downtime env k w = Some w'" "flaps_ok w" for env k w w'
    using unschedule_downtimes_frame [OF that(1) [unfolded unschedule_downtime_def]] that(2) flaps_ok_same [of w' w]
    by (simp add: downtime_frame_def)
  show "flaps_ok w'" if "handle_flap_detection_disabled env x w = Some w'" "flaps_ok w" for env x w w'
  proof -
    have "flap_wf (flap w' y) = flap_wf (flap w y) \<and> fl_percent (flap w' y) = fl_percent (flap w y)" for y
      using flap_off_cases [OF that(1)] by (auto simp: flap_wf_def dest!: spec [of _ y])
    with that(2) show ?thesis by (simp add: flaps_ok_def)
  qed
  show "flaps_ok (upd_flap x (\<lambda>c. c\<lparr>fl_enabled := on\<rparr>) w)" if "flaps_ok w" for x on w
    using that by (simp add: flaps_ok_def flap_wf_def upd_flap_def frame_simps)
qed (simp_all add: flaps_ok_commands)

end
