(* ===== verification/Check_Props.thy ===== *)
theory Check_Props
  imports Engine_Props
begin

section \<open>Properties of checks\<close>

text \<open>
  The state machine of a service: what the handler of a result does with the state, the attempts and the times of
  changes, without its effects; a problem is confirmed after as many problem results as attempts are configured.
\<close>

subsection \<open>What the effects leave unchanged\<close>

definition same_states :: "world \<Rightarrow> world \<Rightarrow> bool" where
  "same_states w w' \<longleftrightarrow>
     (\<forall>y. conf w' y = conf w y \<and> state w' y = state w y \<and>
          (\<not> is_host y \<longrightarrow> status w' y = status w y \<and> sc_last_check (sched w' y) = sc_last_check (sched w y)))"

lemma same_states_refl [simp]: "same_states w w"
  by (simp add: same_states_def)

lemma same_states_trans [trans]: "same_states w1 w2 \<Longrightarrow> same_states w2 w3 \<Longrightarrow> same_states w1 w3"
  by (simp add: same_states_def)

named_theorems states \<open>operations that leave the states\<close>

lemma states_elementary [states]:
  assumes "same_states w0 w"
  shows "same_states w0 (emit e w)" "same_states w0 (w\<lparr>w_low := l\<rparr>)" "same_states w0 (w\<lparr>w_running_services := n\<rparr>)"
    "same_states w0 (w\<lparr>w_running_hosts := m\<rparr>)" "same_states w0 (add_check_result_to_reap r w)"
    "same_states w0 (add_check_result k r w)" "same_states w0 (delete_acknowledgement_comments y w)"
    "(\<And>s. sc_last_check (f s) = sc_last_check s) \<Longrightarrow> same_states w0 (upd_sched x f w)"
    "same_states w0 (upd_sched (Hst h) g w)"
    "(\<And>s. cs_state (j s) = cs_state s) \<Longrightarrow> same_states w0 (upd_status (Hst h) j w)"
    "same_states w0 (reset_notifications (Hst h) w)"
  using assms
  by (auto simp: same_states_def elementary)

lemma states_same_checks: "same_checks w w' \<Longrightarrow> same_states w w'"
  by (simp add: same_states_def same_checks_def)

lemma states_downtime_frame: "downtime_frame w w' \<Longrightarrow> same_states w w'"
  by (simp add: same_states_def downtime_frame_def)

lemma states_notify: "notify_object env type author message x w = Some w' \<Longrightarrow> same_states w0 w \<Longrightarrow> same_states w0 w'"
  using states_same_checks [OF notify_object_same] same_states_trans by blast

lemma states_flapping: "both_check_for_flapping env x w = Some w' \<Longrightarrow> same_states w0 w \<Longrightarrow> same_states w0 w'"
  "host_check_for_flapping env u a allow x w = Some w' \<Longrightarrow> same_states w0 w \<Longrightarrow> same_states w0 w'"
  using states_same_checks [OF service_check_for_flapping_same] states_same_checks [OF host_check_for_flapping_same]
  by (auto simp: both_check_for_flapping_def bind_eq_Some_conv) (meson same_states_trans)+

lemma states_flex: "check_pending_flex_downtime env x w = Some w' \<Longrightarrow> same_states w0 w \<Longrightarrow> same_states w0 w'"
  using states_downtime_frame [OF pending_flex_frame] same_states_trans by blast

lemma states_logs [states]:
  assumes "same_states w0 w"
  shows "same_states w0 (update_status x w)" "same_states w0 (service_log_event env x w)" "same_states w0 (host_log_event x w)"
    "same_states w0 (handle_event env x w)" "same_states w0 (obsess b x w)" "same_states w0 (execute_check env x r w)"
    "same_states w0 (adjust_check_attempt b (Hst h) w)"
  using assms
  by (auto simp: update_status_def service_log_event_def host_log_event_def handle_event_def obsess_def execute_check_def
      run_failure_def adjust_check_attempt_def Let_def states split: option.splits)

lemma states_host_run:
  assumes "host_run_async_check env opts latency sc re (Hst h) w = Some (ok, valid, t, w')" "same_states w0 w"
  shows "same_states w0 w'"
proof -
  let ?x = "Hst h"
  let ?w1 = "if re then upd_sched ?x (\<lambda>s. s\<lparr>sc_reschedule_current := True\<rparr>) w else w"
  let ?w2 = "adjust_check_attempt True ?x (upd_sched ?x (\<lambda>s. s\<lparr>sc_options := (if sc then 0 else sc_options s)\<rparr>) ?w1)"
  let ?w3 = "if sc then ?w2 else upd_sched ?x (\<lambda>s. s\<lparr>sc_next_check := now env\<rparr>) ?w2"
  let ?w4 = "(upd_sched ?x (\<lambda>s. s\<lparr>sc_executing := True\<rparr>) ?w3)\<lparr>w_running_hosts := w_running_hosts w + 1\<rparr>"
  have "w' = w \<or> w' = ?w1 \<or> w' = execute_check env ?x (new_result env ?x opts re latency) ?w4"
    using assms(1) unfolding host_run_async_check_def Let_def
    by (auto split: if_split_asm option.split_asm neb_result.split_asm)
  with assms(2) show ?thesis by (auto simp: states)
qed

lemma states_service_run:
  "service_run_async_check env opts latency sc re x w = Some (ok, valid, t, w') \<Longrightarrow> same_states w0 w \<Longrightarrow> same_states w0 w'"
  by (auto simp: service_run_async_check_def start_check_def run_failure_def Let_def states
      split: if_splits option.splits neb_result.splits)

lemma states_on_demand:
  "host_on_demand_check env (Hst h) w = Some w' \<Longrightarrow> same_states w0 w \<Longrightarrow> same_states w0 w'"
  "service_on_demand_check env x w = Some w' \<Longrightarrow> same_states w0 w \<Longrightarrow> same_states w0 w'"
  by (auto simp: host_on_demand_check_def service_on_demand_check_def dest: states_host_run states_service_run)

lemma states_schedule:
  "service_schedule_check env x t opts b w = (c, w') \<Longrightarrow> same_states w0 w \<Longrightarrow> same_states w0 w'"
  "host_schedule_check env x t opts b w = (c, w') \<Longrightarrow> same_states w0 w \<Longrightarrow> same_states w0 w'"
  by (auto simp: service_schedule_check_def host_schedule_check_def Let_def states split: if_splits prod.splits)

lemma states_others: "service_check_others env ys w = Some w' \<Longrightarrow> same_states w0 w \<Longrightarrow> same_states w0 w'"
  by (induction ys arbitrary: w) (auto simp: bind_eq_Some_conv split: if_splits dest: states_on_demand)

subsection \<open>The state machine of a service\<close>

text \<open>The members of a service that its state machine reads and writes.\<close>

record machine =
  ma_state :: nat
  ma_hard :: bool
  ma_attempt :: int
  ma_last_hard :: nat
  ma_host_problem :: bool
  ma_change :: int
  ma_hard_change :: int

definition machine_of :: "ck_status \<Rightarrow> machine" where
  "machine_of s =
     \<lparr>ma_state = cs_state s, ma_hard = cs_hard s, ma_attempt = cs_attempt s, ma_last_hard = cs_last_hard_state s,
      ma_host_problem = cs_host_problem s, ma_change = cs_last_state_change s, ma_hard_change = cs_last_hard_state_change s\<rparr>"

text \<open>
  A result that arrives at \<open>t\<close> with the new state \<open>st\<close>: the attempt is counted, changes are noted; an OK state
  ends the problem; a problem is hard at once when the host is not up, and otherwise after the last attempt.
\<close>

definition ma_count :: "int \<Rightarrow> nat \<Rightarrow> machine \<Rightarrow> int" where
  "ma_count attempts st m =
     (if ma_state m = state_ok \<and> st \<noteq> state_ok then 1
      else if \<not> ma_hard m \<and> ma_attempt m < attempts then ma_attempt m + 1 else ma_attempt m)"

definition ma_hard_changes :: "int \<Rightarrow> nat \<Rightarrow> machine \<Rightarrow> bool" where
  "ma_hard_changes attempts st m \<longleftrightarrow>
     (ma_host_problem m \<and> st = state_ok) \<or>
     (ma_count attempts st m \<ge> attempts \<and> (st \<noteq> ma_last_hard m \<or> ma_change m > ma_hard_change m))"

definition ma_note :: "int \<Rightarrow> int \<Rightarrow> nat \<Rightarrow> machine \<Rightarrow> machine" where
  "ma_note attempts t st m =
     m\<lparr>ma_state := st, ma_attempt := ma_count attempts st m,
       ma_change := (if st \<noteq> ma_state m \<or> ma_change m = 0 then t else ma_change m),
       ma_hard_change := (if ma_hard_changes attempts st m \<or> ma_hard_change m = 0 then t else ma_hard_change m)\<rparr>"

definition ma_ok :: "int \<Rightarrow> int \<Rightarrow> bool \<Rightarrow> bool \<Rightarrow> machine \<Rightarrow> machine" where
  "ma_ok attempts t changed hard_changed m =
     (let m1 = (if hard_changed then m\<lparr>ma_hard := True, ma_hard_change := t, ma_attempt := 1\<rparr>
                else if changed then m\<lparr>ma_hard := False, ma_attempt := max 1 (attempts - 1)\<rparr> else m) in
      m1\<lparr>ma_host_problem := False, ma_last_hard := state_ok\<rparr>)"

text \<open>What the state of the host does to the machine, and what the attempts do.\<close>

definition ma_host_effect :: "int \<Rightarrow> bool \<Rightarrow> bool \<Rightarrow> bool \<Rightarrow> machine \<Rightarrow> machine" where
  "ma_host_effect t host_up changed hard_changed m =
     (let hard = (hard_changed \<or> ma_last_hard m \<noteq> ma_state m) in
      if \<not> host_up then
        m\<lparr>ma_change := (if changed \<or> hard then t else ma_change m),
          ma_hard_change := (if hard then t else ma_hard_change m), ma_hard := (hard \<or> ma_hard m),
          ma_last_hard := (if hard then ma_state m else ma_last_hard m), ma_host_problem := True\<rparr>
      else if ma_host_problem m then
        m\<lparr>ma_host_problem := False, ma_attempt := (if ma_hard m then ma_attempt m else 1)\<rparr>
      else m)"

definition ma_attempts :: "int \<Rightarrow> bool \<Rightarrow> machine \<Rightarrow> machine" where
  "ma_attempts attempts host_up m =
     (if ma_attempt m < attempts then (if host_up then m\<lparr>ma_hard := False\<rparr> else m)
      else m\<lparr>ma_hard := True, ma_last_hard := ma_state m\<rparr>)"

definition ma_problem :: "int \<Rightarrow> int \<Rightarrow> bool \<Rightarrow> bool \<Rightarrow> bool \<Rightarrow> machine \<Rightarrow> machine" where
  "ma_problem attempts t host_up changed hard_changed m =
     ma_attempts attempts host_up (ma_host_effect t host_up changed hard_changed m)"

definition ma_step :: "int \<Rightarrow> int \<Rightarrow> bool \<Rightarrow> nat \<Rightarrow> machine \<Rightarrow> machine" where
  "ma_step attempts t host_up st m =
     (let changed = (st \<noteq> ma_state m); hard_changed = ma_hard_changes attempts st m; m1 = ma_note attempts t st m in
      if st = state_ok then ma_ok attempts t changed hard_changed m1
      else ma_problem attempts t host_up changed hard_changed m1)"

definition result_state :: "check_result \<Rightarrow> nat" where
  "result_state r =
     (if \<not> cr_exited_ok r \<or> cr_return_code r < 0 \<or> cr_return_code r > 3 then state_unknown else nat (cr_return_code r))"

lemma outcome_state: "cs_state (service_outcome r s) = result_state r"
  by (auto simp: service_outcome_def result_state_def split: prod.splits)

lemma outcome_machine:
  "machine_of (service_outcome r s) = (machine_of s)\<lparr>ma_state := result_state r\<rparr>"
  "cs_last_state (service_outcome r s) = cs_last_state s"
  by (auto simp: service_outcome_def result_state_def machine_of_def split: prod.splits)

abbreviation machine :: "world \<Rightarrow> oid \<Rightarrow> machine" where "machine w x \<equiv> machine_of (status w x)"

lemma same_states_service:
  assumes "same_states w w'" "\<not> is_host x"
  shows "machine w' x = machine w x" "status w' x = status w x" "conf w' y = conf w y" "state w' y = state w y"
    "sc_last_check (sched w' x) = sc_last_check (sched w x)"
  using assms by (simp_all add: same_states_def)

lemma host_of_Svc: "\<not> is_host x \<Longrightarrow> \<exists>h. host_of x = Hst h \<and> host_of x \<noteq> x"
  by (cases x) auto

lemma machine_eq:
  "machine_of s = m \<longleftrightarrow> cs_state s = ma_state m \<and> cs_hard s = ma_hard m \<and> cs_attempt s = ma_attempt m \<and>
     cs_last_hard_state s = ma_last_hard m \<and> cs_host_problem s = ma_host_problem m \<and>
     cs_last_state_change s = ma_change m \<and> cs_last_hard_state_change s = ma_hard_change m"
  by (cases m) (auto simp: machine_of_def)

lemma taken:
  fixes w :: world and r :: check_result
  assumes "\<not> is_host x"
  defines "w1 \<equiv> service_take_result r x w"
  shows "machine w1 x = (machine w x)\<lparr>ma_state := result_state r\<rparr>" "cs_last_state (status w1 x) = state w x"
    "sc_last_check (sched w1 x) = int32 (cr_start r)" "conf w1 y = conf w y" "y \<noteq> x \<Longrightarrow> status w1 y = status w y"
  using outcome_machine [of r "status w x\<lparr>cs_passive := cr_passive r, cs_last_state := state w x\<rparr>"]
  by (simp_all add: w1_def service_take_result_def Let_def upd_parts frame_simps machine_eq machine_of_def)

lemma counted:
  assumes "machine w x = m\<lparr>ma_state := st\<rparr>" "cs_last_state (status w x) = ma_state m"
  defines "w1 \<equiv> service_count_attempt x w" and "n \<equiv> cf_max_attempts (conf w x)"
  shows "machine w1 x = m\<lparr>ma_state := st, ma_attempt := ma_count n st m\<rparr>"
    "service_state_change (status w1 x) = (st \<noteq> ma_state m)"
    "service_hard_change n (status w1 x) = ma_hard_changes n st m"
    "sc_last_check (sched w1 x) = sc_last_check (sched w x)" "conf w1 y = conf w y" "y \<noteq> x \<Longrightarrow> status w1 y = status w y"
  using assms(1,2)
  by (simp_all add: w1_def n_def service_count_attempt_def upd_parts frame_simps machine_eq service_attempt_def ma_count_def
      service_state_change_def service_hard_change_def ma_hard_changes_def)

lemma reset_on_change_frame:
  "machine (service_reset_on_change c h x w) x = machine w x" "sched (service_reset_on_change c h x w) y = sched w y"
  "conf (service_reset_on_change c h x w) y = conf w y" "y \<noteq> x \<Longrightarrow> status (service_reset_on_change c h x w) y = status w y"
  by (auto simp: service_reset_on_change_def Let_def reset_notifications_def upd_parts frame_simps
      delete_acknowledgement_comments_def machine_of_def)

lemma next_ids_frame:
  "machine (next_ids x w) x = machine w x" "sched (next_ids x w) y = sched w y"
  "conf (next_ids x w) y = conf w y" "y \<noteq> x \<Longrightarrow> status (next_ids x w) y = status w y"
  by (auto simp: next_ids_def Let_def upd_parts frame_simps machine_of_def upd_def)

lemma noted:
  assumes "\<not> is_host x" "machine w x = m\<lparr>ma_state := st, ma_attempt := ma_count n st m\<rparr>"
    and "c = (st \<noteq> ma_state m)" "h = ma_hard_changes n st m"
  defines "w1 \<equiv> service_note_change c h x w"
  shows "machine w1 x = ma_note n (sc_last_check (sched w x)) st m" "sc_last_check (sched w1 x) = sc_last_check (sched w x)"
    "conf w1 y = conf w y" "y \<noteq> x \<Longrightarrow> state w1 y = state w y"
proof -
  let ?t = "sc_last_check (sched w x)"
  define v where "v = service_reset_on_change c h x w"
  define u where "u = service_change_times c h x v"
  have w1: "w1 = (if c then next_ids x u else u)"
    by (simp add: w1_def u_def v_def service_note_change_def Let_def)
  have v: "machine v x = machine w x" "sched v y = sched w y" "conf v y = conf w y" "y \<noteq> x \<Longrightarrow> status v y = status w y" for y
    unfolding v_def by (rule reset_on_change_frame; assumption)+
  obtain g where g: "host_of x = Hst g" "host_of x \<noteq> x" using host_of_Svc [OF assms(1)] by blast
  have vm: "machine v x = m\<lparr>ma_state := st, ma_attempt := ma_count n st m\<rparr>" by (simp add: v(1) assms(2))
  have u1: "machine u x = ma_note n ?t st m"
    using vm assms(3,4) g(2)
    by (simp add: u_def service_change_times_def Let_def upd_parts frame_simps machine_eq initial_times_def ma_note_def v(2))
  have u2: "sched u y = sched w y" "conf u y = conf w y" for y
    by (simp_all add: u_def service_change_times_def Let_def upd_parts frame_simps v(2,3))
  have u3: "state u y = state w y" if "y \<noteq> x" for y
    using that v(4) [OF that] by (auto simp: u_def service_change_times_def Let_def upd_parts frame_simps initial_times_def)
  show "machine w1 x = ma_note n ?t st m" "sc_last_check (sched w1 x) = ?t" "conf w1 y = conf w y"
    "y \<noteq> x \<Longrightarrow> state w1 y = state w y"
    by (cases c; simp add: w1 u1 u2 u3 next_ids_frame)+
qed

text \<open>A world in which the service \<open>x\<close> has the machine \<open>m\<close>, and all else that the handler reads is as before.\<close>

definition tracks :: "oid \<Rightarrow> world \<Rightarrow> machine \<Rightarrow> world \<Rightarrow> bool" where
  "tracks x w m w' \<longleftrightarrow>
     machine w' x = m \<and> sc_last_check (sched w' x) = sc_last_check (sched w x) \<and>
     (\<forall>y. conf w' y = conf w y \<and> (y \<noteq> x \<longrightarrow> state w' y = state w y))"

lemma tracks_refl: "tracks x w (machine w x) w"
  by (simp add: tracks_def)

lemma tracks_same: "tracks x w m w1 \<Longrightarrow> same_states w1 w2 \<Longrightarrow> \<not> is_host x \<Longrightarrow> tracks x w m w2"
  by (simp add: tracks_def same_states_def)

lemma tracks_status:
  assumes "tracks x w m w1" "\<And>s. machine_of (f s) = F (machine_of s)"
  shows "tracks x w (F m) (upd_status x f w1)"
  using assms by (auto simp: tracks_def upd_parts frame_simps)

lemma tracks_reset: "tracks x w m w1 \<Longrightarrow> tracks x w m (reset_notifications x w1)"
  by (auto simp: tracks_def reset_notifications_def frame_simps machine_eq)

lemma tracks_attempts: "tracks x w m w1 \<Longrightarrow> conf w1 y = conf w y" "tracks x w m w1 \<Longrightarrow> y \<noteq> x \<Longrightarrow> state w1 y = state w y"
  "tracks x w m w1 \<Longrightarrow> sc_last_check (sched w1 x) = sc_last_check (sched w x)" "tracks x w m w1 \<Longrightarrow> machine w1 x = m"
  by (simp_all add: tracks_def)

lemma tracks_recovery:
  assumes "tracks x w m w1" "\<not> is_host x"
  shows "service_hard_recovery env x w1 = Some w2 \<Longrightarrow>
      tracks x w (m\<lparr>ma_hard := True, ma_hard_change := sc_last_check (sched w x), ma_attempt := 1\<rparr>) w2"
    and "tracks x w (m\<lparr>ma_hard := False, ma_attempt := max 1 (cf_max_attempts (conf w x) - 1)\<rparr>)
      (service_soft_recovery env x w1)"
proof -
  let ?t = "sc_last_check (sched w1 x)" and ?n = "cf_max_attempts (conf w1 x)"
  let ?h = "upd_status x (\<lambda>s. s\<lparr>cs_hard := True, cs_last_hard_state_change := ?t, cs_attempt := 1\<rparr>) w1"
  let ?s = "upd_status x (\<lambda>s. s\<lparr>cs_hard := False, cs_attempt := (if ?n - 1 < 1 then 1 else ?n - 1)\<rparr>) w1"
  have h: "tracks x w (m\<lparr>ma_hard := True, ma_hard_change := ?t, ma_attempt := 1\<rparr>) ?h"
    by (rule tracks_status [OF assms(1)]) (simp add: machine_of_def)
  have "tracks x w (m\<lparr>ma_hard := False, ma_attempt := max 1 (?n - 1)\<rparr>) ?s"
    by (rule tracks_status [OF assms(1)]) (auto simp: machine_of_def)
  then have "tracks x w (m\<lparr>ma_hard := False, ma_attempt := max 1 (?n - 1)\<rparr>) (handle_event env x (service_log_event env x ?s))"
    by (rule tracks_same) (simp_all add: states assms(2))
  then show "tracks x w (m\<lparr>ma_hard := False, ma_attempt := max 1 (cf_max_attempts (conf w x) - 1)\<rparr>)
      (service_soft_recovery env x w1)"
    using tracks_attempts(1) [OF assms(1), of x]
    by (cases "cf_max_attempts (conf w x) < 2") (simp_all add: service_soft_recovery_def Let_def)
  assume "service_hard_recovery env x w1 = Some w2"
  then obtain u v where 1: "both_check_for_flapping env x (service_log_event env x ?h) = Some u"
    "notify_object env Reason_recovery [] [] x u = Some v" "w2 = handle_event env x v"
    by (auto simp: service_hard_recovery_def Let_def bind_eq_Some_conv)
  have "same_states ?h (service_log_event env x ?h)" by (simp add: states)
  from states_notify [OF 1(2) states_flapping(1) [OF 1(1) this]] have "same_states ?h w2"
    by (simp add: 1(3) states)
  from tracks_same [OF h this assms(2)]
  show "tracks x w (m\<lparr>ma_hard := True, ma_hard_change := sc_last_check (sched w x), ma_attempt := 1\<rparr>) w2"
    by (simp add: tracks_attempts [OF assms(1)])
qed

lemma tracks_ok:
  assumes "service_ok env changed hard first x w = Some (w', r)" "\<not> is_host x"
  shows "tracks x w (ma_ok (cf_max_attempts (conf w x)) (sc_last_check (sched w x)) changed hard (machine w x)) w'"
proof -
  obtain g where g: "host_of x = Hst g" using host_of_Svc [OF assms(2)] by blast
  let ?w0 = "upd_status x (\<lambda>s. s\<lparr>cs_ack := Ack_none\<rparr>) w"
  from assms(1) obtain w1 w2 w3 where 1: "service_check_route env first x ?w0 = Some w1"
    and 2: "(if hard then service_hard_recovery env x w1
      else Some (if changed then service_soft_recovery env x w1 else w1)) = Some w2"
    and 3: "notify_object env Reason_recovery [] [] x w2 = Some w3"
    and w': "w' = service_ok_reset x (obsess (ce_obsess_services env) x w3)"
    by (auto simp: service_ok_def bind_eq_Some_conv)
  have "tracks x w (machine w x) ?w0"
    by (rule tracks_status [OF tracks_refl, where F = "\<lambda>m. m"]) (simp add: machine_of_def)
  moreover have "same_states ?w0 w1"
    using 1 states_on_demand(1) [of env g ?w0 w1 ?w0] by (auto simp: service_check_route_def Let_def g split: if_splits)
  ultimately have t1: "tracks x w (machine w x) w1" using assms(2) by (rule tracks_same)
  let ?m = "if hard then (machine w x)\<lparr>ma_hard := True, ma_hard_change := sc_last_check (sched w x), ma_attempt := 1\<rparr>
    else if changed then (machine w x)\<lparr>ma_hard := False, ma_attempt := max 1 (cf_max_attempts (conf w x) - 1)\<rparr>
    else machine w x"
  have "tracks x w ?m w2"
    using 2 t1 tracks_recovery [OF t1 assms(2)] by (auto split: if_splits)
  moreover have "same_states w2 (obsess (ce_obsess_services env) x w3)"
    using states_notify [OF 3 same_states_refl] by (simp add: states)
  ultimately have t3: "tracks x w ?m (obsess (ce_obsess_services env) x w3)" using assms(2) by (rule tracks_same)
  have "tracks x w (?m\<lparr>ma_host_problem := False, ma_last_hard := state_ok\<rparr>) w'"
    unfolding w' service_ok_reset_def
    by (rule tracks_status [where F = "\<lambda>m. m"], rule tracks_reset,
        rule tracks_status [OF t3, where F = "\<lambda>m. m\<lparr>ma_host_problem := False, ma_last_hard := state_ok\<rparr>"])
      (simp_all add: machine_of_def)
  then show ?thesis by (cases hard; cases changed) (simp_all add: ma_ok_def Let_def)
qed

lemma states_route:
  assumes "service_problem_route env changed x w = Some w'" "\<not> is_host x"
  shows "same_states w w'"
proof -
  obtain g where g: "host_of x = Hst g" using host_of_Svc [OF assms(2)] by blast
  from assms(1) show ?thesis
    by (auto simp: service_problem_route_def Let_def g states split: if_splits intro: states_on_demand(1) elim!: states_notify)
qed

lemma tracks_host_effect:
  assumes "tracks x w m w1" "\<not> is_host x"
  shows "tracks x w (ma_host_effect (sc_last_check (sched w x)) (state w (host_of x) = state_up) changed hard m)
    (snd (service_host_effect changed hard x w1))"
proof -
  have "host_of x \<noteq> x" using host_of_Svc [OF assms(2)] by blast
  with assms(1) have 1: "state w1 (host_of x) = state w (host_of x)" "sc_last_check (sched w1 x) = sc_last_check (sched w x)"
    "machine_of (status w1 x) = m"
    by (simp_all add: tracks_def)
  show ?thesis
  proof (cases "state w (host_of x) = state_up")
    case True
    with assms(1) 1 show ?thesis
      by (auto simp: service_host_effect_def service_host_recovered_def ma_host_effect_def tracks_def upd_parts frame_simps
          machine_eq)
  next
    case False
    with assms(1) 1 show ?thesis
      by (auto simp: service_host_effect_def service_host_down_def ma_host_effect_def tracks_def upd_parts frame_simps
          machine_eq Let_def)
  qed
qed

lemma tracks_hard_problem:
  assumes "tracks x w m w1" "\<not> is_host x" "service_hard_problem env changed hard x w1 = Some w2"
  shows "tracks x w (m\<lparr>ma_hard := True, ma_last_hard := ma_state m\<rparr>) w2"
proof -
  let ?h = "upd_status x (\<lambda>s. s\<lparr>cs_hard := True\<rparr>) w1"
  have h: "tracks x w (m\<lparr>ma_hard := True\<rparr>) ?h"
    by (rule tracks_status [OF assms(1)]) (simp add: machine_of_def)
  let ?loud = "hard \<or> cf_volatile (conf w1 x)"
  let ?l = "if ?loud then service_log_event env x ?h else ?h"
  obtain u3 u4 u5 where 1: "(if (hard \<or> changed) \<and> ck_pending_flex (w_ck ?l x) > 0
        then check_pending_flex_downtime env x ?l else Some ?l) = Some u3"
    and 2: "both_check_for_flapping env x u3 = Some u4" "notify_object env Reason_normal [] [] x u4 = Some u5"
    and w2: "w2 = upd_status x (\<lambda>s. s\<lparr>cs_last_hard_state := cs_state s\<rparr>) (if ?loud then handle_event env x u5 else u5)"
    using assms(3) unfolding service_hard_problem_def Let_def bind_eq_Some_conv by blast
  have "same_states ?h ?l" by (simp add: states)
  then have "same_states ?h u3" using 1 states_flex [of env x ?l u3 ?h] by (auto split: if_splits)
  from states_notify [OF 2(2) states_flapping(1) [OF 2(1) this]]
  have u: "same_states ?h (if ?loud then handle_event env x u5 else u5)" by (simp add: states)
  have "tracks x w ((\<lambda>m. m\<lparr>ma_last_hard := ma_state m\<rparr>) (m\<lparr>ma_hard := True\<rparr>)) w2"
    unfolding w2 by (rule tracks_status [OF tracks_same [OF h u assms(2)]]) (simp add: machine_of_def)
  then show ?thesis by simp
qed

lemma tracks_attempts_left:
  assumes "tracks x w m w1" "\<not> is_host x" "service_attempts env changed hard x w1 = Some (w2, r)"
  shows "tracks x w (ma_attempts (cf_max_attempts (conf w x)) (state w (host_of x) = state_up) m) w2"
proof -
  have "host_of x \<noteq> x" using host_of_Svc [OF assms(2)] by blast
  note w1 = tracks_attempts [OF assms(1)]
  have a: "cs_attempt (status w1 x) = ma_attempt m" using w1(4) by (simp add: machine_eq)
  show ?thesis
  proof (cases "ma_attempt m < cf_max_attempts (conf w x)")
    case True
    let ?s = "upd_status x (\<lambda>s. s\<lparr>cs_hard := False\<rparr>) w1"
    have "tracks x w (m\<lparr>ma_hard := False\<rparr>) ?s"
      by (rule tracks_status [OF assms(1)]) (simp add: machine_of_def)
    then have "tracks x w (m\<lparr>ma_hard := False\<rparr>) (handle_event env x (service_log_event env x ?s))"
      by (rule tracks_same) (simp_all add: states assms(2))
    moreover have "tracks x w m (handle_event env x (service_log_event env x w1))"
      by (rule tracks_same [OF assms(1)]) (simp_all add: states assms(2))
    ultimately show ?thesis
      using assms(1,3) True w1(2) [OF \<open>host_of x \<noteq> x\<close>]
      by (auto simp: service_attempts_def service_retry_def a w1(1) ma_attempts_def split: if_splits)
  next
    case False
    then show ?thesis
      using assms(3) tracks_hard_problem [OF assms(1,2)] by (auto simp: service_attempts_def a w1(1) ma_attempts_def)
  qed
qed

lemma tracks_problem:
  assumes "service_problem env changed hard x w = Some (w', r)" "\<not> is_host x"
  shows "tracks x w (ma_problem (cf_max_attempts (conf w x)) (sc_last_check (sched w x))
      (state w (host_of x) = state_up) changed hard (machine w x)) w'"
proof -
  obtain w1 where 1: "service_problem_route env changed x w = Some w1"
    using assms(1) by (auto simp: service_problem_def bind_eq_Some_conv)
  obtain h w2 where 2: "service_host_effect changed hard x w1 = (h, w2)" by (metis surj_pair)
  obtain w3 where 3: "service_attempts env changed h x w2 = Some (w3, r)" and w': "w' = obsess (ce_obsess_services env) x w3"
    using assms(1) by (auto simp: service_problem_def bind_eq_Some_conv 1 2)
  have "tracks x w (machine w x) w1" by (rule tracks_same [OF tracks_refl states_route [OF 1 assms(2)] assms(2)])
  from tracks_host_effect [OF this assms(2), of changed hard] have t2: "tracks x w (ma_host_effect (sc_last_check (sched w x))
      (state w (host_of x) = state_up) changed hard (machine w x)) w2"
    by (simp add: 2)
  show ?thesis
    unfolding w' ma_problem_def by (rule tracks_same [OF tracks_attempts_left [OF t2 assms(2) 3]]) (simp_all add: states assms(2))
qed

lemma tracks_finish:
  assumes "service_finish env reschedule changed old x (w1, v) = Some w2" "tracks x w m w1" "\<not> is_host x"
  shows "tracks x w m w2"
proof -
  obtain logged flapped t others where v: "v = (logged, flapped, t, others)" by (metis surj_pair)
  obtain n u1 where u1: "(if reschedule then service_reschedule env t x w1 else (False, w1)) = (n, u1)" by (metis surj_pair)
  let ?u2 = "emit (Check_processed x) (service_stalk env changed logged old x u1)"
  let ?u3 = "service_send_status reschedule n x ?u2"
  obtain u4 where u4: "(if flapped then Some ?u3 else both_check_for_flapping env x ?u3) = Some u4"
    "service_check_others env others u4 = Some w2"
    using assms(1) by (auto simp: service_finish_def v Let_def u1 bind_eq_Some_conv split: if_splits)
  have "same_states w1 u1"
    using u1 by (auto simp: service_reschedule_def Let_def states split: if_splits intro: states_schedule(1))
  then have s2: "same_states w1 ?u2" by (simp add: service_stalk_def states)
  have t2: "tracks x w m ?u2" using assms(2) s2 assms(3) by (rule tracks_same)
  have "tracks x w m (upd_status x (\<lambda>s. s\<lparr>cs_checked := True\<rparr>) ?u2)"
    by (rule tracks_status [OF t2, where F = "\<lambda>m. m"]) (simp add: machine_of_def)
  then have t3: "tracks x w m ?u3"
    using t2 by (auto simp: service_send_status_def Let_def states intro: tracks_same [OF _ _ assms(3)])
  have "same_states ?u3 u4" using u4(1) states_flapping(1) [of env x ?u3 u4 ?u3] by (auto split: if_splits)
  then have "same_states ?u3 w2" by (rule states_others [OF u4(2)])
  with t3 show ?thesis using assms(3) by (rule tracks_same)
qed

lemma tracks_decide:
  assumes "service_decide env changed hard first x w = Some (w', r)" "\<not> is_host x"
  shows "tracks x w
    (if state w x = state_ok then ma_ok (cf_max_attempts (conf w x)) (sc_last_check (sched w x)) changed hard (machine w x)
     else ma_problem (cf_max_attempts (conf w x)) (sc_last_check (sched w x)) (state w (host_of x) = state_up) changed hard
            (machine w x)) w'"
  using assms tracks_ok [OF _ assms(2)] tracks_problem [OF _ assms(2)] by (auto simp: service_decide_def split: if_splits)

lemma checked_result:
  fixes w :: world and r :: check_result and x :: oid
  defines "n \<equiv> cf_max_attempts (conf w x)" and "w1 \<equiv> service_take_result r x w"
  defines "c \<equiv> result_state r \<noteq> state w x" and "h \<equiv> ma_hard_changes n (result_state r) (machine w x)"
  assumes x: "\<not> is_host x"
    and w2: "(if first_host_check env x w1 then host_on_demand_check env (host_of x) w1 else Some w1) = Some w2"
  defines "w3 \<equiv> service_count_attempt x w2"
  defines "w4 \<equiv> service_note_change c h x w3"
  shows "service_state_change (status w3 x) = c"
    "service_hard_change (cf_max_attempts (conf w3 x)) (status w3 x) = h"
    "machine w4 x = ma_note n (int32 (cr_start r)) (result_state r) (machine w x)"
    "sc_last_check (sched w4 x) = int32 (cr_start r)" "conf w4 y = conf w y" "y \<noteq> x \<Longrightarrow> state w4 y = state w y"
proof -
  let ?st = "result_state r" and ?t = "int32 (cr_start r)" and ?m = "machine w x"
  obtain g where g: "host_of x = Hst g" "host_of x \<noteq> x" using host_of_Svc [OF x] by blast
  have s2: "same_states w1 w2" using w2 by (auto simp: g split: if_splits intro: states_on_demand(1))
  note t = taken [OF x, where r = r and w = w, folded w1_def]
  have m2: "machine w2 x = ?m\<lparr>ma_state := ?st\<rparr>" "cs_last_state (status w2 x) = ma_state ?m"
    "sc_last_check (sched w2 x) = ?t" "conf w2 y = conf w y" "y \<noteq> x \<Longrightarrow> state w2 y = state w y" for y
    using same_states_service [OF s2 x] t by (simp_all add: machine_of_def)
  note k = counted [OF m2(1,2), folded w3_def, unfolded m2(4), folded n_def]
  have ch: "c = (?st \<noteq> ma_state ?m)" by (simp add: c_def machine_of_def)
  note o = noted [OF x k(1) ch meta_eq_to_obj_eq [OF h_def], folded w4_def]
  show "service_state_change (status w3 x) = c" "service_hard_change (cf_max_attempts (conf w3 x)) (status w3 x) = h"
    using k ch by (simp_all add: h_def n_def)
  show "machine w4 x = ma_note n ?t ?st ?m" "sc_last_check (sched w4 x) = ?t" "conf w4 y = conf w y"
    "y \<noteq> x \<Longrightarrow> state w4 y = state w y"
    using o k(4-6) m2(3-5) by simp_all
qed

lemma process_machine:
  assumes "service_process env r x w = Some w'" "\<not> is_host x"
  shows "machine_of (status w' x) =
      ma_step (cf_max_attempts (conf w x)) (int32 (cr_start r)) (state w (host_of x) = state_up) (result_state r)
        (machine_of (status w x))"
    and "y \<noteq> x \<Longrightarrow> state w' y = state w y" and "conf w' y = conf w y"
proof -
  let ?st = "result_state r" and ?n = "cf_max_attempts (conf w x)" and ?t = "int32 (cr_start r)" and ?m = "machine w x"
  let ?w1 = "service_take_result r x w" and ?c = "result_state r \<noteq> state w x"
  let ?h = "ma_hard_changes ?n ?st ?m"
  have g: "host_of x \<noteq> x" using host_of_Svc [OF assms(2)] by blast
  obtain w2 where 2: "(if first_host_check env x ?w1 then host_on_demand_check env (host_of x) ?w1 else Some ?w1) = Some w2"
    using assms(1) unfolding service_process_def Let_def bind_eq_Some_conv by blast
  note k = checked_result [OF assms(2) 2]
  define w4 where "w4 = service_note_change ?c ?h x (service_count_attempt x w2)"
  obtain w5 v where 5: "service_decide env ?c ?h (first_host_check env x ?w1) x w4 = Some (w5, v)"
    "service_finish env (cr_reschedule r \<or> ?c \<or> ?h) ?c (cs_output (status w x)) x (w5, v) = Some w'"
    using assms(1) by (auto simp: service_process_def Let_def 2 k(1,2) w4_def bind_eq_Some_conv)
  note m4 = k(3-6) [folded w4_def]
  have st: "state w4 x = ?st" using m4(1) by (simp add: machine_eq ma_note_def)
  have m: "ma_state ?m = state w x" by (simp add: machine_of_def)
  have "tracks x w4 (ma_step ?n ?t (state w (host_of x) = state_up) ?st ?m) w'"
    using tracks_finish [OF 5(2) tracks_decide [OF 5(1) assms(2)] assms(2)] m4(4) [OF g]
    by (simp add: st m4(1-3) m ma_step_def Let_def split: if_splits)
  then show "machine_of (status w' x) = ma_step ?n ?t (state w (host_of x) = state_up) ?st (machine_of (status w x))"
    and "y \<noteq> x \<Longrightarrow> state w' y = state w y" and "conf w' y = conf w y"
    using m4(3,4) [of y] by (simp_all add: tracks_def)
qed

text \<open>
  C4. The handler of a check result implements the state machine: it is \<open>ma_step\<close> on the state, the attempts and the times
  of changes of the service, with the host's state as it was, whatever is notified, logged, scheduled or run meanwhile; no
  other object changes its state and no object its configuration.
\<close>

theorem service_state_machine:
  assumes "service_process env r x w = Some w'" "\<not> is_host x"
  shows "machine_of (status w' x) =
      ma_step (cf_max_attempts (conf w x)) (int32 (cr_start r)) (state w (host_of x) = state_up) (result_state r)
        (machine_of (status w x)) \<and>
    (\<forall>y. conf w' y = conf w y \<and> (y \<noteq> x \<longrightarrow> state w' y = state w y))"
  using process_machine [OF assms] by simp

subsection \<open>Confirmation of a problem\<close>

lemma handler_machine:
  assumes "service_handle_async_check_result env r x w = Some (True, w')" "\<not> is_host x"
    and "\<not> has_flag (cr_options r) opt_freshness"
  shows "machine w' x =
      ma_step (cf_max_attempts (conf w x)) (int32 (cr_start r)) (state w (host_of x) = state_up) (result_state r) (machine w x)"
    and "y \<noteq> x \<Longrightarrow> state w' y = state w y" and "conf w' y = conf w y"
proof -
  let ?w1 = "if \<not> cr_passive r \<and> w_running_services w > 0 then w\<lparr>w_running_services := w_running_services w - 1\<rparr> else w"
  let ?w2 = "service_clear_flags r x ?w1"
  have "same_states w ?w2" by (simp add: service_clear_flags_def states)
  note same = same_states_service [OF this assms(2)]
  have "service_process env r x ?w2 = Some w'"
    using assms(1,3) by (auto simp: service_handle_async_check_result_def Let_def split: if_splits)
  note p = process_machine [OF this assms(2)]
  show "machine w' x =
      ma_step (cf_max_attempts (conf w x)) (int32 (cr_start r)) (state w (host_of x) = state_up) (result_state r) (machine w x)"
    using p(1) unfolding same .
  show "y \<noteq> x \<Longrightarrow> state w' y = state w y" and "conf w' y = conf w y"
    using p(2,3) [of y] unfolding same by simp_all
qed

text \<open>The results of a service one after the other, each in its environment.\<close>

fun handle_results :: "oid \<Rightarrow> (cenv \<times> check_result) list \<Rightarrow> world \<Rightarrow> world option" where
  "handle_results x [] w = Some w"
| "handle_results x ((env, r) # rs) w =
     (case service_handle_async_check_result env r x w of
        Some (True, w1) \<Rightarrow> handle_results x rs w1
      | _ \<Rightarrow> None)"

text \<open>\<open>k\<close> problem results have been counted of the \<open>n\<close> that are needed.\<close>

definition confirming :: "int \<Rightarrow> int \<Rightarrow> machine \<Rightarrow> bool" where
  "confirming n k m \<longleftrightarrow>
     ma_state m \<noteq> state_ok \<and> \<not> ma_host_problem m \<and> ma_attempt m = min k n \<and> (ma_hard m \<longleftrightarrow> k \<ge> n) \<and>
     (k \<ge> n \<longrightarrow> ma_last_hard m = ma_state m)"

lemmas ma_eval = ma_step_def ma_note_def ma_problem_def ma_attempts_def ma_host_effect_def ma_count_def Let_def

lemma confirming_first:
  assumes "ma_state m = state_ok" "\<not> ma_host_problem m" "1 \<le> n" "st \<noteq> state_ok"
  shows "confirming n 1 (ma_step n t True st m)"
  using assms by (auto simp: confirming_def ma_eval)

lemma confirming_next:
  assumes "confirming n k m" "1 \<le> k" "st \<noteq> state_ok"
  shows "confirming n (k + 1) (ma_step n t True st m)"
  using assms by (auto simp: confirming_def ma_eval)

lemma confirming_results:
  assumes "handle_results x rs w = Some w'" "\<not> is_host x" "state w (host_of x) = state_up"
    and "\<forall>(env, r) \<in> set rs. result_state r \<noteq> state_ok \<and> \<not> has_flag (cr_options r) opt_freshness"
    and "confirming (cf_max_attempts (conf w x)) k (machine w x)" "1 \<le> k"
  shows "confirming (cf_max_attempts (conf w x)) (k + int (length rs)) (machine w' x)"
  using assms
proof (induction rs arbitrary: w k)
  case Nil
  then show ?case by simp
next
  case (Cons er rs)
  obtain env r where er: "er = (env, r)" by (metis surj_pair)
  obtain w1 where w1: "service_handle_async_check_result env r x w = Some (True, w1)" "handle_results x rs w1 = Some w'"
    using Cons.prems(1) by (auto simp: er split: option.splits prod.splits bool.splits)
  have r: "result_state r \<noteq> state_ok" "\<not> has_flag (cr_options r) opt_freshness" using Cons.prems(4) by (auto simp: er)
  note m = handler_machine [OF w1(1) Cons.prems(2) r(2)]
  have h: "state w1 (host_of x) = state_up" using m(2) host_of_Svc [OF Cons.prems(2)] Cons.prems(3) by auto
  have "confirming (cf_max_attempts (conf w1 x)) (k + 1) (machine w1 x)"
    unfolding m(1,3) using confirming_next [OF Cons.prems(5,6) r(1)] by (simp add: Cons.prems(3))
  from Cons.IH [OF w1(2) Cons.prems(2) h _ this] Cons.prems(4,6) show ?case by (simp add: m(3) algebra_simps)
qed

text \<open>
  C8. Retries before a hard problem: a service that was OK and whose host stays up has after \<open>k\<close> problem results in a row
  made \<open>min k max_check_attempts\<close> attempts, and is in a hard state, which is then its last hard state, exactly when \<open>k\<close> has
  reached \<open>max_check_attempts\<close>.
\<close>

theorem service_confirms_problem:
  assumes "handle_results x rs w = Some w'" "rs \<noteq> []" "\<not> is_host x" "state w x = state_ok"
    and "\<not> cs_host_problem (status w x)" "state w (host_of x) = state_up" "1 \<le> cf_max_attempts (conf w x)"
    and "\<forall>(env, r) \<in> set rs. result_state r \<noteq> state_ok \<and> \<not> has_flag (cr_options r) opt_freshness"
  shows "cs_attempt (status w' x) = min (int (length rs)) (cf_max_attempts (conf w x)) \<and>
    (cs_hard (status w' x) \<longleftrightarrow> int (length rs) \<ge> cf_max_attempts (conf w x)) \<and>
    (int (length rs) \<ge> cf_max_attempts (conf w x) \<longrightarrow> cs_last_hard_state (status w' x) = state w' x)"
proof -
  obtain env r rs' where rs: "rs = (env, r) # rs'" using assms(2) by (metis list.exhaust surj_pair)
  obtain w1 where w1: "service_handle_async_check_result env r x w = Some (True, w1)" "handle_results x rs' w1 = Some w'"
    using assms(1) by (auto simp: rs split: option.splits prod.splits bool.splits)
  have r: "result_state r \<noteq> state_ok" "\<not> has_flag (cr_options r) opt_freshness" using assms(8) by (auto simp: rs)
  note m = handler_machine [OF w1(1) assms(3) r(2)]
  have h: "state w1 (host_of x) = state_up" using m(2) host_of_Svc [OF assms(3)] assms(6) by auto
  have "confirming (cf_max_attempts (conf w1 x)) 1 (machine w1 x)"
    unfolding m(1,3) assms(6) using assms(4,5,7) r(1) by (simp add: confirming_first machine_of_def)
  from confirming_results [OF w1(2) assms(3) h _ this] assms(8) show ?thesis
    by (simp add: rs m(3) confirming_def machine_of_def)
qed

definition sample_result :: "int \<Rightarrow> int \<Rightarrow> check_result" where
  "sample_result t code = \<lparr>cr_object = Svc 0 0, cr_passive = False, cr_options = 0, cr_reschedule = True,
     cr_latency = 0, cr_start = t, cr_execution_time = 1, cr_exited_ok = True, cr_return_code = code, cr_output = []\<rparr>"

definition sample_results :: "(cenv \<times> check_result) list" where
  "sample_results = [(sample_cenv 111, sample_result 110 2), (sample_cenv 121, sample_result 120 1)]"

text \<open>With the sample configuration the handler returns while attempts are left.\<close>

lemma sample_viability: "verify_check_viability (sample_cenv t) opts x w \<noteq> None"
proof -
  have "dn_dependencies (ne_graph (nenv_of (sample_cenv t) w) i) = []" for i
    by (simp add: nenv_of_def dependency_node_def Let_def)
  then have "authorized_by_dependencies (nenv_of (sample_cenv t) w) False i = Some True" for i
    by (simp add: authorized_by_dependencies_def authorized_loop.simps [of _ _ "[]"])
  then show ?thesis by (auto simp: verify_check_viability_def Let_def)
qed

lemma sample_on_demand:
  "host_on_demand_check (sample_cenv t) x w \<noteq> None" "service_on_demand_check (sample_cenv t) x w \<noteq> None"
  using sample_viability [of t 0 x w]
  by (auto simp: host_on_demand_check_def host_run_async_check_def service_on_demand_check_def service_run_async_check_def
      Let_def split: option.splits neb_result.splits if_splits)

lemma sample_flapping: "both_check_for_flapping (sample_cenv t) x w \<noteq> None"
  by (simp add: both_check_for_flapping_def service_check_for_flapping_def host_check_for_flapping_def Let_def)

lemma sample_others: "service_check_others (sample_cenv t) ys w \<noteq> None"
proof (induction ys arbitrary: w)
  case (Cons y ys)
  obtain w1 where "service_on_demand_check (sample_cenv t) y w = Some w1" using sample_on_demand(2) [of t y w] by blast
  with Cons show ?case by simp
qed simp

lemma sample_finish: "service_finish (sample_cenv t) re c old x v \<noteq> None"
proof -
  obtain w1 l f n os where v: "v = (w1, l, f, n, os)" by (metis surj_pair)
  obtain b u1 where u1: "(if re then service_reschedule (sample_cenv t) n x w1 else (False, w1)) = (b, u1)" by (metis surj_pair)
  let ?u = "service_send_status re b x (emit (Check_processed x) (service_stalk (sample_cenv t) c l old x u1))"
  obtain u2 where u2: "both_check_for_flapping (sample_cenv t) x ?u = Some u2" using sample_flapping [of t x ?u] by blast
  then show ?thesis
    using sample_others [of t os] by (cases f) (simp_all add: service_finish_def v Let_def u1 del: service_check_others.simps)
qed

lemma sample_problem_returns:
  assumes "\<not> is_host x" "state w (host_of x) = state_up" "\<not> cs_host_problem (status w x)"
    and "cs_attempt (status w x) < cf_max_attempts (conf w x)"
  shows "service_problem (sample_cenv t) c h x w \<noteq> None"
proof -
  obtain w1 where 1: "service_problem_route (sample_cenv t) c x w = Some w1"
    using sample_on_demand(1) [of t "host_of x" w] assms(2)
    by (cases "\<not> cached_host_state (sample_cenv t) (host_of x) w \<and> c") (auto simp: service_problem_route_def Let_def)
  note s = same_states_service [OF states_route [OF 1 assms(1)] assms(1)]
  have "service_host_effect c h x w1 = (h, w1)"
    using assms(2,3) s by (simp add: service_host_effect_def service_host_recovered_def)
  with assms(4) s show ?thesis by (auto simp: service_problem_def 1 service_attempts_def service_retry_def Let_def)
qed

lemma sample_process:
  assumes "\<not> is_host x" "state w (host_of x) = state_up" "\<not> cs_host_problem (status w x)" "result_state r \<noteq> state_ok"
    and "ma_count (cf_max_attempts (conf w x)) (result_state r) (machine w x) < cf_max_attempts (conf w x)"
  shows "service_process (sample_cenv t) r x w \<noteq> None"
proof -
  let ?w1 = "service_take_result r x w" and ?c = "result_state r \<noteq> state w x"
  let ?h = "ma_hard_changes (cf_max_attempts (conf w x)) (result_state r) (machine w x)"
  have g: "host_of x \<noteq> x" using host_of_Svc [OF assms(1)] by blast
  obtain w2 where 2: "(if first_host_check (sample_cenv t) x ?w1 then host_on_demand_check (sample_cenv t) (host_of x) ?w1
      else Some ?w1) = Some w2"
    using sample_on_demand(1) [of t "host_of x" ?w1] by (cases "first_host_check (sample_cenv t) x ?w1") auto
  note k = checked_result [OF assms(1) 2]
  define w4 where "w4 = service_note_change ?c ?h x (service_count_attempt x w2)"
  have 4: "state w4 x = result_state r" "cs_host_problem (status w4 x) = cs_host_problem (status w x)"
    "cs_attempt (status w4 x) = ma_count (cf_max_attempts (conf w x)) (result_state r) (machine w x)"
    using k(3) [folded w4_def] by (simp_all add: machine_eq ma_note_def machine_of_def)
  obtain v where v: "service_decide (sample_cenv t) ?c ?h (first_host_check (sample_cenv t) x ?w1) x w4 = Some v"
    using sample_problem_returns [OF assms(1), of w4 t ?c ?h] k(5,6) [folded w4_def] g assms(2-5) 4 by (auto simp: service_decide_def)
  then show ?thesis
    using sample_finish by (simp add: service_process_def Let_def 2 k(1,2) w4_def)
qed

lemma sample_handled:
  assumes "\<not> is_host x" "state w (host_of x) = state_up" "\<not> cs_host_problem (status w x)" "result_state r \<noteq> state_ok"
    and "ma_count (cf_max_attempts (conf w x)) (result_state r) (machine w x) < cf_max_attempts (conf w x)"
    and "\<not> has_flag (cr_options r) opt_freshness" "\<not> cr_passive r"
  shows "\<exists>w'. service_handle_async_check_result (sample_cenv t) r x w = Some (True, w')"
proof -
  let ?w2 = "service_clear_flags r x (if w_running_services w > 0 then w\<lparr>w_running_services := w_running_services w - 1\<rparr> else w)"
  have "same_states w ?w2" by (simp add: service_clear_flags_def states)
  note s = same_states_service [OF this assms(1)]
  obtain w' where "service_process (sample_cenv t) r x ?w2 = Some w'"
    using sample_process [OF assms(1), of ?w2 r t] assms(2-5) unfolding s by auto
  then show ?thesis using assms(6,7) by (auto simp: service_handle_async_check_result_def Let_def service_rejects_def)
qed

lemma sample_start:
  "state sample_world y = state_ok" "cf_max_attempts (conf sample_world y) = 3" "cs_attempt (status sample_world y) = 1"
  "\<not> cs_host_problem (status sample_world y)"
  by (simp_all add: sample_eval)

lemma sample_result_problem:
  "result_state (sample_result t 2) = 2" "result_state (sample_result t 1) = 1" "cr_options (sample_result t c) = 0"
  "cr_start (sample_result t c) = t" "\<not> cr_passive (sample_result t c)" "\<not> has_flag 0 opt_freshness"
  by (simp_all add: sample_result_def result_state_def has_flag_def opt_freshness_def)

theorem service_state_machine_witness:
  "\<exists>w'. service_process (sample_cenv 111) (sample_result 110 2) (Svc 0 0) sample_world = Some w' \<and>
     cs_state (status w' (Svc 0 0)) = 2 \<and> \<not> cs_hard (status w' (Svc 0 0)) \<and> cs_attempt (status w' (Svc 0 0)) = 1 \<and>
     cs_last_state_change (status w' (Svc 0 0)) = 110"
proof -
  obtain w' where w': "service_process (sample_cenv 111) (sample_result 110 2) (Svc 0 0) sample_world = Some w'"
    using sample_process [of "Svc 0 0" sample_world "sample_result 110 2" 111]
    by (auto simp: sample_start sample_result_problem ma_count_def machine_of_def)
  from service_state_machine [OF this] have "machine w' (Svc 0 0) =
      ma_step 3 (int32 110) True 2 (machine sample_world (Svc 0 0))"
    by (simp add: sample_start sample_result_problem)
  then show ?thesis using w' by (simp add: machine_eq ma_eval sample_eval machine_of_def ma_hard_changes_def int32_def)
qed

lemma sample_results_run: "\<exists>w'. handle_results (Svc 0 0) sample_results sample_world = Some w'"
proof -
  let ?x = "Svc 0 0"
  obtain w1 where w1: "service_handle_async_check_result (sample_cenv 111) (sample_result 110 2) ?x sample_world = Some (True, w1)"
    using sample_handled [of ?x sample_world "sample_result 110 2" 111]
    by (auto simp: sample_start sample_result_problem ma_count_def machine_of_def)
  note m = handler_machine [OF w1, unfolded sample_start sample_result_problem]
  have "machine w1 ?x = ma_step 3 (int32 110) True 2 (machine sample_world ?x)"
    using m(1) by (simp add: sample_result_problem)
  then have s: "state w1 ?x = 2" "cs_attempt (status w1 ?x) = 1" "\<not> cs_hard (status w1 ?x)" "\<not> cs_host_problem (status w1 ?x)"
    by (simp_all add: machine_eq ma_eval sample_eval machine_of_def)
  have "cf_max_attempts (conf w1 ?x) = 3" "state w1 (host_of ?x) = state_up"
    using m(2) [of "Hst 0"] m(3) [of ?x] by (simp_all add: sample_start sample_result_problem)
  then obtain w2 where "service_handle_async_check_result (sample_cenv 121) (sample_result 120 1) ?x w1 = Some (True, w2)"
    using sample_handled [of ?x w1 "sample_result 120 1" 121] s
    by (auto simp: sample_result_problem ma_count_def machine_of_def)
  with w1 show ?thesis by (simp add: sample_results_def)
qed

theorem service_confirms_problem_witness:
  "\<exists>w'. handle_results (Svc 0 0) sample_results sample_world = Some w' \<and> cs_attempt (status w' (Svc 0 0)) = 2 \<and>
     \<not> cs_hard (status w' (Svc 0 0))"
proof -
  obtain w' where w': "handle_results (Svc 0 0) sample_results sample_world = Some w'" using sample_results_run by blast
  from service_confirms_problem [OF this] w' show ?thesis
    by (simp add: sample_results_def sample_result_problem sample_start)
qed

end
