(* ===== verification/Engine_Theorems.thy ===== *)
theory Engine_Theorems
  imports Check_Props "HOL-Library.Sublist"
begin

section \<open>Theorems of the engine\<close>

text \<open>
  What holds in every state that the engine reaches from its start, through rounds of the loop, ends of commands and
  commands of users in any order; flap detection; the reach of the commands that act on all hosts beyond one; the results
  that are reaped and the checks they schedule; and two cases in which a check or an acknowledgement does not do what it is for.
\<close>

subsection \<open>Reachable states\<close>

lemma two_steps: "engine_step w0 w1 \<Longrightarrow> engine_step w1 w2 \<Longrightarrow> engine_step\<^sup>*\<^sup>* w0 w2"
  by (rule rtranclp_trans [OF r_into_rtranclp r_into_rtranclp])

text \<open>
  C5. The list of low priority events stays in the order of time, and has at most one check of every host and service,
  whatever results, commands and events schedule checks.
\<close>

theorem engine_one_check:
  assumes "engine_step\<^sup>*\<^sup>* w w'" "checks_ok (w_low w)"
  shows "sorted (map ev_run_time (w_low w')) \<and> scheduled (check_event x) (Object x) (w_low w') \<le> 1"
  using checks_step.reachable [OF assms] by (simp add: checks_ok_def)

theorem engine_one_check_witness:
  "scheduled Event_service_check (Object (Svc 0 0))
     (w_low (schedule_check (sample_cenv 110) (Svc 0 0) 150 1 (schedule_check (sample_cenv 100) (Svc 0 0) 200 0 sample_world))) \<le> 1"
proof -
  let ?w = "schedule_check (sample_cenv 110) (Svc 0 0) 150 1 (schedule_check (sample_cenv 100) (Svc 0 0) 200 0 sample_world)"
  have "engine_step\<^sup>*\<^sup>* sample_world ?w"
    by (rule two_steps [OF step_check step_check])
  moreover have "checks_ok (w_low sample_world)" by (simp add: checks_ok_def scheduled_def sample_eval)
  ultimately show ?thesis using engine_one_check [of sample_world ?w "Svc 0 0"] by simp
qed

text \<open>
  C9. The depth of every object is the number of its downtimes in effect, in every state that is reached from a start
  without downtimes, and the identifiers of the downtimes are distinct.
\<close>

theorem engine_downtime_depth:
  assumes "engine_step\<^sup>*\<^sup>* w w'" "w_downtimes w = []" "\<forall>x. ck_depth (w_ck w x) = 0"
  shows "ck_depth (w_ck w' x) = int (in_effect x w') \<and> distinct (map dt_id (w_downtimes w'))"
proof -
  have "depth_inv w" using assms(2,3) by (simp add: depth_inv_def downtimes_wf_def depth_ok_def in_effect_def)
  from depth_step.reachable [OF assms(1) this] show ?thesis
    by (simp add: depth_inv_def downtimes_wf_def depth_ok_def)
qed

text \<open>
  C31. The percentage of state change of every object stays between 0 and 100, and its ring of states keeps its length and
  its index within it.
\<close>

theorem engine_flap_bounds:
  assumes "engine_step\<^sup>*\<^sup>* w w'" "flaps_ok w"
  shows "0 \<le> fl_percent (flap w' x) \<and> fl_percent (flap w' x) \<le> 100 \<and> length (fl_history (flap w' x)) = max_history \<and>
    fl_index (flap w' x) < max_history"
  using flaps_step.reachable [OF assms] by (simp add: flaps_ok_def flap_wf_def)

definition sample_loop :: "int \<Rightarrow> loop_env" where
  "sample_loop t = \<lparr>le_c = sample_cenv t, le_max_parallel = 0, le_execute_services = True, le_execute_hosts = True,
     le_orphaned_hosts = True, le_orphaned_services = True, le_window = 180, le_rand = 0, le_sort = sort_key ev_run_time,
     le_clock = (\<lambda>k. (sample_cenv t, False))\<rparr>"

lemma sample_sorts: "sorts (le_sort (sample_loop t))"
  by (simp add: sample_loop_def sorts_def)

text \<open>A fixed downtime of a service is scheduled, and the loop starts it at its time.\<close>

definition sample_scheduled :: world where
  "sample_scheduled = snd (schedule_downtime (sample_cenv 200) (Svc 0 0) [] [] 300 600 True 0 0 sample_world)"

lemma sample_downtime_runs:
  "\<exists>w'. dispatch (sample_loop 300) sample_scheduled = Some w' \<and> in_effect (Svc 0 0) w' = 1"
  by (simp add: sample_scheduled_def dispatch_def run_high_def handle_timed_event_def sample_loop_def in_effect_def
      sample_eval downtime_eval emit_def upd_def Let_def)

theorem engine_downtime_depth_witness:
  "\<exists>w'. engine_step\<^sup>*\<^sup>* sample_world w' \<and> in_effect (Svc 0 0) w' = 1 \<and> ck_depth (w_ck w' (Svc 0 0)) = 1"
proof -
  obtain w' where w': "dispatch (sample_loop 300) sample_scheduled = Some w'" "in_effect (Svc 0 0) w' = 1"
    using sample_downtime_runs by blast
  have "engine_step\<^sup>*\<^sup>* sample_world w'"
    unfolding sample_scheduled_def
    by (rule two_steps [OF step_downtime step_loop [OF sample_sorts w'(1) [unfolded sample_scheduled_def]]])
  with engine_downtime_depth [OF this, of "Svc 0 0"] w'(2) show ?thesis by (auto simp: sample_eval)
qed

theorem engine_flap_bounds_witness:
  "\<exists>w'. engine_step\<^sup>*\<^sup>* sample_world w' \<and> 0 \<le> fl_percent (flap w' (Svc 0 0)) \<and> fl_percent (flap w' (Svc 0 0)) \<le> 100"
proof -
  let ?w = "disable_checks (Svc 0 0) sample_world"
  have "engine_step\<^sup>*\<^sup>* sample_world ?w" by (rule r_into_rtranclp) (rule step_disable_checks)
  with engine_flap_bounds [OF this, of "Svc 0 0"] show ?thesis
    by (auto simp: flaps_ok_def flap_wf_def max_history_def sample_eval)
qed

subsection \<open>Lists of events\<close>

text \<open>
  C17. Events that are added one by one to an empty list, from the end as the code searches it, are in the order of a stable
  sort by time: events of one time run in the order in which they were scheduled.
\<close>

theorem event_list_stable: "fold add_event es [] = sort_key ev_run_time es"
  by (rule events.fold_add_sort)

subsection \<open>Flap detection\<close>


definition sample_flapper :: world where
  "sample_flapper = upd_status (Svc 0 0) (\<lambda>s. s\<lparr>cs_state := 2\<rparr>)
     (upd_flap (Svc 0 0) (\<lambda>f. f\<lparr>fl_enabled := True, fl_history := map (\<lambda>k. if even k then 0 else 2) [0..<21]\<rparr>) sample_world)"

lemma sample_flapper_parts:
  "flap sample_flapper (Svc 0 0) = sample_flap\<lparr>fl_enabled := True, fl_history := map (\<lambda>k. if even k then 0 else 2) [0..<21]\<rparr>"
  "state sample_flapper (Svc 0 0) = 2" "state sample_flapper (Hst 0) = 0" "conf sample_flapper y = sample_conf ''web'' 3"
  by (simp_all add: sample_flapper_def upd_parts frame_simps sample_eval)

lemma sample_flapper_timeline:
  "timeline_of (flap sample_flapper (Svc 0 0)) = map (\<lambda>k. if even k then 0 else 2) [0..<21]"
  by (simp add: sample_flapper_parts timeline_of_def sample_flap_def)

lemma alternating_percent:
  "5 * weighted_changes (tl (map (\<lambda>k. if even k then 0 else 2) [0..<21]) @ [2]) = 100"
proof -
  let ?t = "map (\<lambda>k. if even k then 2 else 0) [0..<21]"
  have "tl (map (\<lambda>k. if even k then 0 else 2) [0..<21]) @ [2] = (?t :: nat list)" by code_simp
  moreover have "weighted_changes ?t = (\<Sum>k = 1..<max_history. curve k)"
    unfolding weighted_changes_def by (rule sum.cong) (auto simp: max_history_def)
  ultimately show ?thesis by (simp only: sum_curve)
qed

lemma sample_flapper_starts:
  "\<exists>w'. service_check_for_flapping ((sample_cenv 200)\<lparr>ce_enable_flap := True\<rparr>) True False (Svc 0 0) sample_flapper = Some w'"
proof -
  have "fl_flapping (flap (service_measure b x w) x) = fl_flapping (flap w x)" for b x w
    by (simp add: service_measure_def Let_def upd_flap_def frame_simps record_state_def)
  then show ?thesis
    by (auto simp: service_check_for_flapping_def Let_def flap_transition_def set_flap_def sample_flapper_parts sample_flap_def
        split: prod.splits)
qed


subsection \<open>Commands for the hosts beyond a host\<close>

definition beyond :: "world \<Rightarrow> oid \<Rightarrow> oid \<Rightarrow> bool" where
  "beyond w = (\<lambda>x y. y \<in> set (children w x))\<^sup>+\<^sup>+"

lemma beyond_step: "beyond w x y \<longleftrightarrow> (\<exists>c\<in>set (children w x). y = c \<or> beyond w c y)"
  unfolding beyond_def by (subst tranclp_unfold_left) (auto dest: rtranclpD)

lemma propagate_Act: "act x w = (True, w') \<Longrightarrow> propagate act (Act x # vs) w = propagate act vs w'"
  by (simp add: propagate.simps [of act "Act x # vs"])

lemma propagate_Visit: "propagate act (Visit x # vs) w = propagate act (visits (children w x) @ vs) w"
  by (simp add: propagate.simps [of act "Visit x # vs"])

lemma propagate_visit:
  assumes "\<And>y w. act y w = (True, g y w)" "\<And>y w. children (g y w) = children w"
    and "\<And>y c. c \<in> set (children w y) \<Longrightarrow> rank c < (rank y :: nat)"
  shows "\<exists>ys. set ys = {y. beyond w x y} \<and> (\<forall>vs. propagate act (Visit x # vs) w = propagate act vs (fold g ys w))"
  using assms(3)
proof (induction "rank x" arbitrary: x w rule: less_induct)
  case less
  have fold_children: "children (fold g ys w) = children w" for ys w
    by (induction ys arbitrary: w) (simp_all add: assms(2))
  have same: "beyond (fold g ys w) = beyond w" for ys w by (simp add: beyond_def fold_children)
  have "\<exists>ys. set ys = (\<Union>c\<in>set cs. insert c {y. beyond w c y}) \<and>
      (\<forall>vs. propagate act (visits cs @ vs) v = propagate act vs (fold g ys v))"
    if "set cs \<subseteq> set (children w x)" "children v = children w" for cs v
    using that
  proof (induction cs arbitrary: v)
    case Nil
    then show ?case by (intro exI [of _ "[]"]) (simp add: visits_def)
  next
    case (Cons c cs)
    have v: "beyond v = beyond w" by (simp add: beyond_def Cons.prems(2))
    have "rank c < rank x" using Cons.prems(1) less.prems by simp
    from less.hyps [OF this, of v] less.prems Cons.prems(2) obtain ys where ys: "set ys = {y. beyond w c y}"
      "\<And>vs. propagate act (Visit c # vs) v = propagate act vs (fold g ys v)" by (auto simp: v)
    let ?v = "g c (fold g ys v)"
    have "children ?v = children w" by (simp add: assms(2) fold_children Cons.prems(2))
    with Cons.IH [of ?v] Cons.prems(1) obtain zs where zs: "set zs = (\<Union>c\<in>set cs. insert c {y. beyond w c y})"
      "\<And>vs. propagate act (visits cs @ vs) ?v = propagate act vs (fold g zs ?v)" by auto
    have "propagate act (visits (c # cs) @ vs) v = propagate act vs (fold g (ys @ c # zs) v)" for vs
      using ys(2) zs(2) propagate_Act [of act c "fold g ys v", OF assms(1)] by (simp add: visits_def)
    moreover have "set (ys @ c # zs) = (\<Union>c\<in>set (c # cs). insert c {y. beyond w c y})" by (auto simp: ys(1) zs(1))
    ultimately show ?case by blast
  qed
  from this [of "children w x" w] obtain ys where "set ys = (\<Union>c\<in>set (children w x). insert c {y. beyond w c y})"
    "\<And>vs. propagate act (visits (children w x) @ vs) w = propagate act vs (fold g ys w)" by auto
  then show ?case by (intro exI [of _ ys]) (auto simp: propagate_Visit beyond_step [of w x])
qed

abbreviation notifies :: "world \<Rightarrow> oid \<Rightarrow> bool" where
  "notifies w y \<equiv> nt_notifications_enabled (ck_notifier (w_ck w y))"

lemma switch_notifies: "notifies (switch_notifications b x w) y = (if y = x then b else notifies w y)"
  by (auto simp: switch_notifications_def frame_simps)

lemma switch_frame [simp]: "conf (switch_notifications b x w) y = conf w y" "w_services (switch_notifications b x w) = w_services w"
  by (auto simp: switch_notifications_def frame_simps)

lemma fold_switch:
  "notifies (fold (switch_notifications b) ys w) z = (if z \<in> set ys then b else notifies w z)"
  "conf (fold (switch_notifications b) ys w) z = conf w z"
  "w_services (fold (switch_notifications b) ys w) = w_services w"
  by (induction ys arbitrary: w) (auto simp: switch_notifies)

text \<open>The objects that a command for the hosts beyond \<open>x\<close> switches, by its three flags.\<close>

definition reaches :: "bool \<Rightarrow> bool \<Rightarrow> oid \<Rightarrow> world \<Rightarrow> oid \<Rightarrow> bool" where
  "reaches hosts services y w z \<longleftrightarrow> (hosts \<and> z = y) \<or> (services \<and> z \<in> set (services_of w y))"

lemma beyond_switched:
  "notifies (switch_beyond b hosts services y w) z = (if reaches hosts services y w z then b else notifies w z)"
  "conf (switch_beyond b hosts services y w) z = conf w z"
  "w_services (switch_beyond b hosts services y w) = w_services w"
  by (auto simp: switch_beyond_def Let_def fold_switch switch_notifies reaches_def services_of_def)

lemma fold_beyond:
  "notifies (fold (switch_beyond b hosts services) ys w) z =
     (if \<exists>y\<in>set ys. reaches hosts services y w z then b else notifies w z)"
proof (induction ys arbitrary: w)
  case (Cons y ys)
  have "reaches hosts services x (switch_beyond b hosts services y w) = reaches hosts services x w" for x
    by (auto simp: reaches_def services_of_def beyond_switched(3))
  with Cons show ?case by (simp add: beyond_switched(1))
qed simp

text \<open>
  C32. Where the hosts have no cyclic parents, the command that switches the notifications beyond a host returns, and sets
  exactly the hosts it names: the host itself, the hosts behind it, or their services, by its three flags.
\<close>

theorem notifications_beyond:
  assumes "\<forall>y. \<forall>c\<in>set (children w y). rank c < (rank y :: nat)"
  shows "\<exists>w'. propagate_notifications b top_host hosts services x w = Some w' \<and>
    (\<forall>z. notifies w' z =
       (if (top_host \<and> z = x) \<or> (\<exists>y. beyond w x y \<and> reaches hosts services y w z) then b else notifies w z))"
proof -
  define g where "g = switch_beyond b hosts services"
  let ?w = "if top_host then switch_notifications b x w else w"
  have c: "children ?w = children w" "children (g y v) = children v" for y v
    by (auto simp: children_def g_def beyond_switched fun_eq_iff)
  have r: "reaches hosts services y ?w = reaches hosts services y w" for y by (auto simp: reaches_def services_of_def)
  obtain ys where ys: "set ys = {y. beyond ?w x y}"
    "\<And>vs. propagate (\<lambda>y w. (True, g y w)) (Visit x # vs) ?w = propagate (\<lambda>y w. (True, g y w)) vs (fold g ys ?w)"
    using propagate_visit [of "\<lambda>y w. (True, g y w)" g ?w rank x] assms c by auto
  have "propagate_notifications b top_host hosts services x w = Some (fold g ys ?w)"
    using ys(2) [of "[]"] by (simp add: propagate_notifications_def g_def propagate.simps [of _ "[]"])
  moreover have "beyond ?w = beyond w" by (simp add: beyond_def c)
  ultimately show ?thesis
    using ys(1) unfolding g_def by (auto simp: fold_beyond r switch_notifies)
qed

definition sample_tree :: world where
  "sample_tree = upd_conf (Hst 0) (\<lambda>c. c\<lparr>cf_children := [Some 1]\<rparr>) sample_world"

lemma sample_tree_children: "children sample_tree y = (if y = Hst 0 then [Hst 1] else [])"
  by (simp add: children_def present_def sample_tree_def upd_conf_def frame_simps sample_eval)

lemma sample_tree_notifies: "notifies sample_tree y"
  by (simp add: sample_tree_def upd_conf_def frame_simps sample_eval sample_notifier_def)

lemma sample_tree_beyond: "beyond sample_tree (Hst 0) y \<longleftrightarrow> y = Hst 1"
proof -
  have "\<not> beyond sample_tree (Hst 1) y" by (subst beyond_step) (simp add: sample_tree_children)
  then show ?thesis by (subst beyond_step) (simp add: sample_tree_children)
qed

theorem notifications_beyond_witness:
  "\<exists>w'. propagate_notifications False False True False (Hst 0) sample_tree = Some w' \<and> \<not> notifies w' (Hst 1) \<and>
     notifies w' (Hst 0)"
  using notifications_beyond [of sample_tree "\<lambda>x. if x = Hst 0 then 1 else 0" False False True False "Hst 0"]
  by (auto simp: sample_tree_children sample_tree_notifies sample_tree_beyond reaches_def split: if_splits)

subsection \<open>Results that wait\<close>

interpretation arrivals: engine_invariant "\<lambda>w. prefix l (w_to_reap_partial w)"
proof unfold_locales
  show "prefix l (w_to_reap_partial w')" if "notify_object env type author message x w = Some w'" "prefix l (w_to_reap_partial w)"
    for env type author message x w w'
    using notify_object_same [OF that(1)] that(2) by (simp add: same_checks_def)
  show "prefix l (w_to_reap_partial w')" if "service_check_for_flapping env u allow x w = Some w'" "prefix l (w_to_reap_partial w)"
    for env u allow x w w'
    using service_check_for_flapping_same [OF that(1)] that(2) by (simp add: same_checks_def)
  show "prefix l (w_to_reap_partial w')" if "host_check_for_flapping env u a allow x w = Some w'" "prefix l (w_to_reap_partial w)"
    for env u a allow x w w'
    using host_check_for_flapping_same [OF that(1)] that(2) by (simp add: same_checks_def)
  show "prefix l (w_to_reap_partial w')" if "check_pending_flex_downtime env x w = Some w'" "prefix l (w_to_reap_partial w)"
    for env x w w'
    using pending_flex_frame [OF that(1)] that(2) by (simp add: downtime_frame_def)
qed (auto simp: elementary prefix_def)

definition interrupted :: "int \<Rightarrow> cenv \<times> bool \<Rightarrow> bool" where
  "interrupted start c \<longleftrightarrow> now (fst c) - start > max_check_reaper_time \<or> snd c"

lemma reap_loop_rest:
  assumes "reap_loop start clock k rs w = Some w'" "rs = [] \<Longrightarrow> w_to_reap w = []" "prefix l (w_to_reap_partial w)"
  shows "\<exists>n\<le>length rs. w_to_reap w' = drop n rs \<and> (n < length rs \<longrightarrow> n > 0 \<and> interrupted start (clock (k + n - 1))) \<and>
    prefix l (w_to_reap_partial w')"
  using assms
proof (induction rs arbitrary: k w)
  case (Cons r rs)
  then obtain w1 where 1: "handle_result (fst (clock k)) r (w\<lparr>w_to_reap := rs\<rparr>) = Some w1"
    and 2: "if interrupted start (clock k) then w' = w1 else reap_loop start clock (Suc k) rs w1 = Some w'"
    by (auto simp: interrupted_def split: option.splits if_splits)
  have w1: "w_to_reap w1 = rs" "prefix l (w_to_reap_partial w1)"
    using reaping.handle_result [OF 1, of rs] arrivals.handle_result [OF 1, of l] Cons.prems(3) by simp_all
  show ?case
  proof (cases "interrupted start (clock k)")
    case True
    with 2 w1 show ?thesis by (intro exI [of _ 1]) simp
  next
    case False
    with 2 Cons.IH [of "Suc k" w1] w1 obtain n where "n \<le> length rs" "w_to_reap w' = drop n rs"
      "n < length rs \<longrightarrow> n > 0 \<and> interrupted start (clock (Suc k + n - 1))" "prefix l (w_to_reap_partial w')"
      by auto
    then show ?thesis by (intro exI [of _ "Suc n"]) auto
  qed
qed auto


definition sample_arrived :: world where
  "sample_arrived = sample_world\<lparr>w_to_reap_partial := [sample_result 110 2], w_to_reap := [sample_result 105 1]\<rparr>"

lemma sample_reaped: "\<exists>w'. reap 115 (\<lambda>k. (sample_cenv 120, False)) sample_arrived = Some w'"
proof -
  let ?w = "(swap_queues (drop_forgotten sample_arrived))\<lparr>w_to_reap := []\<rparr>"
  have same: "w_ck ?w = w_ck sample_world" "w_to_reap (swap_queues (drop_forgotten sample_arrived)) = [sample_result 110 2]"
    by (simp_all add: sample_arrived_def swap_queues_def drop_forgotten_def sample_world_def)
  obtain w1 where "service_handle_async_check_result (sample_cenv 120) (sample_result 110 2) (Svc 0 0) ?w = Some (True, w1)"
    using sample_handled [of "Svc 0 0" ?w "sample_result 110 2" 120]
    by (auto simp: same sample_start sample_result_problem ma_count_def machine_of_def)
  moreover have "cr_object (sample_result 110 2) = Svc 0 0" by (simp add: sample_result_def)
  ultimately show ?thesis
    by (simp add: reap_def Let_def same handle_result_def)
qed


subsection \<open>The next check\<close>

lemma placed:
  assumes "place_check env y t opts l = (l', rest)"
  shows "scheduled (check_event y) (Object y) l' \<ge> 1"
    and "scheduled (check_event x) (Object x) l \<ge> 1 \<Longrightarrow> scheduled (check_event x) (Object x) l' \<ge> 1"
proof -
  let ?e = "new_event (check_event y) t True (Object y) opts"
  have r: "reschedule_event (now env) ?e k = add_event ?e k" for k by (simp add: reschedule_event_def new_event_def)
  have m: "matches (check_event y) (Object y) ?e" by (simp add: matches_def new_event_def)
  consider e where "l' = l" "find_event (check_event y) (Object y) l = Some e"
    | k where "l' = add_event ?e k" "k = l \<or> k = remove_found (check_event y) (Object y) l"
    using assms by (auto simp: place_check_def Let_def r split: option.splits if_splits)
  then show 1: "scheduled (check_event y) (Object y) l' \<ge> 1"
    by cases (use m scheduled_zero [of "check_event y" "Object y" l] in \<open>auto simp: scheduled_add Suc_le_eq\<close>)
  assume x: "scheduled (check_event x) (Object x) l \<ge> 1"
  show "scheduled (check_event x) (Object x) l' \<ge> 1"
  proof (cases "x = y")
    case False
    with assms x show ?thesis
      by (auto simp: place_check_def Let_def r scheduled_add scheduled_remove_other split: option.splits if_splits)
  qed (use 1 in simp)
qed

interpretation next_check: engine_invariant "\<lambda>w. scheduled (check_event x) (Object x) (w_low w) \<ge> 1"
proof unfold_locales
  show "1 \<le> scheduled (check_event x) (Object x) (w_low w')"
    if "notify_object env type author message y w = Some w'" "1 \<le> scheduled (check_event x) (Object x) (w_low w)"
    for env type author message y w w'
    using notify_object_same [OF that(1)] that(2) by (simp add: same_checks_def)
  show "1 \<le> scheduled (check_event x) (Object x) (w_low w')"
    if "service_check_for_flapping env u allow y w = Some w'" "1 \<le> scheduled (check_event x) (Object x) (w_low w)"
    for env u allow y w w'
    using service_check_for_flapping_same [OF that(1)] that(2) by (simp add: same_checks_def)
  show "1 \<le> scheduled (check_event x) (Object x) (w_low w')"
    if "host_check_for_flapping env u a allow y w = Some w'" "1 \<le> scheduled (check_event x) (Object x) (w_low w)"
    for env u a allow y w w'
    using host_check_for_flapping_same [OF that(1)] that(2) by (simp add: same_checks_def)
  show "1 \<le> scheduled (check_event x) (Object x) (w_low w')"
    if "check_pending_flex_downtime env y w = Some w'" "1 \<le> scheduled (check_event x) (Object x) (w_low w)" for env y w w'
    using pending_flex_frame [OF that(1)] that(2) by (simp add: downtime_frame_def)
  show "1 \<le> scheduled (check_event x) (Object x) (w_low (w\<lparr>w_low := l\<rparr>))"
    if "place_check env y t opts (w_low w) = (l, rest)" "1 \<le> scheduled (check_event x) (Object x) (w_low w)"
    for env y t opts w l rest
    using placed(2) [OF that(1)] that(2) by simp
qed (simp_all add: elementary)

lemma finish_schedules:
  assumes "service_finish env True changed out x (w1, v) = Some w'" "cf_check_interval (conf w1 x) \<noteq> 0" "cf_active (conf w1 x)"
  shows "scheduled (check_event x) (Object x) (w_low w') \<ge> 1"
proof -
  obtain logged flapped t others where v: "v = (logged, flapped, t, others)" by (metis surj_pair)
  obtain n u1 where u1: "service_reschedule env t x w1 = (n, u1)" by (metis surj_pair)
  let ?u3 = "service_send_status True n x (emit (Check_processed x) (service_stalk env changed logged out x u1))"
  obtain u4 where u4: "(if flapped then Some ?u3 else both_check_for_flapping env x ?u3) = Some u4"
    "service_check_others env others u4 = Some w'"
    using assms(1) by (auto simp: service_finish_def v Let_def u1 bind_eq_Some_conv split: if_splits)
  have "scheduled (check_event x) (Object x) (w_low u1) \<ge> 1"
    using u1 assms(2,3)
    by (auto simp: service_reschedule_def service_schedule_check_def Let_def update_status_def frame_simps upd_parts
        split: prod.splits if_splits dest: placed(1))
  then have "scheduled (check_event x) (Object x) (w_low ?u3) \<ge> 1"
    by (intro next_check.service_changes next_check.emit)
  then have "scheduled (check_event x) (Object x) (w_low u4) \<ge> 1"
    using u4(1) next_check.both_flapping [of env x ?u3 u4 x] by (auto split: if_splits)
  then show ?thesis by (rule next_check.service_others [OF u4(2)])
qed

text \<open>
  C19. The check of a service that is active and has an interval goes on: the handler of a result that asks for it leaves
  exactly one check of the service in the list of events.
\<close>

theorem result_reschedules:
  assumes "service_handle_async_check_result env r x w = Some (True, w')" "\<not> is_host x" "cr_reschedule r"
    "\<not> has_flag (cr_options r) opt_freshness" "cf_check_interval (conf w x) \<noteq> 0" "cf_active (conf w x)" "checks_ok (w_low w)"
  shows "scheduled (check_event x) (Object x) (w_low w') = 1"
proof -
  let ?w1 = "if \<not> cr_passive r \<and> w_running_services w > 0 then w\<lparr>w_running_services := w_running_services w - 1\<rparr> else w"
  let ?w = "service_clear_flags r x ?w1"
  have c0: "conf ?w y = conf w y" for y by (simp add: service_clear_flags_def upd_parts frame_simps)
  have p: "service_process env r x ?w = Some w'"
    using assms(1,4) by (auto simp: service_handle_async_check_result_def Let_def split: if_splits)
  let ?t = "service_take_result r x ?w" and ?st = "result_state r"
  let ?c = "?st \<noteq> state ?w x" and ?h = "ma_hard_changes (cf_max_attempts (conf ?w x)) ?st (machine ?w x)"
  obtain w2 where 2: "(if first_host_check env x ?t then host_on_demand_check env (host_of x) ?t else Some ?t) = Some w2"
    using p unfolding service_process_def Let_def bind_eq_Some_conv by blast
  note k = checked_result [OF assms(2) 2]
  define w4 where "w4 = service_note_change ?c ?h x (service_count_attempt x w2)"
  obtain w5 v where 5: "service_decide env ?c ?h (first_host_check env x ?t) x w4 = Some (w5, v)"
    "service_finish env True ?c (cs_output (status ?w x)) x (w5, v) = Some w'"
    using p assms(3) by (auto simp: service_process_def Let_def 2 k(1,2) w4_def bind_eq_Some_conv)
  have "conf w5 x = conf w x"
    using tracks_attempts(1) [OF tracks_decide [OF 5(1) assms(2)]] k(5) [folded w4_def] c0 by simp
  with finish_schedules [OF 5(2)] assms(5,6) have "scheduled (check_event x) (Object x) (w_low w') \<ge> 1" by simp
  moreover have "checks_ok (w_low w')" using checks.service_handler [OF assms(1)] assms(7) by simp
  ultimately show ?thesis by (simp add: checks_ok_def le_antisym)
qed

theorem result_reschedules_witness:
  "\<exists>w'. service_handle_async_check_result (sample_cenv 111) (sample_result 110 2) (Svc 0 0) sample_world = Some (True, w') \<and>
     scheduled Event_service_check (Object (Svc 0 0)) (w_low w') = 1"
proof -
  obtain w' where w': "service_handle_async_check_result (sample_cenv 111) (sample_result 110 2) (Svc 0 0) sample_world = Some (True, w')"
    using sample_handled [of "Svc 0 0" sample_world "sample_result 110 2" 111]
    by (auto simp: sample_start sample_result_problem ma_count_def machine_of_def)
  have "cr_reschedule (sample_result 110 2)" "checks_ok (w_low sample_world)"
    by (simp_all add: sample_result_def checks_ok_def scheduled_def sample_eval)
  with result_reschedules [OF w'] w' show ?thesis by (simp add: sample_result_problem sample_eval)
qed

subsection \<open>The expiry of acknowledgements\<close>

text \<open>
  C36. The event at the end of an acknowledgement removes it only while it has not expired: an event that runs a second late,
  or later, is used up and leaves the acknowledgement for ever; an event that an older acknowledgement left removes a newer one.
\<close>

theorem acknowledgement_expiry:
  assumes "w_low w = e # es" "ev_type e = ack_event x" "ev_data e = Object x" "\<not> ev_recurring e"
    "ev_run_time e \<le> now (le_c le)" "\<not> due (now (le_c le)) (w_high w)" "cf_ack_timeout (conf w x) > 0"
  shows "\<exists>w'. dispatch le w = Some w' \<and> w_low w' = es \<and>
    cs_ack (status w' x) =
      (if now (le_c le) \<le> cs_last_ack (status w x) + cf_ack_timeout (conf w x) then Ack_none else cs_ack (status w x))"
proof -
  have "check_object e = None" using assms(2,3) by (cases x) (simp_all add: check_object_def)
  then have r: "runs_now le e w1" for w1 by (simp add: runs_now_def)
  have h: "handle_timed_event le e w1 = Some (check_for_expired_acknowledgement (le_c le) x w1)" for w1
    using assms(2,3) by (cases x) (simp_all add: handle_timed_event_def on_object_def)
  have "dispatch le w = Some (check_for_expired_acknowledgement (le_c le) x (w\<lparr>w_low := es\<rparr>))"
    using assms by (simp add: dispatch_def run_low_def r h)
  with assms(7) show ?thesis
    by (auto simp: check_for_expired_acknowledgement_def Let_def update_status_def upd_parts frame_simps)
qed

definition sample_acknowledged :: world where
  "sample_acknowledged = schedule_acknowledgement_expiration (Svc 0 0)
     (upd_status (Svc 0 0) (\<lambda>s. s\<lparr>cs_ack := Ack_normal, cs_last_ack := 200\<rparr>)
       (upd_conf (Svc 0 0) (\<lambda>c. c\<lparr>cf_ack_timeout := 60\<rparr>) sample_world))"

theorem acknowledgement_expiry_witness:
  "\<exists>w'. dispatch (sample_loop 261) sample_acknowledged = Some w' \<and> w_low w' = [] \<and>
     cs_ack (status w' (Svc 0 0)) = Ack_normal"
  using acknowledgement_expiry [of sample_acknowledged "new_event Event_expire_service_ack 260 True (Object (Svc 0 0)) 0" "[]"
      "Svc 0 0" "sample_loop 261"]
  by (simp add: sample_acknowledged_def schedule_acknowledgement_expiration_def Let_def upd_parts upd_conf_def upd_def
      sample_eval add_event_def new_event_def sample_loop_def)

subsection \<open>A host with one attempt\<close>

lemma states_next_ids: "same_states w0 w \<Longrightarrow> same_states w0 (next_ids (Hst h) w)"
  by (auto simp: same_states_def next_ids_def Let_def upd_parts frame_simps)

lemma states_host_changed: "host_changed env (Hst h) w = Some w' \<Longrightarrow> same_states w w'"
proof -
  let ?x = "Hst h"
  let ?w1 = "host_log_change env ?x (reset_notifications ?x (host_reset_ack ?x (next_ids ?x (host_change_times env ?x w))))"
  assume "host_changed env ?x w = Some w'"
  then obtain w2 w3 where 2: "check_pending_flex_downtime env ?x ?w1 = Some w2"
    "notify_object env (state_notification ?x w2) [] [] ?x w2 = Some w3"
    and w': "w' = (let w4 = handle_event env ?x w3 in
      if state w4 ?x = state_up then upd_status ?x (\<lambda>s. s\<lparr>cs_attempt := 1\<rparr>) w4 else w4)"
    by (auto simp: host_changed_def Let_def bind_eq_Some_conv)
  have "same_states w (host_change_times env ?x w)" by (simp add: host_change_times_def states)
  then have "same_states w (host_reset_ack ?x (next_ids ?x (host_change_times env ?x w)))"
    by (simp add: host_reset_ack_def Let_def states states_next_ids)
  then have "same_states w ?w1" by (simp add: host_log_change_def states)
  from states_notify [OF 2(2) states_flex [OF 2(1) this]] show "same_states w w'"
    by (simp add: w' Let_def states)
qed

lemma states_switch: "same_states w0 w \<Longrightarrow> same_states w0 (switch_all_services_to_unknown env x w)"
proof -
  have "same_states w0 (fold (\<lambda>(h, s). add_check_result_to_reap (f h s)) ss w)" if "same_states w0 w" for f ss w
    using that by (induction ss arbitrary: w) (auto simp: states)
  then show "same_states w0 w \<Longrightarrow> same_states w0 (switch_all_services_to_unknown env x w)"
    by (simp add: switch_all_services_to_unknown_def)
qed

lemma states_host_handle:
  assumes "host_handle_state env (Hst h) w = Some w'"
  shows "same_states w w'"
proof -
  let ?w1 = "upd_status (Hst h) (\<lambda>s. s\<lparr>cs_last_time := (cs_last_time s)(cs_state s := now env)\<rparr>)
    (obsess (ce_obsess_hosts env) (Hst h) w)"
  have 1: "same_states w ?w1" by (simp add: states)
  from assms consider w2 where "host_changed env (Hst h) ?w1 = Some w2" "w' = w2 \<or> w' = switch_all_services_to_unknown env (Hst h) w2"
    | w2 where "notify_object env (state_notification (Hst h) ?w1) [] [] (Hst h) ?w1 = Some w2" "w' = w2 \<or> w' = host_log_event (Hst h) w2"
    by (auto simp: host_handle_state_def Let_def split: if_splits)
  then show ?thesis
    by cases (use 1 same_states_trans [OF 1 states_host_changed] states_notify [OF _ 1] in \<open>auto simp: states states_switch\<close>)
qed

lemma states_host_others: "host_check_others env (map Hst hs) w = Some w' \<Longrightarrow> same_states w0 w \<Longrightarrow> same_states w0 w'"
  by (induction hs arbitrary: w) (auto simp: bind_eq_Some_conv split: if_splits dest: states_on_demand)

lemma states_host_finish:
  assumes "host_finish env out (Hst h) (w, re, t, map Hst hs) = Some w'"
  shows "same_states w w'"
proof -
  obtain w1 w2 where 1: "host_handle_state env (Hst h) w = Some w1"
    and 2: "host_check_for_flapping env True True True (Hst h) (host_stalk out (Hst h) w1) = Some w2"
    using assms by (auto simp: host_finish_def bind_eq_Some_conv)
  obtain b w3 where 3: "(if re then host_reschedule env t (Hst h) w2 else (False, w2)) = (b, w3)" by (metis surj_pair)
  from assms 1 2 3 have 4: "host_check_others env (map Hst hs) (if b then w3 else update_status (Hst h) w3) = Some w'"
    by (simp add: host_finish_def)
  have "same_states w (host_stalk out (Hst h) w1)" using states_host_handle [OF 1] by (simp add: host_stalk_def Let_def states)
  then have w2: "same_states w w2" by (rule states_flapping(2) [OF 2])
  have "same_states w w3"
    using 3 w2 by (auto simp: host_reschedule_def Let_def states split: if_splits intro: states_schedule(2))
  then show ?thesis using states_host_others [OF 4] by (simp add: states)
qed

lemma children_hosts: "\<exists>hs. children_with P x w = map Hst hs"
  unfolding children_with_def present_def
  by (rule exI [of _ "filter (\<lambda>h. P (state w (Hst h))) (map the (filter (\<lambda>h. h \<noteq> None) (cf_children (conf w x))))"])
    (simp add: filter_map o_def)

lemma cached_parents:
  assumes "\<forall>p\<in>set ps. cf_has_command (conf w p) \<and> cached_host_state env p w \<and> state w p \<noteq> state_up"
    "sync_parents env ps st w = Some (st', w')" "ps \<noteq> [] \<or> st \<noteq> state_up"
  shows "w' = w \<and> st' \<noteq> state_up"
  using assms
proof (induction ps arbitrary: st)
  case Nil
  then show ?case by (simp add: sync_parents.simps [of env "[]"])
next
  case (Cons p ps)
  then obtain v where "run_sync_start env st p w = Some v"
    by (subst (asm) sync_parents.simps) (auto simp: bind_eq_Some_conv)
  with Cons.prems(1) have r: "run_sync_start env st p w = Some (Inl (state w p))"
    by (auto simp: run_sync_start_def split: option.splits if_splits)
  have "sync_parents env ps (state w p) w = Some (st', w')"
    using Cons.prems(1,2) by (subst (asm) sync_parents.simps) (simp add: r)
  with Cons.IH [of "state w p"] Cons.prems(1) show ?case by simp
qed


text \<open>A host behind one that is unreachable; both are checked recently.\<close>

definition sample_child_host :: world where
  "sample_child_host = upd_status (Hst 2) (\<lambda>s. s\<lparr>cs_state := 2\<rparr>)
     (upd_conf (Hst 0) (\<lambda>c. c\<lparr>cf_max_attempts := 1, cf_parents := [Some 2]\<rparr>) (sample_world\<lparr>w_hosts := [0, 2]\<rparr>))"

lemma sample_child_host_parts:
  "conf sample_child_host y = (if y = Hst 0 then (sample_conf ''web'' 3)\<lparr>cf_max_attempts := 1, cf_parents := [Some 2]\<rparr> else sample_conf ''web'' 3)"
  "status sample_child_host y = (if y = Hst 2 then sample_status\<lparr>cs_state := 2\<rparr> else sample_status)"
  "sched sample_child_host y = sample_sched"
  by (simp_all add: sample_child_host_def upd_parts upd_conf_def frame_simps sample_eval)

lemma sample_recovery_returns: "notify_object (sample_cenv t) Reason_recovery [] [] x w \<noteq> None"
  by (auto simp: notify_object_def sample_viable is_notification_viable_recovery_def split: prod.splits)

lemma sample_host_others: "host_check_others (sample_cenv t) ys w \<noteq> None"
proof (induction ys arbitrary: w)
  case (Cons y ys)
  obtain w1 where "host_on_demand_check (sample_cenv t) y w = Some w1" using sample_on_demand(1) [of t y w] by blast
  with Cons show ?case by simp
qed simp

lemma sample_host_finish:
  assumes "state w (Hst h) = state_up" "\<not> host_state_change (status w (Hst h))"
  shows "host_finish (sample_cenv t) out (Hst h) (w, re, k, ys) \<noteq> None"
proof -
  let ?w1 = "upd_status (Hst h) (\<lambda>s. s\<lparr>cs_last_time := (cs_last_time s)(cs_state s := t)\<rparr>) w"
  have 1: "\<not> host_state_change (status ?w1 (Hst h))" "state ?w1 (Hst h) = state_up"
    using assms by (simp_all add: upd_parts frame_simps host_state_change_def)
  obtain w2 where "notify_object (sample_cenv t) Reason_recovery [] [] (Hst h) ?w1 = Some w2"
    using sample_recovery_returns [of t "Hst h" ?w1] by blast
  then obtain w3 where 3: "host_handle_state (sample_cenv t) (Hst h) w = Some w3"
    using 1 by (auto simp: host_handle_state_def obsess_def state_notification_def Let_def)
  obtain w4 where 4: "host_check_for_flapping (sample_cenv t) True True True (Hst h) (host_stalk out (Hst h) w3) = Some w4"
    by (auto simp: host_check_for_flapping_def Let_def)
  obtain b w5 where 5: "(if re then host_reschedule (sample_cenv t) k (Hst h) w4 else (False, w4)) = (b, w5)" by (metis surj_pair)
  show ?thesis using sample_host_others by (simp add: host_finish_def 3 4 5 del: host_check_others.simps)
qed


end
