(* ===== verification/Spec2Isabelle.thy ===== *)
theory Spec2Isabelle
  imports Endpoint_Filters Muxer_Threads Mux_Engine Notifier_Props Bam_Props Engine_Theorems
begin

text \<open>
  Verification library of Centreon Collect: the monitoring engine (\<^verbatim>\<open>engine/\<close>), which runs the checks of hosts and
  services, and the broker (\<^verbatim>\<open>broker/\<close>), which transports its events and computes business activities.

  \<^bold>\<open>Parts of the program.\<close> The engine keeps two lists of timed events. Its loop takes the event that is due: the start of
  a check, the handling of the results that have arrived, the start or end of a downtime. A result changes the
  state of its object, which decides on the next check, flap detection, downtimes and notifications. Events of the
  engine reach the broker, whose multiplexing engine hands each of them to the muxers, one per endpoint. A muxer
  filters them, keeps them until they are acknowledged, and writes what does not fit in memory to a persistent file: a BBDO
  stream over a compression stream over a file stream over a file that is split into parts. The business activity
  monitoring (BAM) computes the state of business activities from the states of services and from boolean rules over
  them.

  \<^bold>\<open>Conventions.\<close> An object is a record, with one function per method that returns the new record. An exception is a value
  of \<open>exn\<close>, the left part of a sum. Integers are words of their width where they wrap, doubles are rationals. A loop that may
  not end is a \<open>partial_function (option)\<close>, whose value is then \<open>None\<close>; there is no fuel. Where such a loop does return this
  is proved, either as an equation with \<open>Some\<close> or as an existence statement. Code outside of the sources (zlib, protobuf and
  generated accessors, the C library on doubles, commands that are run, modules, the clock) is a parameter, and what is known of it
  a named hypothesis, as \<open>zlib_contract\<close>.

  \<^bold>\<open>Theories of the broker.\<close>
  \<^item> \<open>Collect_Prelude\<close>: machine types, exceptions, big-endian codecs, decimal numbers.
  \<^item> \<open>Muxer_Filter\<close>: \<^verbatim>\<open>bbdo/events.hh\<close> and \<^verbatim>\<open>muxer_filter.hh\<close>; the operators are those on sets of event types (locale
    \<open>event_filter\<close>). \<open>Endpoint_Filters\<close>: \<^verbatim>\<open>io/events.cc\<close>, \<^verbatim>\<open>io/endpoint.hh\<close> and the filters of the endpoint applier; which events an
    endpoint gets, by its configuration.
  \<^item> \<open>Splitter\<close>, \<open>Splitter_Queue\<close>: \<^verbatim>\<open>file/disk_accessor.cc\<close> and \<^verbatim>\<open>file/splitter.cc\<close> on an explicit file system; a splitter is a
    first-in first-out queue of bytes (locale \<open>byte_queue\<close>), which is read to its end and survives a restart.
  \<^item> \<open>File_Stream\<close>: \<^verbatim>\<open>file/stream.cc\<close> and the contract of a stream of bytes (locale \<open>raw_channel\<close>). \<open>Compression_Stream\<close>:
    \<^verbatim>\<open>compression/\<close>, which keeps that contract and returns the bytes that were written.
  \<^item> \<open>Bbdo_Codec\<close>: packets, checksum and fields of \<^verbatim>\<open>bbdo/stream.cc\<close>; round trips, and the errors a checksum finds.
    \<open>Bbdo_Stream\<close>: reading and writing of events (locale \<open>bbdo_channel\<close>); bounds of the buffers, resynchronisation.
  \<^item> \<open>Persistent_File\<close>: \<^verbatim>\<open>persistent_file.cc\<close>, a queue of events on disk (locale \<open>event_queue\<close>) that survives a restart.
    \<open>Persistent_Cache\<close>: \<^verbatim>\<open>persistent_cache.cc\<close>; a commit is atomic.
  \<^item> \<open>Muxer\<close>, \<open>Muxer_Queue\<close>, \<open>Muxer_Threads\<close>: \<^verbatim>\<open>multiplexing/src/muxer.cc\<close>; a muxer is a queue with a cursor (locale
    \<open>cursor_queue\<close>), and loses no event when publisher and reader interleave, but for one race. \<open>Mux_Engine\<close>:
    \<^verbatim>\<open>multiplexing/src/engine.cc\<close> and \<^verbatim>\<open>publisher.hh\<close>; every muxer gets every event once, in order.
  \<^item> \<open>Bam_Tokenizer\<close>, \<open>Bam_Parser\<close>, \<open>Bam_Builder\<close>, \<open>Bam_Bool\<close> with their properties: \<^verbatim>\<open>exp_tokenizer.cc\<close>, \<^verbatim>\<open>exp_parser.cc\<close>,
    \<^verbatim>\<open>exp_builder.cc\<close> and \<^verbatim>\<open>bool_*.cc\<close>; the tree of a rule is well formed and has the value of its text. \<open>Bam_Ba\<close>, \<open>Bam_Kpi\<close>:
    \<^verbatim>\<open>ba*.cc\<close> and \<^verbatim>\<open>kpi*.cc\<close>; the state of a business activity is that of the impacts of its KPIs (locales \<open>ba_aggregate\<close>,
    \<open>ba_undo\<close>, \<open>kpi_source\<close>), and its events have no gaps. \<open>Bam_Props\<close> states the properties.

  \<^bold>\<open>Theories of the engine.\<close>
  \<^item> \<open>Notifier\<close>, \<open>Notifier_Props\<close>: \<^verbatim>\<open>notifier.cc\<close>, \<^verbatim>\<open>notification.cc\<close>, \<^verbatim>\<open>escalation.cc\<close> and \<^verbatim>\<open>contact.cc\<close>; who is notified and when, the
    dependencies, the text of a notification in the retention file.
  \<^item> \<open>Event_Queue\<close>: the lists of \<^verbatim>\<open>events/loop.cc\<close>; insertion is a stable sort (locale \<open>timed_list\<close>).
  \<^item> \<open>Check_World\<close>: the members of \<^verbatim>\<open>checkable.hh\<close>, results, comments (\<^verbatim>\<open>comment.cc\<close>), downtimes and globals, as the record
    \<open>world\<close>. What is sent to the broker or run as a command is a list of effects. \<open>Check_Samples\<close>: sample objects.
  \<^item> \<open>Flapping\<close>: \<open>check_for_flapping\<close>, \<open>set_flap\<close>, \<open>clear_flap\<close> of \<^verbatim>\<open>service.cc\<close> and \<^verbatim>\<open>host.cc\<close>.
  \<^item> \<open>Check_Schedule\<close>: \<open>schedule_check\<close>, \<open>run_scheduled_check\<close>, \<open>run_async_check\<close>, viability, freshness, orphans,
    acknowledgements that expire. \<open>Check_Output\<close>: \<open>parse_check_output\<close> of \<^verbatim>\<open>utils.cc\<close>.
  \<^item> \<open>Downtimes\<close>, \<open>Downtimes_Props\<close>: \<^verbatim>\<open>downtimes/*.cc\<close>; the recursion of \<open>handle\<close> is a list of tasks.
  \<^item> \<open>Service_Check\<close>: \<open>service::handle_async_check_result\<close>. \<open>Host_Check\<close>: \<open>host::handle_async_check_result_3x\<close>,
    \<open>process_check_result_3x\<close>, \<open>handle_state\<close> and the synchronous checks of parents. \<open>Check_Reaper\<close>: the queues of
    \<^verbatim>\<open>checks/checker.cc\<close>.
  \<^item> \<open>Event_Loop\<close>: a round of \<open>_dispatching\<close>, \<open>handle_timed_event\<close> and \<open>adjust_check_scheduling\<close>. \<open>Engine_Commands\<close>: the commands of
    \<^verbatim>\<open>commands/commands.cc\<close> on hosts and services.
  \<^item> \<open>Engine_Invariants\<close>: what the elementary changes keep is kept by every handler (locale \<open>engine_invariant\<close>), by the
    loop (\<open>loop_invariant\<close>) and by every step of the engine (\<open>step_invariant\<close>). \<open>Engine_Props\<close>: \<open>engine_step\<close> and the
    interpretations for the list of checks, the depth of downtimes and the rings of flap detection.
  \<^item> \<open>Check_Props\<close>: the handler of a result implements the state machine \<open>ma_step\<close> of soft and hard states; a problem is confirmed
    after the configured attempts. \<open>Engine_Theorems\<close>: the invariants of reachable states, flap detection, the lists of
    events and results, the commands that reach the hosts behind a host, and where expiry and host checks fail.

  \<^bold>\<open>Bounds.\<close> The constants are those of the code: 21 states in a ring, 30 seconds for a call of \<open>reap\<close>, ten slots in a
  filter, 65535 bytes in a packet, \<open>10 ^ 8\<close> bytes in a compressed chunk. Times are integers; \<open>_last_check\<close> is cut to 32 bits. A call reads
  the clock once, in whole seconds; \<open>reap\<close> reads it after each result. Comments are searched up to the number of comments plus two,
  where a free identifier always is.

  \<^bold>\<open>Not modelled.\<close>
  \<^item> Network transports, TLS and gRPC, the SQL, RRD, Lua and time series outputs, the reading of configuration files: calls
    of third-party libraries with little logic of their own.
  \<^item> The computation of time periods (\<^verbatim>\<open>timeperiod.cc\<close>): calendars with time zones rest on the C library; the next
    valid time is a parameter of the checks and notifications.
  \<^item> Macros, the execution of commands, connectors and event handlers: their results are parameters, their start is an effect.
  \<^item> Retention files (but for the text of a notification), status files, statistics and logs.
  \<^item> The parsing of external commands, program-wide switches, changes of attributes and custom variables, the gRPC interface.
  \<^item> The correction of the timestamps of objects after a change of the clock (that of the lists is modelled), anomaly detection,
    the negotiation of extensions in a BBDO stream, the downtimes that a service gives to its anomaly detections.
  \<^item> The monitoring agent, the OpenTelemetry module, Gorgone and the Perl libraries, which are programs of their own.
\<close>

end
